(* ===== verification/Prelude.thy ===== *)
theory Prelude
  imports Complex_Main "HOL-Library.Word" "HOL-Library.AList" "HOL-Library.Sublist"
begin

unbundle bit_operations_syntax

text \<open>
  Shared vocabulary of the development: the result type that stands for JavaScript
  exceptions, the string and number primitives of the language the sources use (case
  folding, \<^verbatim>\<open>BigInt\<close>, \<^verbatim>\<open>parseInt\<close>, \<^verbatim>\<open>toString\<close>, the address regular expression), and the
  lemma collections the component theories draw on.

  Conventions. A function that may throw returns \<open>error + 'a\<close>, \<open>Inl\<close> being the thrown error.
  A string is a list of characters; every string the modelled code inspects is ASCII (hex,
  decimal digits, identifiers), so a JavaScript UTF-16 unit is one \<open>char\<close>. A \<^verbatim>\<open>bigint\<close> is an
  \<open>int\<close>; a \<^verbatim>\<open>number\<close> that holds a block number, a slot or a count is an \<open>int\<close> too (they stay
  below \<open>2^53\<close>), and a configuration \<^verbatim>\<open>number\<close>, which may also be \<^verbatim>\<open>NaN\<close> or infinite, is a
  \<open>jsnum\<close>.
\<close>

section \<open>Lemma collections\<close>

named_theorems result_simps \<open>evaluation of the result monad\<close>
named_theorems frame_rules \<open>which computations return, and what they leave alone\<close>
named_theorems guard_simps \<open>unfolding of the guard predicates of the components\<close>

section \<open>Results\<close>

text \<open>One constructor per thrown error of the modelled code; \<open>External\<close> is an exception that
  leaves a library or a remote call.\<close>

datatype error =
    External string
  | SlotOutOfRange
  | ChainIdMismatch
  | UnknownStep
  | MissingProposalId
  | MissingEvidenceHash
  | NodeDisarmed
  | InvalidAddress
  | BadBigInt
  | AbiEncodeFailed
  | SignersZero
  | SignersNotAscending
  | RegistryMissing
  | RegistryZeroOnChain
  | RegistryMismatch
  | DomainSeparatorMismatch
  | MaskHighBits
  | SlotHole
  | NotVerifyAndExecute
  | TxNotFound
  | ProposalIdMismatch
  | RecordUnverified
  | TokenNotBound
  | NoClaimedSigners
  | TooManySigners
  | CosignNotArmed
  | CosignVerifierUnwired
  | CosignDomainUnattested
  | CosignNoSlot
  | CosignNoPeers
  | CosignSelfRefused
  | CosignUnderThreshold
  | IoError
  | NodeNotInitialized
  | OwnerAuthRequired
  | PolicyRejected
  | ConfirmUndeliverable
  | BadPrivateKey
  | UnknownBackend
  | BadRequest
  | TooManyRequests
  | HttpStatus int
  | WrongPassphrase
  | MissingPassphrase
  | MissingKey

type_synonym 'a result = "error + 'a"

definition rbind :: "'a result \<Rightarrow> ('a \<Rightarrow> 'b result) \<Rightarrow> 'b result" where
  "rbind r f = (case r of Inl e \<Rightarrow> Inl e | Inr v \<Rightarrow> f v)"

definition guard_throw :: "bool \<Rightarrow> error \<Rightarrow> unit result" where
  "guard_throw bad e = (if bad then Inl e else Inr ())"

definition of_option :: "error \<Rightarrow> 'a option \<Rightarrow> 'a result" where
  "of_option e x = (case x of None \<Rightarrow> Inl e | Some v \<Rightarrow> Inr v)"

definition is_ok :: "'a result \<Rightarrow> bool" where
  "is_ok r = (case r of Inl _ \<Rightarrow> False | Inr _ \<Rightarrow> True)"

lemma rbind_simps [simp, result_simps]:
  "rbind (Inl e) f = Inl e"
  "rbind (Inr v) f = f v"
  by (simp_all add: rbind_def)

lemma guard_throw_simps [simp, result_simps]:
  "guard_throw True e = Inl e"
  "guard_throw False e = Inr ()"
  by (simp_all add: guard_throw_def)

lemma of_option_simps [simp, result_simps]:
  "of_option e None = Inl e"
  "of_option e (Some v) = Inr v"
  by (simp_all add: of_option_def)

lemma is_ok_simps [simp, result_simps]:
  "is_ok (Inl e) = False"
  "is_ok (Inr v) = True"
  by (simp_all add: is_ok_def)

lemma rbind_eq_Inr [simp]: "rbind r f = Inr w \<longleftrightarrow> (\<exists>v. r = Inr v \<and> f v = Inr w)"
  by (cases r) auto

lemma guard_throw_eq_Inr [simp]: "guard_throw bad e = Inr u \<longleftrightarrow> \<not> bad"
  by (cases bad) auto

lemma of_option_eq_Inr [simp]: "of_option e x = Inr v \<longleftrightarrow> x = Some v"
  by (cases x) auto

lemma is_ok_iff: "is_ok r \<longleftrightarrow> (\<exists>v. r = Inr v)"
  by (cases r) auto

lemma ok_projr: "is_ok r \<Longrightarrow> r = Inr (projr r)"
  by (cases r) auto

text \<open>\<open>for (const x of xs) out.push(f(x))\<close> where \<open>f\<close> may throw.\<close>

fun rmap :: "('a \<Rightarrow> 'b result) \<Rightarrow> 'a list \<Rightarrow> 'b list result" where
  "rmap f [] = Inr []"
| "rmap f (x # xs) = rbind (f x) (\<lambda>y. rbind (rmap f xs) (\<lambda>ys. Inr (y # ys)))"

lemma rmap_Inr_length: "rmap f xs = Inr ys \<Longrightarrow> length ys = length xs"
  by (induction xs arbitrary: ys) auto

lemma rmap_Inr_nth: "rmap f xs = Inr ys \<Longrightarrow> i < length xs \<Longrightarrow> f (xs ! i) = Inr (ys ! i)"
  by (induction xs arbitrary: ys i) (auto simp: nth_Cons split: nat.splits)

lemma rmap_Inr_set: "rmap f xs = Inr ys \<Longrightarrow> y \<in> set ys \<Longrightarrow> \<exists>x \<in> set xs. f x = Inr y"
  by (induction xs arbitrary: ys) auto

lemma rmap_cong_Inr: "(\<And>x. x \<in> set xs \<Longrightarrow> f x = Inr (g x)) \<Longrightarrow> rmap f xs = Inr (map g xs)"
  by (induction xs) auto

section \<open>Stateful computations that may throw\<close>

text \<open>An \<^verbatim>\<open>async\<close> method over a mutable object: it returns or throws, and the state it leaves
  behind is there in both cases.\<close>

type_synonym ('s, 'a) io = "'s \<Rightarrow> 'a result \<times> 's"

definition sret :: "'a \<Rightarrow> ('s, 'a) io" where
  "sret v = (\<lambda>s. (Inr v, s))"

definition sthrow :: "error \<Rightarrow> ('s, 'a) io" where
  "sthrow e = (\<lambda>s. (Inl e, s))"

definition sbind :: "('s, 'a) io \<Rightarrow> ('a \<Rightarrow> ('s, 'b) io) \<Rightarrow> ('s, 'b) io" where
  "sbind m f = (\<lambda>s. case m s of (Inl e, s') \<Rightarrow> (Inl e, s') | (Inr v, s') \<Rightarrow> f v s')"

definition scatch :: "('s, 'a) io \<Rightarrow> (error \<Rightarrow> ('s, 'a) io) \<Rightarrow> ('s, 'a) io" where
  "scatch m h = (\<lambda>s. case m s of (Inl e, s') \<Rightarrow> h e s' | (Inr v, s') \<Rightarrow> (Inr v, s'))"

definition slift :: "'a result \<Rightarrow> ('s, 'a) io" where
  "slift r = (\<lambda>s. (r, s))"

definition sgets :: "('s \<Rightarrow> 'a) \<Rightarrow> ('s, 'a) io" where
  "sgets f = (\<lambda>s. (Inr (f s), s))"

definition smodify :: "('s \<Rightarrow> 's) \<Rightarrow> ('s, unit) io" where
  "smodify f = (\<lambda>s. (Inr (), f s))"

lemma io_simps [simp, result_simps]:
  "sret v s = (Inr v, s)"
  "sthrow e s = (Inl e, s)"
  "slift r s = (r, s)"
  "sgets f s = (Inr (f s), s)"
  "smodify g s = (Inr (), g s)"
  by (simp_all add: sret_def sthrow_def slift_def sgets_def smodify_def)

text \<open>A Hoare triple for such a computation: from a state with \<open>P\<close>, a normal return ends in
  \<open>Q\<close> of the value and an exception in \<open>R\<close>.\<close>

definition io_triple :: "('s \<Rightarrow> bool) \<Rightarrow> ('s, 'a) io \<Rightarrow> ('a \<Rightarrow> 's \<Rightarrow> bool) \<Rightarrow> ('s \<Rightarrow> bool) \<Rightarrow> bool" where
  "io_triple P m Q R \<longleftrightarrow>
     (\<forall>s. P s \<longrightarrow> (case m s of (Inl e, s') \<Rightarrow> R s' | (Inr v, s') \<Rightarrow> Q v s'))"

lemma io_tripleI:
  "(\<And>s v s'. P s \<Longrightarrow> m s = (Inr v, s') \<Longrightarrow> Q v s') \<Longrightarrow>
   (\<And>s e s'. P s \<Longrightarrow> m s = (Inl e, s') \<Longrightarrow> R s') \<Longrightarrow> io_triple P m Q R"
  by (auto simp: io_triple_def split: sum.splits prod.splits)

lemma io_tripleD:
  assumes "io_triple P m Q R" "P s"
  shows "m s = (Inr v, s') \<Longrightarrow> Q v s'" "m s = (Inl e, s') \<Longrightarrow> R s'"
  using assms by (auto simp: io_triple_def)

lemma io_sret: "(\<And>s. P s \<Longrightarrow> Q v s) \<Longrightarrow> io_triple P (sret v) Q R"
  by (simp add: io_triple_def)

lemma io_sthrow: "(\<And>s. P s \<Longrightarrow> R s) \<Longrightarrow> io_triple P (sthrow e) Q R"
  by (simp add: io_triple_def)

lemma io_slift: "(\<And>s v. P s \<Longrightarrow> r = Inr v \<Longrightarrow> Q v s) \<Longrightarrow> (\<And>s. P s \<Longrightarrow> R s) \<Longrightarrow> io_triple P (slift r) Q R"
  by (auto simp: io_triple_def split: sum.splits)

lemma io_sbind:
  assumes "io_triple P m Q R" "\<And>v. io_triple (Q v) (f v) Q' R"
  shows "io_triple P (sbind m f) Q' R"
  using assms
  by (fastforce simp: io_triple_def sbind_def split: sum.splits prod.splits)

lemma io_scatch:
  assumes "io_triple P m Q R'" "\<And>e. io_triple R' (h e) Q R"
  shows "io_triple P (scatch m h) Q R"
  using assms
  by (fastforce simp: io_triple_def scatch_def split: sum.splits prod.splits)

lemma io_conseq:
  assumes "io_triple P' m Q' R'" "\<And>s. P s \<Longrightarrow> P' s" "\<And>v s. Q' v s \<Longrightarrow> Q v s" "\<And>s. R' s \<Longrightarrow> R s"
  shows "io_triple P m Q R"
  using assms by (fastforce simp: io_triple_def split: sum.splits prod.splits)

lemma io_pre: "io_triple P' m Q R \<Longrightarrow> (\<And>s. P s \<Longrightarrow> P' s) \<Longrightarrow> io_triple P m Q R"
  by (simp add: io_triple_def)

lemma io_ex:
  assumes "\<And>x. io_triple (P x) m Q R"
  shows "io_triple (\<lambda>s. \<exists>x. P x s) m Q R"
  by (rule io_tripleI; elim exE; drule (1) io_tripleD [OF assms])

lemma sbind_slift_Inr: "sbind (slift (Inr v)) f = f v"
  by (simp add: fun_eq_iff sbind_def)

lemma io_sbind_slift:
  "(\<And>v. r = Inr v \<Longrightarrow> io_triple P (f v) Q R) \<Longrightarrow> (\<And>s. P s \<Longrightarrow> R s) \<Longrightarrow> io_triple P (sbind (slift r) f) Q R"
  by (cases r) (auto simp: io_triple_def sbind_def)

lemma io_post_state:
  assumes "io_triple P m Q R" "P s" "\<And>v t. Q v t \<Longrightarrow> I t" "\<And>t. R t \<Longrightarrow> I t"
  shows "I (snd (m s))"
proof (cases "m s")
  case (Pair r t)
  then show ?thesis
    using io_tripleD [OF assms(1,2)] assms(3,4) by (cases r) auto
qed

text \<open>Frame rules: a computation that never throws, and a predicate of the state it keeps in every outcome.\<close>

definition total_io :: "('s, 'a) io \<Rightarrow> bool" where
  "total_io m \<longleftrightarrow> (\<forall>s. \<exists>v. fst (m s) = Inr v)"

definition stable :: "('s \<Rightarrow> bool) \<Rightarrow> ('s, 'a) io \<Rightarrow> bool" where
  "stable P m \<longleftrightarrow> (\<forall>s. P s \<longrightarrow> P (snd (m s)))"

lemma total_io_rules [frame_rules]:
  "total_io (sret v)" "total_io (sgets f)" "total_io (smodify g)"
  by (simp_all add: total_io_def)

lemma total_io_sbind [frame_rules]: "total_io m \<Longrightarrow> (\<And>v. total_io (f v)) \<Longrightarrow> total_io (sbind m f)"
  by (auto simp: total_io_def sbind_def split: prod.splits sum.splits) (metis Inl_Inr_False fst_conv)+

lemma total_io_scatch [frame_rules]: "(\<And>e. total_io (h e)) \<Longrightarrow> total_io (scatch m h)"
  by (auto simp: total_io_def scatch_def split: prod.splits sum.splits)

lemma total_io_if [frame_rules]: "total_io m \<Longrightarrow> total_io m' \<Longrightarrow> total_io (if b then m else m')"
  by simp

lemma stable_rules [frame_rules]:
  "stable P (sret v)" "stable P (sgets f)" "stable P (slift r)" "stable P (sthrow e)"
  by (simp_all add: stable_def)

lemma stable_smodify [frame_rules]: "(\<And>s. P s \<Longrightarrow> P (g s)) \<Longrightarrow> stable P (smodify g)"
  by (simp add: stable_def)

lemma stable_sbind [frame_rules]: "stable P m \<Longrightarrow> (\<And>v. stable P (f v)) \<Longrightarrow> stable P (sbind m f)"
  by (force simp: stable_def sbind_def split: prod.splits sum.splits)

lemma stable_scatch [frame_rules]: "stable P m \<Longrightarrow> (\<And>e. stable P (h e)) \<Longrightarrow> stable P (scatch m h)"
  by (force simp: stable_def scatch_def split: prod.splits sum.splits)

lemma case_sum_frame [frame_rules]:
  "(\<And>e. total_io (f e)) \<Longrightarrow> (\<And>v. total_io (g v)) \<Longrightarrow> total_io (case r of Inl e \<Rightarrow> f e | Inr v \<Rightarrow> g v)"
  "(\<And>e. stable P (f' e)) \<Longrightarrow> (\<And>v. stable P (g' v)) \<Longrightarrow> stable P (case r' of Inl e \<Rightarrow> f' e | Inr v \<Rightarrow> g' v)"
  by (auto split: sum.split)

lemma stable_if [frame_rules]: "stable P m \<Longrightarrow> stable P m' \<Longrightarrow> stable P (if b then m else m')"
  by simp

lemma stableD: "stable P m \<Longrightarrow> P s \<Longrightarrow> m s = (r, s') \<Longrightarrow> P s'"
  unfolding stable_def by (metis snd_conv)

lemma frame_option_case [frame_rules]:
  "total_io m \<Longrightarrow> (\<And>v. total_io (g v)) \<Longrightarrow> total_io (case x of None \<Rightarrow> m | Some v \<Rightarrow> g v)"
  "stable P m' \<Longrightarrow> (\<And>v. stable P (g' v)) \<Longrightarrow> stable P (case x' of None \<Rightarrow> m' | Some v \<Rightarrow> g' v)"
  by (auto split: option.split)

lemma frame_prod_case [frame_rules]:
  "(\<And>a b. total_io (f a b)) \<Longrightarrow> total_io (case p of (a, b) \<Rightarrow> f a b)"
  "(\<And>a b. stable P (f' a b)) \<Longrightarrow> stable P (case p' of (a, b) \<Rightarrow> f' a b)"
  by (auto split: prod.split)

lemma total_ioD: "total_io m \<Longrightarrow> \<exists>v s'. m s = (Inr v, s')"
  unfolding total_io_def by (metis prod.collapse)

lemma io_if:
  "(b \<Longrightarrow> io_triple P m Q R) \<Longrightarrow> (\<not> b \<Longrightarrow> io_triple P m' Q R) \<Longrightarrow> io_triple P (if b then m else m') Q R"
  by simp

lemma triple_stable: "stable P m \<Longrightarrow> io_triple P m (\<lambda>_. P) P"
  by (force simp: io_triple_def stable_def split: prod.splits sum.splits)

section \<open>Association lists\<close>

lemma map_of_filter_key: "map_of (filter (\<lambda>(k, _). P k) al) k = (if P k then map_of al k else None)"
  by (induction al) auto

lemma length_alist_update: "length (AList.update k v al) = (if k \<in> fst ` set al then length al else Suc (length al))"
  by (induction al) auto

lemma in_alist_update: "x \<in> set (AList.update k v al) \<Longrightarrow> x = (k, v) \<or> x \<in> set al"
  by (induction al) (auto split: if_splits)

end
