(* ===== verification/Js_Prims.thy ===== *)
theory Js_Prims
  imports Prelude
begin

text \<open>
  The primitives of the JavaScript language and its standard library that the modelled code
  calls: \<^verbatim>\<open>String.prototype.toLowerCase\<close>, \<^verbatim>\<open>trim\<close>, \<^verbatim>\<open>BigInt(s)\<close>, \<^verbatim>\<open>n.toString()\<close>,
  \<^verbatim>\<open>parseInt(s, 10)\<close>, the regular expression \<^verbatim>\<open>/^0x[0-9a-fA-F]{40}$/\<close> and the
  \<^verbatim>\<open>number\<close> comparisons with \<^verbatim>\<open>NaN\<close>. The main facts are the print/parse round trips the
  file-backed stores rely on.
\<close>

section \<open>Characters\<close>

definition lower_char :: "char \<Rightarrow> char" where
  "lower_char c = (let n = of_char c :: nat in if 65 \<le> n \<and> n \<le> 90 then char_of (n + 32) else c)"

definition lower :: "string \<Rightarrow> string" where
  "lower s = map lower_char s"

definition digit_val :: "char \<Rightarrow> nat option" where
  "digit_val c = (let n = of_char c :: nat in if 48 \<le> n \<and> n \<le> 57 then Some (n - 48) else None)"

definition hex_val :: "char \<Rightarrow> nat option" where
  "hex_val c = (let n = of_char c :: nat in
     if 48 \<le> n \<and> n \<le> 57 then Some (n - 48)
     else if 97 \<le> n \<and> n \<le> 102 then Some (n - 87)
     else if 65 \<le> n \<and> n \<le> 70 then Some (n - 55)
     else None)"

definition digit_below :: "nat \<Rightarrow> char \<Rightarrow> nat option" where
  "digit_below b c = (case hex_val c of None \<Rightarrow> None | Some d \<Rightarrow> if d < b then Some d else None)"

definition digit_char :: "nat \<Rightarrow> char" where
  "digit_char d = char_of (48 + d)"

definition is_ws :: "char \<Rightarrow> bool" where
  "is_ws c = ((of_char c :: nat) \<in> {9, 10, 11, 12, 13, 32, 160})"

definition trim :: "string \<Rightarrow> string" where
  "trim s = rev (dropWhile is_ws (rev (dropWhile is_ws s)))"

lemma of_char_digit_char: "d < 10 \<Longrightarrow> (of_char (digit_char d) :: nat) = 48 + d"
  by (simp add: digit_char_def)

lemma digit_val_digit_char [simp]: "d < 10 \<Longrightarrow> digit_val (digit_char d) = Some d"
  by (simp add: digit_val_def of_char_digit_char Let_def)

lemma digit_val_less: "digit_val c = Some d \<Longrightarrow> d < 10"
  by (auto simp: digit_val_def Let_def split: if_splits)

lemma digit_not_ws: "digit_val c = Some d \<Longrightarrow> \<not> is_ws c"
  by (auto simp: digit_val_def is_ws_def Let_def split: if_splits)

lemma lower_char_idem [simp]: "lower_char (lower_char c) = lower_char c"
  by (auto simp: lower_char_def Let_def)

lemma lower_idem [simp]: "lower (lower s) = lower s"
  by (simp add: lower_def)

lemma lower_digit: "digit_val c = Some d \<Longrightarrow> lower_char c = c"
  by (auto simp: digit_val_def lower_char_def Let_def split: if_splits)

section \<open>Decimal printing\<close>

fun dec_digits :: "nat \<Rightarrow> string" where
  "dec_digits n = (if n < 10 then [digit_char n] else dec_digits (n div 10) @ [digit_char (n mod 10)])"

declare dec_digits.simps [simp del]

text \<open>\<^verbatim>\<open>n.toString()\<close> and \<^verbatim>\<open>String(n)\<close> on an integer.\<close>

definition int_to_string :: "int \<Rightarrow> string" where
  "int_to_string n = (if n < 0 then CHR ''-'' # dec_digits (nat (- n)) else dec_digits (nat n))"

lemma dec_digits_nonempty [simp]: "dec_digits n \<noteq> []"
  by (subst dec_digits.simps) simp

lemma dec_digits_digit: "c \<in> set (dec_digits n) \<Longrightarrow> \<exists>d<10. c = digit_char d"
proof (induction n rule: dec_digits.induct)
  case (1 n)
  then consider "n < 10" "c = digit_char n"
    | "\<not> n < 10" "c \<in> set (dec_digits (n div 10))" | "c = digit_char (n mod 10)"
    by (auto simp: dec_digits.simps [of n] split: if_splits)
  then show ?case
  proof cases
    case 3
    then show ?thesis by (intro exI [of _ "n mod 10"]) simp
  qed (use 1 in auto)
qed

lemma dec_digits_digit_val: "c \<in> set (dec_digits n) \<Longrightarrow> digit_val c \<noteq> None"
  using dec_digits_digit by force

section \<open>Parsing\<close>

fun parse_acc :: "(char \<Rightarrow> nat option) \<Rightarrow> nat \<Rightarrow> nat \<Rightarrow> string \<Rightarrow> nat option" where
  "parse_acc dv b acc [] = Some acc"
| "parse_acc dv b acc (c # cs) =
     (case dv c of None \<Rightarrow> None | Some d \<Rightarrow> parse_acc dv b (acc * b + d) cs)"

definition parse_nat :: "(char \<Rightarrow> nat option) \<Rightarrow> nat \<Rightarrow> string \<Rightarrow> nat option" where
  "parse_nat dv b s = (if s = [] then None else parse_acc dv b 0 s)"

lemma parse_acc_append:
  "parse_acc dv b acc (xs @ ys) =
     (case parse_acc dv b acc xs of None \<Rightarrow> None | Some a \<Rightarrow> parse_acc dv b a ys)"
  by (induction xs arbitrary: acc) (auto split: option.splits)

lemma parse_acc_dec_digits: "parse_acc digit_val 10 0 (dec_digits n) = Some n"
proof (induction n rule: dec_digits.induct)
  case (1 n)
  show ?case
  proof (cases "n < 10")
    case True
    then show ?thesis by (simp add: dec_digits.simps [of n])
  next
    case False
    with 1 show ?thesis
      by (simp add: dec_digits.simps [of n] parse_acc_append mult.commute)
  qed
qed

lemma parse_nat_dec_digits [simp]: "parse_nat digit_val 10 (dec_digits n) = Some n"
  by (simp add: parse_nat_def parse_acc_dec_digits)

text \<open>\<^verbatim>\<open>BigInt(s)\<close> on a string: surrounding white space is dropped, the empty string is \<open>0\<close>,
  a radix prefix admits no sign, and anything else must be an optionally signed decimal.\<close>

definition js_BigInt :: "string \<Rightarrow> int result" where
  "js_BigInt s0 = (let s = trim s0; num = (\<lambda>x. of_option BadBigInt (map_option int x)) in
     if s = [] then Inr 0
     else if take 2 s = ''0x'' \<or> take 2 s = ''0X'' then num (parse_nat hex_val 16 (drop 2 s))
     else if take 2 s = ''0o'' \<or> take 2 s = ''0O'' then num (parse_nat (digit_below 8) 8 (drop 2 s))
     else if take 2 s = ''0b'' \<or> take 2 s = ''0B'' then num (parse_nat (digit_below 2) 2 (drop 2 s))
     else if hd s = CHR ''-'' then rbind (num (parse_nat digit_val 10 (tl s))) (\<lambda>n. Inr (- n))
     else if hd s = CHR ''+'' then num (parse_nat digit_val 10 (tl s))
     else num (parse_nat digit_val 10 s))"

text \<open>\<^verbatim>\<open>parseInt(s, 10)\<close>: leading white space and a sign are skipped and the longest digit
  prefix is read; \<open>None\<close> is \<^verbatim>\<open>NaN\<close>.\<close>

definition js_parseInt :: "string \<Rightarrow> int option" where
  "js_parseInt s0 = (let s = dropWhile is_ws s0;
       neg = (s \<noteq> [] \<and> hd s = CHR ''-'');
       body = (if s \<noteq> [] \<and> (hd s = CHR ''-'' \<or> hd s = CHR ''+'') then tl s else s);
       ds = takeWhile (\<lambda>c. digit_val c \<noteq> None) body
     in map_option (\<lambda>n. if neg then - int n else int n) (parse_nat digit_val 10 ds))"

lemma trim_no_ws: "(\<And>c. c \<in> set s \<Longrightarrow> \<not> is_ws c) \<Longrightarrow> trim s = s"
proof -
  assume a: "\<And>c. c \<in> set s \<Longrightarrow> \<not> is_ws c"
  then have "dropWhile is_ws s = s" by (cases s) auto
  moreover have "dropWhile is_ws (rev s) = rev s"
    using a by (cases s rule: rev_cases) auto
  ultimately show ?thesis by (simp add: trim_def)
qed

lemma digit_val_consts [simp]:
  "digit_val CHR ''-'' = None" "digit_val CHR ''+'' = None"
  "digit_val CHR ''x'' = None" "digit_val CHR ''X'' = None"
  "digit_val CHR ''o'' = None" "digit_val CHR ''O'' = None"
  "digit_val CHR ''b'' = None" "digit_val CHR ''B'' = None"
  by (simp_all add: digit_val_def)

lemma dec_digits_no_prefix:
  assumes "digit_val c = None"
  shows "take 2 (dec_digits n) \<noteq> [CHR ''0'', c]" and "hd (dec_digits n) \<noteq> c"
proof -
  show "take 2 (dec_digits n) \<noteq> [CHR ''0'', c]"
  proof
    assume "take 2 (dec_digits n) = [CHR ''0'', c]"
    then have "c \<in> set (take 2 (dec_digits n))" by simp
    then have "c \<in> set (dec_digits n)" by (rule in_set_takeD)
    with assms show False using dec_digits_digit_val by blast
  qed
  show "hd (dec_digits n) \<noteq> c"
    using assms dec_digits_digit_val [of "hd (dec_digits n)" n] by auto
qed

lemma trim_dec_digits [simp]: "trim (dec_digits n) = dec_digits n"
  using dec_digits_digit_val digit_not_ws by (intro trim_no_ws) blast

lemma trim_minus_dec_digits [simp]: "trim (CHR ''-'' # dec_digits n) = CHR ''-'' # dec_digits n"
  using dec_digits_digit_val digit_not_ws by (intro trim_no_ws) (auto simp: is_ws_def)

lemma BigInt_toString [simp]: "js_BigInt (int_to_string n) = Inr n"
proof (cases "n < 0")
  case True
  then show ?thesis by (simp add: int_to_string_def js_BigInt_def Let_def)
next
  case False
  then show ?thesis
    by (simp add: int_to_string_def js_BigInt_def Let_def dec_digits_no_prefix)
qed

lemma int_to_string_inj: "int_to_string a = int_to_string b \<Longrightarrow> a = b"
  by (metis BigInt_toString Inr_inject)

lemma parseInt_toString:
  assumes "0 \<le> n" shows "js_parseInt (int_to_string n) = Some n"
proof -
  have ws: "dropWhile is_ws (dec_digits (nat n)) = dec_digits (nat n)"
    using dec_digits_digit_val digit_not_ws
    by (simp add: dropWhile_eq_self_iff) (metis dec_digits_nonempty hd_in_set not_None_eq)
  have tw: "takeWhile (\<lambda>c. digit_val c \<noteq> None) (dec_digits (nat n)) = dec_digits (nat n)"
    using dec_digits_digit_val by (simp add: takeWhile_eq_all_conv)
  show ?thesis
    using assms
    by (simp add: int_to_string_def js_parseInt_def Let_def ws tw dec_digits_no_prefix del: not_None_eq)
qed

lemma int_to_string_trim [simp]: "trim (int_to_string n) = int_to_string n"
  by (simp add: int_to_string_def)

lemma lower_dec_digits [simp]: "lower (dec_digits n) = dec_digits n"
  unfolding lower_def
  using dec_digits_digit_val lower_digit by (intro map_idI) blast

section \<open>Hexadecimal strings\<close>

text \<open>\<^verbatim>\<open>/^0x[0-9a-fA-F]{40}$/.test(s)\<close>\<close>

definition is_address_format :: "string \<Rightarrow> bool" where
  "is_address_format s = (take 2 s = ''0x'' \<and> length s = 42 \<and> list_all (\<lambda>c. hex_val c \<noteq> None) (drop 2 s))"

definition strip0x :: "string \<Rightarrow> string" where
  "strip0x s = (if take 2 s = ''0x'' then drop 2 s else s)"

definition ZeroAddress :: string where
  "ZeroAddress = ''0x'' @ replicate 40 (CHR ''0'')"

definition ZeroHash :: string where
  "ZeroHash = ''0x'' @ replicate 64 (CHR ''0'')"

section \<open>Numbers\<close>

datatype jsnum = JNaN | JNegInf | JFin rat | JPosInf

fun js_less :: "jsnum \<Rightarrow> jsnum \<Rightarrow> bool" where
  "js_less JNaN _ = False"
| "js_less _ JNaN = False"
| "js_less JNegInf y = (y \<noteq> JNegInf)"
| "js_less (JFin a) (JFin b) = (a < b)"
| "js_less (JFin a) JNegInf = False"
| "js_less (JFin a) JPosInf = True"
| "js_less JPosInf _ = False"

fun js_isFinite :: "jsnum \<Rightarrow> bool" where
  "js_isFinite (JFin _) = True"
| "js_isFinite _ = False"

fun js_isInteger :: "jsnum \<Rightarrow> bool" where
  "js_isInteger (JFin q) = (of_int \<lfloor>q\<rfloor> = q)"
| "js_isInteger _ = False"

definition js_of_int :: "int \<Rightarrow> jsnum" where
  "js_of_int n = JFin (of_int n)"

fun js_to_int :: "jsnum \<Rightarrow> int" where
  "js_to_int (JFin q) = \<lfloor>q\<rfloor>"
| "js_to_int _ = 0"

lemma js_of_int_simps [simp]:
  "js_isFinite (js_of_int n)" "js_isInteger (js_of_int n)" "js_to_int (js_of_int n) = n"
  "js_less (js_of_int a) (js_of_int b) \<longleftrightarrow> a < b" "js_of_int a = js_of_int b \<longleftrightarrow> a = b"
  by (simp_all add: js_of_int_def)

lemma js_isInteger_iff: "js_isInteger x \<longleftrightarrow> x = js_of_int (js_to_int x)"
  by (cases x) (auto simp: js_of_int_def)

text \<open>\<^verbatim>\<open>Number.isInteger(x) && lo <= x && x <= hi\<close>, the range guard of the slot checks.\<close>

definition js_int_in :: "int \<Rightarrow> int \<Rightarrow> jsnum \<Rightarrow> bool" where
  "js_int_in lo hi x = (js_isInteger x \<and> \<not> js_less x (js_of_int lo) \<and> \<not> js_less (js_of_int hi) x)"

lemma js_int_in_iff: "js_int_in lo hi x \<longleftrightarrow> (\<exists>n. x = js_of_int n \<and> lo \<le> n \<and> n \<le> hi)"
  unfolding js_int_in_def js_isInteger_iff by (metis js_of_int_simps(3,4) not_le)

end
