(* ===== verification/Ethers.thy ===== *)
theory Ethers
  imports Js_Prims "HOL-Library.Countable"
begin

text \<open>
  The third-party package \<^verbatim>\<open>ethers\<close> as a parameter. The record \<open>ethers\<close> holds the four pure
  functions the consensus code calls; a definition that uses them takes the record as its first
  argument. \<open>ethers_ok\<close> states the documented behaviour the properties rely on: \<^verbatim>\<open>getAddress\<close>
  returns a checksummed 20-byte address that its numeric value determines, ABI encoding of one
  type tuple is injective up to the spelling of addresses and hex strings, an encoding starts
  with its two leading static words, and \<^verbatim>\<open>keccak256\<close> is collision free (the usual symbolic
  idealisation) with a lower-case result. \<open>sample_ethers\<close> satisfies all of it, so the hypotheses
  of the properties can hold.
\<close>

datatype abi_value =
    AbiBytes32 string
  | AbiUint256 int
  | AbiUint8 int
  | AbiAddress string
  | AbiAddressArray "string list"
  | AbiUint256Array "int list"
  | AbiString string
  | AbiBytes string

instance abi_value :: countable
  by countable_datatype

datatype abi_type = TBytes32 | TUint256 | TUint8 | TAddress | TAddressArray | TUint256Array | TString | TBytes

fun abi_type_of :: "abi_value \<Rightarrow> abi_type" where
  "abi_type_of (AbiBytes32 _) = TBytes32"
| "abi_type_of (AbiUint256 _) = TUint256"
| "abi_type_of (AbiUint8 _) = TUint8"
| "abi_type_of (AbiAddress _) = TAddress"
| "abi_type_of (AbiAddressArray _) = TAddressArray"
| "abi_type_of (AbiUint256Array _) = TUint256Array"
| "abi_type_of (AbiString _) = TString"
| "abi_type_of (AbiBytes _) = TBytes"

record 'b ethers =
  getAddress :: "string \<Rightarrow> string option"
  abi_encode :: "abi_value list \<Rightarrow> 'b option"
  keccak256 :: "'b \<Rightarrow> string"
  ethers_id :: "string \<Rightarrow> string"

text \<open>The canonical spelling of an address argument of the ABI coder.\<close>

definition canon :: "'b ethers \<Rightarrow> string \<Rightarrow> string" where
  "canon E a = (case getAddress E a of None \<Rightarrow> a | Some c \<Rightarrow> c)"

fun abi_norm :: "'b ethers \<Rightarrow> abi_value \<Rightarrow> abi_value" where
  "abi_norm E (AbiBytes32 h) = AbiBytes32 (lower h)"
| "abi_norm E (AbiAddress a) = AbiAddress (canon E a)"
| "abi_norm E (AbiAddressArray as) = AbiAddressArray (map (canon E) as)"
| "abi_norm E (AbiBytes h) = AbiBytes (lower h)"
| "abi_norm E v = v"

definition is_hex_string :: "string \<Rightarrow> bool" where
  "is_hex_string s = (take 2 s = ''0x'' \<and> drop 2 s \<noteq> [] \<and> list_all (\<lambda>c. hex_val c \<noteq> None) (drop 2 s))"

definition getAddress_ok :: "'b ethers \<Rightarrow> bool" where
  "getAddress_ok E \<longleftrightarrow>
     (\<forall>s a. getAddress E s = Some a \<longrightarrow> is_address_format a \<and> getAddress E a = Some a) \<and>
     (\<forall>a b. getAddress E a = Some a \<longrightarrow> getAddress E b = Some b \<longrightarrow> js_BigInt a = js_BigInt b \<longrightarrow> a = b)"

definition abi_encode_ok :: "'b ethers \<Rightarrow> bool" where
  "abi_encode_ok E \<longleftrightarrow>
     (\<forall>vs ws x. abi_encode E vs = Some x \<longrightarrow> abi_encode E ws = Some x \<longrightarrow>
        map abi_type_of vs = map abi_type_of ws \<longrightarrow> map (abi_norm E) vs = map (abi_norm E) ws) \<and>
     (\<forall>a b c d vs ws x. abi_encode E (AbiBytes32 a # AbiBytes32 b # vs) = Some x \<longrightarrow>
        abi_encode E (AbiBytes32 c # AbiBytes32 d # ws) = Some x \<longrightarrow> lower a = lower c \<and> lower b = lower d)"

definition hash_ok :: "'b ethers \<Rightarrow> bool" where
  "hash_ok E \<longleftrightarrow>
     (\<forall>x y. keccak256 E x = keccak256 E y \<longrightarrow> x = y) \<and> (\<forall>x. lower (keccak256 E x) = keccak256 E x) \<and>
     (\<forall>x. is_hex_string (keccak256 E x)) \<and>
     (\<forall>s t. ethers_id E s = ethers_id E t \<longrightarrow> s = t) \<and> (\<forall>s. lower (ethers_id E s) = ethers_id E s)"

definition ethers_ok :: "'b ethers \<Rightarrow> bool" where
  "ethers_ok E \<longleftrightarrow> getAddress_ok E \<and> abi_encode_ok E \<and> hash_ok E"

lemma ethers_getAddress:
  assumes "ethers_ok E" "getAddress E s = Some a"
  shows "is_address_format a" "getAddress E a = Some a"
  using assms unfolding ethers_ok_def getAddress_ok_def by auto

lemma ethers_getAddress_value:
  assumes "ethers_ok E" "getAddress E s = Some a" "getAddress E t = Some b" "js_BigInt a = js_BigInt b"
  shows "a = b"
proof -
  have "getAddress E a = Some a" by (rule ethers_getAddress(2) [OF assms(1,2)])
  moreover have "getAddress E b = Some b" by (rule ethers_getAddress(2) [OF assms(1,3)])
  ultimately show ?thesis
    using assms(1,4) unfolding ethers_ok_def getAddress_ok_def by simp
qed

lemma ethers_abi_inj:
  assumes "ethers_ok E" "abi_encode E vs = Some x" "abi_encode E ws = Some x"
    "map abi_type_of vs = map abi_type_of ws"
  shows "map (abi_norm E) vs = map (abi_norm E) ws"
proof -
  have "\<forall>vs ws x. abi_encode E vs = Some x \<longrightarrow> abi_encode E ws = Some x \<longrightarrow>
        map abi_type_of vs = map abi_type_of ws \<longrightarrow> map (abi_norm E) vs = map (abi_norm E) ws"
    using assms(1) unfolding ethers_ok_def abi_encode_ok_def by (elim conjE)
  with assms(2-4) show ?thesis by (elim allE impE)
qed

lemma ethers_abi_head:
  assumes "ethers_ok E" "abi_encode E (AbiBytes32 a # AbiBytes32 b # vs) = Some x"
    "abi_encode E (AbiBytes32 c # AbiBytes32 d # ws) = Some x"
  shows "lower a = lower c" "lower b = lower d"
proof -
  have "\<forall>a b c d vs ws x. abi_encode E (AbiBytes32 a # AbiBytes32 b # vs) = Some x \<longrightarrow>
        abi_encode E (AbiBytes32 c # AbiBytes32 d # ws) = Some x \<longrightarrow> lower a = lower c \<and> lower b = lower d"
    using assms(1) unfolding ethers_ok_def abi_encode_ok_def by (elim conjE)
  with assms(2-3) have "lower a = lower c \<and> lower b = lower d" by (elim allE impE)
  then show "lower a = lower c" "lower b = lower d" by simp_all
qed

lemma ethers_keccak_inj: "ethers_ok E \<Longrightarrow> keccak256 E x = keccak256 E y \<longleftrightarrow> x = y"
  unfolding ethers_ok_def hash_ok_def by auto

lemma ethers_lower [simp]:
  "ethers_ok E \<Longrightarrow> lower (keccak256 E x) = keccak256 E x"
  "ethers_ok E \<Longrightarrow> lower (ethers_id E s) = ethers_id E s"
  unfolding ethers_ok_def hash_ok_def by auto

lemma ethers_keccak_hex: "ethers_ok E \<Longrightarrow> is_hex_string (keccak256 E x)"
  unfolding ethers_ok_def hash_ok_def by auto

lemma ethers_id_inj: "ethers_ok E \<Longrightarrow> ethers_id E s = ethers_id E t \<longleftrightarrow> s = t"
  unfolding ethers_ok_def hash_ok_def by auto

text \<open>\<^verbatim>\<open>keccak256(ABI.encode(types, values))\<close>; the coder throws on a malformed value.\<close>

definition keccak_encode :: "'b ethers \<Rightarrow> abi_value list \<Rightarrow> string result" where
  "keccak_encode E vs = rbind (of_option AbiEncodeFailed (abi_encode E vs)) (\<lambda>b. Inr (keccak256 E b))"

lemma keccak_encode_inj:
  assumes "ethers_ok E" "keccak_encode E vs = Inr h" "keccak_encode E ws = Inr h"
    "map abi_type_of vs = map abi_type_of ws"
  shows "map (abi_norm E) vs = map (abi_norm E) ws"
proof -
  from assms(2,3) obtain x where "abi_encode E vs = Some x" "abi_encode E ws = Some x"
    using assms(1) by (auto simp: keccak_encode_def ethers_keccak_inj)
  with assms(1) show ?thesis using assms(4) by (rule ethers_abi_inj)
qed

lemma keccak_encode_head:
  assumes "ethers_ok E" "keccak_encode E (AbiBytes32 a # AbiBytes32 b # vs) = Inr h"
    "keccak_encode E (AbiBytes32 c # AbiBytes32 d # ws) = Inr h"
  shows "lower a = lower c" "lower b = lower d"
proof -
  from assms(2,3) obtain x where x: "abi_encode E (AbiBytes32 a # AbiBytes32 b # vs) = Some x"
      "abi_encode E (AbiBytes32 c # AbiBytes32 d # ws) = Some x"
    using assms(1) by (auto simp: keccak_encode_def ethers_keccak_inj)
  show "lower a = lower c" "lower b = lower d"
    using ethers_abi_head [OF assms(1) x] by simp_all
qed

lemma keccak_encode_lower:
  "ethers_ok E \<Longrightarrow> keccak_encode E vs = Inr h \<Longrightarrow> lower h = h"
  by (auto simp: keccak_encode_def)

section \<open>A sample instance\<close>

definition sample_getAddress :: "string \<Rightarrow> string option" where
  "sample_getAddress s = (if is_address_format s then Some (lower s) else None)"

definition sample_hash :: "'a::countable \<Rightarrow> string" where
  "sample_hash x = CHR ''0'' # CHR ''x'' # dec_digits (to_nat x)"

definition sample_canon :: "string \<Rightarrow> string" where
  "sample_canon a = (case sample_getAddress a of None \<Rightarrow> a | Some c \<Rightarrow> c)"

fun sample_norm :: "abi_value \<Rightarrow> abi_value" where
  "sample_norm (AbiBytes32 h) = AbiBytes32 (lower h)"
| "sample_norm (AbiAddress a) = AbiAddress (sample_canon a)"
| "sample_norm (AbiAddressArray as) = AbiAddressArray (map sample_canon as)"
| "sample_norm (AbiBytes h) = AbiBytes (lower h)"
| "sample_norm v = v"

definition sample_ethers :: "abi_value list ethers" where
  "sample_ethers = \<lparr>getAddress = sample_getAddress,
     abi_encode = (\<lambda>vs. Some (map sample_norm vs)),
     keccak256 = sample_hash, ethers_id = sample_hash\<rparr>"

lemma sample_ethers_simps [simp]:
  "getAddress sample_ethers = sample_getAddress"
  "abi_encode sample_ethers vs = Some (map sample_norm vs)"
  "keccak256 sample_ethers = sample_hash"
  "ethers_id sample_ethers = sample_hash"
  by (simp_all add: sample_ethers_def)

lemma sample_canon [simp]: "canon sample_ethers = sample_canon"
  by (rule ext) (simp add: canon_def sample_canon_def)

lemma sample_norm [simp]: "abi_norm sample_ethers = sample_norm"
proof
  fix v show "abi_norm sample_ethers v = sample_norm v" by (cases v) auto
qed

lemma sample_hash_inj [simp]: "sample_hash x = sample_hash y \<longleftrightarrow> x = y"
  by (auto simp: sample_hash_def) (metis inj_to_nat injD parse_nat_dec_digits option.inject)

lemma sample_hash_lower [simp]: "lower (sample_hash x) = sample_hash x"
  using lower_dec_digits [of "to_nat x"]
  by (simp add: sample_hash_def lower_def) (simp add: lower_char_def)

lemma hex_val_lower [simp]: "hex_val (lower_char c) = hex_val c"
  by (auto simp: hex_val_def lower_char_def Let_def)

lemma lower_address_format [simp]: "is_address_format s \<Longrightarrow> is_address_format (lower s)"
proof -
  assume a: "is_address_format s"
  then have "take 2 s = ''0x''" by (simp add: is_address_format_def)
  then have "map lower_char (take 2 s) = ''0x''" by (simp add: lower_char_def)
  with a show ?thesis
    by (auto simp: is_address_format_def lower_def take_map drop_map list_all_iff)
qed

lemma hex_val_less: "hex_val c = Some d \<Longrightarrow> d < 16"
  by (auto simp: hex_val_def Let_def split: if_splits)

lemma hex_val_inj_lower:
  "hex_val c = Some d \<Longrightarrow> hex_val c' = Some d \<Longrightarrow> lower_char c = lower_char c'"
proof -
  assume a: "hex_val c = Some d" "hex_val c' = Some d"
  have "\<And>x. hex_val x = Some d \<Longrightarrow>
      lower_char x = (if d < 10 then char_of (48 + d) else char_of (87 + d))"
    by (auto simp: hex_val_def lower_char_def Let_def split: if_splits)
  with a show ?thesis by simp
qed

lemma parse_acc_hex_inj:
  "parse_acc hex_val 16 a s = Some n \<Longrightarrow> parse_acc hex_val 16 b t = Some n \<Longrightarrow>
   length s = length t \<Longrightarrow> a = b \<and> map lower_char s = map lower_char t"
proof (induction s arbitrary: a b t)
  case Nil
  then show ?case by simp
next
  case (Cons c s)
  then obtain c' t' where t: "t = c' # t'" by (cases t) auto
  from Cons.prems t obtain d d' where
    d: "hex_val c = Some d" "parse_acc hex_val 16 (a * 16 + d) s = Some n"
    and d': "hex_val c' = Some d'" "parse_acc hex_val 16 (b * 16 + d') t' = Some n"
    by (auto split: option.splits)
  have "length s = length t'" using Cons.prems t by simp
  with Cons.IH [OF d(2) d'(2)] have ih: "a * 16 + d = b * 16 + d'" "map lower_char s = map lower_char t'"
    by auto
  have "d < 16" "d' < 16" using hex_val_less [OF d(1)] hex_val_less [OF d'(1)] .
  with ih(1) have "a = b" by linarith
  with ih(1) have "d = d'" by simp
  then have "lower_char c = lower_char c'"
    using d(1) d'(1) by (intro hex_val_inj_lower) simp_all
  with \<open>a = b\<close> show ?case using ih(2) t by simp
qed

lemma hex_string_no_ws: "is_hex_string a \<Longrightarrow> trim a = a"
proof -
  assume a: "is_hex_string a"
  have "\<not> is_ws c" if "c \<in> set a" for c
  proof -
    have "c \<in> set (take 2 a) \<or> c \<in> set (drop 2 a)"
      using that by (metis append_take_drop_id set_append Un_iff)
    moreover have "take 2 a = ''0x''" using a by (simp add: is_hex_string_def)
    moreover have "\<forall>c \<in> set (drop 2 a). hex_val c \<noteq> None"
      using a by (auto simp: is_hex_string_def list_all_iff)
    ultimately have "c = CHR ''0'' \<or> c = CHR ''x'' \<or> hex_val c \<noteq> None" by auto
    moreover have "is_ws c \<Longrightarrow> hex_val c = None" by (auto simp: is_ws_def hex_val_def)
    ultimately show ?thesis by (auto simp: is_ws_def)
  qed
  then show ?thesis by (rule trim_no_ws)
qed

lemma address_hex_string: "is_address_format a \<Longrightarrow> is_hex_string a"
  by (auto simp: is_address_format_def is_hex_string_def)

lemma BigInt_hex: "is_hex_string a \<Longrightarrow>
    js_BigInt a = of_option BadBigInt (map_option int (parse_acc hex_val 16 0 (drop 2 a)))"
  by (auto simp: js_BigInt_def Let_def hex_string_no_ws is_hex_string_def parse_nat_def)

lemmas BigInt_address = BigInt_hex [OF address_hex_string]

lemma parse_acc_total: "list_all (\<lambda>c. dv c \<noteq> None) s \<Longrightarrow> \<exists>n. parse_acc dv b acc s = Some n"
  by (induction s arbitrary: acc) auto

lemma BigInt_hex_ok: "is_hex_string a \<Longrightarrow> \<exists>n. js_BigInt a = Inr (int n)"
  using parse_acc_total [of hex_val "drop 2 a" 16 0]
  by (auto simp: BigInt_hex is_hex_string_def)

lemmas BigInt_address_ok = BigInt_hex_ok [OF address_hex_string]

lemma BigInt_address_inj:
  assumes "is_address_format a" "is_address_format b" "js_BigInt a = js_BigInt b"
  shows "lower a = lower b"
proof -
  obtain n where n: "parse_acc hex_val 16 0 (drop 2 a) = Some n"
    using assms(1) parse_acc_total by (fastforce simp: is_address_format_def)
  moreover obtain m where m: "parse_acc hex_val 16 0 (drop 2 b) = Some m"
    using assms(2) parse_acc_total by (fastforce simp: is_address_format_def)
  ultimately have "n = m" using assms by (simp add: BigInt_address)
  moreover have "length (drop 2 a) = length (drop 2 b)" "take 2 a = take 2 b"
    using assms by (auto simp: is_address_format_def)
  ultimately have "map lower_char (drop 2 a) = map lower_char (drop 2 b)"
    using n m parse_acc_hex_inj by blast
  moreover have "lower x = map lower_char (take 2 x) @ map lower_char (drop 2 x)" for x
    by (metis append_take_drop_id lower_def map_append)
  ultimately show ?thesis using \<open>take 2 a = take 2 b\<close> by metis
qed

lemma sample_norm_type [simp]: "abi_type_of (sample_norm v) = abi_type_of v"
  by (cases v) auto

lemma sample_canon_idem [simp]: "sample_canon (sample_canon a) = sample_canon a"
  by (auto simp: sample_canon_def sample_getAddress_def split: option.splits if_splits)

lemma sample_norm_idem [simp]: "sample_norm (sample_norm v) = sample_norm v"
  by (cases v) auto

lemma sample_getAddress_ok: "getAddress_ok sample_ethers"
  unfolding getAddress_ok_def
  by (auto simp: sample_getAddress_def split: if_splits) (metis BigInt_address_inj)

lemma sample_abi_encode_ok: "abi_encode_ok sample_ethers"
  unfolding abi_encode_ok_def by auto

lemma sample_hash_hex: "is_hex_string (sample_hash x)"
proof -
  have "digit_val c \<noteq> None \<Longrightarrow> hex_val c \<noteq> None" for c
    by (auto simp: digit_val_def hex_val_def Let_def split: if_splits)
  then show ?thesis
    using dec_digits_digit_val by (auto simp: is_hex_string_def sample_hash_def list_all_iff)
qed

lemma sample_hash_ok: "hash_ok sample_ethers"
  unfolding hash_ok_def by (simp add: sample_hash_hex)

lemma sample_ethers_ok: "ethers_ok sample_ethers"
  by (simp add: ethers_ok_def sample_getAddress_ok sample_abi_encode_ok sample_hash_ok)

text \<open>Concrete addresses for the witnesses.\<close>

definition demo_signer :: string where
  "demo_signer = ''0x0000000000000000000000000000000000000001''"

definition demo_registry :: string where
  "demo_registry = ''0x0000000000000000000000000000000000000002''"

lemma demo_address [simp]: "sample_getAddress demo_signer = Some demo_signer" "demo_signer \<noteq> ZeroAddress"
  "demo_signer \<noteq> []"
  by code_simp+

lemma demo_registry_address [simp]: "sample_getAddress demo_registry = Some demo_registry" "demo_registry \<noteq> ZeroAddress"
  "demo_registry \<noteq> []"
  by code_simp+

lemma demo_zero_address [simp]: "sample_getAddress ZeroAddress = Some ZeroAddress"
  by code_simp

lemma sample_hash_nonzero [simp]: "sample_hash x \<noteq> ZeroHash"
proof
  assume "sample_hash x = ZeroHash"
  then have d: "dec_digits (to_nat x) = drop 2 ZeroHash" by (simp add: sample_hash_def ZeroHash_def)
  moreover have "parse_nat digit_val 10 (drop 2 ZeroHash) = Some 0"
    by code_simp
  ultimately have "to_nat x = 0" by (metis parse_nat_dec_digits option.inject)
  moreover have "dec_digits 0 \<noteq> drop 2 ZeroHash" by code_simp
  ultimately show False using d by simp
qed

end
