(* ===== verification/Consensus_Domain.thy ===== *)
theory Consensus_Domain
  imports Ethers
begin

text \<open>
  \<^verbatim>\<open>src/modules/audit/bls-consensus-domain.ts\<close>: the pre-images every BLS-consensus message is
  hashed from, the canonical-order assertion on signer sets, and the on-chain attestation of
  a node's own domain. The lemmas show that the domain separator and each message hash
  determine the fields they were built from, that messages of different kinds never collide,
  and that a successful attestation pins the node's domain to the aggregator's.
\<close>

section \<open>Definitions\<close>

record bls_consensus_domain =
  bd_chainId :: int
  bd_aggregator :: string
  bd_registry :: string

definition DOMAIN_NAME :: "'b ethers \<Rightarrow> string" where
  "DOMAIN_NAME E = ethers_id E ''SuperPaymaster.BLSConsensus.v1''"

definition TAG_QUEUE_SLASH :: "'b ethers \<Rightarrow> string" where
  "TAG_QUEUE_SLASH E = ethers_id E ''SuperPaymaster.BLS.QueueSlash.v1''"

definition TAG_EXECUTE_SLASH :: "'b ethers \<Rightarrow> string" where
  "TAG_EXECUTE_SLASH E = ethers_id E ''SuperPaymaster.BLS.ExecuteSlash.v1''"

definition TAG_REPUTATION :: "'b ethers \<Rightarrow> string" where
  "TAG_REPUTATION E = ethers_id E ''SuperPaymaster.BLS.Reputation.v1''"

definition TAG_SIGNERS_COMMITMENT :: "'b ethers \<Rightarrow> string" where
  "TAG_SIGNERS_COMMITMENT E = ethers_id E ''SuperPaymaster.BLS.SignersCommitment.v1''"

definition TAG_FRAUD_PROOF :: "'b ethers \<Rightarrow> string" where
  "TAG_FRAUD_PROOF E = ethers_id E ''SuperPaymaster.BLS.FraudProof.v1''"

definition address_of :: "'b ethers \<Rightarrow> string \<Rightarrow> string result" where
  "address_of E a = of_option InvalidAddress (getAddress E a)"

definition domainSeparator :: "'b ethers \<Rightarrow> bls_consensus_domain \<Rightarrow> string result" where
  "domainSeparator E d =
     rbind (address_of E (bd_aggregator d)) (\<lambda>agg.
     rbind (address_of E (bd_registry d)) (\<lambda>reg.
     keccak_encode E [AbiBytes32 (DOMAIN_NAME E), AbiUint256 (bd_chainId d), AbiAddress agg, AbiAddress reg]))"

definition queueSlashMessageHash ::
    "'b ethers \<Rightarrow> bls_consensus_domain \<Rightarrow> string \<Rightarrow> int \<Rightarrow> int \<Rightarrow> string result" where
  "queueSlashMessageHash E d operator slashLevel epoch =
     rbind (domainSeparator E d) (\<lambda>sep.
     keccak_encode E [AbiBytes32 sep, AbiBytes32 (TAG_QUEUE_SLASH E),
       AbiAddress operator, AbiUint8 slashLevel, AbiUint256 epoch])"

definition executeSlashMessageHash ::
    "'b ethers \<Rightarrow> bls_consensus_domain \<Rightarrow> int \<Rightarrow> string \<Rightarrow> int \<Rightarrow> int \<Rightarrow> string \<Rightarrow> string result" where
  "executeSlashMessageHash E d proposalId operator slashLevel epoch evidenceHash =
     rbind (domainSeparator E d) (\<lambda>sep.
     keccak_encode E [AbiBytes32 sep, AbiBytes32 (TAG_EXECUTE_SLASH E), AbiUint256 proposalId,
       AbiAddress operator, AbiUint8 slashLevel, AbiUint256 epoch, AbiBytes32 evidenceHash])"

definition reputationMessageHash ::
    "'b ethers \<Rightarrow> bls_consensus_domain \<Rightarrow> int \<Rightarrow> string list \<Rightarrow> int list \<Rightarrow> int \<Rightarrow> string result" where
  "reputationMessageHash E d proposalId repUsers newScores epoch =
     rbind (domainSeparator E d) (\<lambda>sep.
     keccak_encode E [AbiBytes32 sep, AbiBytes32 (TAG_REPUTATION E), AbiUint256 proposalId,
       AbiAddressArray repUsers, AbiUint256Array newScores, AbiUint256 epoch])"

text \<open>The loop of \<^verbatim>\<open>assertCanonicalSigners\<close>; \<open>prev\<close> is \<^verbatim>\<open>signers[i - 1]\<close>.\<close>

fun assertCanonicalSigners_loop :: "string option \<Rightarrow> string list \<Rightarrow> unit result" where
  "assertCanonicalSigners_loop prev [] = Inr ()"
| "assertCanonicalSigners_loop prev (a # as) =
     rbind (guard_throw (a = ZeroAddress) SignersZero) (\<lambda>_.
     rbind (case prev of None \<Rightarrow> Inr ()
            | Some p \<Rightarrow> rbind (js_BigInt p) (\<lambda>x. rbind (js_BigInt a) (\<lambda>y.
                guard_throw (x \<ge> y) SignersNotAscending))) (\<lambda>_.
     assertCanonicalSigners_loop (Some a) as))"

definition assertCanonicalSigners :: "string list \<Rightarrow> unit result" where
  "assertCanonicalSigners signers = assertCanonicalSigners_loop None signers"

definition signersCommitment ::
    "'b ethers \<Rightarrow> bls_consensus_domain \<Rightarrow> int \<Rightarrow> string \<Rightarrow> int \<Rightarrow> string list \<Rightarrow> string result" where
  "signersCommitment E d proposalId messageHash signerMask signers =
     rbind (assertCanonicalSigners signers) (\<lambda>_.
     rbind (domainSeparator E d) (\<lambda>sep.
     keccak_encode E [AbiBytes32 sep, AbiBytes32 (TAG_SIGNERS_COMMITMENT E), AbiUint256 proposalId,
       AbiBytes32 messageHash, AbiUint256 signerMask, AbiAddressArray signers]))"

definition fraudProofDigest ::
    "'b ethers \<Rightarrow> bls_consensus_domain \<Rightarrow> int \<Rightarrow> string list \<Rightarrow> string result" where
  "fraudProofDigest E d fraudProofId guiltyGuardians =
     rbind (domainSeparator E d) (\<lambda>sep.
     keccak_encode E [AbiBytes32 sep, AbiBytes32 (TAG_FRAUD_PROOF E), AbiUint256 fraudProofId,
       AbiAddressArray guiltyGuardians])"

text \<open>\<open>onchain_registry\<close> and \<open>onchain_separator\<close> are the outcomes of the two contract reads
  \<^verbatim>\<open>REGISTRY()\<close> and \<^verbatim>\<open>domainSeparator()\<close>; a failed read throws.\<close>

definition attestDomainAgainstAggregator ::
    "'b ethers \<Rightarrow> string result \<Rightarrow> string result \<Rightarrow> bls_consensus_domain \<Rightarrow> unit result" where
  "attestDomainAgainstAggregator E onchain_registry onchain_separator domain =
     rbind (guard_throw (bd_registry domain = [] \<or> bd_registry domain = ZeroAddress) RegistryMissing) (\<lambda>_.
     rbind onchain_registry (\<lambda>oreg.
     rbind (guard_throw (oreg = [] \<or> oreg = ZeroAddress) RegistryZeroOnChain) (\<lambda>_.
     rbind (address_of E oreg) (\<lambda>a.
     rbind (address_of E (bd_registry domain)) (\<lambda>b.
     rbind (guard_throw (a \<noteq> b) RegistryMismatch) (\<lambda>_.
     rbind (domainSeparator E domain) (\<lambda>local.
     rbind onchain_separator (\<lambda>onchain.
     guard_throw (lower local \<noteq> lower onchain) DomainSeparatorMismatch))))))))"

section \<open>What the hashes bind\<close>

text \<open>Two domains are the same deployment when they agree up to the spelling of addresses.\<close>

definition same_domain :: "'b ethers \<Rightarrow> bls_consensus_domain \<Rightarrow> bls_consensus_domain \<Rightarrow> bool" where
  "same_domain E d d' \<longleftrightarrow> bd_chainId d = bd_chainId d' \<and>
     getAddress E (bd_aggregator d) = getAddress E (bd_aggregator d') \<and>
     getAddress E (bd_registry d) = getAddress E (bd_registry d')"

lemma canon_getAddress [simp]:
  "ethers_ok E \<Longrightarrow> getAddress E s = Some a \<Longrightarrow> canon E a = a"
  using ethers_getAddress(2) [of E s a] by (simp add: canon_def)

lemma address_of_Inr [simp]: "address_of E s = Inr a \<longleftrightarrow> getAddress E s = Some a"
  by (simp add: address_of_def)

lemma domainSeparator_lower: "ethers_ok E \<Longrightarrow> domainSeparator E d = Inr s \<Longrightarrow> lower s = s"
  by (auto simp: domainSeparator_def dest: keccak_encode_lower)

lemma domainSeparator_inj:
  assumes "ethers_ok E" "domainSeparator E d = Inr s" "domainSeparator E d' = Inr s"
  shows "same_domain E d d'"
proof -
  from assms(2,3) obtain a r a' r' where
    g: "getAddress E (bd_aggregator d) = Some a" "getAddress E (bd_registry d) = Some r"
       "getAddress E (bd_aggregator d') = Some a'" "getAddress E (bd_registry d') = Some r'"
    and k: "keccak_encode E [AbiBytes32 (DOMAIN_NAME E), AbiUint256 (bd_chainId d), AbiAddress a, AbiAddress r] = Inr s"
      "keccak_encode E [AbiBytes32 (DOMAIN_NAME E), AbiUint256 (bd_chainId d'), AbiAddress a', AbiAddress r'] = Inr s"
    by (auto simp: domainSeparator_def)
  show ?thesis
    using keccak_encode_inj [OF assms(1) k] canon_getAddress [OF assms(1) g(1)]
      canon_getAddress [OF assms(1) g(2)] canon_getAddress [OF assms(1) g(3)]
      canon_getAddress [OF assms(1) g(4)]
    by (simp add: same_domain_def g)
qed

text \<open>Every message starts with the separator and its tag, so equal hashes force equal domains
  and equal tags whatever the remaining fields are.\<close>

definition tagged_hash :: "'b ethers \<Rightarrow> bls_consensus_domain \<Rightarrow> string \<Rightarrow> abi_value list \<Rightarrow> string result" where
  "tagged_hash E d tag fs =
     rbind (domainSeparator E d) (\<lambda>sep. keccak_encode E (AbiBytes32 sep # AbiBytes32 (ethers_id E tag) # fs))"

lemma message_hash_tagged:
  "queueSlashMessageHash E d operator slashLevel epoch =
     tagged_hash E d ''SuperPaymaster.BLS.QueueSlash.v1'' [AbiAddress operator, AbiUint8 slashLevel, AbiUint256 epoch]"
  "executeSlashMessageHash E d proposalId operator slashLevel epoch evidenceHash =
     tagged_hash E d ''SuperPaymaster.BLS.ExecuteSlash.v1'' [AbiUint256 proposalId, AbiAddress operator,
       AbiUint8 slashLevel, AbiUint256 epoch, AbiBytes32 evidenceHash]"
  "reputationMessageHash E d proposalId repUsers newScores epoch =
     tagged_hash E d ''SuperPaymaster.BLS.Reputation.v1'' [AbiUint256 proposalId,
       AbiAddressArray repUsers, AbiUint256Array newScores, AbiUint256 epoch]"
  "fraudProofDigest E d fraudProofId guiltyGuardians =
     tagged_hash E d ''SuperPaymaster.BLS.FraudProof.v1'' [AbiUint256 fraudProofId, AbiAddressArray guiltyGuardians]"
  by (simp_all add: tagged_hash_def queueSlashMessageHash_def executeSlashMessageHash_def
      reputationMessageHash_def fraudProofDigest_def TAG_QUEUE_SLASH_def TAG_EXECUTE_SLASH_def
      TAG_REPUTATION_def TAG_FRAUD_PROOF_def)

lemma tagged_hash_head:
  assumes "ethers_ok E" "tagged_hash E d tag fs = Inr h" "tagged_hash E d' tag' fs' = Inr h"
  shows "same_domain E d d'" "tag = tag'"
proof -
  from assms(2,3) obtain s s' where
    s: "domainSeparator E d = Inr s" "domainSeparator E d' = Inr s'"
    and k: "keccak_encode E (AbiBytes32 s # AbiBytes32 (ethers_id E tag) # fs) = Inr h"
      "keccak_encode E (AbiBytes32 s' # AbiBytes32 (ethers_id E tag') # fs') = Inr h"
    by (auto simp: tagged_hash_def)
  have "lower s = lower s'" "lower (ethers_id E tag) = lower (ethers_id E tag')"
    using keccak_encode_head [OF assms(1) k] by simp_all
  then have "s = s'" "tag = tag'"
    using domainSeparator_lower [OF assms(1) s(1)] domainSeparator_lower [OF assms(1) s(2)] assms(1)
    by (simp_all add: ethers_id_inj)
  with s domainSeparator_inj [OF assms(1)] show "same_domain E d d'" "tag = tag'" by simp_all
qed

lemma tagged_hash_fields:
  assumes "ethers_ok E" "tagged_hash E d tag fs = Inr h" "tagged_hash E d' tag' fs' = Inr h"
    "map abi_type_of fs = map abi_type_of fs'"
  shows "map (abi_norm E) fs = map (abi_norm E) fs'"
proof -
  from assms(2,3) obtain s s' where
    k: "keccak_encode E (AbiBytes32 s # AbiBytes32 (ethers_id E tag) # fs) = Inr h"
      "keccak_encode E (AbiBytes32 s' # AbiBytes32 (ethers_id E tag') # fs') = Inr h"
    by (auto simp: tagged_hash_def)
  from keccak_encode_inj [OF assms(1) k] assms(4) show ?thesis by simp
qed

lemma tagged_hash_lower: "ethers_ok E \<Longrightarrow> tagged_hash E d tag fs = Inr h \<Longrightarrow> lower h = h"
  by (auto simp: tagged_hash_def dest: keccak_encode_lower)

section \<open>Canonical signer sets\<close>

definition addr_value :: "string \<Rightarrow> int" where
  "addr_value a = (case js_BigInt a of Inl _ \<Rightarrow> 0 | Inr n \<Rightarrow> n)"

definition canonical_signers :: "string list \<Rightarrow> bool" where
  "canonical_signers as \<longleftrightarrow> ZeroAddress \<notin> set as \<and> sorted_wrt (<) (map addr_value as)"

lemma BigInt_addr_value: "is_address_format a \<Longrightarrow> js_BigInt a = Inr (addr_value a)"
  using BigInt_address_ok [of a] by (auto simp: addr_value_def)

lemma assertCanonicalSigners_loop_iff:
  assumes "\<forall>a \<in> set as. is_address_format a" "\<forall>p. prev = Some p \<longrightarrow> is_address_format p"
  shows "assertCanonicalSigners_loop prev as = Inr () \<longleftrightarrow>
    ZeroAddress \<notin> set as \<and> sorted_wrt (<) (map addr_value (case prev of None \<Rightarrow> as | Some p \<Rightarrow> p # as))"
  using assms
proof (induction as arbitrary: prev)
  case Nil
  then show ?case by (cases prev) auto
next
  case (Cons a as)
  then have ih: "assertCanonicalSigners_loop (Some a) as = Inr () \<longleftrightarrow>
      ZeroAddress \<notin> set as \<and> sorted_wrt (<) (map addr_value (a # as))"
    by (subst Cons.IH) auto
  show ?case
    using Cons.prems ih
    by (cases prev) (auto simp: BigInt_addr_value not_le intro: less_trans)
qed

lemma assertCanonicalSigners_iff:
  "\<forall>a \<in> set as. is_address_format a \<Longrightarrow> assertCanonicalSigners as = Inr () \<longleftrightarrow> canonical_signers as"
  using assertCanonicalSigners_loop_iff [of as None]
  by (simp add: assertCanonicalSigners_def canonical_signers_def)

lemma canonical_signers_distinct: "canonical_signers as \<Longrightarrow> distinct as"
  unfolding canonical_signers_def
  by (auto simp: strict_sorted_iff distinct_map)

section \<open>Attestation\<close>

lemma attest_pins_domain:
  assumes "ethers_ok E" "attestDomainAgainstAggregator E rr (domainSeparator E agg_domain) domain = Inr ()"
  shows "same_domain E domain agg_domain" "bd_registry domain \<noteq> ZeroAddress"
proof -
  from assms(2) obtain s s' where
    s: "domainSeparator E domain = Inr s" "domainSeparator E agg_domain = Inr s'" "lower s = lower s'"
    and nz: "bd_registry domain \<noteq> ZeroAddress"
    by (auto simp: attestDomainAgainstAggregator_def)
  then have "s = s'" using domainSeparator_lower assms(1) by metis
  with s domainSeparator_inj [OF assms(1)] show "same_domain E domain agg_domain" by simp
  from nz show "bd_registry domain \<noteq> ZeroAddress" .
qed

section \<open>Properties\<close>

text \<open>messages of different kinds never collide. Under one or two domains, a queue message, an
  execute message, a reputation message, a signers commitment and a fraud-proof digest hash to
  five different values whatever their fields are.\<close>

theorem message_kinds_are_separated:
  assumes "ethers_ok E" "queueSlashMessageHash E d1 op1 lvl1 ep1 = Inr q"
    "executeSlashMessageHash E d2 pid2 op2 lvl2 ep2 ev2 = Inr x"
    "reputationMessageHash E d3 pid3 users3 scores3 ep3 = Inr r"
    "signersCommitment E d4 pid4 mh4 mask4 signers4 = Inr c"
    "fraudProofDigest E d5 fid5 guilty5 = Inr f"
  shows "distinct [q, x, r, c, f]"
proof -
  from assms(5) have c: "tagged_hash E d4 ''SuperPaymaster.BLS.SignersCommitment.v1''
      [AbiUint256 pid4, AbiBytes32 mh4, AbiUint256 mask4, AbiAddressArray signers4] = Inr c"
    by (auto simp: signersCommitment_def tagged_hash_def TAG_SIGNERS_COMMITMENT_def)
  have ne: "tagged_hash E d tag fs = Inr h \<Longrightarrow> tagged_hash E d' tag' fs' = Inr h' \<Longrightarrow> tag \<noteq> tag' \<Longrightarrow> h \<noteq> h'"
    for d d' tag tag' fs fs' h h'
    using tagged_hash_head(2) [OF assms(1)] by blast
  note t = assms(2) [unfolded message_hash_tagged] assms(3) [unfolded message_hash_tagged]
    assms(4) [unfolded message_hash_tagged] c assms(6) [unfolded message_hash_tagged]
  have "q \<noteq> x" by (rule ne [OF t(1,2)]) simp
  moreover have "q \<noteq> r" by (rule ne [OF t(1,3)]) simp
  moreover have "q \<noteq> c" by (rule ne [OF t(1,4)]) simp
  moreover have "q \<noteq> f" by (rule ne [OF t(1,5)]) simp
  moreover have "x \<noteq> r" by (rule ne [OF t(2,3)]) simp
  moreover have "x \<noteq> c" by (rule ne [OF t(2,4)]) simp
  moreover have "x \<noteq> f" by (rule ne [OF t(2,5)]) simp
  moreover have "r \<noteq> c" by (rule ne [OF t(3,4)]) simp
  moreover have "r \<noteq> f" by (rule ne [OF t(3,5)]) simp
  moreover have "c \<noteq> f" by (rule ne [OF t(4,5)]) simp
  ultimately show ?thesis by simp
qed

theorem message_kinds_are_separated_witness:
  "let d = \<lparr>bd_chainId = 1, bd_aggregator = demo_signer, bd_registry = demo_registry\<rparr> in
   distinct (map projr [queueSlashMessageHash sample_ethers d demo_signer 1 9,
     executeSlashMessageHash sample_ethers d 42 demo_signer 1 9 ''0xee'',
     reputationMessageHash sample_ethers d 42 [demo_signer] [5] 9,
     signersCommitment sample_ethers d 42 ''0xaa'' 1 [demo_signer],
     fraudProofDigest sample_ethers d 7 [demo_signer]])"
  unfolding Let_def list.map
  by (rule message_kinds_are_separated [OF sample_ethers_ok ok_projr ok_projr ok_projr ok_projr ok_projr])
    (simp_all add: queueSlashMessageHash_def executeSlashMessageHash_def reputationMessageHash_def
      signersCommitment_def fraudProofDigest_def domainSeparator_def keccak_encode_def assertCanonicalSigners_def
      address_of_def)

end
