(* ===== verification/Slash_Consensus.thy ===== *)
theory Slash_Consensus
  imports Consensus_Domain
begin

text \<open>
  \<^verbatim>\<open>src/modules/audit/slash-consensus.ts\<close>: the co-sign request, the single code path that
  recomputes its message hash, the signer bitmap and the disarmed co-signer. The lemmas show
  that the recomputed hash determines every field a co-signer agrees to, and that the bitmap
  has exactly the bits of the accepted slots.
\<close>

section \<open>Definitions\<close>

definition SlashLevel_WARNING :: int where "SlashLevel_WARNING = 0"
definition SlashLevel_MINOR :: int where "SlashLevel_MINOR = 1"
definition SlashLevel_MAJOR :: int where "SlashLevel_MAJOR = 2"

definition MAX_VALIDATORS :: int where "MAX_VALIDATORS = 13"

definition buildQueueMessageHash ::
    "'b ethers \<Rightarrow> bls_consensus_domain \<Rightarrow> string \<Rightarrow> int \<Rightarrow> int \<Rightarrow> string result" where
  "buildQueueMessageHash E domain operator slashLevel epoch =
     queueSlashMessageHash E domain operator slashLevel epoch"

definition buildExecuteMessageHash ::
    "'b ethers \<Rightarrow> bls_consensus_domain \<Rightarrow> int \<Rightarrow> string \<Rightarrow> int \<Rightarrow> int \<Rightarrow> string \<Rightarrow> string result" where
  "buildExecuteMessageHash E domain proposalId operator slashLevel epoch evidenceHash =
     executeSlashMessageHash E domain proposalId operator slashLevel epoch evidenceHash"

definition encodeProof :: "'b ethers \<Rightarrow> int \<Rightarrow> string \<Rightarrow> 'b result" where
  "encodeProof E signerMask sigG2 =
     of_option AbiEncodeFailed (abi_encode E [AbiUint256 signerMask, AbiBytes sigG2])"

text \<open>The loop of \<^verbatim>\<open>buildSignerMask\<close>, with the set \<^verbatim>\<open>seen\<close> and the accumulated \<^verbatim>\<open>mask\<close>.\<close>

fun buildSignerMask_loop :: "jsnum list \<Rightarrow> jsnum list \<Rightarrow> int \<Rightarrow> int result" where
  "buildSignerMask_loop [] seen msk = Inr msk"
| "buildSignerMask_loop (slot # slots) seen msk =
     (if \<not> js_int_in 1 MAX_VALIDATORS slot then Inl SlotOutOfRange
      else if slot \<in> set seen then buildSignerMask_loop slots seen msk
      else buildSignerMask_loop slots (slot # seen)
        (msk OR push_bit (nat (js_to_int slot - 1)) 1))"

definition buildSignerMask :: "jsnum list \<Rightarrow> int result" where
  "buildSignerMask slots = buildSignerMask_loop slots [] 0"

text \<open>An optional field holds \<open>None\<close> when it is absent or \<^verbatim>\<open>null\<close>.\<close>

record co_sign_request =
  cr_proofSchemaVersion :: int
  cr_step :: string
  cr_operator :: string
  cr_slashLevel :: int
  cr_epoch :: int
  cr_chainId :: int
  cr_proposalId :: "string option"
  cr_evidenceHash :: "string option"
  cr_messageHash :: string

definition recomputeMessageHash ::
    "'b ethers \<Rightarrow> 'r co_sign_request_scheme \<Rightarrow> bls_consensus_domain \<Rightarrow> string result" where
  "recomputeMessageHash E req domain =
     (if cr_chainId req \<noteq> bd_chainId domain then Inl ChainIdMismatch
      else if cr_step req = ''queue'' then
        buildQueueMessageHash E domain (cr_operator req) (cr_slashLevel req) (cr_epoch req)
      else if cr_step req = ''execute'' then
        (case cr_proposalId req of None \<Rightarrow> Inl MissingProposalId | Some pid \<Rightarrow>
           if pid = [] then Inl MissingProposalId
           else (case cr_evidenceHash req of None \<Rightarrow> Inl MissingEvidenceHash | Some ev \<Rightarrow>
             if ev = [] then Inl MissingEvidenceHash
             else rbind (js_BigInt pid) (\<lambda>p.
               buildExecuteMessageHash E domain p (cr_operator req) (cr_slashLevel req) (cr_epoch req) ev)))
      else Inl UnknownStep)"

text \<open>The disarmed co-signer: every request fails closed.\<close>

definition PendingSlotCoSigner_coSign :: "co_sign_request \<Rightarrow> (int \<times> string) result" where
  "PendingSlotCoSigner_coSign req = Inl NodeDisarmed"

section \<open>The signer bitmap\<close>

lemma buildSignerMask_loop_bits:
  "buildSignerMask_loop slots seen msk = Inr m \<Longrightarrow>
   bit m i \<longleftrightarrow> bit msk i \<or> js_of_int (int i + 1) \<in> set slots - set seen"
proof (induction slots seen msk rule: buildSignerMask_loop.induct)
  case (2 slot slots seen msk)
  from "2.prems" obtain n where n: "slot = js_of_int n" "1 \<le> n"
    by (auto simp: js_int_in_iff split: if_splits)
  then have "nat (n - 1) = i \<longleftrightarrow> n = int i + 1" by auto
  with "2" n show ?case
    by (auto simp: bit_or_iff bit_exp_iff split: if_splits)
qed simp

lemma buildSignerMask_bit:
  "buildSignerMask slots = Inr m \<Longrightarrow> bit m i \<longleftrightarrow> js_of_int (int i + 1) \<in> set slots"
  using buildSignerMask_loop_bits [of slots "[]" 0 m i] by (simp add: buildSignerMask_def)

lemma buildSignerMask_loop_ok:
  "is_ok (buildSignerMask_loop slots seen msk) \<longleftrightarrow> (\<forall>s \<in> set slots. js_int_in 1 MAX_VALIDATORS s)"
  by (induction slots seen msk rule: buildSignerMask_loop.induct) auto

lemma buildSignerMask_ok:
  "is_ok (buildSignerMask slots) \<longleftrightarrow> (\<forall>s \<in> set slots. js_int_in 1 MAX_VALIDATORS s)"
  by (simp add: buildSignerMask_def buildSignerMask_loop_ok)

lemma buildSignerMask_Inr_range:
  "buildSignerMask slots = Inr m \<Longrightarrow> s \<in> set slots \<Longrightarrow> \<exists>n. s = js_of_int n \<and> 1 \<le> n \<and> n \<le> 13"
  using buildSignerMask_ok [of slots] by (auto simp: js_int_in_iff MAX_VALIDATORS_def)

lemma buildSignerMask_loop_nonneg:
  "buildSignerMask_loop slots seen msk = Inr m \<Longrightarrow> 0 \<le> msk \<Longrightarrow> 0 \<le> m"
  by (induction slots seen msk rule: buildSignerMask_loop.induct) (auto split: if_splits)

lemma buildSignerMask_bounds:
  assumes "buildSignerMask slots = Inr m" shows "0 \<le> m" "m < 2 ^ 13"
proof -
  show nn: "0 \<le> m"
    using assms buildSignerMask_loop_nonneg by (auto simp: buildSignerMask_def)
  have "take_bit 13 m = m"
  proof (rule bit_eqI)
    fix i
    have "bit m i \<Longrightarrow> i < 13"
      using buildSignerMask_bit [OF assms, of i] buildSignerMask_Inr_range [OF assms] by fastforce
    then show "bit (take_bit 13 m) i \<longleftrightarrow> bit m i" by (auto simp: bit_take_bit_iff)
  qed
  then show "m < 2 ^ 13" by (metis take_bit_int_less_exp)
qed

text \<open>The slots of a mask, in the order the on-chain loop visits them.\<close>

definition mask_slots :: "int \<Rightarrow> int list" where
  "mask_slots m = filter (\<lambda>s. bit m (nat (s - 1))) [1..MAX_VALIDATORS]"

lemma mask_slots_set:
  "set (mask_slots m) = {s. 1 \<le> s \<and> s \<le> 13 \<and> bit m (nat (s - 1))}"
  by (auto simp: mask_slots_def MAX_VALIDATORS_def)

lemma mask_slots_buildSignerMask:
  assumes "buildSignerMask slots = Inr m"
  shows "set (mask_slots m) = js_to_int ` set slots"
proof -
  have "set slots = js_of_int ` set (mask_slots m)"
  proof
    show "set slots \<subseteq> js_of_int ` set (mask_slots m)"
    proof
      fix s assume s: "s \<in> set slots"
      then obtain n where n: "s = js_of_int n" "1 \<le> n" "n \<le> 13"
        using buildSignerMask_Inr_range [OF assms] by blast
      then have "bit m (nat (n - 1))" using s buildSignerMask_bit [OF assms, of "nat (n - 1)"] by simp
      with n show "s \<in> js_of_int ` set (mask_slots m)" by (auto simp: mask_slots_set)
    qed
    show "js_of_int ` set (mask_slots m) \<subseteq> set slots"
      using buildSignerMask_bit [OF assms] by (auto simp: mask_slots_set)
  qed
  then show ?thesis by (simp add: image_image)
qed

lemma mask_slots_sorted: "sorted_wrt (<) (mask_slots m)"
  by (simp add: mask_slots_def sorted_wrt_filter)

lemma mask_slots_distinct [simp]: "distinct (mask_slots m)"
  by (simp add: mask_slots_def)

lemma length_mask_slots:
  assumes "buildSignerMask slots = Inr m" "distinct slots"
  shows "length (mask_slots m) = length slots"
proof -
  have "inj_on js_to_int (set slots)"
    by (rule inj_onI) (metis buildSignerMask_Inr_range [OF assms(1)] js_of_int_simps(3))
  then have "card (js_to_int ` set slots) = length slots"
    using assms(2) by (simp add: card_image distinct_card)
  then show ?thesis
    using mask_slots_buildSignerMask [OF assms(1)] by (metis distinct_card mask_slots_distinct)
qed

section \<open>What a co-signed hash commits to\<close>

text \<open>The fields a co-signer agrees to when it signs the recomputed hash.\<close>

definition same_case :: "'b ethers \<Rightarrow> 'r co_sign_request_scheme \<Rightarrow> 'q co_sign_request_scheme \<Rightarrow> bool" where
  "same_case E r r' \<longleftrightarrow> cr_step r = cr_step r' \<and> cr_chainId r = cr_chainId r' \<and>
     canon E (cr_operator r) = canon E (cr_operator r') \<and> cr_slashLevel r = cr_slashLevel r' \<and>
     cr_epoch r = cr_epoch r' \<and>
     (cr_step r = ''execute'' \<longrightarrow>
        map_option js_BigInt (cr_proposalId r) = map_option js_BigInt (cr_proposalId r') \<and>
        map_option lower (cr_evidenceHash r) = map_option lower (cr_evidenceHash r'))"

lemma recompute_cases:
  assumes "recomputeMessageHash E r d = Inr h"
  obtains (queue) "cr_chainId r = bd_chainId d" "cr_step r = ''queue''"
      "tagged_hash E d ''SuperPaymaster.BLS.QueueSlash.v1''
        [AbiAddress (cr_operator r), AbiUint8 (cr_slashLevel r), AbiUint256 (cr_epoch r)] = Inr h"
  | (execute) p pid ev where "cr_chainId r = bd_chainId d" "cr_step r = ''execute''"
      "cr_proposalId r = Some pid" "js_BigInt pid = Inr p" "cr_evidenceHash r = Some ev" "ev \<noteq> []"
      "tagged_hash E d ''SuperPaymaster.BLS.ExecuteSlash.v1''
        [AbiUint256 p, AbiAddress (cr_operator r), AbiUint8 (cr_slashLevel r), AbiUint256 (cr_epoch r),
         AbiBytes32 ev] = Inr h"
  using assms
  by (auto simp: recomputeMessageHash_def buildQueueMessageHash_def buildExecuteMessageHash_def
      message_hash_tagged split: if_splits option.splits)

lemma recompute_binds:
  assumes ok: "ethers_ok E" and r: "recomputeMessageHash E r d = Inr h"
    and r': "recomputeMessageHash E r' d' = Inr h"
  shows "same_domain E d d'" and "same_case E r r'"
proof -
  have "same_domain E d d' \<and> same_case E r r'"
    using r
  proof (cases rule: recompute_cases)
    case q: queue
    from r' show ?thesis
    proof (cases rule: recompute_cases)
      case queue
      from tagged_hash_head(1) [OF ok q(3) queue(3)] tagged_hash_fields [OF ok q(3) queue(3)] q queue
      show ?thesis by (simp add: same_case_def same_domain_def)
    next
      case execute
      from tagged_hash_head(2) [OF ok q(3) execute(7)] show ?thesis by simp
    qed
  next
    case e: execute
    from r' show ?thesis
    proof (cases rule: recompute_cases)
      case queue
      from tagged_hash_head(2) [OF ok e(7) queue(3)] show ?thesis by simp
    next
      case execute
      from tagged_hash_head(1) [OF ok e(7) execute(7)] tagged_hash_fields [OF ok e(7) execute(7)] e execute
      show ?thesis by (simp add: same_case_def same_domain_def)
    qed
  qed
  then show "same_domain E d d'" "same_case E r r'" by simp_all
qed

lemma recompute_lower: "ethers_ok E \<Longrightarrow> recomputeMessageHash E r d = Inr h \<Longrightarrow> lower h = h"
  by (erule recompute_cases) (auto dest: tagged_hash_lower)

section \<open>Properties\<close>

definition demo_domain :: bls_consensus_domain where
  "demo_domain = \<lparr>bd_chainId = 11155111, bd_aggregator = demo_signer, bd_registry = demo_registry\<rparr>"

definition demo_request :: co_sign_request where
  "demo_request = \<lparr>cr_proofSchemaVersion = 1, cr_step = ''execute'', cr_operator = demo_signer, cr_slashLevel = 1,
     cr_epoch = 9, cr_chainId = 11155111, cr_proposalId = Some ''42'', cr_evidenceHash = Some ''0xee'',
     cr_messageHash = ''0x''\<rparr>"

lemma BigInt_42: "js_BigInt ''42'' = Inr 42"
  by code_simp

lemma demo_recompute: "\<exists>h. recomputeMessageHash sample_ethers demo_request demo_domain = Inr h"
  by (simp add: recomputeMessageHash_def demo_request_def demo_domain_def buildExecuteMessageHash_def
      executeSlashMessageHash_def domainSeparator_def keccak_encode_def BigInt_42)

text \<open>C7: a co-signed hash names one case. If two co-sign requests, under possibly different
  consensus domains, recompute to the same message hash, then the domains are the same deployment
  (chain, aggregator and registry) and the requests agree on the step, the operator, the slash
  level, the epoch and, for an execution, on the proposal id and the evidence hash.\<close>

theorem cosigned_hash_names_one_case:
  assumes "ethers_ok E" "recomputeMessageHash E r d = Inr h" "recomputeMessageHash E r' d' = Inr h"
  shows "bd_chainId d = bd_chainId d' \<and> getAddress E (bd_aggregator d) = getAddress E (bd_aggregator d') \<and>
    getAddress E (bd_registry d) = getAddress E (bd_registry d') \<and>
    cr_step r = cr_step r' \<and> canon E (cr_operator r) = canon E (cr_operator r') \<and>
    cr_slashLevel r = cr_slashLevel r' \<and> cr_epoch r = cr_epoch r' \<and>
    (cr_step r = ''execute'' \<longrightarrow>
       map_option js_BigInt (cr_proposalId r) = map_option js_BigInt (cr_proposalId r') \<and>
       map_option lower (cr_evidenceHash r) = map_option lower (cr_evidenceHash r'))"
  using recompute_binds [OF assms] unfolding same_domain_def same_case_def by simp

theorem cosigned_hash_names_one_case_witness:
  "\<exists>h. recomputeMessageHash sample_ethers demo_request demo_domain = Inr h \<and>
     recomputeMessageHash sample_ethers (demo_request\<lparr>cr_evidenceHash := Some ''0xEE''\<rparr>) demo_domain = Inr h \<and>
     map_option lower (cr_evidenceHash demo_request) = map_option lower (Some ''0xEE'')"
proof -
  obtain h where h: "recomputeMessageHash sample_ethers demo_request demo_domain = Inr h"
    using demo_recompute by blast
  moreover have ee: "lower ''0xEE'' = lower ''0xee''" by code_simp
  ultimately have h': "recomputeMessageHash sample_ethers (demo_request\<lparr>cr_evidenceHash := Some ''0xEE''\<rparr>) demo_domain = Inr h"
    by (simp add: recomputeMessageHash_def demo_request_def demo_domain_def buildExecuteMessageHash_def
        executeSlashMessageHash_def domainSeparator_def keccak_encode_def BigInt_42)
  from cosigned_hash_names_one_case [OF sample_ethers_ok h h'] h h' show ?thesis
    by (simp add: demo_request_def)
qed

text \<open>the signer bitmap is exact. \<^verbatim>\<open>buildSignerMask\<close> throws, with the range error, exactly when some
  slot is not an integer in 1 to 13 (a fraction, \<^verbatim>\<open>NaN\<close> or an infinity included); otherwise its
  result fits in 13 bits and bit \<open>i\<close> is set exactly when slot \<open>i + 1\<close> is listed, repeated or not.\<close>

theorem buildSignerMask_exact:
  "case buildSignerMask slots of
     Inl e \<Rightarrow> e = SlotOutOfRange \<and> \<not> list_all (js_int_in 1 MAX_VALIDATORS) slots
   | Inr m \<Rightarrow> list_all (js_int_in 1 MAX_VALIDATORS) slots \<and> 0 \<le> m \<and> m < 2 ^ 13 \<and>
       (\<forall>i. bit m i \<longleftrightarrow> js_of_int (int i + 1) \<in> set slots)"
proof (cases "buildSignerMask slots")
  case (Inl e)
  have "buildSignerMask_loop ss seen m = Inl e \<Longrightarrow> e = SlotOutOfRange" for ss seen m
    by (induction ss seen m rule: buildSignerMask_loop.induct) (auto split: if_splits)
  with Inl show ?thesis using buildSignerMask_ok [of slots] by (auto simp: buildSignerMask_def list_all_iff)
next
  case (Inr m)
  then show ?thesis
    using buildSignerMask_ok [of slots] buildSignerMask_bounds [OF Inr] buildSignerMask_bit [OF Inr]
    by (simp add: list_all_iff)
qed

end
