(* ===== verification/Fraud_Proof.thy ===== *)
theory Fraud_Proof
  imports Slash_Consensus
begin

text \<open>
  \<^verbatim>\<open>src/modules/audit/guardian-fraud-proof.ts\<close>: from a signer bitmap to the canonical signer
  set, the message hashes the watcher reconstructs, and the decoder of the executed call.
  The central fact is that a set \<^verbatim>\<open>orderSignersFromSlotMap\<close> returns is canonical and has
  exactly one member per bit, so the commitment over it never fails on its order.
\<close>

section \<open>Definitions\<close>

definition FRAUD_ID_TAG :: string where "FRAUD_ID_TAG = ''GUARDIAN_FRAUD_V1''"
definition OVERISSUE_EVIDENCE_TAG :: string where "OVERISSUE_EVIDENCE_TAG = ''DVT_OVERISSUE_EVIDENCE_V1''"

text \<open>The body of the slot loop: a clear bit is skipped, a zero slot throws.\<close>

fun collect_slots :: "'b ethers \<Rightarrow> int \<Rightarrow> (int \<Rightarrow> string result) \<Rightarrow> int list \<Rightarrow> string list result" where
  "collect_slots E signerMask resolveSlot [] = Inr []"
| "collect_slots E signerMask resolveSlot (slot # slots) =
     (if drop_bit (nat (slot - 1)) signerMask AND 1 = 0 then collect_slots E signerMask resolveSlot slots
      else rbind (resolveSlot slot) (\<lambda>addr.
        rbind (guard_throw (addr = ZeroAddress) SlotHole) (\<lambda>_.
        rbind (address_of E addr) (\<lambda>a.
        rbind (collect_slots E signerMask resolveSlot slots) (\<lambda>rest. Inr (a # rest))))))"

fun check_strictly_ascending :: "string list \<Rightarrow> unit result" where
  "check_strictly_ascending (a # b # rest) =
     rbind (js_BigInt a) (\<lambda>x. rbind (js_BigInt b) (\<lambda>y.
     rbind (guard_throw (x \<ge> y) SignersNotAscending) (\<lambda>_. check_strictly_ascending (b # rest))))"
| "check_strictly_ascending _ = Inr ()"

definition orderSignersFromSlotMap :: "'b ethers \<Rightarrow> int \<Rightarrow> (int \<Rightarrow> string result) \<Rightarrow> string list result" where
  "orderSignersFromSlotMap E signerMask resolveSlot =
     rbind (guard_throw (drop_bit (nat MAX_VALIDATORS) signerMask \<noteq> 0) MaskHighBits) (\<lambda>_.
     rbind (collect_slots E signerMask resolveSlot [1..MAX_VALIDATORS]) (\<lambda>signers0.
     let signers = sort_key addr_value signers0 in
     rbind (check_strictly_ascending signers) (\<lambda>_. Inr signers)))"

text \<open>\<open>validatorAtSlot block slot\<close> is the contract read pinned to a block.\<close>

definition resolveClaimedSigners ::
    "'b ethers \<Rightarrow> (int \<Rightarrow> int \<Rightarrow> string result) \<Rightarrow> int \<Rightarrow> int \<Rightarrow> string list result" where
  "resolveClaimedSigners E validatorAtSlot signerMask executionBlock =
     orderSignersFromSlotMap E signerMask (\<lambda>slot. validatorAtSlot executionBlock slot)"

definition deriveFraudProofId :: "'b ethers \<Rightarrow> int \<Rightarrow> int result" where
  "deriveFraudProofId E proposalId =
     rbind (keccak_encode E [AbiString FRAUD_ID_TAG, AbiUint256 proposalId]) js_BigInt"

definition overIssueEvidenceHash :: "'b ethers \<Rightarrow> string \<Rightarrow> string \<Rightarrow> int \<Rightarrow> string result" where
  "overIssueEvidenceHash E disputedToken operator epoch =
     keccak_encode E [AbiString OVERISSUE_EVIDENCE_TAG, AbiAddress disputedToken, AbiAddress operator, AbiUint256 epoch]"

record over_issue_inputs =
  oi_proposalId :: int
  oi_operator :: string
  oi_slashLevel :: int
  oi_epoch :: int
  oi_disputedToken :: string
  oi_signerMask :: int
  oi_claimedSigners :: "string list"

definition encodeOverIssueFraudProof :: "'b ethers \<Rightarrow> over_issue_inputs \<Rightarrow> 'b result" where
  "encodeOverIssueFraudProof E i = of_option AbiEncodeFailed (abi_encode E
     [AbiUint256 (oi_proposalId i), AbiAddress (oi_operator i), AbiUint8 (oi_slashLevel i),
      AbiUint256 (oi_epoch i), AbiAddress (oi_disputedToken i), AbiUint256 (oi_signerMask i),
      AbiAddressArray (oi_claimedSigners i)])"

definition rawSlashMessageHash ::
    "'b ethers \<Rightarrow> bls_consensus_domain \<Rightarrow> int \<Rightarrow> string \<Rightarrow> int \<Rightarrow> int \<Rightarrow> string \<Rightarrow> string result" where
  "rawSlashMessageHash E domain proposalId operator slashLevel epoch evidenceHash =
     executeSlashMessageHash E domain proposalId operator slashLevel epoch evidenceHash"

definition repSlashMessageHash ::
    "'b ethers \<Rightarrow> bls_consensus_domain \<Rightarrow> int \<Rightarrow> string \<Rightarrow> int \<Rightarrow> string list \<Rightarrow> int list \<Rightarrow> int \<Rightarrow> string result" where
  "repSlashMessageHash E domain proposalId operator slashLevel repUsers newScores epoch =
     reputationMessageHash E domain proposalId repUsers newScores epoch"

definition overIssueSlashMessageHash ::
    "'b ethers \<Rightarrow> bls_consensus_domain \<Rightarrow> int \<Rightarrow> string \<Rightarrow> int \<Rightarrow> int \<Rightarrow> string \<Rightarrow> string result" where
  "overIssueSlashMessageHash E domain proposalId operator slashLevel epoch disputedToken =
     rbind (overIssueEvidenceHash E disputedToken operator epoch) (\<lambda>ev.
     rawSlashMessageHash E domain proposalId operator slashLevel epoch ev)"

record verify_and_execute_args =
  va_proposalId :: int
  va_operator :: string
  va_slashLevel :: int
  va_repUsers :: "string list"
  va_newScores :: "int list"
  va_epoch :: int
  va_evidenceHash :: string
  va_signerMask :: int

text \<open>What \<^verbatim>\<open>Interface.parseTransaction\<close> yields (\<open>None\<close>: \<^verbatim>\<open>null\<close> or an exception), and the ABI
  decoding of the leading 32 bytes of a proof.\<close>

record parsed_call =
  pc_name :: string
  pc_proposalId :: int
  pc_operator :: string
  pc_slashLevel :: int
  pc_repUsers :: "string list"
  pc_newScores :: "int list"
  pc_epoch :: int
  pc_evidenceHash :: string
  pc_proof :: string

record calldata_lib =
  parseTransaction :: "string \<Rightarrow> parsed_call option"
  decode_first_word :: "string \<Rightarrow> int option"

definition decodeSignerMaskFromBlsProof :: "calldata_lib \<Rightarrow> string \<Rightarrow> int result" where
  "decodeSignerMaskFromBlsProof L proof_bytes = of_option AbiEncodeFailed (decode_first_word L proof_bytes)"

definition decodeVerifyAndExecuteCalldata ::
    "'b ethers \<Rightarrow> calldata_lib \<Rightarrow> string \<Rightarrow> verify_and_execute_args result" where
  "decodeVerifyAndExecuteCalldata E L data =
     (case parseTransaction L data of None \<Rightarrow> Inl NotVerifyAndExecute
      | Some a \<Rightarrow> if pc_name a \<noteq> ''verifyAndExecute'' then Inl NotVerifyAndExecute
        else rbind (address_of E (pc_operator a)) (\<lambda>operator.
          rbind (rmap (address_of E) (pc_repUsers a)) (\<lambda>repUsers.
          rbind (decodeSignerMaskFromBlsProof L (pc_proof a)) (\<lambda>signerMask.
          Inr \<lparr>va_proposalId = pc_proposalId a, va_operator = operator, va_slashLevel = pc_slashLevel a,
            va_repUsers = repUsers, va_newScores = pc_newScores a, va_epoch = pc_epoch a,
            va_evidenceHash = pc_evidenceHash a, va_signerMask = signerMask\<rparr>))))"

definition computeSignersCommitment ::
    "'b ethers \<Rightarrow> bls_consensus_domain \<Rightarrow> int \<Rightarrow> string \<Rightarrow> int \<Rightarrow> string list \<Rightarrow> string result" where
  "computeSignersCommitment E domain proposalId messageHash signerMask claimedSigners =
     signersCommitment E domain proposalId messageHash signerMask claimedSigners"

section \<open>The signer set of a bitmap\<close>

lemma slot_bit_test: "drop_bit n m AND 1 = 0 \<longleftrightarrow> \<not> bit (m::int) n"
  by (simp add: and_one_eq bit_iff_odd_drop_bit mod_2_eq_odd)

lemma collect_slots_rmap:
  "collect_slots E m f slots = rmap (\<lambda>slot. rbind (f slot) (\<lambda>addr.
      rbind (guard_throw (addr = ZeroAddress) SlotHole) (\<lambda>_. address_of E addr)))
    (filter (\<lambda>s. bit m (nat (s - 1))) slots)"
proof (induction slots)
  case (Cons s slots)
  have assoc: "rbind (rbind r g) h = rbind r (\<lambda>x. rbind (g x) h)" for r :: "'x result" and g :: "'x \<Rightarrow> 'y result" and h :: "'y \<Rightarrow> 'z result"
    by (cases r) simp_all
  show ?case using Cons by (simp add: slot_bit_test assoc)
qed simp

lemma check_strictly_ascending_iff:
  "\<forall>a \<in> set as. is_address_format a \<Longrightarrow>
   check_strictly_ascending as = Inr () \<longleftrightarrow> sorted_wrt (<) (map addr_value as)"
proof (induction as rule: check_strictly_ascending.induct)
  case (1 a b rest)
  then show ?case by (auto simp: BigInt_addr_value not_le intro: less_trans)
qed auto

definition resolver_canonical :: "'b ethers \<Rightarrow> (int \<Rightarrow> string result) \<Rightarrow> bool" where
  "resolver_canonical E f \<longleftrightarrow> (\<forall>slot a. f slot = Inr a \<longrightarrow> getAddress E a = Some a)"

lemma collect_slots_Inr:
  assumes "resolver_canonical E f" "collect_slots E m f slots = Inr as"
  shows "as = map (\<lambda>s. projr (f s)) (filter (\<lambda>s. bit m (nat (s - 1))) slots)"
    and "\<forall>a \<in> set as. a \<noteq> ZeroAddress \<and> getAddress E a = Some a"
    and "\<forall>s \<in> set slots. bit m (nat (s - 1)) \<longrightarrow> f s = Inr (projr (f s))"
  using assms(2)
  by (induction slots arbitrary: as)
     (use assms(1) in \<open>force simp: slot_bit_test resolver_canonical_def split: if_splits\<close>)+

lemma order_signers_canonical:
  assumes ok: "ethers_ok E" and f: "resolver_canonical E f"
    and r: "orderSignersFromSlotMap E m f = Inr as"
  shows "canonical_signers as" "assertCanonicalSigners as = Inr ()"
    "\<forall>a \<in> set as. getAddress E a = Some a"
    "set as = (\<lambda>s. projr (f s)) ` set (mask_slots m)" "length as = length (mask_slots m)"
    "\<forall>s \<in> set (mask_slots m). f s = Inr (projr (f s))"
proof -
  from r obtain as0 where c: "collect_slots E m f [1..MAX_VALIDATORS] = Inr as0"
    and as: "as = sort_key addr_value as0" and asc: "check_strictly_ascending as = Inr ()"
    by (auto simp: orderSignersFromSlotMap_def Let_def)
  note cs = collect_slots_Inr [OF f c]
  have fmt: "\<forall>a \<in> set as. is_address_format a"
    using cs(2) as ethers_getAddress(1) [OF ok] by auto
  show can: "canonical_signers as"
    using check_strictly_ascending_iff [OF fmt] asc cs(2) as by (auto simp: canonical_signers_def)
  show "assertCanonicalSigners as = Inr ()" using assertCanonicalSigners_iff [OF fmt] can by simp
  show "\<forall>a \<in> set as. getAddress E a = Some a" using cs(2) as by auto
  show "set as = (\<lambda>s. projr (f s)) ` set (mask_slots m)" using cs(1) as by (simp add: mask_slots_def)
  show "length as = length (mask_slots m)" using cs(1) as by (simp add: mask_slots_def)
  show "\<forall>s \<in> set (mask_slots m). f s = Inr (projr (f s))" using cs(3) by (auto simp: mask_slots_def)
qed

text \<open>Conversely a bitmap within range whose slots resolve to distinct non-zero addresses
  always yields a set.\<close>

lemma collect_slots_ok:
  assumes "\<And>s. s \<in> set slots \<Longrightarrow> bit m (nat (s - 1)) \<Longrightarrow> \<exists>a. f s = Inr a \<and> a \<noteq> ZeroAddress \<and> getAddress E a = Some a"
  shows "collect_slots E m f slots = Inr (map (\<lambda>s. projr (f s)) (filter (\<lambda>s. bit m (nat (s - 1))) slots))"
  using assms
proof (induction slots)
  case (Cons s slots)
  then have ih: "collect_slots E m f slots = Inr (map (\<lambda>s. projr (f s)) (filter (\<lambda>s. bit m (nat (s - 1))) slots))"
    by simp
  show ?case
  proof (cases "bit m (nat (s - 1))")
    case True
    then obtain a where "f s = Inr a" "a \<noteq> ZeroAddress" "getAddress E a = Some a"
      using Cons.prems [of s] by auto
    with True ih show ?thesis by (simp add: slot_bit_test address_of_def)
  next
    case False
    with ih show ?thesis by (simp add: slot_bit_test)
  qed
qed simp

lemma order_signers_ok:
  assumes ok: "ethers_ok E" and range: "0 \<le> m" "m < 2 ^ 13"
    and res: "\<And>s. s \<in> set (mask_slots m) \<Longrightarrow> \<exists>a. f s = Inr a \<and> a \<noteq> ZeroAddress \<and> getAddress E a = Some a"
    and inj: "inj_on f (set (mask_slots m))"
  shows "\<exists>as. orderSignersFromSlotMap E m f = Inr as"
proof -
  let ?as0 = "map (\<lambda>s. projr (f s)) (mask_slots m)"
  have c: "collect_slots E m f [1..MAX_VALIDATORS] = Inr ?as0"
    using res by (subst collect_slots_ok) (auto simp: mask_slots_def)
  have g: "\<forall>a \<in> set ?as0. getAddress E a = Some a"
    using res by fastforce
  have "inj_on (\<lambda>s. projr (f s)) (set (mask_slots m))"
    using inj res by (intro inj_onI) (metis inj_onD sum.sel(2))
  then have dist: "distinct ?as0" by (simp add: distinct_map)
  have "inj_on addr_value (set ?as0)"
  proof (rule inj_onI)
    fix a b assume ab: "a \<in> set ?as0" "b \<in> set ?as0" "addr_value a = addr_value b"
    then have ga: "getAddress E a = Some a" "getAddress E b = Some b" using g by auto
    with ab(3) show "a = b"
      using ethers_getAddress_value [OF ok ga] BigInt_addr_value ethers_getAddress(1) [OF ok ga(1)]
        ethers_getAddress(1) [OF ok ga(2)] by simp
  qed
  then have "distinct (map addr_value (sort_key addr_value ?as0))"
    using dist by (simp only: distinct_map distinct_sort set_sort)
  then have "sorted_wrt (<) (map addr_value (sort_key addr_value ?as0))"
    by (simp only: strict_sorted_iff sorted_sort_key)
  moreover have "\<forall>a \<in> set (sort_key addr_value ?as0). is_address_format a"
    using g ethers_getAddress(1) [OF ok] by (simp only: set_sort) blast
  ultimately have "check_strictly_ascending (sort_key addr_value ?as0) = Inr ()"
    using check_strictly_ascending_iff by blast
  moreover have "drop_bit (nat MAX_VALIDATORS) m = 0"
    using range by (simp add: drop_bit_eq_div MAX_VALIDATORS_def)
  ultimately show ?thesis using c by (simp add: orderSignersFromSlotMap_def Let_def)
qed

section \<open>Properties\<close>

text \<open>The claimed signer set of a bitmap is exact and canonical. When the slots are resolved to
  checksummed addresses, a set \<^verbatim>\<open>resolveClaimedSigners\<close> returns has exactly one member per set bit,
  namely the validators of those slots, without the zero address and in strictly ascending order,
  and the commitment over it does not fail on its order.\<close>

theorem claimed_signers_exact:
  assumes "ethers_ok E" "resolver_canonical E (validatorAtSlot block)"
    and "resolveClaimedSigners E validatorAtSlot signerMask block = Inr signers"
  shows "Inr ` set signers = validatorAtSlot block ` set (mask_slots signerMask) \<and>
    length signers = length (mask_slots signerMask) \<and> ZeroAddress \<notin> set signers \<and>
    sorted_wrt (<) (map addr_value signers) \<and> assertCanonicalSigners signers = Inr ()"
proof -
  note o = order_signers_canonical [OF assms(1,2) assms(3) [unfolded resolveClaimedSigners_def]]
  have "Inr ` set signers = validatorAtSlot block ` set (mask_slots signerMask)"
    using o(4,6) by (auto simp: image_iff)
  with o(1,2,5) show ?thesis by (simp add: canonical_signers_def)
qed

definition demo_slots :: "int \<Rightarrow> int \<Rightarrow> string result" where
  "demo_slots block slot = (if slot = 1 then Inr demo_registry else if slot = 2 then Inr demo_signer else Inr ZeroAddress)"

lemma demo_slots_canonical: "resolver_canonical sample_ethers (demo_slots b)"
  by (auto simp: resolver_canonical_def demo_slots_def split: if_splits)

lemma mask_slots_3: "mask_slots 3 = [1, 2]"
  by code_simp

lemma demo_slots_resolved: "resolveClaimedSigners sample_ethers demo_slots 3 7 = Inr [demo_signer, demo_registry]"
proof -
  have v: "addr_value demo_signer < addr_value demo_registry" "js_BigInt demo_signer = Inr (addr_value demo_signer)"
    "js_BigInt demo_registry = Inr (addr_value demo_registry)"
    by code_simp+
  have hb: "drop_bit (nat MAX_VALIDATORS) (3::int) = 0" by code_simp
  have "collect_slots sample_ethers 3 (demo_slots 7) [1..MAX_VALIDATORS] = Inr [demo_registry, demo_signer]"
    unfolding collect_slots_rmap mask_slots_3 [unfolded mask_slots_def]
    by (simp add: address_of_def demo_slots_def)
  then show ?thesis
    using v by (simp add: resolveClaimedSigners_def orderSignersFromSlotMap_def hb Let_def)
qed

theorem claimed_signers_exact_witness:
  "Inr ` set [demo_signer, demo_registry] = demo_slots 7 ` set (mask_slots 3) \<and>
    length [demo_signer, demo_registry] = length (mask_slots 3) \<and> ZeroAddress \<notin> set [demo_signer, demo_registry] \<and>
    sorted_wrt (<) (map addr_value [demo_signer, demo_registry]) \<and>
    assertCanonicalSigners [demo_signer, demo_registry] = Inr ()"
  by (rule claimed_signers_exact [OF sample_ethers_ok demo_slots_canonical demo_slots_resolved])

text \<open>the resolver succeeds on every bitmap it should accept: a 13-bit mask whose set slots hold
  pairwise different, non-zero, checksummed validators always yields a signer set.\<close>

theorem claimed_signers_total:
  assumes "ethers_ok E" "0 \<le> signerMask" "signerMask < 2 ^ 13"
    and "\<And>s. s \<in> set (mask_slots signerMask) \<Longrightarrow>
      \<exists>a. validatorAtSlot block s = Inr a \<and> a \<noteq> ZeroAddress \<and> getAddress E a = Some a"
    and "inj_on (validatorAtSlot block) (set (mask_slots signerMask))"
  shows "is_ok (resolveClaimedSigners E validatorAtSlot signerMask block)"
  using order_signers_ok [OF assms] by (auto simp: resolveClaimedSigners_def is_ok_iff)

theorem claimed_signers_total_witness: "is_ok (resolveClaimedSigners sample_ethers demo_slots 3 7)"
proof (rule claimed_signers_total [OF sample_ethers_ok])
  show "\<exists>a. demo_slots 7 s = Inr a \<and> a \<noteq> ZeroAddress \<and> getAddress sample_ethers a = Some a"
    if "s \<in> set (mask_slots 3)" for s
    using that by (auto simp: demo_slots_def mask_slots_3)
  have "demo_signer \<noteq> demo_registry" by code_simp
  then show "inj_on (demo_slots 7) (set (mask_slots 3))"
    by (auto simp: demo_slots_def mask_slots_3 inj_on_def)
qed simp_all

end
