(* ===== verification/Signer_Store.thy ===== *)
theory Signer_Store
  imports Js_Prims
begin

text \<open>
  \<^verbatim>\<open>src/modules/audit/guardian-signer-store.ts\<close>. The interface \<^verbatim>\<open>IGuardianSignerStore\<close> is the
  record \<open>store_ops\<close> of its methods, and the contract its clients rely on is the locale
  \<open>signer_store\<close>, extended by \<open>reliable_store\<close> for runs without I/O errors. The disk-backed
  \<^verbatim>\<open>LocalGuardianSignerStore\<close> works on a file system of path-indexed contents in which any
  primitive may fail: the list \<open>fs_faults\<close> says, call by call, which ones do. Its
  interpretation shows that every method is atomic on the durable view, whatever fails.

  A file holds the value its JSON text denotes (\<open>FRecord\<close>, \<open>FFailure\<close>) or plain text. Paths
  are relative to the store directory.
\<close>

section \<open>Records and the interface\<close>

record guardian_signer_record =
  gr_proposalId :: string
  gr_operator :: string
  gr_slashLevel :: int
  gr_epoch :: string
  gr_evidenceHash :: string
  gr_signerMask :: string
  gr_claimedSigners :: "string list"
  gr_executionBlock :: nat
  gr_txHash :: string
  gr_chainId :: string
  gr_commitment :: string
  gr_commitmentVerified :: bool
  gr_executionBlockTimestamp :: int

record guardian_capture_failure =
  gf_block :: nat
  gf_logIndex :: nat
  gf_txHash :: string
  gf_proposalId :: string
  gf_reason :: error
  gf_attempts :: int
  gf_parked :: bool

type_synonym path = "string list"

record 's store_ops =
  so_putVerified :: "guardian_signer_record \<Rightarrow> ('s, path) io"
  so_putUnverified :: "guardian_signer_record \<Rightarrow> ('s, path) io"
  so_hasTerminal :: "int \<Rightarrow> ('s, bool) io"
  so_getVerified :: "int \<Rightarrow> ('s, guardian_signer_record option) io"
  so_putFailure :: "guardian_capture_failure \<Rightarrow> ('s, unit) io"
  so_hasFailure :: "nat \<Rightarrow> nat \<Rightarrow> ('s, bool) io"
  so_listFailures :: "('s, guardian_capture_failure list) io"
  so_removeFailure :: "nat \<Rightarrow> nat \<Rightarrow> ('s, unit) io"
  so_readCursor :: "('s, int option) io"
  so_writeCursor :: "int \<Rightarrow> ('s, unit) io"

section \<open>The file system\<close>

datatype fcontent =
    FRecord guardian_signer_record
  | FFailure guardian_capture_failure
  | FText string

record fs =
  fs_files :: "(path \<times> fcontent) list"
  fs_faults :: "bool list"

definition fs_lookup :: "fs \<Rightarrow> path \<Rightarrow> fcontent option" where
  "fs_lookup s p = map_of (fs_files s) p"

definition fs_fault :: "(fs, unit) io" where
  "fs_fault s = (case fs_faults s of [] \<Rightarrow> (Inr (), s)
     | b # bs \<Rightarrow> (if b then Inl IoError else Inr (), s\<lparr>fs_faults := bs\<rparr>))"

definition fs_mkdir :: "(fs, unit) io" where
  "fs_mkdir = fs_fault"

text \<open>A write that fails leaves a truncated file behind, whose text is no JSON value.\<close>

definition fs_writeFile :: "path \<Rightarrow> fcontent \<Rightarrow> (fs, unit) io" where
  "fs_writeFile p c s = (case fs_fault s of
     (Inl e, s') \<Rightarrow> (Inl e, fs_files_update (AList.update p (FText [])) s')
   | (Inr _, s') \<Rightarrow> (Inr (), fs_files_update (AList.update p c) s'))"

definition fs_readFile :: "path \<Rightarrow> (fs, fcontent) io" where
  "fs_readFile p = sbind fs_fault (\<lambda>_ s. (of_option IoError (fs_lookup s p), s))"

definition fs_rename :: "path \<Rightarrow> path \<Rightarrow> (fs, unit) io" where
  "fs_rename p q = sbind (fs_readFile p) (\<lambda>c.
     smodify (fs_files_update (\<lambda>fl. AList.update q c (AList.delete p fl))))"

definition fs_access :: "path \<Rightarrow> (fs, unit) io" where
  "fs_access p = sbind (fs_readFile p) (\<lambda>_. sret ())"

definition fs_rm :: "path \<Rightarrow> (fs, unit) io" where
  "fs_rm p = sbind (fs_readFile p) (\<lambda>_. smodify (fs_files_update (AList.delete p)))"

definition fs_readdir :: "path \<Rightarrow> (fs, string list) io" where
  "fs_readdir d = sbind fs_fault (\<lambda>_ s.
     (Inr (map last (filter (\<lambda>p. p \<noteq> [] \<and> butlast p = d) (map fst (fs_files s)))), s))"

section \<open>The disk-backed store\<close>

definition tmp_path :: "path \<Rightarrow> path" where
  "tmp_path p = butlast p @ [last p @ ''.tmp'']"

definition atomicWrite :: "path \<Rightarrow> fcontent \<Rightarrow> (fs, unit) io" where
  "atomicWrite p c = sbind (fs_writeFile (tmp_path p) c) (\<lambda>_. fs_rename (tmp_path p) p)"

definition verifiedFile :: "int \<Rightarrow> path" where
  "verifiedFile proposalId = [int_to_string proposalId @ ''.json'']"

definition unverifiedFile :: "int \<Rightarrow> path" where
  "unverifiedFile proposalId = [''unverified'', int_to_string proposalId @ ''.json'']"

definition failed_name :: "nat \<Rightarrow> nat \<Rightarrow> string" where
  "failed_name block logIndex = dec_digits block @ ''-'' @ dec_digits logIndex @ ''.json''"

definition failedFile :: "nat \<Rightarrow> nat \<Rightarrow> path" where
  "failedFile block logIndex = [''failed'', failed_name block logIndex]"

definition cursorFile :: path where
  "cursorFile = [''.cursor'']"

definition putVerified :: "guardian_signer_record \<Rightarrow> (fs, path) io" where
  "putVerified r = sbind fs_mkdir (\<lambda>_. sbind (slift (js_BigInt (gr_proposalId r))) (\<lambda>p.
     sbind (atomicWrite (verifiedFile p) (FRecord r)) (\<lambda>_. sret (verifiedFile p))))"

definition putUnverified :: "guardian_signer_record \<Rightarrow> (fs, path) io" where
  "putUnverified r = sbind fs_mkdir (\<lambda>_. sbind (slift (js_BigInt (gr_proposalId r))) (\<lambda>p.
     sbind (atomicWrite (unverifiedFile p) (FRecord r)) (\<lambda>_. sret (unverifiedFile p))))"

fun any_accessible :: "path list \<Rightarrow> (fs, bool) io" where
  "any_accessible [] = sret False"
| "any_accessible (p # ps) = scatch (sbind (fs_access p) (\<lambda>_. sret True)) (\<lambda>_. any_accessible ps)"

definition hasTerminal :: "int \<Rightarrow> (fs, bool) io" where
  "hasTerminal proposalId = any_accessible [verifiedFile proposalId, unverifiedFile proposalId]"

definition getVerified :: "int \<Rightarrow> (fs, guardian_signer_record option) io" where
  "getVerified proposalId = scatch (sbind (fs_readFile (verifiedFile proposalId)) (\<lambda>c.
     case c of FRecord r \<Rightarrow> sret (Some r) | _ \<Rightarrow> sthrow IoError)) (\<lambda>_. sret None)"

definition count_verified :: "(fs, nat) io" where
  "count_verified = scatch (sbind (fs_readdir []) (\<lambda>files.
     sret (length (filter (suffix ''.json'') files)))) (\<lambda>_. sret 0)"

definition putFailure :: "guardian_capture_failure \<Rightarrow> (fs, unit) io" where
  "putFailure f = sbind fs_mkdir (\<lambda>_. atomicWrite (failedFile (gf_block f) (gf_logIndex f)) (FFailure f))"

definition hasFailure :: "nat \<Rightarrow> nat \<Rightarrow> (fs, bool) io" where
  "hasFailure block logIndex =
     scatch (sbind (fs_access (failedFile block logIndex)) (\<lambda>_. sret True)) (\<lambda>_. sret False)"

text \<open>\<^verbatim>\<open>/^(\d+)-(\d+)\.json$/.exec(f)\<close> with both groups read by \<^verbatim>\<open>parseInt\<close>.\<close>

definition parse_failed_name :: "string \<Rightarrow> (nat \<times> nat) option" where
  "parse_failed_name f = (let isd = (\<lambda>c. digit_val c \<noteq> None);
       b = takeWhile isd f; r = dropWhile isd f;
       i = takeWhile isd (tl r); e = dropWhile isd (tl r)
     in if r \<noteq> [] \<and> hd r = CHR ''-'' \<and> e = ''.json'' then
          (case (parse_nat digit_val 10 b, parse_nat digit_val 10 i) of
             (Some m, Some n) \<Rightarrow> Some (m, n) | _ \<Rightarrow> None)
        else None)"

definition corrupt_entry :: "nat \<Rightarrow> nat \<Rightarrow> guardian_capture_failure" where
  "corrupt_entry b i = \<lparr>gf_block = b, gf_logIndex = i, gf_txHash = [], gf_proposalId = [],
     gf_reason = External ''corrupt dead-letter file'', gf_attempts = 9007199254740991, gf_parked = True\<rparr>"

fun list_failures_loop :: "string list \<Rightarrow> (fs, guardian_capture_failure list) io" where
  "list_failures_loop [] = sret []"
| "list_failures_loop (f # files) =
     (if \<not> suffix ''.json'' f then list_failures_loop files
      else sbind (scatch (sbind (fs_readFile [''failed'', f]) (\<lambda>c.
                    case c of FFailure x \<Rightarrow> sret [x] | _ \<Rightarrow> sthrow IoError))
               (\<lambda>_. case parse_failed_name f of Some (b, i) \<Rightarrow> sret [corrupt_entry b i] | None \<Rightarrow> sret []))
             (\<lambda>xs. sbind (list_failures_loop files) (\<lambda>ys. sret (xs @ ys))))"

definition listFailures :: "(fs, guardian_capture_failure list) io" where
  "listFailures = sbind (scatch (fs_readdir [''failed'']) (\<lambda>_. sret [])) list_failures_loop"

definition removeFailure :: "nat \<Rightarrow> nat \<Rightarrow> (fs, unit) io" where
  "removeFailure block logIndex = scatch (fs_rm (failedFile block logIndex)) (\<lambda>_. sret ())"

definition cursor_of_text :: "string \<Rightarrow> int option" where
  "cursor_of_text raw = (case js_parseInt (trim raw) of None \<Rightarrow> None
     | Some n \<Rightarrow> if n \<ge> 0 then Some n else None)"

definition readCursor :: "(fs, int option) io" where
  "readCursor = scatch (sbind (fs_readFile cursorFile) (\<lambda>c.
     case c of FText raw \<Rightarrow> sret (cursor_of_text raw) | _ \<Rightarrow> sthrow IoError)) (\<lambda>_. sret None)"

definition writeCursor :: "int \<Rightarrow> (fs, unit) io" where
  "writeCursor block = sbind fs_mkdir (\<lambda>_. atomicWrite cursorFile (FText (int_to_string block)))"

definition local_store :: "fs store_ops" where
  "local_store = \<lparr>so_putVerified = putVerified, so_putUnverified = putUnverified,
     so_hasTerminal = hasTerminal, so_getVerified = getVerified, so_putFailure = putFailure,
     so_hasFailure = hasFailure, so_listFailures = listFailures, so_removeFailure = removeFailure,
     so_readCursor = readCursor, so_writeCursor = writeCursor\<rparr>"

lemma local_store_simps [simp]:
  "so_putVerified local_store = putVerified" "so_putUnverified local_store = putUnverified"
  "so_hasTerminal local_store = hasTerminal" "so_getVerified local_store = getVerified"
  "so_putFailure local_store = putFailure" "so_hasFailure local_store = hasFailure"
  "so_listFailures local_store = listFailures" "so_removeFailure local_store = removeFailure"
  "so_readCursor local_store = readCursor" "so_writeCursor local_store = writeCursor"
  by (simp_all add: local_store_def)

section \<open>The contract\<close>

text \<open>The durable content of a store, independent of its representation.\<close>

record store_view =
  sv_verified :: "int \<rightharpoonup> guardian_signer_record"
  sv_unverified :: "int \<rightharpoonup> guardian_signer_record"
  sv_failed :: "nat \<times> nat \<rightharpoonup> guardian_capture_failure"
  sv_cursor :: "int option"

definition terminal :: "store_view \<Rightarrow> int \<Rightarrow> bool" where
  "terminal v p \<longleftrightarrow> p \<in> dom (sv_verified v) \<or> p \<in> dom (sv_unverified v)"

abbreviation failure_key :: "guardian_capture_failure \<Rightarrow> nat \<times> nat" where
  "failure_key f \<equiv> (gf_block f, gf_logIndex f)"

text \<open>An operation that returns or throws; \<open>upd\<close> is its effect on the view when it returns.
  A read answers from the view or, after an I/O error, as if nothing were there.\<close>

definition atomic_effect :: "store_view \<Rightarrow> store_view \<Rightarrow> 'a result \<Rightarrow> (store_view \<Rightarrow> bool) \<Rightarrow> bool" where
  "atomic_effect v v' res upd \<longleftrightarrow> (case res of Inl _ \<Rightarrow> v' = v | Inr _ \<Rightarrow> upd v')"

locale signer_store =
  fixes ops :: "'s store_ops" and view :: "'s \<Rightarrow> store_view" and inv :: "'s \<Rightarrow> bool"
  assumes putVerified_inv: "inv s \<Longrightarrow> inv (snd (so_putVerified ops r s))"
    and putVerified_view: "inv s \<Longrightarrow> so_putVerified ops r s = (res, s') \<Longrightarrow>
      atomic_effect (view s) (view s') res (\<lambda>v'. \<exists>p. js_BigInt (gr_proposalId r) = Inr p \<and>
        v' = (view s)\<lparr>sv_verified := (sv_verified (view s))(p \<mapsto> r)\<rparr>)"
    and putUnverified_inv: "inv s \<Longrightarrow> inv (snd (so_putUnverified ops r s))"
    and putUnverified_view: "inv s \<Longrightarrow> so_putUnverified ops r s = (res, s') \<Longrightarrow>
      atomic_effect (view s) (view s') res (\<lambda>v'. \<exists>p. js_BigInt (gr_proposalId r) = Inr p \<and>
        v' = (view s)\<lparr>sv_unverified := (sv_unverified (view s))(p \<mapsto> r)\<rparr>)"
    and putFailure_inv: "inv s \<Longrightarrow> inv (snd (so_putFailure ops f s))"
    and putFailure_view: "inv s \<Longrightarrow> so_putFailure ops f s = (fres, s') \<Longrightarrow>
      atomic_effect (view s) (view s') fres
        (\<lambda>v'. v' = (view s)\<lparr>sv_failed := (sv_failed (view s))(failure_key f \<mapsto> f)\<rparr>)"
    and writeCursor_inv: "inv s \<Longrightarrow> inv (snd (so_writeCursor ops b s))"
    and writeCursor_view: "inv s \<Longrightarrow> so_writeCursor ops b s = (fres, s') \<Longrightarrow>
      atomic_effect (view s) (view s') fres
        (\<lambda>v'. v' = (view s)\<lparr>sv_cursor := if b \<ge> 0 then Some b else None\<rparr>)"
    and removeFailure_inv: "inv s \<Longrightarrow> inv (snd (so_removeFailure ops bl li s))"
    and removeFailure_view: "inv s \<Longrightarrow> so_removeFailure ops bl li s = (fres, s') \<Longrightarrow>
      fres = Inr () \<and> (view s' = view s \<or> view s' = (view s)\<lparr>sv_failed := (sv_failed (view s))((bl, li) := None)\<rparr>)"
    and hasTerminal_read: "inv s \<Longrightarrow> so_hasTerminal ops q s = (bres, s') \<Longrightarrow>
      inv s' \<and> view s' = view s \<and> (\<exists>b. bres = Inr b \<and> (b \<longrightarrow> terminal (view s) q))"
    and hasFailure_read: "inv s \<Longrightarrow> so_hasFailure ops bl li s = (bres, s') \<Longrightarrow>
      inv s' \<and> view s' = view s \<and> (\<exists>b. bres = Inr b \<and> (b \<longrightarrow> (bl, li) \<in> dom (sv_failed (view s))))"
    and getVerified_read: "inv s \<Longrightarrow> so_getVerified ops q s = (rres, s') \<Longrightarrow>
      inv s' \<and> view s' = view s \<and> (\<exists>x. rres = Inr x \<and> (x \<noteq> None \<longrightarrow> x = sv_verified (view s) q))"
    and listFailures_read: "inv s \<Longrightarrow> so_listFailures ops s = (lres, s') \<Longrightarrow>
      inv s' \<and> view s' = view s \<and> (\<exists>fl. lres = Inr fl \<and> (\<forall>f \<in> set fl.
        failure_key f \<in> dom (sv_failed (view s)) \<and> (\<not> gf_parked f \<longrightarrow> sv_failed (view s) (failure_key f) = Some f)))"
    and readCursor_read: "inv s \<Longrightarrow> so_readCursor ops s = (cres, s') \<Longrightarrow>
      inv s' \<and> view s' = view s \<and> (\<exists>x. cres = Inr x \<and> (x \<noteq> None \<longrightarrow> x = sv_cursor (view s)))"
    and cursor_nonneg: "inv s \<Longrightarrow> sv_cursor (view s) = Some n \<Longrightarrow> 0 \<le> n"

locale reliable_store = signer_store +
  fixes reliable :: "'s \<Rightarrow> bool"
  assumes reliable_put: "inv s \<Longrightarrow> reliable s \<Longrightarrow> js_BigInt (gr_proposalId r) = Inr p \<Longrightarrow>
      so_putVerified ops r s = (res, s') \<Longrightarrow> is_ok res \<and> reliable s'"
    and reliable_putU: "inv s \<Longrightarrow> reliable s \<Longrightarrow> js_BigInt (gr_proposalId r) = Inr p \<Longrightarrow>
      so_putUnverified ops r s = (res, s') \<Longrightarrow> is_ok res \<and> reliable s'"
    and reliable_putF: "inv s \<Longrightarrow> reliable s \<Longrightarrow> so_putFailure ops f s = (fres, s') \<Longrightarrow> is_ok fres \<and> reliable s'"
    and reliable_cursor: "inv s \<Longrightarrow> reliable s \<Longrightarrow> so_writeCursor ops b s = (fres, s') \<Longrightarrow> is_ok fres \<and> reliable s'"
    and reliable_remove: "inv s \<Longrightarrow> reliable s \<Longrightarrow> so_removeFailure ops bl li s = (fres, s') \<Longrightarrow>
      reliable s' \<and> view s' = (view s)\<lparr>sv_failed := (sv_failed (view s))((bl, li) := None)\<rparr>"
    and reliable_hasTerminal: "inv s \<Longrightarrow> reliable s \<Longrightarrow> so_hasTerminal ops q s = (bres, s') \<Longrightarrow>
      bres = Inr (terminal (view s) q) \<and> reliable s'"
    and reliable_hasFailure: "inv s \<Longrightarrow> reliable s \<Longrightarrow> so_hasFailure ops bl li s = (bres, s') \<Longrightarrow>
      bres = Inr ((bl, li) \<in> dom (sv_failed (view s))) \<and> reliable s'"
    and reliable_list: "inv s \<Longrightarrow> reliable s \<Longrightarrow> so_listFailures ops s = (lres, s') \<Longrightarrow>
      reliable s' \<and> (\<forall>k f. sv_failed (view s) k = Some f \<longrightarrow> f \<in> set (projr lres))"
    and reliable_readCursor: "inv s \<Longrightarrow> reliable s \<Longrightarrow> so_readCursor ops s = (cres, s') \<Longrightarrow>
      cres = Inr (sv_cursor (view s)) \<and> reliable s'"

section \<open>Facts about the file system\<close>

named_theorems fs_simps \<open>unfolding of the file-system primitives\<close>

lemmas fs_prim_defs [fs_simps] = fs_mkdir_def fs_writeFile_def fs_readFile_def fs_rename_def
  fs_access_def fs_rm_def fs_readdir_def

definition is_tmp :: "path \<Rightarrow> bool" where
  "is_tmp p \<longleftrightarrow> suffix ''.tmp'' (last p)"

text \<open>Two file systems that agree except on temporary files.\<close>

definition same_durable :: "fs \<Rightarrow> fs \<Rightarrow> bool" where
  "same_durable s s' \<longleftrightarrow> (\<forall>p. \<not> is_tmp p \<longrightarrow> fs_lookup s' p = fs_lookup s p)"

lemma same_durable_refl [simp]: "same_durable s s"
  by (simp add: same_durable_def)

lemma fs_fault_files: "fs_fault s = (r, s') \<Longrightarrow> fs_files s' = fs_files s"
  by (auto simp: fs_fault_def split: list.splits)

lemma fs_fault_lookup: "fs_fault s = (r, s') \<Longrightarrow> fs_lookup s' = fs_lookup s"
  by (simp add: fs_fault_files fs_lookup_def fun_eq_iff)

lemma fs_readFile_cases:
  assumes "fs_readFile p s = (r, s')"
  shows "fs_files s' = fs_files s" "fs_lookup s' = fs_lookup s" "r = Inr c \<Longrightarrow> fs_lookup s p = Some c"
proof -
  from assms show "fs_files s' = fs_files s"
    by (auto simp: fs_readFile_def sbind_def split: prod.splits sum.splits dest: fs_fault_files)
  then show l: "fs_lookup s' = fs_lookup s" by (simp add: fs_lookup_def fun_eq_iff)
  show "r = Inr c \<Longrightarrow> fs_lookup s p = Some c"
    using assms by (auto simp: fs_readFile_def sbind_def split: prod.splits sum.splits dest: fs_fault_lookup)
qed

lemma fs_readFile_reliable:
  "fs_faults s = [] \<Longrightarrow> fs_readFile p s = (of_option IoError (fs_lookup s p), s)"
  by (simp add: fs_readFile_def sbind_def fs_fault_def)

lemma suffix_last: "suffix xs ys \<Longrightarrow> xs \<noteq> [] \<Longrightarrow> last xs = last ys"
  by (auto simp: suffix_def)

lemma tmp_path_is_tmp [simp]: "is_tmp (tmp_path p)"
  by (simp add: is_tmp_def tmp_path_def suffix_def)

lemma json_not_tmp [simp]: "\<not> suffix ''.tmp'' (x @ ''.json'')"
  by (auto dest: suffix_last)

lemma paths_not_tmp [simp]:
  "\<not> is_tmp (verifiedFile p)" "\<not> is_tmp (unverifiedFile p)" "\<not> is_tmp (failedFile b i)" "\<not> is_tmp cursorFile"
  "suffix ''.json'' f \<Longrightarrow> \<not> is_tmp [''failed'', f]"
  using json_not_tmp [of "dec_digits b @ ''-'' @ dec_digits i"]
  by (auto simp: is_tmp_def verifiedFile_def unverifiedFile_def failedFile_def failed_name_def cursorFile_def suffix_def
      dest: suffix_last)

lemma cursor_name [simp]: "x @ ''.json'' \<noteq> ''.cursor''"
proof
  assume "x @ ''.json'' = ''.cursor''"
  then have "last (x @ ''.json'') = last ''.cursor''" by (rule arg_cong)
  then show False by simp
qed

lemma failed_name_json [simp]: "suffix ''.json'' (failed_name b i)"
  by (simp add: failed_name_def suffix_def)

lemma takeWhile_dec:
  "takeWhile (\<lambda>c. digit_val c \<noteq> None) (dec_digits n @ c # r) =
     dec_digits n @ takeWhile (\<lambda>c. digit_val c \<noteq> None) (c # r)"
  "dropWhile (\<lambda>c. digit_val c \<noteq> None) (dec_digits n @ c # r) = dropWhile (\<lambda>c. digit_val c \<noteq> None) (c # r)"
  using dec_digits_digit_val by (auto simp: takeWhile_append dropWhile_append)

lemma parse_failed_name_roundtrip [simp]: "parse_failed_name (failed_name b i) = Some (b, i)"
proof -
  have "digit_val CHR ''.'' = None" by (simp add: digit_val_def)
  then show ?thesis
    by (simp add: parse_failed_name_def failed_name_def Let_def takeWhile_dec del: not_None_eq)
qed

lemma failed_name_inj [simp]: "failed_name b i = failed_name b' i' \<longleftrightarrow> b = b' \<and> i = i'"
  by (metis parse_failed_name_roundtrip option.inject prod.inject)

lemma path_inj [simp]:
  "verifiedFile p = verifiedFile q \<longleftrightarrow> p = q" "unverifiedFile p = unverifiedFile q \<longleftrightarrow> p = q"
  "failedFile b i = failedFile b' i' \<longleftrightarrow> b = b' \<and> i = i'"
  "verifiedFile p \<noteq> unverifiedFile q" "unverifiedFile q \<noteq> verifiedFile p"
  "verifiedFile p \<noteq> failedFile b i" "failedFile b i \<noteq> verifiedFile p"
  "verifiedFile p \<noteq> cursorFile" "cursorFile \<noteq> verifiedFile p"
  "unverifiedFile p \<noteq> failedFile b i" "failedFile b i \<noteq> unverifiedFile p"
  "unverifiedFile p \<noteq> cursorFile" "cursorFile \<noteq> unverifiedFile p"
  "failedFile b i \<noteq> cursorFile" "cursorFile \<noteq> failedFile b i"
  by (auto simp: verifiedFile_def unverifiedFile_def failedFile_def cursorFile_def
      dest: int_to_string_inj cursor_name [symmetric, THEN notE])

definition fs_put :: "path \<Rightarrow> fcontent \<Rightarrow> fs \<Rightarrow> fs" where
  "fs_put p c s = s\<lparr>fs_files := AList.update p c (fs_files s)\<rparr>"

definition fs_del :: "path \<Rightarrow> fs \<Rightarrow> fs" where
  "fs_del p s = s\<lparr>fs_files := AList.delete p (fs_files s)\<rparr>"

lemma fs_put_lookup [simp]: "fs_lookup (fs_put p c s) q = (if q = p then Some c else fs_lookup s q)"
  by (simp add: fs_put_def fs_lookup_def update_conv')

lemma fs_del_lookup [simp]: "fs_lookup (fs_del p s) q = (if q = p then None else fs_lookup s q)"
  by (simp add: fs_del_def fs_lookup_def delete_conv')

lemma writeFile_cases:
  assumes "fs_writeFile p c s = (r, s')"
  shows "(\<exists>e. r = Inl e \<and> fs_lookup s' = fs_lookup (fs_put p (FText []) s)) \<or>
    (r = Inr () \<and> fs_lookup s' = fs_lookup (fs_put p c s))"
proof (cases "fs_fault s")
  case (Pair r1 s1)
  then have "fs_lookup s1 = fs_lookup s" "fs_files s1 = fs_files s"
    by (auto dest: fs_fault_lookup fs_fault_files)
  with Pair assms show ?thesis
    by (cases r1) (auto simp: fs_writeFile_def sbind_def fs_lookup_def fs_put_def fun_eq_iff)
qed

lemma rename_cases:
  assumes "fs_rename p q s = (r, s')"
  shows "(\<exists>e. r = Inl e \<and> fs_lookup s' = fs_lookup s) \<or>
    (\<exists>c. r = Inr () \<and> fs_lookup s p = Some c \<and> fs_lookup s' = fs_lookup (fs_put q c (fs_del p s)))"
proof (cases "fs_readFile p s")
  case (Pair r1 s1)
  note c = fs_readFile_cases [OF Pair]
  show ?thesis
  proof (cases r1)
    case (Inl e)
    with Pair assms c show ?thesis by (auto simp: fs_rename_def sbind_def)
  next
    case (Inr x)
    with Pair assms c show ?thesis
      by (auto simp: fs_rename_def sbind_def fs_lookup_def fs_put_def fs_del_def fun_eq_iff)
  qed
qed

lemma atomicWrite_cases:
  assumes "atomicWrite p c s = (r, s')" "\<not> is_tmp p"
  shows "(\<exists>e. r = Inl e \<and> same_durable s s') \<or> (r = Inr () \<and> same_durable (fs_put p c s) s')"
proof (cases "fs_writeFile (tmp_path p) c s")
  case (Pair r1 s1)
  have np: "p \<noteq> tmp_path p" using assms(2) tmp_path_is_tmp by metis
  from writeFile_cases [OF Pair] consider e where "r1 = Inl e" "fs_lookup s1 = fs_lookup (fs_put (tmp_path p) (FText []) s)"
    | "r1 = Inr ()" "fs_lookup s1 = fs_lookup (fs_put (tmp_path p) c s)" by blast
  then show ?thesis
  proof cases
    case 1
    with Pair assms show ?thesis by (auto simp: atomicWrite_def sbind_def same_durable_def)
  next
    case 2
    then have ren: "fs_rename (tmp_path p) p s1 = (r, s')"
      using Pair assms by (simp add: atomicWrite_def sbind_def)
    have s1: "same_durable s s1" using 2 by (auto simp: same_durable_def)
    from rename_cases [OF ren] consider e where "r = Inl e" "fs_lookup s' = fs_lookup s1"
      | c' where "r = Inr ()" "fs_lookup s1 (tmp_path p) = Some c'"
        "fs_lookup s' = fs_lookup (fs_put p c' (fs_del (tmp_path p) s1))" by blast
    then show ?thesis
    proof cases
      case 1
      with s1 show ?thesis by (simp add: same_durable_def)
    next
      case r: 2
      have "c' = c" using r(2) 2(2) by simp
      with r s1 show ?thesis by (auto simp: same_durable_def)
    qed
  qed
qed

lemma atomicWrite_reliable:
  assumes "fs_faults s = []"
  shows "\<exists>s'. atomicWrite p c s = (Inr (), s') \<and> fs_faults s' = []"
  using assms
  by (simp add: atomicWrite_def fs_writeFile_def fs_rename_def sbind_def fs_fault_def fs_readFile_def
      fs_lookup_def update_conv')

lemma fs_mkdir_cases:
  "fs_mkdir s = (r, s') \<Longrightarrow> fs_lookup s' = fs_lookup s \<and> (fs_faults s = [] \<longrightarrow> r = Inr () \<and> s' = s)"
  by (auto simp: fs_mkdir_def fs_fault_def fs_lookup_def fun_eq_iff split: list.splits)

section \<open>The disk-backed store meets the contract\<close>

definition fs_view :: "fs \<Rightarrow> store_view" where
  "fs_view s = \<lparr>
     sv_verified = (\<lambda>p. case fs_lookup s (verifiedFile p) of Some (FRecord r) \<Rightarrow> Some r | _ \<Rightarrow> None),
     sv_unverified = (\<lambda>p. case fs_lookup s (unverifiedFile p) of Some (FRecord r) \<Rightarrow> Some r | _ \<Rightarrow> None),
     sv_failed = (\<lambda>k. case fs_lookup s (failedFile (fst k) (snd k)) of Some (FFailure f) \<Rightarrow> Some f | _ \<Rightarrow> None),
     sv_cursor = (case fs_lookup s cursorFile of Some (FText raw) \<Rightarrow> cursor_of_text raw | _ \<Rightarrow> None)\<rparr>"

definition fs_inv :: "fs \<Rightarrow> bool" where
  "fs_inv s \<longleftrightarrow>
     (\<forall>p c. fs_lookup s (verifiedFile p) = Some c \<longrightarrow> (\<exists>r. c = FRecord r)) \<and>
     (\<forall>p c. fs_lookup s (unverifiedFile p) = Some c \<longrightarrow> (\<exists>r. c = FRecord r)) \<and>
     (\<forall>n c. suffix ''.json'' n \<longrightarrow> fs_lookup s [''failed'', n] = Some c \<longrightarrow>
        (\<exists>f. c = FFailure f \<and> n = failed_name (gf_block f) (gf_logIndex f)))"

lemma fs_inv_failed: "fs_inv s \<Longrightarrow> suffix ''.json'' n \<Longrightarrow> fs_lookup s [''failed'', n] = Some c \<Longrightarrow>
    \<exists>f. c = FFailure f \<and> n = failed_name (gf_block f) (gf_logIndex f)"
  unfolding fs_inv_def by blast

lemma fs_lookup_eq:
  assumes "fs_lookup s' = fs_lookup s" shows "fs_inv s' = fs_inv s" "fs_view s' = fs_view s"
  using assms by (simp_all add: fs_inv_def fs_view_def)

lemma fs_view_durable: "same_durable s s' \<Longrightarrow> fs_view s' = fs_view s"
  by (simp add: same_durable_def fs_view_def)

lemma fs_inv_durable: "same_durable s s' \<Longrightarrow> fs_inv s \<Longrightarrow> fs_inv s'"
  by (simp add: same_durable_def fs_inv_def)

lemma durable_lookup: "fs_lookup s' = fs_lookup s \<Longrightarrow> same_durable s s'"
  by (simp add: same_durable_def)

lemma cursor_roundtrip: "cursor_of_text (int_to_string b) = (if b \<ge> 0 then Some b else None)"
proof (cases "b \<ge> 0")
  case True
  then show ?thesis by (simp add: cursor_of_text_def parseInt_toString)
next
  case False
  have tw: "takeWhile (\<lambda>c. digit_val c \<noteq> None) (dec_digits m) = dec_digits m" for m
    using dec_digits_digit_val by (simp add: takeWhile_eq_all_conv)
  have "\<not> is_ws CHR ''-''" by (simp add: is_ws_def)
  then show ?thesis
    using False by (simp add: cursor_of_text_def int_to_string_def js_parseInt_def Let_def tw del: not_None_eq)
qed

lemma fs_put_view:
  "fs_view (fs_put (verifiedFile p) (FRecord r) s) = (fs_view s)\<lparr>sv_verified := (sv_verified (fs_view s))(p \<mapsto> r)\<rparr>"
  "fs_view (fs_put (unverifiedFile p) (FRecord r) s) = (fs_view s)\<lparr>sv_unverified := (sv_unverified (fs_view s))(p \<mapsto> r)\<rparr>"
  "fs_view (fs_put (failedFile (gf_block f) (gf_logIndex f)) (FFailure f) s) =
     (fs_view s)\<lparr>sv_failed := (sv_failed (fs_view s))(failure_key f \<mapsto> f)\<rparr>"
  "fs_view (fs_put cursorFile (FText (int_to_string b)) s) =
     (fs_view s)\<lparr>sv_cursor := if b \<ge> 0 then Some b else None\<rparr>"
  by (auto simp: fs_view_def fun_eq_iff cursor_roundtrip)

lemma failed_path: "[''failed'', n] = failedFile b i \<longleftrightarrow> n = failed_name b i"
  "[''failed'', n] \<noteq> verifiedFile p" "[''failed'', n] \<noteq> unverifiedFile p" "[''failed'', n] \<noteq> cursorFile"
  by (auto simp: failedFile_def verifiedFile_def unverifiedFile_def cursorFile_def)

lemma fs_put_inv:
  "fs_inv s \<Longrightarrow> fs_inv (fs_put (verifiedFile p) (FRecord r) s)"
  "fs_inv s \<Longrightarrow> fs_inv (fs_put (unverifiedFile p) (FRecord r) s)"
  "fs_inv s \<Longrightarrow> fs_inv (fs_put (failedFile (gf_block f) (gf_logIndex f)) (FFailure f) s)"
  "fs_inv s \<Longrightarrow> fs_inv (fs_put cursorFile (FText t) s)"
  by (simp_all add: fs_inv_def failed_path)

lemma mkdir_write_cases:
  assumes "sbind fs_mkdir (\<lambda>_. atomicWrite p c) s = (r, s')" "\<not> is_tmp p"
  shows "(\<exists>e. r = Inl e \<and> same_durable s s') \<or> (r = Inr () \<and> same_durable (fs_put p c s) s')"
proof (cases "fs_mkdir s")
  case (Pair r1 s1)
  then have l: "fs_lookup s1 = fs_lookup s" by (auto dest: fs_mkdir_cases)
  show ?thesis
  proof (cases r1)
    case (Inl e)
    with Pair assms l show ?thesis by (auto simp: sbind_def durable_lookup)
  next
    case (Inr u)
    with Pair assms have "atomicWrite p c s1 = (r, s')" by (simp add: sbind_def)
    from atomicWrite_cases [OF this assms(2)] l show ?thesis by (auto simp: same_durable_def)
  qed
qed

lemma put_record_cases:
  assumes "sbind fs_mkdir (\<lambda>_. sbind (slift n) (\<lambda>p. sbind (atomicWrite (path_of p) c) (\<lambda>_. sret (path_of p)))) s = (r, s')"
    and "\<And>p. \<not> is_tmp (path_of p)"
  shows "(\<exists>e. r = Inl e \<and> same_durable s s') \<or>
    (\<exists>p. n = Inr p \<and> r = Inr (path_of p) \<and> same_durable (fs_put (path_of p) c s) s')"
proof (cases "fs_mkdir s")
  case (Pair r1 s1)
  then have l: "fs_lookup s1 = fs_lookup s" by (auto dest: fs_mkdir_cases)
  show ?thesis
  proof (cases "\<exists>p u. n = Inr p \<and> r1 = Inr u")
    case False
    with Pair assms(1) l show ?thesis
      by (cases r1; cases n) (auto simp: sbind_def durable_lookup)
  next
    case True
    then obtain p u where n: "n = Inr p" "r1 = Inr u" by blast
    obtain r2 s2 where w: "atomicWrite (path_of p) c s1 = (r2, s2)" by fastforce
    with Pair assms(1) n have "s' = s2" "r = (case r2 of Inl e \<Rightarrow> Inl e | Inr _ \<Rightarrow> Inr (path_of p))"
      by (auto simp: sbind_def split: sum.splits)
    with atomicWrite_cases [OF w assms(2)] l n show ?thesis by (auto simp: same_durable_def)
  qed
qed

lemma access_cases:
  "fs_access p s = (r, s') \<Longrightarrow> fs_lookup s' = fs_lookup s \<and> (\<forall>u. r = Inr u \<longrightarrow> fs_lookup s p \<noteq> None)"
  by (cases "fs_readFile p s") (auto simp: fs_access_def sbind_def split: sum.splits dest: fs_readFile_cases)

lemma any_accessible_cases:
  "any_accessible ps s = (r, s') \<Longrightarrow>
   fs_lookup s' = fs_lookup s \<and> (\<exists>b. r = Inr b \<and> (b \<longrightarrow> (\<exists>p \<in> set ps. fs_lookup s p \<noteq> None)))"
proof (induction ps arbitrary: s)
  case (Cons p ps)
  obtain r1 s1 where a: "fs_access p s = (r1, s1)" by fastforce
  with Cons show ?case
    by (cases r1) (fastforce simp: scatch_def sbind_def dest: access_cases)+
qed auto

lemma any_accessible_reliable:
  "fs_faults s = [] \<Longrightarrow> any_accessible ps s = (Inr (\<exists>p \<in> set ps. fs_lookup s p \<noteq> None), s)"
  by (induction ps) (auto simp: scatch_def sbind_def fs_access_def fs_readFile_reliable of_option_def split: option.splits)

lemma hasFailure_any: "hasFailure b i = any_accessible [failedFile b i]"
  by (simp add: hasFailure_def)

lemma fs_view_terminal: "fs_inv s \<Longrightarrow>
    terminal (fs_view s) q \<longleftrightarrow> fs_lookup s (verifiedFile q) \<noteq> None \<or> fs_lookup s (unverifiedFile q) \<noteq> None"
  by (fastforce simp: terminal_def fs_view_def fs_inv_def dom_def split: option.splits fcontent.splits)

lemma fs_view_failed: "fs_inv s \<Longrightarrow> (b, i) \<in> dom (sv_failed (fs_view s)) \<longleftrightarrow> fs_lookup s (failedFile b i) \<noteq> None"
  using fs_inv_failed [of s "failed_name b i"]
  by (fastforce simp: fs_view_def failedFile_def dom_def split: option.splits fcontent.splits)

lemma list_failures_loop_cases:
  assumes "fs_inv s" "\<forall>n \<in> set names. suffix ''.json'' n \<longrightarrow> fs_lookup s [''failed'', n] \<noteq> None"
    "list_failures_loop names s = (r, s')"
  shows "fs_lookup s' = fs_lookup s \<and> (\<exists>fl. r = Inr fl \<and> (\<forall>f \<in> set fl.
     failure_key f \<in> dom (sv_failed (fs_view s)) \<and> (\<not> gf_parked f \<longrightarrow> sv_failed (fs_view s) (failure_key f) = Some f)))"
  using assms
proof (induction names arbitrary: s r s')
  case (Cons n names)
  show ?case
  proof (cases "suffix ''.json'' n")
    case False
    with Cons show ?thesis by auto
  next
    case True
    then obtain f where f: "fs_lookup s [''failed'', n] = Some (FFailure f)" "n = failed_name (gf_block f) (gf_logIndex f)"
      using Cons.prems(1,2) fs_inv_failed [OF Cons.prems(1) True] by auto
    then have vf: "sv_failed (fs_view s) (failure_key f) = Some f"
      by (simp add: fs_view_def failedFile_def)
    obtain r1 s1 where rd: "fs_readFile [''failed'', n] s = (r1, s1)" by fastforce
    note rc = fs_readFile_cases [OF rd]
    obtain r2 s2 where lp: "list_failures_loop names s1 = (r2, s2)" by fastforce
    have same: "fs_inv s1" "fs_view s1 = fs_view s"
      using fs_lookup_eq [OF rc(2)] Cons.prems(1) by simp_all
    then obtain fl where fl: "fs_lookup s2 = fs_lookup s" "r2 = Inr fl" "\<forall>f \<in> set fl.
        failure_key f \<in> dom (sv_failed (fs_view s)) \<and> (\<not> gf_parked f \<longrightarrow> sv_failed (fs_view s) (failure_key f) = Some f)"
      using Cons.IH [OF same(1) _ lp] Cons.prems(2) rc(2) by auto
    have "s' = s2 \<and> (r = Inr (f # fl) \<or> r = Inr (corrupt_entry (gf_block f) (gf_logIndex f) # fl))"
      using Cons.prems(3) True rd lp fl(2) f rc(3)
      by (cases r1) (auto simp: sbind_def scatch_def)
    with fl vf show ?thesis by (auto simp: corrupt_entry_def)
  qed
qed auto

lemma readdir_cases:
  assumes "fs_readdir [''failed''] s = (r, s')"
  shows "fs_lookup s' = fs_lookup s \<and> (\<forall>ns. r = Inr ns \<longrightarrow> set ns = {n. fs_lookup s [''failed'', n] \<noteq> None})"
proof -
  have "n \<in> last ` {p \<in> fst ` set (fs_files s). p \<noteq> [] \<and> butlast p = [''failed'']} \<longleftrightarrow>
      [''failed'', n] \<in> fst ` set (fs_files s)" for n
  proof
    assume "n \<in> last ` {p \<in> fst ` set (fs_files s). p \<noteq> [] \<and> butlast p = [''failed'']}"
    then obtain p where "p \<in> fst ` set (fs_files s)" "p \<noteq> []" "butlast p = [''failed'']" "n = last p" by auto
    then show "[''failed'', n] \<in> fst ` set (fs_files s)" by (metis append_butlast_last_id append_Cons append_Nil)
  next
    assume "[''failed'', n] \<in> fst ` set (fs_files s)"
    then show "n \<in> last ` {p \<in> fst ` set (fs_files s). p \<noteq> [] \<and> butlast p = [''failed'']}"
      by (intro image_eqI [of _ _ "[''failed'', n]"]) auto
  qed
  then have "last ` {p \<in> fst ` set (fs_files s). p \<noteq> [] \<and> butlast p = [''failed'']} =
      {n. fs_lookup s [''failed'', n] \<noteq> None}"
    by (auto simp: fs_lookup_def map_of_eq_None_iff)
  with assms show ?thesis
    by (cases "fs_fault s")
      (auto simp: fs_readdir_def sbind_def split: sum.splits dest: fs_fault_lookup fs_fault_files)
qed

lemma listFailures_cases:
  assumes "fs_inv s" "listFailures s = (r, s')"
  shows "fs_lookup s' = fs_lookup s \<and> (\<exists>fl. r = Inr fl \<and> (\<forall>f \<in> set fl.
     failure_key f \<in> dom (sv_failed (fs_view s)) \<and> (\<not> gf_parked f \<longrightarrow> sv_failed (fs_view s) (failure_key f) = Some f)))"
proof (cases "fs_readdir [''failed''] s")
  case (Pair r1 s1)
  note rd = readdir_cases [OF Pair]
  then have same: "fs_inv s1" "fs_view s1 = fs_view s"
    using assms(1) fs_lookup_eq [of s1 s] by simp_all
  obtain ns where ns: "list_failures_loop ns s1 = (r, s')" "\<forall>n \<in> set ns. fs_lookup s1 [''failed'', n] \<noteq> None"
  proof (cases r1)
    case (Inl e)
    with assms(2) Pair have "list_failures_loop [] s1 = (r, s')"
      by (simp add: listFailures_def sbind_def scatch_def)
    then show ?thesis by (rule that) simp
  next
    case (Inr ns)
    with assms(2) Pair have "list_failures_loop ns s1 = (r, s')"
      by (simp add: listFailures_def sbind_def scatch_def)
    then show ?thesis using Inr rd by (auto intro: that)
  qed
  from list_failures_loop_cases [OF same(1) _ ns(1)] ns(2) rd same(2) show ?thesis by simp
qed

text \<open>One lemma per method: what it does to the view, then the two interpretations.\<close>

lemma putVerified_effect:
  assumes "fs_inv s" "putVerified r s = (res, s')"
  shows "fs_inv s'" "atomic_effect (fs_view s) (fs_view s') res (\<lambda>v'. \<exists>p. js_BigInt (gr_proposalId r) = Inr p \<and>
        v' = (fs_view s)\<lparr>sv_verified := (sv_verified (fs_view s))(p \<mapsto> r)\<rparr>)"
  using put_record_cases [OF assms(2) [unfolded putVerified_def]] assms(1)
  by (auto simp: atomic_effect_def fs_view_durable fs_put_view fs_put_inv intro: fs_inv_durable)

lemma putUnverified_effect:
  assumes "fs_inv s" "putUnverified r s = (res, s')"
  shows "fs_inv s'" "atomic_effect (fs_view s) (fs_view s') res (\<lambda>v'. \<exists>p. js_BigInt (gr_proposalId r) = Inr p \<and>
        v' = (fs_view s)\<lparr>sv_unverified := (sv_unverified (fs_view s))(p \<mapsto> r)\<rparr>)"
  using put_record_cases [OF assms(2) [unfolded putUnverified_def]] assms(1)
  by (auto simp: atomic_effect_def fs_view_durable fs_put_view fs_put_inv intro: fs_inv_durable)

lemma putFailure_effect:
  assumes "fs_inv s" "putFailure f s = (res, s')"
  shows "fs_inv s'" "atomic_effect (fs_view s) (fs_view s') res
        (\<lambda>v'. v' = (fs_view s)\<lparr>sv_failed := (sv_failed (fs_view s))(failure_key f \<mapsto> f)\<rparr>)"
  using mkdir_write_cases [OF assms(2) [unfolded putFailure_def]] assms(1)
  by (auto simp: atomic_effect_def fs_view_durable fs_put_view fs_put_inv intro: fs_inv_durable)

lemma writeCursor_effect:
  assumes "fs_inv s" "writeCursor b s = (res, s')"
  shows "fs_inv s'" "atomic_effect (fs_view s) (fs_view s') res
        (\<lambda>v'. v' = (fs_view s)\<lparr>sv_cursor := if b \<ge> 0 then Some b else None\<rparr>)"
  using mkdir_write_cases [OF assms(2) [unfolded writeCursor_def]] assms(1)
  by (auto simp: atomic_effect_def fs_view_durable fs_put_view fs_put_inv intro: fs_inv_durable)

lemma fs_del_view:
  "fs_view (fs_del (failedFile b i) s) = (fs_view s)\<lparr>sv_failed := (sv_failed (fs_view s))((b, i) := None)\<rparr>"
  by (auto simp: fs_view_def fun_eq_iff)

lemma fs_del_inv: "fs_inv s \<Longrightarrow> fs_inv (fs_del p s)"
  by (simp add: fs_inv_def)

lemma removeFailure_cases:
  assumes "removeFailure b i s = (res, s')"
  shows "res = Inr ()" "fs_lookup s' = fs_lookup s \<or> fs_lookup s' = fs_lookup (fs_del (failedFile b i) s)"
    "fs_faults s = [] \<Longrightarrow> fs_lookup s' = fs_lookup (fs_del (failedFile b i) s) \<and> fs_faults s' = []"
proof -
  obtain r1 s1 where rd: "fs_readFile (failedFile b i) s = (r1, s1)" by fastforce
  note rc = fs_readFile_cases [OF rd]
  show "res = Inr ()" "fs_lookup s' = fs_lookup s \<or> fs_lookup s' = fs_lookup (fs_del (failedFile b i) s)"
    using assms rd rc
    by (cases r1; auto simp: removeFailure_def scatch_def fs_rm_def sbind_def fs_lookup_def fs_del_def fun_eq_iff)+
  assume nf: "fs_faults s = []"
  have "s1 = s" "r1 = of_option IoError (fs_lookup s (failedFile b i))"
    using rd by (auto simp: fs_readFile_reliable [OF nf])
  then show "fs_lookup s' = fs_lookup (fs_del (failedFile b i) s) \<and> fs_faults s' = []"
    using assms rd nf
    by (cases "fs_lookup s (failedFile b i)")
      (auto simp: removeFailure_def scatch_def fs_rm_def sbind_def fs_lookup_def fs_del_def fun_eq_iff delete_conv')
qed

lemma removeFailure_effect:
  assumes "fs_inv s" "removeFailure b i s = (res, s')"
  shows "fs_inv s'" "res = Inr () \<and> (fs_view s' = fs_view s \<or>
     fs_view s' = (fs_view s)\<lparr>sv_failed := (sv_failed (fs_view s))((b, i) := None)\<rparr>)"
proof -
  from removeFailure_cases(2) [OF assms(2)]
  have "fs_inv s' \<and> (fs_view s' = fs_view s \<or> fs_view s' = fs_view (fs_del (failedFile b i) s))"
  proof
    assume l: "fs_lookup s' = fs_lookup s"
    show ?thesis using fs_lookup_eq [OF l] assms(1) by simp
  next
    assume l: "fs_lookup s' = fs_lookup (fs_del (failedFile b i) s)"
    show ?thesis using fs_lookup_eq [OF l] fs_del_inv [OF assms(1)] by simp
  qed
  then show "fs_inv s'" "res = Inr () \<and> (fs_view s' = fs_view s \<or>
     fs_view s' = (fs_view s)\<lparr>sv_failed := (sv_failed (fs_view s))((b, i) := None)\<rparr>)"
    using removeFailure_cases(1) [OF assms(2)] by (simp_all add: fs_del_view)
qed

lemma readFile_catch_cases:
  assumes "scatch (sbind (fs_readFile p) (\<lambda>c. case g c of None \<Rightarrow> sthrow IoError | Some x \<Rightarrow> sret x)) (\<lambda>_. sret d) s = (r, s')"
  shows "fs_lookup s' = fs_lookup s" "r = Inr d \<or> (\<exists>c x. fs_lookup s p = Some c \<and> g c = Some x \<and> r = Inr x)"
    "fs_faults s = [] \<Longrightarrow> s' = s \<and> r = Inr (case Option.bind (fs_lookup s p) g of None \<Rightarrow> d | Some x \<Rightarrow> x)"
proof -
  obtain r1 s1 where rd: "fs_readFile p s = (r1, s1)" by fastforce
  note rc = fs_readFile_cases [OF rd]
  show "fs_lookup s' = fs_lookup s" "r = Inr d \<or> (\<exists>c x. fs_lookup s p = Some c \<and> g c = Some x \<and> r = Inr x)"
    using assms rd rc by (cases r1; auto simp: scatch_def sbind_def split: option.splits)+
  assume "fs_faults s = []"
  with assms show "s' = s \<and> r = Inr (case Option.bind (fs_lookup s p) g of None \<Rightarrow> d | Some x \<Rightarrow> x)"
    by (cases "fs_lookup s p") (auto simp: scatch_def sbind_def fs_readFile_reliable split: option.splits)
qed

lemma readCursor_as_catch:
  "readCursor = scatch (sbind (fs_readFile cursorFile) (\<lambda>c.
     case (case c of FText raw \<Rightarrow> Some (cursor_of_text raw) | _ \<Rightarrow> None) of None \<Rightarrow> sthrow IoError | Some x \<Rightarrow> sret x))
     (\<lambda>_. sret None)"
proof -
  have "(\<lambda>c. case c of FText raw \<Rightarrow> sret (cursor_of_text raw) | _ \<Rightarrow> (sthrow IoError :: (fs, int option) io)) =
     (\<lambda>c. case (case c of FText raw \<Rightarrow> Some (cursor_of_text raw) | _ \<Rightarrow> None) of None \<Rightarrow> sthrow IoError | Some x \<Rightarrow> sret x)"
    by (auto simp: fun_eq_iff split: fcontent.splits)
  then show ?thesis by (simp add: readCursor_def)
qed

lemma getVerified_as_catch:
  "getVerified q = scatch (sbind (fs_readFile (verifiedFile q)) (\<lambda>c.
     case (case c of FRecord r \<Rightarrow> Some (Some r) | _ \<Rightarrow> None) of None \<Rightarrow> sthrow IoError | Some x \<Rightarrow> sret x))
     (\<lambda>_. sret None)"
proof -
  have "(\<lambda>c. case c of FRecord r \<Rightarrow> sret (Some r) | _ \<Rightarrow> (sthrow IoError :: (fs, guardian_signer_record option) io)) =
     (\<lambda>c. case (case c of FRecord r \<Rightarrow> Some (Some r) | _ \<Rightarrow> None) of None \<Rightarrow> sthrow IoError | Some x \<Rightarrow> sret x)"
    by (auto simp: fun_eq_iff split: fcontent.splits)
  then show ?thesis by (simp add: getVerified_def)
qed

lemma readCursor_cases:
  assumes "readCursor s = (r, s')"
  shows "fs_lookup s' = fs_lookup s" "\<exists>x. r = Inr x \<and> (x \<noteq> None \<longrightarrow> x = sv_cursor (fs_view s))"
    "fs_faults s = [] \<Longrightarrow> r = Inr (sv_cursor (fs_view s)) \<and> s' = s"
proof -
  note c = readFile_catch_cases [OF assms [unfolded readCursor_as_catch]]
  show "fs_lookup s' = fs_lookup s" by (rule c(1))
  from c(2) show "\<exists>x. r = Inr x \<and> (x \<noteq> None \<longrightarrow> x = sv_cursor (fs_view s))"
  proof (elim disjE exE conjE)
    fix k x assume "fs_lookup s cursorFile = Some k"
      "(case k of FText raw \<Rightarrow> Some (cursor_of_text raw) | _ \<Rightarrow> None) = Some x" "r = Inr x"
    then show ?thesis by (cases k) (auto simp: fs_view_def)
  qed simp
  show "fs_faults s = [] \<Longrightarrow> r = Inr (sv_cursor (fs_view s)) \<and> s' = s"
    using c(3) by (cases "fs_lookup s cursorFile") (auto simp: fs_view_def split: fcontent.splits)
qed

lemma getVerified_cases:
  assumes "getVerified q s = (r, s')"
  shows "fs_lookup s' = fs_lookup s" "\<exists>x. r = Inr x \<and> (x \<noteq> None \<longrightarrow> x = sv_verified (fs_view s) q)"
proof -
  note c = readFile_catch_cases(1,2) [OF assms [unfolded getVerified_as_catch]]
  show "fs_lookup s' = fs_lookup s" by (rule c(1))
  from c(2) show "\<exists>x. r = Inr x \<and> (x \<noteq> None \<longrightarrow> x = sv_verified (fs_view s) q)"
  proof (elim disjE exE conjE)
    fix k x assume "fs_lookup s (verifiedFile q) = Some k"
      "(case k of FRecord r \<Rightarrow> Some (Some r) | _ \<Rightarrow> None) = Some x" "r = Inr x"
    then show ?thesis by (cases k) (auto simp: fs_view_def)
  qed simp
qed

lemma list_failures_loop_reliable:
  assumes "fs_faults s = []"
  shows "\<exists>fl. list_failures_loop ns s = (Inr fl, s) \<and>
    (\<forall>n f. n \<in> set ns \<longrightarrow> suffix ''.json'' n \<longrightarrow> fs_lookup s [''failed'', n] = Some (FFailure f) \<longrightarrow> f \<in> set fl)"
proof (induction ns)
  case (Cons n ns)
  then obtain fl where fl: "list_failures_loop ns s = (Inr fl, s)"
    "\<forall>n f. n \<in> set ns \<longrightarrow> suffix ''.json'' n \<longrightarrow> fs_lookup s [''failed'', n] = Some (FFailure f) \<longrightarrow> f \<in> set fl"
    by blast
  show ?case
  proof (cases "fs_lookup s [''failed'', n]")
    case None
    with fl assms show ?thesis
      by (cases "parse_failed_name n") (auto simp: sbind_def scatch_def fs_readFile_reliable)
  next
    case (Some c)
    with fl assms show ?thesis
      by (cases c; cases "parse_failed_name n") (auto simp: sbind_def scatch_def fs_readFile_reliable)
  qed
qed auto

lemma listFailures_reliable:
  assumes "fs_inv s" "fs_faults s = []" "listFailures s = (r, s')"
  shows "s' = s" "\<forall>k f. sv_failed (fs_view s) k = Some f \<longrightarrow> f \<in> set (projr r)"
proof -
  obtain r1 s1 where rd: "fs_readdir [''failed''] s = (r1, s1)" by fastforce
  with assms(2) obtain ns where ns: "s1 = s" "r1 = Inr ns"
    by (auto simp: fs_readdir_def sbind_def fs_fault_def)
  then have mem: "set ns = {n. fs_lookup s [''failed'', n] \<noteq> None}" using readdir_cases [OF rd] by simp
  obtain fl where fl: "list_failures_loop ns s = (Inr fl, s)"
    "\<forall>n f. n \<in> set ns \<longrightarrow> suffix ''.json'' n \<longrightarrow> fs_lookup s [''failed'', n] = Some (FFailure f) \<longrightarrow> f \<in> set fl"
    using list_failures_loop_reliable [OF assms(2)] by blast
  have res: "s' = s" "r = Inr fl" using assms(3) rd ns fl(1) by (simp_all add: listFailures_def sbind_def scatch_def)
  show "s' = s" by (rule res)
  show "\<forall>k f. sv_failed (fs_view s) k = Some f \<longrightarrow> f \<in> set (projr r)"
  proof (intro allI impI)
    fix k f assume "sv_failed (fs_view s) k = Some f"
    then have l: "fs_lookup s [''failed'', failed_name (fst k) (snd k)] = Some (FFailure f)"
      by (auto simp: fs_view_def failedFile_def split: option.splits fcontent.splits)
    then have "failed_name (fst k) (snd k) \<in> set ns" using mem by simp
    then have "f \<in> set fl" using fl(2) l failed_name_json by blast
    then show "f \<in> set (projr r)" using res(2) by simp
  qed
qed

lemma snd_of: "(\<And>r s'. m s = (r, s') \<Longrightarrow> P s') \<Longrightarrow> P (snd (m s))"
  by (cases "m s") simp

interpretation ls: signer_store local_store fs_view fs_inv
proof (unfold_locales, goal_cases)
  case (1 s r) show ?case by (rule snd_of, rule putVerified_effect(1) [OF 1]) simp
next
  case (2 s r res s') then show ?case using putVerified_effect(2) by simp
next
  case (3 s r) show ?case by (rule snd_of, rule putUnverified_effect(1) [OF 3]) simp
next
  case (4 s r res s') then show ?case using putUnverified_effect(2) by simp
next
  case (5 s f) show ?case by (rule snd_of, rule putFailure_effect(1) [OF 5]) simp
next
  case (6 s f res s') then show ?case using putFailure_effect(2) by simp
next
  case (7 s b) show ?case by (rule snd_of, rule writeCursor_effect(1) [OF 7]) simp
next
  case (8 s b res s') then show ?case using writeCursor_effect(2) [of s b res s'] by simp
next
  case (9 s bl li) show ?case by (rule snd_of, rule removeFailure_effect(1) [OF 9]) simp
next
  case (10 s bl li res s') then show ?case using removeFailure_effect(2) [of s bl li res s'] by simp
next
  case (11 s q bres s')
  then show ?case
    using any_accessible_cases [of "[verifiedFile q, unverifiedFile q]" s bres s'] fs_lookup_eq [of s' s]
    by (auto simp: hasTerminal_def fs_view_terminal simp del: any_accessible.simps)
next
  case (12 s bl li bres s')
  then show ?case
    using any_accessible_cases [of "[failedFile bl li]" s bres s'] fs_lookup_eq [of s' s]
    by (auto simp: hasFailure_any fs_view_failed simp del: any_accessible.simps domIff)
next
  case (13 s q rres s')
  then show ?case using getVerified_cases [of q s rres s'] fs_lookup_eq [of s' s] by simp
next
  case (14 s lres s')
  then show ?case using listFailures_cases [of s lres s'] fs_lookup_eq [of s' s] by simp
next
  case (15 s cres s')
  then show ?case using readCursor_cases(1,2) [of s cres s'] fs_lookup_eq [of s' s] by simp
next
  case (16 s n)
  then show ?case
    by (auto simp: fs_view_def cursor_of_text_def split: option.splits fcontent.splits if_splits)
qed

lemma hasTerminal_reliable:
  "fs_inv s \<Longrightarrow> fs_faults s = [] \<Longrightarrow> hasTerminal q s = (Inr (terminal (fs_view s) q), s)"
  unfolding hasTerminal_def by (simp only: any_accessible_reliable fs_view_terminal) auto

lemma hasFailure_reliable:
  "fs_inv s \<Longrightarrow> fs_faults s = [] \<Longrightarrow> hasFailure b i s = (Inr ((b, i) \<in> dom (sv_failed (fs_view s))), s)"
  unfolding hasFailure_any by (simp only: any_accessible_reliable fs_view_failed) auto

lemma put_record_reliable:
  assumes "fs_faults s = []" "js_BigInt (gr_proposalId r) = Inr p"
  shows "is_ok (fst (putVerified r s)) \<and> fs_faults (snd (putVerified r s)) = []"
    "is_ok (fst (putUnverified r s)) \<and> fs_faults (snd (putUnverified r s)) = []"
  using assms atomicWrite_reliable [OF assms(1), of "verifiedFile p" "FRecord r"]
    atomicWrite_reliable [OF assms(1), of "unverifiedFile p" "FRecord r"]
  by (auto simp: putVerified_def putUnverified_def sbind_def fs_mkdir_def fs_fault_def)

lemma mkdir_write_reliable:
  assumes "fs_faults s = []"
  shows "is_ok (fst (sbind fs_mkdir (\<lambda>_. atomicWrite p c) s)) \<and> fs_faults (snd (sbind fs_mkdir (\<lambda>_. atomicWrite p c) s)) = []"
  using atomicWrite_reliable [OF assms, of p c] assms
  by (auto simp: sbind_def fs_mkdir_def fs_fault_def)

interpretation ls: reliable_store local_store fs_view fs_inv "\<lambda>s. fs_faults s = []"
proof (unfold_locales, goal_cases)
  case (1 s r p res s') then show ?case using put_record_reliable(1) [of s r p] by simp
next
  case (2 s r p res s') then show ?case using put_record_reliable(2) [of s r p] by simp
next
  case (3 s f res s')
  then show ?case
    using mkdir_write_reliable [of s "failedFile (gf_block f) (gf_logIndex f)" "FFailure f"]
    by (simp add: putFailure_def)
next
  case (4 s b res s')
  then show ?case
    using mkdir_write_reliable [of s cursorFile "FText (int_to_string b)"] by (simp add: writeCursor_def)
next
  case (5 s bl li res s')
  then have l: "fs_lookup s' = fs_lookup (fs_del (failedFile bl li) s)" "fs_faults s' = []"
    using removeFailure_cases(3) [of bl li s res s'] by simp_all
  show ?case using fs_lookup_eq(2) [OF l(1)] l(2) by (simp add: fs_del_view)
next
  case (6 s q bres s') then show ?case using hasTerminal_reliable [of s q] by auto
next
  case (7 s bl li bres s') then show ?case using hasFailure_reliable [of s bl li] by auto
next
  case (8 s lres s') then show ?case using listFailures_reliable [of s lres s'] by simp
next
  case (9 s cres s') then show ?case using readCursor_cases(3) [of s cres s'] by simp
qed

section \<open>Properties\<close>

definition demo_signer_record :: guardian_signer_record where
  "demo_signer_record = \<lparr>gr_proposalId = int_to_string 42, gr_operator = ''0x01'', gr_slashLevel = 1,
     gr_epoch = int_to_string 9, gr_evidenceHash = ''0xee'', gr_signerMask = int_to_string 1,
     gr_claimedSigners = [''0x01''], gr_executionBlock = 7, gr_txHash = ''0xaa'', gr_chainId = int_to_string 1,
     gr_commitment = ''0xcc'', gr_commitmentVerified = True, gr_executionBlockTimestamp = 0\<rparr>"

lemma empty_disk: "fs_inv \<lparr>fs_files = [], fs_faults = bs\<rparr>"
  by (simp add: fs_inv_def fs_lookup_def)

text \<open>C32: a store write is atomic. Whatever file operations fail on the way (the directory cannot be
  made, the temporary file is torn, the rename fails), storing a verified record either returns and
  the durable content gains exactly that record, or throws and the durable content (records,
  quarantine, dead letters and cursor) is unchanged; no reader ever sees a truncated file.\<close>

theorem putVerified_atomic:
  assumes "fs_inv s" "putVerified r s = (res, s')"
  shows "fs_inv s' \<and> (case res of Inl _ \<Rightarrow> fs_view s' = fs_view s
     | Inr _ \<Rightarrow> (\<exists>p. js_BigInt (gr_proposalId r) = Inr p \<and>
         fs_view s' = (fs_view s)\<lparr>sv_verified := (sv_verified (fs_view s))(p \<mapsto> r)\<rparr>))"
  using putVerified_effect [OF assms] by (simp add: atomic_effect_def split: sum.splits)

theorem putVerified_atomic_witness:
  "let s = \<lparr>fs_files = [], fs_faults = [False, True]\<rparr> in
   fst (putVerified demo_signer_record s) = Inl IoError \<and> fs_view (snd (putVerified demo_signer_record s)) = fs_view s"
proof -
  let ?s = "\<lparr>fs_files = [], fs_faults = [False, True]\<rparr>"
  have e: "fst (putVerified demo_signer_record ?s) = Inl IoError"
    by (simp add: putVerified_def fs_mkdir_def fs_fault_def sbind_def demo_signer_record_def atomicWrite_def
        fs_writeFile_def)
  obtain s' where "putVerified demo_signer_record ?s = (Inl IoError, s')" using e by (metis prod.collapse)
  with putVerified_atomic [OF empty_disk this] e show ?thesis by (simp add: Let_def)
qed

text \<open>what is written is read back. On a disk without I/O errors a verified record is returned by
  \<^verbatim>\<open>getVerified\<close> under its proposal id and makes that proposal terminal, and a non-negative cursor is
  returned by \<^verbatim>\<open>readCursor\<close>.\<close>

theorem store_roundtrip:
  assumes "fs_inv s" "fs_faults s = []" "js_BigInt (gr_proposalId r) = Inr p" "0 \<le> block"
  shows "fst (getVerified p (snd (putVerified r s))) = Inr (Some r) \<and>
    fst (hasTerminal p (snd (putVerified r s))) = Inr True \<and>
    fst (readCursor (snd (writeCursor block s))) = Inr (Some block)"
proof -
  obtain res s1 where p: "putVerified r s = (res, s1)" by fastforce
  then obtain l where l: "res = Inr l" "fs_faults s1 = []"
    using put_record_reliable(1) [OF assms(2,3)] by (auto simp: is_ok_iff)
  note pe = putVerified_effect [OF assms(1) p]
  have v: "sv_verified (fs_view s1) p = Some r" using pe(2) l(1) assms(3) by (simp add: atomic_effect_def)
  then have "fs_lookup s1 (verifiedFile p) = Some (FRecord r)"
    by (auto simp: fs_view_def split: option.splits fcontent.splits)
  then have g: "fst (getVerified p s1) = Inr (Some r)"
    by (simp add: getVerified_def scatch_def sbind_def fs_readFile_reliable [OF l(2)])
  have t: "fst (hasTerminal p s1) = Inr True"
    using hasTerminal_reliable [OF pe(1) l(2)] v by (auto simp: terminal_def)
  obtain cres s2 where c: "writeCursor block s = (cres, s2)" by fastforce
  have ok: "cres = Inr ()" "fs_faults s2 = []"
    using mkdir_write_reliable [OF assms(2), of cursorFile "FText (int_to_string block)"] c
    by (auto simp: writeCursor_def is_ok_iff)
  have "sv_cursor (fs_view s2) = Some block"
    using writeCursor_effect(2) [OF assms(1) c] ok(1) assms(4) by (simp add: atomic_effect_def)
  then have "fst (readCursor s2) = Inr (Some block)"
    using readCursor_cases(3) [OF _ ok(2)] by (metis prod.collapse)
  with g t p c show ?thesis by simp
qed

theorem store_roundtrip_witness:
  "fst (getVerified 42 (snd (putVerified demo_signer_record \<lparr>fs_files = [], fs_faults = []\<rparr>))) = Inr (Some demo_signer_record) \<and>
   fst (hasTerminal 42 (snd (putVerified demo_signer_record \<lparr>fs_files = [], fs_faults = []\<rparr>))) = Inr True \<and>
   fst (readCursor (snd (writeCursor 7 \<lparr>fs_files = [], fs_faults = []\<rparr>))) = Inr (Some 7)"
  by (rule store_roundtrip [OF empty_disk]) (simp_all add: demo_signer_record_def)

end
