(* ===== verification/Aggregator_Guard.thy ===== *)
theory Aggregator_Guard
  imports Prelude
begin

text \<open>
  \<^verbatim>\<open>src/modules/audit/aggregator-bootstrap-guard.ts\<close>: the shared fail-closed policy on the
  aggregator address. Its only use of the reason text is logging, so the verdict carries
  which guard fired.
\<close>

definition SEPOLIA_CHAIN_ID :: int where "SEPOLIA_CHAIN_ID = 11155111"

record chain_policy_input =
  cp_expectedChainId :: int
  cp_providerChainId :: int
  cp_aggregatorFromEnv :: bool
  cp_aggregatorRequired :: bool

datatype chain_policy_verdict = PolicyOk | WrongChain | DefaultOffSepolia

definition checkAggregatorChainPolicy :: "chain_policy_input \<Rightarrow> chain_policy_verdict" where
  "checkAggregatorChainPolicy i =
     (if cp_providerChainId i \<noteq> cp_expectedChainId i then WrongChain
      else if cp_aggregatorRequired i \<and> cp_expectedChainId i \<noteq> SEPOLIA_CHAIN_ID \<and> \<not> cp_aggregatorFromEnv i
      then DefaultOffSepolia
      else PolicyOk)"

lemma chain_policy_ok_iff:
  "checkAggregatorChainPolicy i = PolicyOk \<longleftrightarrow> cp_providerChainId i = cp_expectedChainId i \<and>
     (cp_aggregatorRequired i \<longrightarrow> cp_aggregatorFromEnv i \<or> cp_providerChainId i = SEPOLIA_CHAIN_ID)"
  by (auto simp: checkAggregatorChainPolicy_def)

end
