(* ===== verification/Slash_Watcher.thy ===== *)
theory Slash_Watcher
  imports Fraud_Proof Signer_Store Aggregator_Guard
begin

text \<open>
  The guardian-slash watcher: \<^verbatim>\<open>guardian-slash-watcher.core.ts\<close> (one executed slash becomes a
  self-checked record) and \<^verbatim>\<open>guardian-slash-watcher.service.ts\<close> (bootstrap guards, the polling
  tick, dead letters and their retry).

  The provider is the parameter \<open>chain_view\<close>: every read returns or throws. The store is any
  \<open>store_ops\<close>. The state holds the store, the outcomes of the successive reads of
  \<^verbatim>\<open>this.stopping\<close> (a shutdown may arrive at any of them) and the alerts sent.

  The safety theorems hold for every pattern of store faults, provider failures and shutdown:
  the scan cursor never passes a \<^verbatim>\<open>SlashExecuted\<close> log that is not verified, quarantined or
  dead-lettered, and only records that reproduce the commitment the aggregator held on chain reach the canonical area. The progress theorem
  says that a tick over a healthy store and provider brings the cursor to the finalized head.
\<close>

section \<open>Definitions\<close>

record slash_log =
  sl_proposalId :: int
  sl_txHash :: string
  sl_block :: nat
  sl_index :: nat

text \<open>A contract read takes the block it is pinned to; \<open>None\<close> is \<^verbatim>\<open>latest\<close>.\<close>

record chain_view =
  cv_getTransaction :: "string \<Rightarrow> string option result"
  cv_validatorAtSlot :: "int option \<Rightarrow> int \<Rightarrow> string result"
  cv_proposalSignersCommitment :: "int option \<Rightarrow> int \<Rightarrow> string result"
  cv_getBlockTimestamp :: "int \<Rightarrow> int option result"
  cv_getLogs :: "int \<Rightarrow> int \<Rightarrow> slash_log list result"
  cv_getBlockNumber :: "int result"
  cv_getCode :: "string result"
  cv_getChainId :: "int result"
  cv_REGISTRY :: "string result"
  cv_domainSeparator :: "string result"

record watcher_config =
  wc_enabled :: bool
  wc_aggregatorAddress :: string
  wc_registryAddress :: string
  wc_expectedChainId :: int
  wc_aggregatorFromEnv :: bool
  wc_rpcUrl :: string
  wc_intervalMs :: jsnum
  wc_fromBlock :: int
  wc_finalityConfirmations :: int
  wc_logChunk :: int

record 'b watch_env =
  we_ethers :: "'b ethers"
  we_lib :: calldata_lib
  we_chain :: chain_view
  we_cfg :: watcher_config

definition watch_domain :: "watcher_config \<Rightarrow> int \<Rightarrow> bls_consensus_domain" where
  "watch_domain cfg cid = \<lparr>bd_chainId = cid, bd_aggregator = wc_aggregatorAddress cfg, bd_registry = wc_registryAddress cfg\<rparr>"

text \<open>\<^verbatim>\<open>buildGuardianSignerRecord\<close>; the domain is built from the configured addresses.\<close>

definition buildGuardianSignerRecord ::
    "'b watch_env \<Rightarrow> int \<Rightarrow> int \<Rightarrow> string \<Rightarrow> nat \<Rightarrow> guardian_signer_record result" where
  "buildGuardianSignerRecord W chainId eventProposalId txHash executionBlock =
     (let E = we_ethers W; C = we_chain W; domain = watch_domain (we_cfg W) chainId in
      rbind (cv_getTransaction C txHash) (\<lambda>tx.
      rbind (of_option TxNotFound tx) (\<lambda>data.
      rbind (decodeVerifyAndExecuteCalldata E (we_lib W) data) (\<lambda>args.
      rbind (guard_throw (va_proposalId args \<noteq> eventProposalId) ProposalIdMismatch) (\<lambda>_.
      rbind (resolveClaimedSigners E (\<lambda>b. cv_validatorAtSlot C (Some b)) (va_signerMask args) (int executionBlock)) (\<lambda>claimedSigners.
      rbind (if va_repUsers args = []
             then rawSlashMessageHash E domain (va_proposalId args) (va_operator args) (va_slashLevel args)
                    (va_epoch args) (va_evidenceHash args)
             else repSlashMessageHash E domain (va_proposalId args) (va_operator args) (va_slashLevel args)
                    (va_repUsers args) (va_newScores args) (va_epoch args)) (\<lambda>messageHash.
      rbind (computeSignersCommitment E domain (va_proposalId args) messageHash (va_signerMask args) claimedSigners)
        (\<lambda>localCommitment.
      rbind (cv_proposalSignersCommitment C (Some (int executionBlock)) (va_proposalId args)) (\<lambda>onChainCommitment.
      rbind (cv_getBlockTimestamp C (int executionBlock)) (\<lambda>ts.
      Inr \<lparr>gr_proposalId = int_to_string (va_proposalId args), gr_operator = va_operator args,
        gr_slashLevel = va_slashLevel args, gr_epoch = int_to_string (va_epoch args),
        gr_evidenceHash = va_evidenceHash args, gr_signerMask = int_to_string (va_signerMask args),
        gr_claimedSigners = claimedSigners, gr_executionBlock = executionBlock, gr_txHash = txHash,
        gr_chainId = int_to_string chainId, gr_commitment = onChainCommitment,
        gr_commitmentVerified = (onChainCommitment \<noteq> ZeroHash \<and> localCommitment = onChainCommitment),
        gr_executionBlockTimestamp = (case ts of None \<Rightarrow> 0 | Some t \<Rightarrow> t)\<rparr>))))))))))"

definition MIN_INTERVAL_MS :: int where "MIN_INTERVAL_MS = 5000"
definition MAX_INTERVAL_MS :: int where "MAX_INTERVAL_MS = 3600000"
definition MAX_CAPTURE_ATTEMPTS :: int where "MAX_CAPTURE_ATTEMPTS = 10"

text \<open>\<^verbatim>\<open>onApplicationBootstrap\<close>: whether \<^verbatim>\<open>bootstrapAndPoll\<close> is started.\<close>

definition watcher_onApplicationBootstrap :: "watcher_config \<Rightarrow> bool" where
  "watcher_onApplicationBootstrap cfg =
     (if \<not> wc_enabled cfg then False
      else if \<not> is_address_format (wc_aggregatorAddress cfg) then False
      else if \<not> is_address_format (wc_registryAddress cfg) then False
      else if wc_rpcUrl cfg = [] then False
      else if \<not> js_isFinite (wc_intervalMs cfg) \<or> js_less (wc_intervalMs cfg) (js_of_int MIN_INTERVAL_MS)
        \<or> js_less (js_of_int MAX_INTERVAL_MS) (wc_intervalMs cfg) then False
      else True)"

text \<open>\<^verbatim>\<open>bootstrapAndPoll\<close>: the chain id it polls on; \<open>Inr None\<close> when a check disables it and
  \<open>Inl\<close> when a read throws, which disables it too. The check of \<^verbatim>\<open>stopping\<close> before the first
  tick is the argument.\<close>

definition bootstrap_checks :: "'b watch_env \<Rightarrow> int option result" where
  "bootstrap_checks W = (let C = we_chain W; cfg = we_cfg W in
     rbind (cv_getCode C) (\<lambda>code.
     if code = ''0x'' then Inr None else
     rbind (cv_getChainId C) (\<lambda>net.
     if checkAggregatorChainPolicy \<lparr>cp_expectedChainId = wc_expectedChainId cfg, cp_providerChainId = net,
          cp_aggregatorFromEnv = wc_aggregatorFromEnv cfg, cp_aggregatorRequired = True\<rparr> \<noteq> PolicyOk
     then Inr None else
     rbind (cv_validatorAtSlot C None 1) (\<lambda>_.
     rbind (cv_proposalSignersCommitment C None 0) (\<lambda>_.
     rbind (attestDomainAgainstAggregator (we_ethers W) (cv_REGISTRY C) (cv_domainSeparator C) (watch_domain cfg net)) (\<lambda>_.
     Inr (Some net)))))))"

definition bootstrapAndPoll :: "'b watch_env \<Rightarrow> bool \<Rightarrow> int option" where
  "bootstrapAndPoll W stopping =
     (case bootstrap_checks W of Inl _ \<Rightarrow> None | Inr None \<Rightarrow> None
      | Inr (Some net) \<Rightarrow> if stopping then None else Some net)"

datatype watcher_alert =
    TickFailed error
  | Quarantined int
  | NotCaptured int int error

record 's watcher =
  w_store :: 's
  w_stops :: "bool list"
  w_inFlight :: bool
  w_chainId :: "int option"
  w_alerts :: "watcher_alert list"

definition read_stopping :: "('s watcher, bool) io" where
  "read_stopping w = (case w_stops w of [] \<Rightarrow> (Inr False, w) | b # bs \<Rightarrow> (Inr b, w\<lparr>w_stops := bs\<rparr>))"

definition in_store :: "('s, 'a) io \<Rightarrow> ('s watcher, 'a) io" where
  "in_store m w = (case m (w_store w) of (r, s') \<Rightarrow> (r, w\<lparr>w_store := s'\<rparr>))"

definition send_alert :: "watcher_alert \<Rightarrow> ('s watcher, unit) io" where
  "send_alert a = smodify (\<lambda>w. w\<lparr>w_alerts := a # w_alerts w\<rparr>)"

definition deadLetter :: "'s store_ops \<Rightarrow> int \<Rightarrow> string \<Rightarrow> nat \<Rightarrow> nat \<Rightarrow> error \<Rightarrow> ('s watcher, unit) io" where
  "deadLetter ops proposalId txHash block logIndex reason =
     sbind (in_store (so_listFailures ops)) (\<lambda>fl.
     let existing = find (\<lambda>f. gf_block f = block \<and> gf_logIndex f = logIndex) fl;
         attempts = (case existing of None \<Rightarrow> 0 | Some f \<Rightarrow> gf_attempts f) + 1;
         parked = (attempts \<ge> MAX_CAPTURE_ATTEMPTS)
     in sbind (in_store (so_putFailure ops \<lparr>gf_block = block, gf_logIndex = logIndex, gf_txHash = txHash,
            gf_proposalId = int_to_string proposalId, gf_reason = reason, gf_attempts = attempts, gf_parked = parked\<rparr>))
          (\<lambda>_. send_alert (NotCaptured proposalId attempts reason)))"

definition captureOne ::
    "'s store_ops \<Rightarrow> 'b watch_env \<Rightarrow> int \<Rightarrow> int \<Rightarrow> string \<Rightarrow> nat \<Rightarrow> nat \<Rightarrow> ('s watcher, unit) io" where
  "captureOne ops W chainId proposalId txHash executionBlock logIndex =
     scatch
       (sbind (slift (buildGuardianSignerRecord W chainId proposalId txHash executionBlock)) (\<lambda>r.
          if gr_commitmentVerified r
          then sbind (in_store (so_putVerified ops r)) (\<lambda>_. sret ())
          else sbind (in_store (so_putUnverified ops r)) (\<lambda>_. send_alert (Quarantined proposalId))))
       (\<lambda>e. deadLetter ops proposalId txHash executionBlock logIndex e)"

fun scan_logs :: "'s store_ops \<Rightarrow> 'b watch_env \<Rightarrow> int \<Rightarrow> slash_log list \<Rightarrow> ('s watcher, bool) io" where
  "scan_logs ops W cid [] = sret True"
| "scan_logs ops W cid (lg # logs) =
     sbind read_stopping (\<lambda>stopping. if stopping then sret False else
     sbind (in_store (so_hasTerminal ops (sl_proposalId lg))) (\<lambda>t. if t then scan_logs ops W cid logs else
     sbind (in_store (so_hasFailure ops (sl_block lg) (sl_index lg))) (\<lambda>f. if f then scan_logs ops W cid logs else
     sbind (captureOne ops W cid (sl_proposalId lg) (sl_txHash lg) (sl_block lg) (sl_index lg)) (\<lambda>_.
     scan_logs ops W cid logs))))"

definition scanRange :: "'s store_ops \<Rightarrow> 'b watch_env \<Rightarrow> int \<Rightarrow> int \<Rightarrow> int \<Rightarrow> ('s watcher, bool) io" where
  "scanRange ops W cid from_block to_block =
     sbind (slift (cv_getLogs (we_chain W) from_block to_block)) (scan_logs ops W cid)"

fun retry_loop :: "'s store_ops \<Rightarrow> 'b watch_env \<Rightarrow> int \<Rightarrow> guardian_capture_failure list \<Rightarrow> ('s watcher, unit) io" where
  "retry_loop ops W cid [] = sret ()"
| "retry_loop ops W cid (f # fl) =
     sbind read_stopping (\<lambda>stopping. if stopping then sret () else
     if gf_parked f then retry_loop ops W cid fl else
     sbind (slift (js_BigInt (gf_proposalId f))) (\<lambda>proposalId.
     sbind (in_store (so_hasTerminal ops proposalId)) (\<lambda>t.
     if t then sbind (in_store (so_removeFailure ops (gf_block f) (gf_logIndex f))) (\<lambda>_. retry_loop ops W cid fl) else
     sbind (captureOne ops W cid proposalId (gf_txHash f) (gf_block f) (gf_logIndex f)) (\<lambda>_.
     sbind (in_store (so_hasTerminal ops proposalId)) (\<lambda>t2.
     sbind (if t2 then in_store (so_removeFailure ops (gf_block f) (gf_logIndex f)) else sret ()) (\<lambda>_.
     retry_loop ops W cid fl))))))"

definition retryFailures :: "'s store_ops \<Rightarrow> 'b watch_env \<Rightarrow> int \<Rightarrow> ('s watcher, unit) io" where
  "retryFailures ops W cid = sbind (in_store (so_listFailures ops)) (retry_loop ops W cid)"

text \<open>The \<^verbatim>\<open>while\<close> loop of \<^verbatim>\<open>tick\<close>, with fuel: \<open>False\<close> means that it had not ended when the fuel
  ran out. The number of rounds it needs is bounded below, for a positive chunk size.\<close>

fun scan_loop :: "nat \<Rightarrow> 's store_ops \<Rightarrow> 'b watch_env \<Rightarrow> int \<Rightarrow> int \<Rightarrow> int \<Rightarrow> ('s watcher, bool) io" where
  "scan_loop 0 ops W cid from_block safeHead = sret False"
| "scan_loop (Suc n) ops W cid from_block safeHead =
     (if from_block \<le> safeHead then
        sbind read_stopping (\<lambda>stopping. if stopping then sret True else
        let to_block = min (from_block + wc_logChunk (we_cfg W) - 1) safeHead in
        sbind (scanRange ops W cid from_block to_block) (\<lambda>completed.
        if \<not> completed then sret True else
        sbind (in_store (so_writeCursor ops to_block)) (\<lambda>_.
        scan_loop n ops W cid (to_block + 1) safeHead)))
      else sret True)"

definition tick_body :: "nat \<Rightarrow> 's store_ops \<Rightarrow> 'b watch_env \<Rightarrow> int \<Rightarrow> ('s watcher, bool) io" where
  "tick_body fuel ops W cid =
     sbind (retryFailures ops W cid) (\<lambda>_.
     sbind (slift (cv_getBlockNumber (we_chain W))) (\<lambda>head.
     let safeHead = head - wc_finalityConfirmations (we_cfg W) in
     if safeHead < wc_fromBlock (we_cfg W) then sret True else
     sbind (in_store (so_readCursor ops)) (\<lambda>cursor.
     let from_block = (case cursor of None \<Rightarrow> wc_fromBlock (we_cfg W) | Some c \<Rightarrow> c + 1) in
     if from_block > safeHead then sret True else
     scan_loop fuel ops W cid from_block safeHead)))"

definition guarded_tick :: "nat \<Rightarrow> 's store_ops \<Rightarrow> 'b watch_env \<Rightarrow> int \<Rightarrow> ('s watcher, bool) io" where
  "guarded_tick fuel ops W cid =
     scatch (tick_body fuel ops W cid) (\<lambda>e. sbind (send_alert (TickFailed e)) (\<lambda>_. sret True))"

definition watcher_tick :: "nat \<Rightarrow> 's store_ops \<Rightarrow> 'b watch_env \<Rightarrow> ('s watcher, bool) io" where
  "watcher_tick fuel ops W = sbind read_stopping (\<lambda>stopping w.
     case w_chainId w of None \<Rightarrow> (Inr True, w) | Some cid \<Rightarrow>
       if stopping then (Inr True, w)
       else if w_inFlight w then (Inr True, w)
       else (case guarded_tick fuel ops W cid (w\<lparr>w_inFlight := True\<rparr>) of (r, w') \<Rightarrow> (r, w'\<lparr>w_inFlight := False\<rparr>)))"

section \<open>What is captured\<close>

text \<open>The provider reports the logs of the chain: \<open>ledger\<close> maps a log position to the proposal
  id of its \<^verbatim>\<open>SlashExecuted\<close> event, now or in the future, and a successful \<^verbatim>\<open>getLogs\<close> over blocks
  up to the finalized head returns exactly the logs of the range.\<close>

definition logs_upto :: "(nat \<times> nat \<rightharpoonup> int) \<Rightarrow> chain_view \<Rightarrow> int \<Rightarrow> bool" where
  "logs_upto ledger C h \<longleftrightarrow> (\<forall>a b ls. cv_getLogs C a b = Inr ls \<longrightarrow> b \<le> h \<longrightarrow>
     (\<forall>lg \<in> set ls. ledger (sl_block lg, sl_index lg) = Some (sl_proposalId lg)) \<and>
     (\<forall>k pid. ledger k = Some pid \<longrightarrow> a \<le> int (fst k) \<longrightarrow> int (fst k) \<le> b \<longrightarrow>
        k \<in> (\<lambda>lg. (sl_block lg, sl_index lg)) ` set ls))"

definition logs_sound :: "(nat \<times> nat \<rightharpoonup> int) \<Rightarrow> 'b watch_env \<Rightarrow> bool" where
  "logs_sound ledger W \<longleftrightarrow> (\<forall>head. cv_getBlockNumber (we_chain W) = Inr head \<longrightarrow>
     logs_upto ledger (we_chain W) (head - wc_finalityConfirmations (we_cfg W)))"

definition accounted :: "(nat \<times> nat \<rightharpoonup> int) \<Rightarrow> store_view \<Rightarrow> nat \<times> nat \<Rightarrow> bool" where
  "accounted ledger v k \<longleftrightarrow> (\<exists>pid. ledger k = Some pid \<and> terminal v pid) \<or> k \<in> dom (sv_failed v)"

text \<open>A canonical record is self-verified: its signer set is in canonical order and, with some
  message hash, reproduces the non-zero commitment read from the chain.\<close>

definition self_verified :: "'b ethers \<Rightarrow> bls_consensus_domain \<Rightarrow> guardian_signer_record \<Rightarrow> bool" where
  "self_verified E d r \<longleftrightarrow> gr_commitmentVerified r \<and> gr_commitment r \<noteq> ZeroHash \<and>
     assertCanonicalSigners (gr_claimedSigners r) = Inr () \<and>
     (\<exists>pid m mh. js_BigInt (gr_proposalId r) = Inr pid \<and> js_BigInt (gr_signerMask r) = Inr m \<and>
        computeSignersCommitment E d pid mh m (gr_claimedSigners r) = Inr (gr_commitment r))"

definition store_sound ::
    "'b ethers \<Rightarrow> bls_consensus_domain \<Rightarrow> (nat \<times> nat \<rightharpoonup> int) \<Rightarrow> store_view \<Rightarrow> bool" where
  "store_sound E d ledger v \<longleftrightarrow>
     (\<forall>k f. sv_failed v k = Some f \<longrightarrow> failure_key f = k \<and>
        gf_parked f = (gf_attempts f \<ge> MAX_CAPTURE_ATTEMPTS) \<and> (\<exists>pid. ledger k = Some pid \<and> js_BigInt (gf_proposalId f) = Inr pid)) \<and>
     (\<forall>p r. sv_verified v p = Some r \<longrightarrow> js_BigInt (gr_proposalId r) = Inr p \<and> self_verified E d r)"

definition covered :: "(nat \<times> nat \<rightharpoonup> int) \<Rightarrow> int \<Rightarrow> store_view \<Rightarrow> bool" where
  "covered ledger from_block v \<longleftrightarrow> (\<forall>k pid c. ledger k = Some pid \<longrightarrow> sv_cursor v = Some c \<longrightarrow>
     from_block \<le> int (fst k) \<longrightarrow> int (fst k) \<le> c \<longrightarrow> accounted ledger v k)"

lemma build_record_fields:
  assumes "buildGuardianSignerRecord W cid pid tx b = Inr r"
  shows "js_BigInt (gr_proposalId r) = Inr pid" "gr_executionBlock r = b"
    "gr_commitmentVerified r \<Longrightarrow> self_verified (we_ethers W) (watch_domain (we_cfg W) cid) r"
  using assms
  by (auto simp: buildGuardianSignerRecord_def Let_def self_verified_def computeSignersCommitment_def
      signersCommitment_def split: if_splits)

section \<open>Safety over any store\<close>

lemma accounted_mono:
  "(\<And>p. terminal v p \<Longrightarrow> terminal v' p) \<Longrightarrow> dom (sv_failed v) \<subseteq> dom (sv_failed v') \<Longrightarrow>
   accounted ledger v k \<Longrightarrow> accounted ledger v' k"
  unfolding accounted_def by blast

lemma in_store_triple:
  "io_triple I m Q R \<Longrightarrow> io_triple (\<lambda>w. I (w_store w)) (in_store m) (\<lambda>x w. Q x (w_store w)) (\<lambda>w. R (w_store w))"
  by (fastforce simp: io_triple_def in_store_def split: prod.splits sum.splits)

lemma read_stopping_triple: "io_triple (\<lambda>w. I (w_store w)) read_stopping (\<lambda>_ w. I (w_store w)) R"
  by (auto simp: io_triple_def read_stopping_def split: list.splits)

lemma send_alert_triple: "io_triple (\<lambda>w. I (w_store w)) (send_alert a) (\<lambda>_ w. I (w_store w)) R"
  by (simp add: io_triple_def send_alert_def)

lemma watcher_tick_store:
  assumes "w_chainId w = Some cid"
  shows "\<exists>w'. w_store w' = w_store w \<and> (w_store (snd (watcher_tick n ops W w)) = w_store w \<or>
    w_store (snd (watcher_tick n ops W w)) = w_store (snd (guarded_tick n ops W cid w')))"
proof (cases "w_stops w")
  case Nil
  with assms show ?thesis
    by (intro exI [of _ "w\<lparr>w_inFlight := True\<rparr>"])
      (auto simp: watcher_tick_def sbind_def read_stopping_def split: prod.splits)
next
  case (Cons b bs)
  with assms show ?thesis
    by (intro exI [of _ "w\<lparr>w_stops := bs, w_inFlight := True\<rparr>"])
      (auto simp: watcher_tick_def sbind_def read_stopping_def split: prod.splits)
qed

context signer_store
begin

text \<open>The store is sound, the log positions in \<open>A\<close> are accounted for and the cursor is \<open>c\<close>.\<close>

definition durable ::
    "'b ethers \<Rightarrow> bls_consensus_domain \<Rightarrow> (nat \<times> nat \<rightharpoonup> int) \<Rightarrow> int option \<Rightarrow> (nat \<times> nat) set \<Rightarrow> 's \<Rightarrow> bool" where
  "durable E d ledger c A s \<longleftrightarrow> inv s \<and> store_sound E d ledger (view s) \<and> sv_cursor (view s) = c \<and>
     (\<forall>k \<in> A. accounted ledger (view s) k)"

lemma durable_same: "durable E d ledger c A s \<Longrightarrow> inv s' \<Longrightarrow> view s' = view s \<Longrightarrow> durable E d ledger c A s'"
  by (simp add: durable_def)

lemma durable_mono: "durable E d ledger c A s \<Longrightarrow> B \<subseteq> A \<Longrightarrow> durable E d ledger c B s"
  by (auto simp: durable_def)

lemma durable_insert:
  "durable E d ledger c A s \<Longrightarrow> accounted ledger (view s) k \<Longrightarrow> durable E d ledger c (insert k A) s"
  by (auto simp: durable_def)

lemma durable_step:
  assumes "durable E d ledger c A s" "inv s'" "store_sound E d ledger (view s')" "sv_cursor (view s') = c"
    "\<And>p. terminal (view s) p \<Longrightarrow> terminal (view s') p" "dom (sv_failed (view s)) \<subseteq> dom (sv_failed (view s'))"
    "accounted ledger (view s') k"
  shows "durable E d ledger c (insert k A) s'"
  using assms(1-4,7) accounted_mono [OF assms(5,6)] unfolding durable_def by blast

lemma hasTerminal_triple:
  "io_triple (durable E d ledger c A) (so_hasTerminal ops pid)
     (\<lambda>t s. durable E d ledger c A s \<and> (t \<longrightarrow> terminal (view s) pid)) R"
proof (rule io_tripleI)
  fix s v s' assume s: "durable E d ledger c A s" "so_hasTerminal ops pid s = (Inr v, s')"
  from hasTerminal_read [OF _ s(2)] s(1) show "durable E d ledger c A s' \<and> (v \<longrightarrow> terminal (view s') pid)"
    by (auto simp: durable_def)
next
  fix s e s' assume s: "durable E d ledger c A s" "so_hasTerminal ops pid s = (Inl e, s')"
  from hasTerminal_read [OF _ s(2)] s(1) show "R s'" by (auto simp: durable_def)
qed

lemma hasFailure_triple:
  "io_triple (durable E d ledger c A) (so_hasFailure ops b i)
     (\<lambda>t s. durable E d ledger c A s \<and> (t \<longrightarrow> (b, i) \<in> dom (sv_failed (view s)))) R"
proof (rule io_tripleI)
  fix s v s' assume s: "durable E d ledger c A s" "so_hasFailure ops b i s = (Inr v, s')"
  from hasFailure_read [OF _ s(2)] s(1)
  show "durable E d ledger c A s' \<and> (v \<longrightarrow> (b, i) \<in> dom (sv_failed (view s')))"
    by (auto simp: durable_def)
next
  fix s e s' assume s: "durable E d ledger c A s" "so_hasFailure ops b i s = (Inl e, s')"
  from hasFailure_read [OF _ s(2)] s(1) show "R s'" by (auto simp: durable_def)
qed

definition drivable :: "(nat \<times> nat \<rightharpoonup> int) \<Rightarrow> guardian_capture_failure \<Rightarrow> bool" where
  "drivable ledger f \<longleftrightarrow> (\<not> gf_parked f \<longrightarrow>
     (\<exists>pid. ledger (failure_key f) = Some pid \<and> js_BigInt (gf_proposalId f) = Inr pid))"

lemma listFailures_triple:
  "io_triple (durable E d ledger c A) (so_listFailures ops)
     (\<lambda>fl s. durable E d ledger c A s \<and> (\<forall>f \<in> set fl. drivable ledger f)) R"
proof (rule io_tripleI)
  fix s fl s' assume s: "durable E d ledger c A s" "so_listFailures ops s = (Inr fl, s')"
  note r = listFailures_read [OF _ s(2)]
  from r s(1) have "durable E d ledger c A s'" by (auto simp: durable_def)
  moreover have "\<forall>f \<in> set fl. \<not> gf_parked f \<longrightarrow> sv_failed (view s) (failure_key f) = Some f"
    using r s(1) by (auto simp: durable_def)
  then have "\<forall>f \<in> set fl. drivable ledger f"
    using s(1) unfolding durable_def store_sound_def drivable_def by blast
  ultimately show "durable E d ledger c A s' \<and> (\<forall>f \<in> set fl. drivable ledger f)" by blast
next
  fix s e s' assume s: "durable E d ledger c A s" "so_listFailures ops s = (Inl e, s')"
  from listFailures_read [OF _ s(2)] s(1) show "R s'" by (auto simp: durable_def)
qed

lemma readCursor_triple:
  "io_triple (durable E d ledger c A) (so_readCursor ops)
     (\<lambda>x s. durable E d ledger c A s \<and> (x \<noteq> None \<longrightarrow> x = c)) R"
proof (rule io_tripleI)
  fix s x s' assume s: "durable E d ledger c A s" "so_readCursor ops s = (Inr x, s')"
  from readCursor_read [OF _ s(2)] s(1) show "durable E d ledger c A s' \<and> (x \<noteq> None \<longrightarrow> x = c)"
    by (auto simp: durable_def)
next
  fix s e s' assume s: "durable E d ledger c A s" "so_readCursor ops s = (Inl e, s')"
  from readCursor_read [OF _ s(2)] s(1) show "R s'" by (auto simp: durable_def)
qed

lemma putVerified_triple:
  assumes "js_BigInt (gr_proposalId r) = Inr pid" "ledger k = Some pid" "self_verified E d r"
  shows "io_triple (durable E d ledger c A) (so_putVerified ops r)
    (\<lambda>_. durable E d ledger c (insert k A)) (durable E d ledger c A)"
proof (rule io_tripleI)
  fix s l s' assume s: "durable E d ledger c A s" "so_putVerified ops r s = (Inr l, s')"
  then have i: "inv s" "inv s'" using putVerified_inv [of s r] by (auto simp: durable_def)
  have "view s' = (view s)\<lparr>sv_verified := (sv_verified (view s))(pid \<mapsto> r)\<rparr>"
    using putVerified_view [OF i(1) s(2)] assms(1) by (simp add: atomic_effect_def)
  with s(1) i(2) assms show "durable E d ledger c (insert k A) s'"
    by (intro durable_step [of E d ledger c A s]) (auto simp: durable_def store_sound_def accounted_def terminal_def)
next
  fix s e s' assume s: "durable E d ledger c A s" "so_putVerified ops r s = (Inl e, s')"
  then have i: "inv s" "inv s'" using putVerified_inv [of s r] by (auto simp: durable_def)
  with putVerified_view [OF i(1) s(2)] s(1) show "durable E d ledger c A s'"
    by (auto simp: atomic_effect_def intro: durable_same)
qed

lemma putUnverified_triple:
  assumes "js_BigInt (gr_proposalId r) = Inr pid" "ledger k = Some pid"
  shows "io_triple (durable E d ledger c A) (so_putUnverified ops r)
    (\<lambda>_. durable E d ledger c (insert k A)) (durable E d ledger c A)"
proof (rule io_tripleI)
  fix s l s' assume s: "durable E d ledger c A s" "so_putUnverified ops r s = (Inr l, s')"
  then have i: "inv s" "inv s'" using putUnverified_inv [of s r] by (auto simp: durable_def)
  have "view s' = (view s)\<lparr>sv_unverified := (sv_unverified (view s))(pid \<mapsto> r)\<rparr>"
    using putUnverified_view [OF i(1) s(2)] assms(1) by (simp add: atomic_effect_def)
  with s(1) i(2) assms show "durable E d ledger c (insert k A) s'"
    by (intro durable_step [of E d ledger c A s]) (auto simp: durable_def store_sound_def accounted_def terminal_def)
next
  fix s e s' assume s: "durable E d ledger c A s" "so_putUnverified ops r s = (Inl e, s')"
  then have i: "inv s" "inv s'" using putUnverified_inv [of s r] by (auto simp: durable_def)
  with putUnverified_view [OF i(1) s(2)] s(1) show "durable E d ledger c A s'"
    by (auto simp: atomic_effect_def intro: durable_same)
qed

lemma putFailure_triple:
  assumes "js_BigInt (gf_proposalId f) = Inr pid" "ledger (failure_key f) = Some pid"
    "gf_parked f = (gf_attempts f \<ge> MAX_CAPTURE_ATTEMPTS)"
  shows "io_triple (durable E d ledger c A) (so_putFailure ops f)
    (\<lambda>_. durable E d ledger c (insert (failure_key f) A)) (durable E d ledger c A)"
proof (rule io_tripleI)
  fix s l s' assume s: "durable E d ledger c A s" "so_putFailure ops f s = (Inr l, s')"
  then have i: "inv s" "inv s'" using putFailure_inv [of s f] by (auto simp: durable_def)
  have "view s' = (view s)\<lparr>sv_failed := (sv_failed (view s))(failure_key f \<mapsto> f)\<rparr>"
    using putFailure_view [OF i(1) s(2)] by (simp add: atomic_effect_def)
  with s(1) i(2) assms show "durable E d ledger c (insert (failure_key f) A) s'"
    by (intro durable_step [of E d ledger c A s]) (auto simp: durable_def store_sound_def accounted_def terminal_def)
next
  fix s e s' assume s: "durable E d ledger c A s" "so_putFailure ops f s = (Inl e, s')"
  then have i: "inv s" "inv s'" using putFailure_inv [of s f] by (auto simp: durable_def)
  with putFailure_view [OF i(1) s(2)] s(1) show "durable E d ledger c A s'"
    by (auto simp: atomic_effect_def intro: durable_same)
qed

lemma removeFailure_triple:
  assumes "ledger (b, i) = Some pid"
  shows "io_triple (\<lambda>s. durable E d ledger c A s \<and> terminal (view s) pid) (so_removeFailure ops b i)
    (\<lambda>_. durable E d ledger c A) R"
proof (rule io_tripleI)
  fix s l s' assume s: "durable E d ledger c A s \<and> terminal (view s) pid" "so_removeFailure ops b i s = (Inr l, s')"
  then have iv: "inv s" "inv s'" using removeFailure_inv [of s b i] by (auto simp: durable_def)
  from removeFailure_view [OF iv(1) s(2)]
  have "view s' = view s \<or> view s' = (view s)\<lparr>sv_failed := (sv_failed (view s))((b, i) := None)\<rparr>" by simp
  then show "durable E d ledger c A s'"
  proof
    assume v: "view s' = (view s)\<lparr>sv_failed := (sv_failed (view s))((b, i) := None)\<rparr>"
    have "accounted ledger (view s') k" if "accounted ledger (view s) k" for k
      using that v s(1) assms unfolding accounted_def terminal_def by (cases "k = (b, i)") auto
    then show ?thesis using v s(1) iv(2) by (auto simp: durable_def store_sound_def)
  qed (use s(1) iv(2) in \<open>auto intro: durable_same\<close>)
next
  fix s e s' assume s: "durable E d ledger c A s \<and> terminal (view s) pid" "so_removeFailure ops b i s = (Inl e, s')"
  then have "inv s" by (simp add: durable_def)
  from removeFailure_view [OF this s(2)] show "R s'" by simp
qed

lemma writeCursor_triple:
  "io_triple (durable E d ledger c A) (so_writeCursor ops b)
     (\<lambda>_. durable E d ledger (if b \<ge> 0 then Some b else None) A) (durable E d ledger c A)"
proof (rule io_tripleI)
  fix s l s' assume s: "durable E d ledger c A s" "so_writeCursor ops b s = (Inr l, s')"
  then have i: "inv s" "inv s'" using writeCursor_inv [of s b] by (auto simp: durable_def)
  with writeCursor_view [OF i(1) s(2)] s(1) show "durable E d ledger (if b \<ge> 0 then Some b else None) A s'"
    by (auto simp: atomic_effect_def durable_def store_sound_def accounted_def terminal_def)
next
  fix s e s' assume s: "durable E d ledger c A s" "so_writeCursor ops b s = (Inl e, s')"
  then have i: "inv s" "inv s'" using writeCursor_inv [of s b] by (auto simp: durable_def)
  with writeCursor_view [OF i(1) s(2)] s(1) show "durable E d ledger c A s'"
    by (auto simp: atomic_effect_def intro: durable_same)
qed

lemma deadLetter_triple:
  assumes "ledger (b, i) = Some pid"
  shows "io_triple (\<lambda>w. durable E d ledger c A (w_store w)) (deadLetter ops pid tx b i e)
    (\<lambda>_ w. durable E d ledger c (insert (b, i) A) (w_store w)) (\<lambda>w. durable E d ledger c A (w_store w))"
  unfolding deadLetter_def
proof (rule io_sbind [OF in_store_triple [OF listFailures_triple]], unfold Let_def, rule io_sbind)
  fix fl :: "guardian_capture_failure list"
  let ?f = "\<lparr>gf_block = b, gf_logIndex = i, gf_txHash = tx, gf_proposalId = int_to_string pid, gf_reason = e,
    gf_attempts = (case find (\<lambda>f. gf_block f = b \<and> gf_logIndex f = i) fl of None \<Rightarrow> 0 | Some f \<Rightarrow> gf_attempts f) + 1,
    gf_parked = MAX_CAPTURE_ATTEMPTS \<le> (case find (\<lambda>f. gf_block f = b \<and> gf_logIndex f = i) fl of None \<Rightarrow> 0 | Some f \<Rightarrow> gf_attempts f) + 1\<rparr>"
  have "io_triple (durable E d ledger c A) (so_putFailure ops ?f)
      (\<lambda>_. durable E d ledger c (insert (b, i) A)) (durable E d ledger c A)"
    using putFailure_triple [of ?f pid ledger E d c A] assms by simp
  from in_store_triple [OF this]
  show "io_triple (\<lambda>w. durable E d ledger c A (w_store w) \<and> (\<forall>f \<in> set fl. drivable ledger f))
      (in_store (so_putFailure ops ?f)) (\<lambda>_ w. durable E d ledger c (insert (b, i) A) (w_store w))
      (\<lambda>w. durable E d ledger c A (w_store w))"
    by (rule io_conseq) simp_all
qed (rule send_alert_triple)

lemma captureOne_triple:
  assumes "ledger (b, i) = Some pid"
  shows "io_triple (\<lambda>w. durable (we_ethers W) (watch_domain (we_cfg W) cid) ledger c A (w_store w))
    (captureOne ops W cid pid tx b i)
    (\<lambda>_ w. durable (we_ethers W) (watch_domain (we_cfg W) cid) ledger c (insert (b, i) A) (w_store w))
    (\<lambda>w. durable (we_ethers W) (watch_domain (we_cfg W) cid) ledger c A (w_store w))"
  unfolding captureOne_def
proof (rule io_scatch [OF _ deadLetter_triple [where ledger = ledger and b = b and i = i, OF assms]], cases "buildGuardianSignerRecord W cid pid tx b")
  let ?D = "durable (we_ethers W) (watch_domain (we_cfg W) cid) ledger c"
  case (Inl e)
  show "io_triple (\<lambda>w. ?D A (w_store w)) (sbind (slift (buildGuardianSignerRecord W cid pid tx b)) (\<lambda>r.
          if gr_commitmentVerified r then sbind (in_store (so_putVerified ops r)) (\<lambda>_. sret ())
          else sbind (in_store (so_putUnverified ops r)) (\<lambda>_. send_alert (Quarantined pid))))
      (\<lambda>_ w. ?D (insert (b, i) A) (w_store w)) (\<lambda>w. ?D A (w_store w))"
    by (simp add: Inl io_triple_def sbind_def)
next
  let ?D = "durable (we_ethers W) (watch_domain (we_cfg W) cid) ledger c"
  case (Inr r)
  note bf = build_record_fields [OF Inr]
  have v: "io_triple (\<lambda>w. ?D A (w_store w)) (sbind (in_store (so_putVerified ops r)) (\<lambda>_. sret ()))
      (\<lambda>_ w. ?D (insert (b, i) A) (w_store w)) (\<lambda>w. ?D A (w_store w))" if "gr_commitmentVerified r"
    by (rule io_sbind [OF in_store_triple [OF putVerified_triple [where ledger = ledger and k = "(b, i)", OF bf(1) assms bf(3) [OF that]]]], rule io_sret)
  have u: "io_triple (\<lambda>w. ?D A (w_store w)) (sbind (in_store (so_putUnverified ops r)) (\<lambda>_. send_alert (Quarantined pid)))
      (\<lambda>_ w. ?D (insert (b, i) A) (w_store w)) (\<lambda>w. ?D A (w_store w))"
    by (rule io_sbind [OF in_store_triple [OF putUnverified_triple [where ledger = ledger and k = "(b, i)", OF bf(1) assms]] send_alert_triple])
  show "io_triple (\<lambda>w. ?D A (w_store w)) (sbind (slift (buildGuardianSignerRecord W cid pid tx b)) (\<lambda>r.
          if gr_commitmentVerified r then sbind (in_store (so_putVerified ops r)) (\<lambda>_. sret ())
          else sbind (in_store (so_putUnverified ops r)) (\<lambda>_. send_alert (Quarantined pid))))
      (\<lambda>_ w. ?D (insert (b, i) A) (w_store w)) (\<lambda>w. ?D A (w_store w))"
    using v u by (simp add: Inr sbind_slift_Inr)
qed

abbreviation log_keys :: "slash_log list \<Rightarrow> (nat \<times> nat) set" where
  "log_keys ls \<equiv> (\<lambda>lg. (sl_block lg, sl_index lg)) ` set ls"

lemma scan_logs_triple:
  assumes "\<forall>lg \<in> set logs. ledger (sl_block lg, sl_index lg) = Some (sl_proposalId lg)"
    and D: "D = durable (we_ethers W) (watch_domain (we_cfg W) cid) ledger c"
  shows "io_triple (\<lambda>w. D A (w_store w)) (scan_logs ops W cid logs)
    (\<lambda>done w. D A (w_store w) \<and> (done \<longrightarrow> D (A \<union> log_keys logs) (w_store w))) (\<lambda>w. D A (w_store w))"
  using assms(1)
proof (induction logs arbitrary: A)
  case Nil
  show ?case by (auto simp: io_triple_def)
next
  case (Cons lg logs)
  let ?k = "(sl_block lg, sl_index lg)"
  have lk: "ledger ?k = Some (sl_proposalId lg)" using Cons.prems by simp
  have mono: "D X s \<Longrightarrow> Y \<subseteq> X \<Longrightarrow> D Y s" for X Y s unfolding D by (rule durable_mono)
  have step: "io_triple (\<lambda>w. D (insert ?k A) (w_store w)) (scan_logs ops W cid logs)
      (\<lambda>done w. D A (w_store w) \<and> (done \<longrightarrow> D (A \<union> log_keys (lg # logs)) (w_store w))) (\<lambda>w. D A (w_store w))"
    by (rule io_conseq [OF Cons.IH [of "insert ?k A"]]) (use Cons.prems in \<open>auto intro: mono\<close>)
  show ?case
    unfolding scan_logs.simps
  proof (rule io_sbind [OF read_stopping_triple [where I = "D A"]])
    fix stopping
    have t: "io_triple (\<lambda>w. D A (w_store w)) (in_store (so_hasTerminal ops (sl_proposalId lg)))
        (\<lambda>t w. D (if t then insert ?k A else A) (w_store w)) (\<lambda>w. D A (w_store w))"
      unfolding D
      by (rule io_conseq [OF in_store_triple [OF hasTerminal_triple [where R = "\<lambda>_. False"]]])
        (auto intro!: durable_insert simp: accounted_def lk)
    have f: "io_triple (\<lambda>w. D A (w_store w)) (in_store (so_hasFailure ops (sl_block lg) (sl_index lg)))
        (\<lambda>f w. D (if f then insert ?k A else A) (w_store w)) (\<lambda>w. D A (w_store w))"
      unfolding D
      by (rule io_conseq [OF in_store_triple [OF hasFailure_triple [where R = "\<lambda>_. False"]]])
        (auto intro!: durable_insert simp: accounted_def)
    have cap: "io_triple (\<lambda>w. D A (w_store w)) (sbind (captureOne ops W cid (sl_proposalId lg) (sl_txHash lg) (sl_block lg) (sl_index lg))
        (\<lambda>_. scan_logs ops W cid logs))
        (\<lambda>done w. D A (w_store w) \<and> (done \<longrightarrow> D (A \<union> log_keys (lg # logs)) (w_store w))) (\<lambda>w. D A (w_store w))"
      by (rule io_sbind [OF captureOne_triple [where ledger = ledger, OF lk, of W cid c A, folded D] step])
    show "io_triple (\<lambda>w. D A (w_store w)) (if stopping then sret False else
        sbind (in_store (so_hasTerminal ops (sl_proposalId lg))) (\<lambda>t. if t then scan_logs ops W cid logs else
        sbind (in_store (so_hasFailure ops (sl_block lg) (sl_index lg))) (\<lambda>f. if f then scan_logs ops W cid logs else
        sbind (captureOne ops W cid (sl_proposalId lg) (sl_txHash lg) (sl_block lg) (sl_index lg))
          (\<lambda>_. scan_logs ops W cid logs))))
        (\<lambda>done w. D A (w_store w) \<and> (done \<longrightarrow> D (A \<union> log_keys (lg # logs)) (w_store w))) (\<lambda>w. D A (w_store w))"
      using step cap
      by (auto simp: io_triple_def [of _ "sret False"] intro!: io_sbind [OF t] io_sbind [OF f])
  qed
qed

lemma scanRange_triple:
  assumes "logs_upto ledger (we_chain W) h" "b \<le> h" and D: "D = durable (we_ethers W) (watch_domain (we_cfg W) cid) ledger c"
  shows "io_triple (\<lambda>w. D A (w_store w)) (scanRange ops W cid a b)
    (\<lambda>done w. D A (w_store w) \<and>
       (done \<longrightarrow> D (A \<union> {k \<in> dom ledger. a \<le> int (fst k) \<and> int (fst k) \<le> b}) (w_store w))) (\<lambda>w. D A (w_store w))"
  unfolding scanRange_def
proof (rule io_sbind_slift)
  fix ls assume ls: "cv_getLogs (we_chain W) a b = Inr ls"
  have sub: "{k \<in> dom ledger. a \<le> int (fst k) \<and> int (fst k) \<le> b} \<subseteq> log_keys ls"
    using assms(1,2) ls unfolding logs_upto_def by blast
  have more: "D (A \<union> {k \<in> dom ledger. a \<le> int (fst k) \<and> int (fst k) \<le> b}) s" if "D (A \<union> log_keys ls) s" for s
    using that unfolding D by (rule durable_mono) (use sub in blast)
  have "\<forall>lg \<in> set ls. ledger (sl_block lg, sl_index lg) = Some (sl_proposalId lg)"
    using assms(1,2) ls unfolding logs_upto_def by blast
  then show "io_triple (\<lambda>w. D A (w_store w)) (scan_logs ops W cid ls)
    (\<lambda>done w. D A (w_store w) \<and>
       (done \<longrightarrow> D (A \<union> {k \<in> dom ledger. a \<le> int (fst k) \<and> int (fst k) \<le> b}) (w_store w))) (\<lambda>w. D A (w_store w))"
    by (intro io_conseq [OF scan_logs_triple [where ledger = ledger, OF _ D]]) (auto intro: more)
qed simp

lemma retry_loop_triple:
  assumes "\<forall>f \<in> set fl. drivable ledger f"
    and D: "D = durable (we_ethers W) (watch_domain (we_cfg W) cid) ledger c"
  shows "io_triple (\<lambda>w. D A (w_store w)) (retry_loop ops W cid fl) (\<lambda>_ w. D A (w_store w)) (\<lambda>w. D A (w_store w))"
  using assms(1)
proof (induction fl)
  case Nil
  show ?case by (simp add: io_triple_def)
next
  case (Cons f fl)
  then have IH: "io_triple (\<lambda>w. D A (w_store w)) (retry_loop ops W cid fl) (\<lambda>_ w. D A (w_store w)) (\<lambda>w. D A (w_store w))"
    by simp
  let ?k = "failure_key f"
  have ht: "io_triple (\<lambda>w. D A (w_store w)) (in_store (so_hasTerminal ops pid))
      (\<lambda>t w. D A (w_store w) \<and> (t \<longrightarrow> terminal (view (w_store w)) pid)) (\<lambda>w. D A (w_store w))" for pid
    unfolding D by (rule in_store_triple [OF hasTerminal_triple])
  have body: "io_triple (\<lambda>w. D A (w_store w)) (sbind (in_store (so_hasTerminal ops pid)) (\<lambda>t.
      if t then sbind (in_store (so_removeFailure ops (gf_block f) (gf_logIndex f))) (\<lambda>_. retry_loop ops W cid fl) else
      sbind (captureOne ops W cid pid (gf_txHash f) (gf_block f) (gf_logIndex f)) (\<lambda>_.
      sbind (in_store (so_hasTerminal ops pid)) (\<lambda>t2.
      sbind (if t2 then in_store (so_removeFailure ops (gf_block f) (gf_logIndex f)) else sret ()) (\<lambda>_.
      retry_loop ops W cid fl)))))
      (\<lambda>_ w. D A (w_store w)) (\<lambda>w. D A (w_store w))" if lk: "ledger ?k = Some pid" for pid
  proof -
    have rem: "io_triple (\<lambda>w. D A (w_store w) \<and> terminal (view (w_store w)) pid)
        (in_store (so_removeFailure ops (gf_block f) (gf_logIndex f))) (\<lambda>_ w. D A (w_store w)) (\<lambda>w. D A (w_store w))"
      unfolding D by (rule in_store_triple [OF removeFailure_triple [where ledger = ledger, OF lk]])
    have clear: "io_triple (\<lambda>w. D A (w_store w) \<and> (t2 \<longrightarrow> terminal (view (w_store w)) pid))
        (if t2 then in_store (so_removeFailure ops (gf_block f) (gf_logIndex f)) else sret ())
        (\<lambda>_ w. D A (w_store w)) (\<lambda>w. D A (w_store w))" for t2
      using rem by (cases t2) (auto simp: io_triple_def [of _ "sret ()"] elim: io_pre)
    have cap: "io_triple (\<lambda>w. D A (w_store w)) (captureOne ops W cid pid (gf_txHash f) (gf_block f) (gf_logIndex f))
        (\<lambda>_ w. D A (w_store w)) (\<lambda>w. D A (w_store w))"
      unfolding D by (rule io_conseq [OF captureOne_triple [where ledger = ledger, OF lk]]) (auto elim: durable_mono)
    show ?thesis
    proof (rule io_sbind [OF ht])
      fix t
      show "io_triple (\<lambda>w. D A (w_store w) \<and> (t \<longrightarrow> terminal (view (w_store w)) pid))
        (if t then sbind (in_store (so_removeFailure ops (gf_block f) (gf_logIndex f))) (\<lambda>_. retry_loop ops W cid fl) else
         sbind (captureOne ops W cid pid (gf_txHash f) (gf_block f) (gf_logIndex f)) (\<lambda>_.
         sbind (in_store (so_hasTerminal ops pid)) (\<lambda>t2.
         sbind (if t2 then in_store (so_removeFailure ops (gf_block f) (gf_logIndex f)) else sret ()) (\<lambda>_.
         retry_loop ops W cid fl))))
        (\<lambda>_ w. D A (w_store w)) (\<lambda>w. D A (w_store w))"
        by (cases t) (simp_all add: io_sbind [OF rem IH] io_sbind [OF cap io_sbind [OF ht io_sbind [OF clear IH]]])
    qed
  qed
  show ?case
    unfolding retry_loop.simps
  proof (rule io_sbind [OF read_stopping_triple [where I = "D A"]])
    fix stopping
    have "io_triple (\<lambda>w. D A (w_store w)) (sbind (slift (js_BigInt (gf_proposalId f))) (\<lambda>pid. sbind (in_store (so_hasTerminal ops pid)) (\<lambda>t.
      if t then sbind (in_store (so_removeFailure ops (gf_block f) (gf_logIndex f))) (\<lambda>_. retry_loop ops W cid fl) else
      sbind (captureOne ops W cid pid (gf_txHash f) (gf_block f) (gf_logIndex f)) (\<lambda>_.
      sbind (in_store (so_hasTerminal ops pid)) (\<lambda>t2.
      sbind (if t2 then in_store (so_removeFailure ops (gf_block f) (gf_logIndex f)) else sret ()) (\<lambda>_.
      retry_loop ops W cid fl))))))
      (\<lambda>_ w. D A (w_store w)) (\<lambda>w. D A (w_store w))" if "\<not> gf_parked f"
      by (rule io_sbind_slift, rule body) (use Cons.prems that in \<open>auto simp: drivable_def\<close>)
    then show "io_triple (\<lambda>w. D A (w_store w)) (if stopping then sret () else
      if gf_parked f then retry_loop ops W cid fl else
      sbind (slift (js_BigInt (gf_proposalId f))) (\<lambda>pid. sbind (in_store (so_hasTerminal ops pid)) (\<lambda>t.
      if t then sbind (in_store (so_removeFailure ops (gf_block f) (gf_logIndex f))) (\<lambda>_. retry_loop ops W cid fl) else
      sbind (captureOne ops W cid pid (gf_txHash f) (gf_block f) (gf_logIndex f)) (\<lambda>_.
      sbind (in_store (so_hasTerminal ops pid)) (\<lambda>t2.
      sbind (if t2 then in_store (so_removeFailure ops (gf_block f) (gf_logIndex f)) else sret ()) (\<lambda>_.
      retry_loop ops W cid fl))))))
      (\<lambda>_ w. D A (w_store w)) (\<lambda>w. D A (w_store w))"
      using IH by (auto simp: io_triple_def [of _ "sret ()"])
  qed
qed

text \<open>The ledger positions of the blocks \<open>a\<close> to \<open>b\<close>, and the invariant a tick keeps.\<close>

abbreviation region :: "(nat \<times> nat \<rightharpoonup> int) \<Rightarrow> int \<Rightarrow> int \<Rightarrow> (nat \<times> nat) set" where
  "region ledger a b \<equiv> {k \<in> dom ledger. a \<le> int (fst k) \<and> int (fst k) \<le> b}"

definition cov :: "'b ethers \<Rightarrow> bls_consensus_domain \<Rightarrow> (nat \<times> nat \<rightharpoonup> int) \<Rightarrow> int \<Rightarrow> 's \<Rightarrow> bool" where
  "cov E d ledger fb s \<longleftrightarrow> inv s \<and> store_sound E d ledger (view s) \<and> covered ledger fb (view s)"

lemma durable_cov:
  assumes "durable E d ledger c A s" "\<And>x. c = Some x \<Longrightarrow> region ledger fb x \<subseteq> A"
  shows "cov E d ledger fb s"
  using assms unfolding durable_def cov_def covered_def by (auto simp: subset_iff)

lemma cov_durable:
  "cov E d ledger fb s \<longleftrightarrow> (\<exists>c. durable E d ledger c (case c of None \<Rightarrow> {} | Some x \<Rightarrow> region ledger fb x) s)"
  unfolding durable_def cov_def covered_def by (auto split: option.splits)

lemma scan_loop_triple:
  assumes ls: "logs_upto ledger (we_chain W) h"
    and "\<And>x. c = Some x \<Longrightarrow> region ledger fb x \<subseteq> A" "region ledger fb (a - 1) \<subseteq> A"
  and C_def: "C = cov (we_ethers W) (watch_domain (we_cfg W) cid) ledger fb"
  shows "io_triple (\<lambda>w. durable (we_ethers W) (watch_domain (we_cfg W) cid) ledger c A (w_store w))
    (scan_loop n ops W cid a h) (\<lambda>_ w. C (w_store w)) (\<lambda>w. C (w_store w))"
  using assms(2,3)
proof (induction n arbitrary: a c A)
  case 0
  show ?case unfolding scan_loop.simps C_def by (rule io_sret, erule durable_cov) (use 0 in blast)
next
  case (Suc n)
  let ?D = "durable (we_ethers W) (watch_domain (we_cfg W) cid) ledger"
  let ?t = "min (a + wc_logChunk (we_cfg W) - 1) h"
  let ?B = "A \<union> region ledger a ?t"
  have C: "?D c X s \<Longrightarrow> A \<subseteq> X \<Longrightarrow> C s" for X s
    unfolding C_def by (erule durable_cov) (use Suc.prems(1) in blast)
  have reg: "region ledger fb ?t \<subseteq> ?B"
  proof (rule subsetI)
    fix k assume k: "k \<in> region ledger fb ?t"
    show "k \<in> ?B"
    proof (cases "a \<le> int (fst k)")
      case False
      then have "k \<in> region ledger fb (a - 1)" using k by simp
      then show ?thesis using Suc.prems(2) by blast
    qed (use k in simp)
  qed
  have IH: "io_triple (\<lambda>w. ?D (if ?t \<ge> 0 then Some ?t else None) ?B (w_store w)) (scan_loop n ops W cid (?t + 1) h)
      (\<lambda>_ w. C (w_store w)) (\<lambda>w. C (w_store w))"
    by (rule Suc.IH) (use reg in \<open>auto split: if_splits\<close>)
  have wr: "io_triple (\<lambda>w. ?D c ?B (w_store w)) (in_store (so_writeCursor ops ?t))
      (\<lambda>_ w. ?D (if ?t \<ge> 0 then Some ?t else None) ?B (w_store w)) (\<lambda>w. C (w_store w))"
    by (rule io_conseq [OF in_store_triple [OF writeCursor_triple]]) (auto elim: C)
  have rest: "io_triple (\<lambda>w. ?D c A (w_store w) \<and> (completed \<longrightarrow> ?D c ?B (w_store w)))
      (if \<not> completed then sret True else sbind (in_store (so_writeCursor ops ?t)) (\<lambda>_. scan_loop n ops W cid (?t + 1) h))
      (\<lambda>_ w. C (w_store w)) (\<lambda>w. C (w_store w))" for completed
    by (cases completed) (auto intro!: io_sret elim: C intro: io_pre [OF io_sbind [OF wr IH]])
  have rng: "io_triple (\<lambda>w. ?D c A (w_store w)) (scanRange ops W cid a ?t)
      (\<lambda>done w. ?D c A (w_store w) \<and> (done \<longrightarrow> ?D c ?B (w_store w))) (\<lambda>w. C (w_store w))"
    by (rule io_conseq [OF scanRange_triple [where ledger = ledger, OF ls _ refl]]) (auto elim: C)
  have "io_triple (\<lambda>w. ?D c A (w_store w)) (sbind read_stopping (\<lambda>stopping. if stopping then sret True else
        sbind (scanRange ops W cid a ?t) (\<lambda>completed. if \<not> completed then sret True else
        sbind (in_store (so_writeCursor ops ?t)) (\<lambda>_. scan_loop n ops W cid (?t + 1) h))))
      (\<lambda>_ w. C (w_store w)) (\<lambda>w. C (w_store w))"
    by (rule io_sbind [OF read_stopping_triple [where I = "?D c A"]])
      (auto intro!: io_sret elim: C intro: io_sbind [OF rng rest])
  then show ?case
    unfolding scan_loop.simps Let_def by (auto intro!: io_sret elim: C)
qed

lemma retryFailures_triple:
  assumes D: "D = durable (we_ethers W) (watch_domain (we_cfg W) cid) ledger c"
  shows "io_triple (\<lambda>w. D A (w_store w)) (retryFailures ops W cid) (\<lambda>_ w. D A (w_store w)) (\<lambda>w. D A (w_store w))"
  unfolding retryFailures_def
proof (rule io_sbind)
  show "io_triple (\<lambda>w. D A (w_store w)) (in_store (so_listFailures ops))
      (\<lambda>fl w. D A (w_store w) \<and> (\<forall>f \<in> set fl. drivable ledger f)) (\<lambda>w. D A (w_store w))"
    unfolding D by (rule in_store_triple [OF listFailures_triple])
  fix fl
  show "io_triple (\<lambda>w. D A (w_store w) \<and> (\<forall>f \<in> set fl. drivable ledger f)) (retry_loop ops W cid fl)
      (\<lambda>_ w. D A (w_store w)) (\<lambda>w. D A (w_store w))"
    using retry_loop_triple [where ledger = ledger, OF _ D, of fl]
    by (simp add: io_triple_def)
qed

lemma tick_body_triple:
  assumes ls: "logs_sound ledger W"
  and C_def: "C = cov (we_ethers W) (watch_domain (we_cfg W) cid) ledger (wc_fromBlock (we_cfg W))"
  shows "io_triple (\<lambda>w. C (w_store w)) (tick_body n ops W cid) (\<lambda>_ w. C (w_store w)) (\<lambda>w. C (w_store w))"
proof -
  let ?fb = "wc_fromBlock (we_cfg W)"
  let ?A = "\<lambda>c. case c of None \<Rightarrow> {} | Some x \<Rightarrow> region ledger ?fb x"
  let ?D = "\<lambda>c. durable (we_ethers W) (watch_domain (we_cfg W) cid) ledger c (?A c)"
  have C: "?D c s \<Longrightarrow> C s" for c s unfolding C_def by (erule durable_cov) simp
  have loop: "io_triple (\<lambda>w. ?D c (w_store w) \<and> (x \<noteq> None \<longrightarrow> x = c))
      (scan_loop n ops W cid (case x of None \<Rightarrow> ?fb | Some y \<Rightarrow> y + 1) h)
      (\<lambda>_ w. C (w_store w)) (\<lambda>w. C (w_store w))" if ls: "logs_upto ledger (we_chain W) h" for c x h
  proof (cases "x \<noteq> None \<longrightarrow> x = c")
    case True
    have "io_triple (\<lambda>w. ?D c (w_store w)) (scan_loop n ops W cid (case x of None \<Rightarrow> ?fb | Some y \<Rightarrow> y + 1) h)
      (\<lambda>_ w. C (w_store w)) (\<lambda>w. C (w_store w))"
      by (rule scan_loop_triple [OF ls _ _ C_def]) (use True in \<open>auto split: option.splits\<close>)
    then show ?thesis by (rule io_pre) simp
  qed (simp add: io_triple_def)
  have "io_triple (\<lambda>w. ?D c (w_store w)) (tick_body n ops W cid) (\<lambda>_ w. C (w_store w)) (\<lambda>w. C (w_store w))" for c
    unfolding tick_body_def Let_def
  proof (rule io_sbind)
    show "io_triple (\<lambda>w. ?D c (w_store w)) (retryFailures ops W cid) (\<lambda>_ w. ?D c (w_store w)) (\<lambda>w. C (w_store w))"
      by (rule io_conseq [OF retryFailures_triple [OF refl, of W cid ledger c "?A c"]]) (auto elim: C)
    show "io_triple (\<lambda>w. ?D c (w_store w)) (sbind (slift (cv_getBlockNumber (we_chain W))) (\<lambda>head.
        if head - wc_finalityConfirmations (we_cfg W) < ?fb then sret True else
        sbind (in_store (so_readCursor ops)) (\<lambda>x.
        if head - wc_finalityConfirmations (we_cfg W) < (case x of None \<Rightarrow> ?fb | Some y \<Rightarrow> y + 1) then sret True else
        scan_loop n ops W cid (case x of None \<Rightarrow> ?fb | Some y \<Rightarrow> y + 1) (head - wc_finalityConfirmations (we_cfg W)))))
        (\<lambda>_ w. C (w_store w)) (\<lambda>w. C (w_store w))"
    proof (rule io_sbind_slift, goal_cases)
      case (1 head)
      then have up: "logs_upto ledger (we_chain W) (head - wc_finalityConfirmations (we_cfg W))"
        using ls by (simp add: logs_sound_def)
      have "io_triple (\<lambda>w. ?D c (w_store w) \<and> (x \<noteq> None \<longrightarrow> x = c))
        (if head - wc_finalityConfirmations (we_cfg W) < (case x of None \<Rightarrow> ?fb | Some y \<Rightarrow> y + 1) then sret True else
        scan_loop n ops W cid (case x of None \<Rightarrow> ?fb | Some y \<Rightarrow> y + 1) (head - wc_finalityConfirmations (we_cfg W)))
        (\<lambda>_ w. C (w_store w)) (\<lambda>w. C (w_store w))" for x
        by (cases "head - wc_finalityConfirmations (we_cfg W) < (case x of None \<Rightarrow> ?fb | Some y \<Rightarrow> y + 1)")
          (simp only: if_True, rule io_sret, erule conjE, erule C, simp only: if_False, rule loop [OF up])
      note rd = io_sbind [OF in_store_triple [OF readCursor_triple [where R = C]] this]
      show ?case
        by (cases "head - wc_finalityConfirmations (we_cfg W) < ?fb")
          (simp only: if_True, rule io_sret, erule C, simp only: if_False, rule rd)
    next
      case (2 w)
      then show ?case by (rule C)
    qed
  qed
  then show ?thesis
    using io_ex [of "\<lambda>c w. ?D c (w_store w)" "tick_body n ops W cid"] by (simp add: C_def cov_durable)
qed

lemma tick_keeps_cov:
  assumes ls: "logs_sound ledger W"
    and "cov (we_ethers W) (watch_domain (we_cfg W) cid) ledger (wc_fromBlock (we_cfg W)) (w_store w)"
    and "w_chainId w = Some cid"
  shows "cov (we_ethers W) (watch_domain (we_cfg W) cid) ledger (wc_fromBlock (we_cfg W))
    (w_store (snd (watcher_tick n ops W w)))"
proof -
  let ?C = "cov (we_ethers W) (watch_domain (we_cfg W) cid) ledger (wc_fromBlock (we_cfg W))"
  have "io_triple (\<lambda>w. ?C (w_store w)) (guarded_tick n ops W cid) (\<lambda>_ w. ?C (w_store w)) (\<lambda>w. ?C (w_store w))"
    unfolding guarded_tick_def
    by (rule io_scatch [OF tick_body_triple [OF ls refl]], rule io_sbind [OF send_alert_triple], rule io_sret)
  note post = io_post_state [OF this, where I = "\<lambda>w. ?C (w_store w)"]
  show ?thesis
    using watcher_tick_store [OF assms(3), of n ops W] post assms(2) by (metis (no_types, lifting))
qed

end

section \<open>Progress over a reliable store\<close>

definition quiet :: "('s \<Rightarrow> bool) \<Rightarrow> 's watcher \<Rightarrow> bool" where
  "quiet I w \<longleftrightarrow> I (w_store w) \<and> w_stops w = []"

lemma in_store_quiet:
  "io_triple I m Q (\<lambda>_. False) \<Longrightarrow> io_triple (quiet I) (in_store m) (\<lambda>v. quiet (Q v)) (\<lambda>_. False)"
  by (fastforce simp: io_triple_def in_store_def quiet_def split: prod.splits sum.splits)

lemma read_stopping_quiet: "io_triple (quiet I) read_stopping (\<lambda>b w. \<not> b \<and> quiet I w) (\<lambda>_. False)"
  by (auto simp: io_triple_def read_stopping_def quiet_def)

lemma send_alert_quiet: "io_triple (quiet I) (send_alert a) (\<lambda>_. quiet I) (\<lambda>_. False)"
  by (simp add: io_triple_def send_alert_def quiet_def)

lemma quiet_mono: "quiet I w \<Longrightarrow> (\<And>s. I s \<Longrightarrow> J s) \<Longrightarrow> quiet J w"
  by (simp add: quiet_def)

lemma not_stopped:
  "io_triple P m Q R \<Longrightarrow> io_triple (\<lambda>w. \<not> b \<and> P w) (if b then m' else m) Q R"
  by (simp add: io_triple_def)

context reliable_store
begin

definition healthy :: "'b ethers \<Rightarrow> bls_consensus_domain \<Rightarrow> (nat \<times> nat \<rightharpoonup> int) \<Rightarrow> 's \<Rightarrow> bool" where
  "healthy E d ledger s \<longleftrightarrow> inv s \<and> reliable s \<and> store_sound E d ledger (view s)"

text \<open>An operation that keeps the store sound and, over a reliable store, returns.\<close>

lemma healthy_op:
  assumes "\<And>c. io_triple (durable E d ledger c {}) m (\<lambda>v s. (\<exists>c' A. durable E d ledger c' A s) \<and> F v s) R"
    and "\<And>s r s'. inv s \<Longrightarrow> reliable s \<Longrightarrow> m s = (r, s') \<Longrightarrow> is_ok r \<and> reliable s'"
  shows "io_triple (healthy E d ledger) m (\<lambda>v s. healthy E d ledger s \<and> F v s) (\<lambda>_. False)"
proof (rule io_tripleI)
  fix s v s' assume s: "healthy E d ledger s" "m s = (Inr v, s')"
  then have d: "durable E d ledger (sv_cursor (view s)) {} s" by (simp add: healthy_def durable_def)
  from io_tripleD(1) [OF assms(1) d s(2)] assms(2) [OF _ _ s(2)] s(1)
  show "healthy E d ledger s' \<and> F v s'" by (auto simp: healthy_def durable_def)
next
  fix s e s' assume "healthy E d ledger s" "m s = (Inl e, s')"
  then show False using assms(2) [of s "Inl e" s'] by (simp add: healthy_def)
qed

lemma healthy_hasTerminal:
  "io_triple (healthy E d ledger) (so_hasTerminal ops pid) (\<lambda>_. healthy E d ledger) (\<lambda>_. False)"
  by (rule io_conseq [OF healthy_op [where F = "\<lambda>_ _. True" and R = "\<lambda>_. True"]])
    (auto intro!: io_conseq [OF hasTerminal_triple [where R = "\<lambda>_. True"]] dest!: reliable_hasTerminal)

lemma healthy_hasFailure:
  "io_triple (healthy E d ledger) (so_hasFailure ops b i) (\<lambda>_. healthy E d ledger) (\<lambda>_. False)"
  by (rule io_conseq [OF healthy_op [where F = "\<lambda>_ _. True" and R = "\<lambda>_. True"]])
    (auto intro!: io_conseq [OF hasFailure_triple [where R = "\<lambda>_. True"]] dest!: reliable_hasFailure)

lemma healthy_listFailures:
  "io_triple (healthy E d ledger) (so_listFailures ops)
     (\<lambda>fl s. healthy E d ledger s \<and> (\<forall>f \<in> set fl. drivable ledger f)) (\<lambda>_. False)"
proof (rule healthy_op [where R = "\<lambda>_. True"])
  fix s r s' assume "inv s" "reliable s" "so_listFailures ops s = (r, s')"
  then show "is_ok r \<and> reliable s'"
    using reliable_list [of s r s'] listFailures_read [of s r s'] by (auto simp: is_ok_iff)
qed (rule io_conseq [OF listFailures_triple], auto)

lemma healthy_readCursor:
  "io_triple (healthy E d ledger) (so_readCursor ops)
     (\<lambda>x s. healthy E d ledger s \<and> x = sv_cursor (view s)) (\<lambda>_. False)"
proof (rule io_tripleI)
  fix s x s' assume s: "healthy E d ledger s" "so_readCursor ops s = (Inr x, s')"
  then show "healthy E d ledger s' \<and> x = sv_cursor (view s')"
    using reliable_readCursor [OF _ _ s(2)] readCursor_read [OF _ s(2)] by (auto simp: healthy_def)
next
  fix s e s' assume s: "healthy E d ledger s" "so_readCursor ops s = (Inl e, s')"
  then show False using reliable_readCursor [OF _ _ s(2)] by (simp add: healthy_def)
qed

lemma healthy_putVerified:
  assumes "js_BigInt (gr_proposalId r) = Inr pid" "ledger k = Some pid" "self_verified E d r"
  shows "io_triple (healthy E d ledger) (so_putVerified ops r) (\<lambda>_. healthy E d ledger) (\<lambda>_. False)"
  by (rule io_conseq [OF healthy_op [where F = "\<lambda>_ _. True" and R = "\<lambda>_. True"]])
    (auto intro!: io_conseq [OF putVerified_triple [where ledger = ledger, OF assms]] dest: reliable_put [OF _ _ assms(1)])

lemma healthy_putUnverified:
  assumes "js_BigInt (gr_proposalId r) = Inr pid" "ledger k = Some pid"
  shows "io_triple (healthy E d ledger) (so_putUnverified ops r) (\<lambda>_. healthy E d ledger) (\<lambda>_. False)"
  by (rule io_conseq [OF healthy_op [where F = "\<lambda>_ _. True" and R = "\<lambda>_. True"]])
    (auto intro!: io_conseq [OF putUnverified_triple [where ledger = ledger, OF assms]] dest: reliable_putU [OF _ _ assms(1)])

lemma healthy_putFailure:
  assumes "js_BigInt (gf_proposalId f) = Inr pid" "ledger (failure_key f) = Some pid"
    "gf_parked f = (gf_attempts f \<ge> MAX_CAPTURE_ATTEMPTS)"
  shows "io_triple (healthy E d ledger) (so_putFailure ops f) (\<lambda>_. healthy E d ledger) (\<lambda>_. False)"
  by (rule io_conseq [OF healthy_op [where F = "\<lambda>_ _. True" and R = "\<lambda>_. True"]])
    (auto intro!: io_conseq [OF putFailure_triple [where ledger = ledger, OF assms]] dest: reliable_putF)

lemma healthy_removeFailure:
  "io_triple (healthy E d ledger) (so_removeFailure ops b i) (\<lambda>_. healthy E d ledger) (\<lambda>_. False)"
proof (rule io_tripleI)
  fix s x s' assume s: "healthy E d ledger s" "so_removeFailure ops b i s = (Inr x, s')"
  then show "healthy E d ledger s'"
    using reliable_remove [OF _ _ s(2)] removeFailure_inv [of s b i] s
    by (auto simp: healthy_def store_sound_def)
next
  fix s e s' assume s: "healthy E d ledger s" "so_removeFailure ops b i s = (Inl e, s')"
  then show False using removeFailure_view [OF _ s(2)] by (simp add: healthy_def)
qed

lemma healthy_writeCursor:
  assumes "0 \<le> b"
  shows "io_triple (healthy E d ledger) (so_writeCursor ops b)
    (\<lambda>_ s. healthy E d ledger s \<and> sv_cursor (view s) = Some b) (\<lambda>_. False)"
  by (rule healthy_op [where R = "\<lambda>_. True"])
    (rule io_conseq [OF writeCursor_triple], use assms in \<open>auto simp: durable_def dest: reliable_cursor\<close>)

lemma healthy_deadLetter:
  assumes "ledger (b, i) = Some pid"
  shows "io_triple (quiet (healthy E d ledger)) (deadLetter ops pid tx b i e) (\<lambda>_. quiet (healthy E d ledger)) (\<lambda>_. False)"
  unfolding deadLetter_def Let_def
proof (rule io_sbind [OF in_store_quiet [OF healthy_listFailures]], rule io_sbind [OF io_pre [OF in_store_quiet [OF healthy_putFailure]]])
  show "io_triple (quiet (healthy E d ledger)) (send_alert a) (\<lambda>_. quiet (healthy E d ledger)) (\<lambda>_. False)" for a
    by (rule send_alert_quiet)
qed (use assms in \<open>auto elim: quiet_mono\<close>)

lemma healthy_captureOne:
  fixes W :: "'b watch_env" and cid :: int and ledger :: "nat \<times> nat \<rightharpoonup> int"
  assumes "ledger (b, i) = Some pid"
  defines "H \<equiv> healthy (we_ethers W) (watch_domain (we_cfg W) cid) ledger"
  shows "io_triple (quiet H) (captureOne ops W cid pid tx b i) (\<lambda>_. quiet H) (\<lambda>_. False)"
  unfolding captureOne_def
proof (rule io_scatch [where R' = "quiet H"])
  show "io_triple (quiet H) (deadLetter ops pid tx b i e) (\<lambda>_. quiet H) (\<lambda>_. False)" for e
    unfolding H_def by (rule healthy_deadLetter [where ledger = ledger, OF assms(1)])
next
  show "io_triple (quiet H) (sbind (slift (buildGuardianSignerRecord W cid pid tx b)) (\<lambda>r.
          if gr_commitmentVerified r then sbind (in_store (so_putVerified ops r)) (\<lambda>_. sret ())
          else sbind (in_store (so_putUnverified ops r)) (\<lambda>_. send_alert (Quarantined pid))))
      (\<lambda>_. quiet H) (quiet H)"
  proof (rule io_sbind_slift, goal_cases)
    case (1 r)
    note bf = build_record_fields [OF 1]
    have v: "io_triple (quiet H) (sbind (in_store (so_putVerified ops r)) (\<lambda>_. sret ())) (\<lambda>_. quiet H) (\<lambda>_. False)"
      if "gr_commitmentVerified r"
      unfolding H_def
      by (rule io_sbind [OF in_store_quiet [OF healthy_putVerified [where ledger = ledger, OF bf(1) assms(1) bf(3) [OF that]]]])
        (rule io_sret)
    have u: "io_triple (quiet H) (sbind (in_store (so_putUnverified ops r)) (\<lambda>_. send_alert (Quarantined pid)))
        (\<lambda>_. quiet H) (\<lambda>_. False)"
      unfolding H_def
      by (rule io_sbind [OF in_store_quiet [OF healthy_putUnverified [where ledger = ledger, OF bf(1) assms(1)]] send_alert_quiet])
    show ?case using v u by (cases "gr_commitmentVerified r") (auto elim: io_conseq)
  qed
qed

lemma healthy_scan_logs:
  fixes W :: "'b watch_env" and cid :: int and ledger :: "nat \<times> nat \<rightharpoonup> int"
  assumes "\<forall>lg \<in> set logs. ledger (sl_block lg, sl_index lg) = Some (sl_proposalId lg)"
  defines "H \<equiv> healthy (we_ethers W) (watch_domain (we_cfg W) cid) ledger"
  shows "io_triple (quiet H) (scan_logs ops W cid logs) (\<lambda>completed w. completed \<and> quiet H w) (\<lambda>_. False)"
  using assms(1)
proof (induction logs)
  case Nil
  show ?case by (simp add: io_triple_def)
next
  case (Cons lg logs)
  then have IH: "io_triple (quiet H) (scan_logs ops W cid logs) (\<lambda>completed w. completed \<and> quiet H w) (\<lambda>_. False)"
    and lk: "ledger (sl_block lg, sl_index lg) = Some (sl_proposalId lg)" by simp_all
  note cap = io_sbind [OF healthy_captureOne [where ledger = ledger and W = W and cid = cid, OF lk, folded H_def] IH]
  note hf = in_store_quiet [OF healthy_hasFailure, of "we_ethers W" "watch_domain (we_cfg W) cid" ledger, folded H_def]
  note ht = in_store_quiet [OF healthy_hasTerminal, of "we_ethers W" "watch_domain (we_cfg W) cid" ledger, folded H_def]
  show ?case
    unfolding scan_logs.simps
    by (rule io_sbind [OF read_stopping_quiet not_stopped [OF io_sbind [OF ht]]], simp add: IH, intro impI io_sbind [OF hf])
      (simp add: IH cap)
qed

lemma healthy_retry_loop:
  fixes W :: "'b watch_env" and cid :: int and ledger :: "nat \<times> nat \<rightharpoonup> int"
  assumes "\<forall>f \<in> set fl. drivable ledger f"
  defines "H \<equiv> healthy (we_ethers W) (watch_domain (we_cfg W) cid) ledger"
  shows "io_triple (quiet H) (retry_loop ops W cid fl) (\<lambda>_. quiet H) (\<lambda>_. False)"
  using assms(1)
proof (induction fl)
  case Nil
  show ?case by (simp add: io_triple_def)
next
  case (Cons f fl)
  then have IH: "io_triple (quiet H) (retry_loop ops W cid fl) (\<lambda>_. quiet H) (\<lambda>_. False)" by simp
  note ht = in_store_quiet [OF healthy_hasTerminal, of "we_ethers W" "watch_domain (we_cfg W) cid" ledger, folded H_def]
  note rm = in_store_quiet [OF healthy_removeFailure, of "we_ethers W" "watch_domain (we_cfg W) cid" ledger, folded H_def]
  show ?case
    unfolding retry_loop.simps
  proof (rule io_sbind [OF read_stopping_quiet not_stopped], cases "gf_parked f")
    case False
    then obtain pid where pid: "ledger (failure_key f) = Some pid" "js_BigInt (gf_proposalId f) = Inr pid"
      using Cons.prems by (auto simp: drivable_def)
    note cap = healthy_captureOne [where ledger = ledger and W = W and cid = cid, OF pid(1), folded H_def]
    have clear: "io_triple (quiet H) (if t then in_store (so_removeFailure ops (gf_block f) (gf_logIndex f)) else sret ())
        (\<lambda>_. quiet H) (\<lambda>_. False)" for t
      using rm by (simp add: io_sret)
    have "io_triple (quiet H) (sbind (in_store (so_hasTerminal ops pid)) (\<lambda>t.
      if t then sbind (in_store (so_removeFailure ops (gf_block f) (gf_logIndex f))) (\<lambda>_. retry_loop ops W cid fl) else
      sbind (captureOne ops W cid pid (gf_txHash f) (gf_block f) (gf_logIndex f)) (\<lambda>_.
      sbind (in_store (so_hasTerminal ops pid)) (\<lambda>t2.
      sbind (if t2 then in_store (so_removeFailure ops (gf_block f) (gf_logIndex f)) else sret ()) (\<lambda>_.
      retry_loop ops W cid fl))))) (\<lambda>_. quiet H) (\<lambda>_. False)"
      by (rule io_sbind [OF ht]) (simp add: io_sbind [OF rm IH] io_sbind [OF cap io_sbind [OF ht io_sbind [OF clear IH]]])
    then show "io_triple (quiet H) (if gf_parked f then retry_loop ops W cid fl else
      sbind (slift (js_BigInt (gf_proposalId f))) (\<lambda>pid. sbind (in_store (so_hasTerminal ops pid)) (\<lambda>t.
      if t then sbind (in_store (so_removeFailure ops (gf_block f) (gf_logIndex f))) (\<lambda>_. retry_loop ops W cid fl) else
      sbind (captureOne ops W cid pid (gf_txHash f) (gf_block f) (gf_logIndex f)) (\<lambda>_.
      sbind (in_store (so_hasTerminal ops pid)) (\<lambda>t2.
      sbind (if t2 then in_store (so_removeFailure ops (gf_block f) (gf_logIndex f)) else sret ()) (\<lambda>_.
      retry_loop ops W cid fl)))))) (\<lambda>_. quiet H) (\<lambda>_. False)"
      using False pid(2) by (simp add: io_triple_def sbind_def)
  qed (simp add: IH)
qed

text \<open>Every range can be fetched, and what it returns is the ledger.\<close>

lemma healthy_scanRange:
  fixes W :: "'b watch_env" and cid :: int and ledger :: "nat \<times> nat \<rightharpoonup> int"
  assumes "logs_upto ledger (we_chain W) h" "b \<le> h" "is_ok (cv_getLogs (we_chain W) a b)"
  defines "H \<equiv> healthy (we_ethers W) (watch_domain (we_cfg W) cid) ledger"
  shows "io_triple (quiet H) (scanRange ops W cid a b) (\<lambda>completed w. completed \<and> quiet H w) (\<lambda>_. False)"
proof -
  obtain ls where ls: "cv_getLogs (we_chain W) a b = Inr ls" using assms(3) by (auto simp: is_ok_iff)
  then have "\<forall>lg \<in> set ls. ledger (sl_block lg, sl_index lg) = Some (sl_proposalId lg)"
    using assms(1,2) unfolding logs_upto_def by blast
  from healthy_scan_logs [where ledger = ledger and W = W and cid = cid, OF this, folded H_def] ls
  show ?thesis by (simp add: scanRange_def io_triple_def sbind_def)
qed

lemma healthy_scan_loop:
  fixes W :: "'b watch_env" and cid :: int and ledger :: "nat \<times> nat \<rightharpoonup> int"
  assumes "logs_upto ledger (we_chain W) h" "\<And>a b. is_ok (cv_getLogs (we_chain W) a b)"
    and chunk: "1 \<le> wc_logChunk (we_cfg W)" and "0 \<le> a" "nat (h + 1 - a) < n" "a \<le> h + 1"
  defines "H \<equiv> healthy (we_ethers W) (watch_domain (we_cfg W) cid) ledger"
  shows "io_triple (quiet (\<lambda>s. H s \<and> (h < a \<longrightarrow> sv_cursor (view s) = Some h))) (scan_loop n ops W cid a h)
    (\<lambda>finished w. finished \<and> quiet (\<lambda>s. H s \<and> sv_cursor (view s) = Some h) w) (\<lambda>_. False)"
  using assms(4-6)
proof (induction n arbitrary: a)
  case 0
  then show ?case by simp
next
  case (Suc n)
  let ?t = "min (a + wc_logChunk (we_cfg W) - 1) h"
  show ?case
  proof (cases "a \<le> h")
    case True
    have t: "0 \<le> ?t" "?t \<le> h" "a \<le> ?t" using True Suc.prems chunk by auto
    have IH: "io_triple (quiet (\<lambda>s. H s \<and> (h < ?t + 1 \<longrightarrow> sv_cursor (view s) = Some h))) (scan_loop n ops W cid (?t + 1) h)
        (\<lambda>finished w. finished \<and> quiet (\<lambda>s. H s \<and> sv_cursor (view s) = Some h) w) (\<lambda>_. False)"
      by (rule Suc.IH) (use t Suc.prems in auto)
    have wr: "io_triple (quiet H) (in_store (so_writeCursor ops ?t))
        (\<lambda>_. quiet (\<lambda>s. H s \<and> (h < ?t + 1 \<longrightarrow> sv_cursor (view s) = Some h))) (\<lambda>_. False)"
      unfolding H_def
      by (rule io_conseq [OF in_store_quiet [OF healthy_writeCursor [OF t(1)]]]) (use t(2) in \<open>auto simp: quiet_def\<close>)
    note rng = healthy_scanRange [where ledger = ledger and W = W and cid = cid, OF assms(1) t(2) assms(2), folded H_def]
    have rest: "io_triple (\<lambda>w. completed \<and> quiet H w) (if \<not> completed then sret True else
        sbind (in_store (so_writeCursor ops ?t)) (\<lambda>_. scan_loop n ops W cid (?t + 1) h))
        (\<lambda>finished w. finished \<and> quiet (\<lambda>s. H s \<and> sv_cursor (view s) = Some h) w) (\<lambda>_. False)" for completed
      using io_sbind [OF wr IH] by (cases completed) (auto simp: io_triple_def)
    have "io_triple (quiet H) (scan_loop (Suc n) ops W cid a h)
        (\<lambda>finished w. finished \<and> quiet (\<lambda>s. H s \<and> sv_cursor (view s) = Some h) w) (\<lambda>_. False)"
      unfolding scan_loop.simps Let_def if_P [OF True]
      by (rule io_sbind [OF read_stopping_quiet not_stopped [OF io_sbind [OF rng rest]]])
    then show ?thesis by (rule io_pre) (auto elim: quiet_mono)
  next
    case False
    then show ?thesis by (simp add: io_triple_def quiet_def)
  qed
qed

lemma healthy_tick_body:
  fixes W :: "'b watch_env" and cid :: int and ledger :: "nat \<times> nat \<rightharpoonup> int"
  assumes "logs_sound ledger W" "\<And>a b. is_ok (cv_getLogs (we_chain W) a b)"
    and chunk: "1 \<le> wc_logChunk (we_cfg W)" and hd: "cv_getBlockNumber (we_chain W) = Inr head"
    and fb: "0 \<le> wc_fromBlock (we_cfg W)"
    and h: "h = head - wc_finalityConfirmations (we_cfg W)" "wc_fromBlock (we_cfg W) \<le> h" "nat (h + 1) < n"
  defines "H \<equiv> healthy (we_ethers W) (watch_domain (we_cfg W) cid) ledger"
  shows "io_triple (quiet H) (tick_body n ops W cid)
    (\<lambda>finished w. finished \<and> quiet (\<lambda>s. H s \<and> (\<exists>c \<ge> h. sv_cursor (view s) = Some c)) w) (\<lambda>_. False)"
proof -
  let ?fb = "wc_fromBlock (we_cfg W)"
  let ?from = "\<lambda>x. case x of None \<Rightarrow> ?fb | Some c \<Rightarrow> c + 1"
  let ?Q = "\<lambda>finished w. finished \<and> quiet (\<lambda>s. H s \<and> (\<exists>c \<ge> h. sv_cursor (view s) = Some c)) w"
  have rt: "io_triple (quiet H) (retryFailures ops W cid) (\<lambda>_. quiet H) (\<lambda>_. False)"
    unfolding retryFailures_def
  proof (rule io_sbind [OF in_store_quiet [OF healthy_listFailures, of "we_ethers W" "watch_domain (we_cfg W) cid" ledger, folded H_def]])
    fix fl
    show "io_triple (quiet (\<lambda>s. H s \<and> (\<forall>f \<in> set fl. drivable ledger f))) (retry_loop ops W cid fl) (\<lambda>_. quiet H) (\<lambda>_. False)"
      using healthy_retry_loop [where ledger = ledger and W = W and cid = cid, of fl, folded H_def]
      by (simp add: io_triple_def quiet_def)
  qed
  have up: "logs_upto ledger (we_chain W) h" using assms(1) hd h(1) by (simp add: logs_sound_def)
  have rest: "io_triple (quiet (\<lambda>s. H s \<and> x = sv_cursor (view s)))
      (if h < ?from x then sret True else scan_loop n ops W cid (?from x) h) ?Q (\<lambda>_. False)" for x
  proof (cases "h < ?from x \<or> (\<exists>c. x = Some c \<and> c < 0)")
    case True
    then consider c where "x = Some c" "c < 0" | c where "x = Some c" "0 \<le> c" "h < c + 1"
      using h(2) by (cases x) (auto, linarith)
    then show ?thesis
    proof cases
      case 1
      then have "\<not> quiet (\<lambda>s. H s \<and> x = sv_cursor (view s)) w" for w
        using cursor_nonneg [of "w_store w" c] by (auto simp: quiet_def H_def healthy_def)
      then show ?thesis by (simp add: io_triple_def)
    qed (auto simp: io_triple_def quiet_def)
  next
    case False
    then have f: "0 \<le> ?from x" "?from x \<le> h" using fb by (auto split: option.splits)
    have "io_triple (quiet (\<lambda>s. H s \<and> (h < ?from x \<longrightarrow> sv_cursor (view s) = Some h))) (scan_loop n ops W cid (?from x) h)
       (\<lambda>finished w. finished \<and> quiet (\<lambda>s. H s \<and> sv_cursor (view s) = Some h) w) (\<lambda>_. False)"
      unfolding H_def by (rule healthy_scan_loop [OF up assms(2) chunk f(1)]) (use f h(3) in auto)
    then have "io_triple (quiet (\<lambda>s. H s \<and> x = sv_cursor (view s))) (scan_loop n ops W cid (?from x) h) ?Q (\<lambda>_. False)"
      by (rule io_conseq) (use f(2) in \<open>auto simp: quiet_def\<close>)
    then show ?thesis using f(2) by simp
  qed
  note rd = io_sbind [OF in_store_quiet [OF healthy_readCursor, of "we_ethers W" "watch_domain (we_cfg W) cid" ledger, folded H_def] rest]
  have "io_triple (quiet H) (sbind (slift (cv_getBlockNumber (we_chain W))) (\<lambda>head.
      if head - wc_finalityConfirmations (we_cfg W) < ?fb then sret True else
      sbind (in_store (so_readCursor ops)) (\<lambda>x. if head - wc_finalityConfirmations (we_cfg W) < ?from x then sret True else
      scan_loop n ops W cid (?from x) (head - wc_finalityConfirmations (we_cfg W))))) ?Q (\<lambda>_. False)"
    unfolding hd sbind_slift_Inr h(1) [symmetric] using rd h(2) by simp
  from io_sbind [OF rt this] show ?thesis unfolding tick_body_def Let_def .
qed

lemma healthy_tick:
  fixes W :: "'b watch_env" and cid :: int and ledger :: "nat \<times> nat \<rightharpoonup> int"
  assumes "logs_sound ledger W" "\<And>a b. is_ok (cv_getLogs (we_chain W) a b)"
    "1 \<le> wc_logChunk (we_cfg W)" "cv_getBlockNumber (we_chain W) = Inr head" "0 \<le> wc_fromBlock (we_cfg W)"
    "h = head - wc_finalityConfirmations (we_cfg W)" "wc_fromBlock (we_cfg W) \<le> h" "nat (h + 1) < n"
    and w: "healthy (we_ethers W) (watch_domain (we_cfg W) cid) ledger (w_store w)"
      "w_stops w = []" "\<not> w_inFlight w" "w_chainId w = Some cid"
  shows "\<exists>w' c. watcher_tick n ops W w = (Inr True, w') \<and> \<not> w_inFlight w' \<and>
    sv_cursor (view (w_store w')) = Some c \<and> h \<le> c"
proof -
  let ?w = "w\<lparr>w_inFlight := True\<rparr>"
  have "quiet (healthy (we_ethers W) (watch_domain (we_cfg W) cid) ledger) ?w"
    using w by (simp add: quiet_def)
  note t = io_tripleD [OF healthy_tick_body [OF assms(1-8)] this]
  obtain r w' where r: "tick_body n ops W cid ?w = (r, w')" by fastforce
  with t obtain c where "r = Inr True" "sv_cursor (view (w_store w')) = Some c" "h \<le> c"
    by (cases r) (auto simp: quiet_def)
  then show ?thesis
    using w r by (simp add: watcher_tick_def sbind_def read_stopping_def guarded_tick_def scatch_def)
qed

end

section \<open>Runs of the watcher\<close>

text \<open>The chain id a watcher polls on is fixed at bootstrap: no step of a tick touches it.\<close>

definition keeps_chainId :: "('s watcher, 'a) io \<Rightarrow> bool" where
  "keeps_chainId m \<longleftrightarrow> (\<forall>w. w_chainId (snd (m w)) = w_chainId w)"

named_theorems keeps \<open>computations that keep the chain id\<close>

lemma keeps_prims [keeps]:
  "keeps_chainId (sret v)" "keeps_chainId (sthrow e)" "keeps_chainId (slift r)"
  "keeps_chainId read_stopping" "keeps_chainId (send_alert a)" "keeps_chainId (in_store m)"
  by (auto simp: keeps_chainId_def read_stopping_def send_alert_def in_store_def split: list.splits prod.splits)

lemma keeps_sbind [keeps]:
  "keeps_chainId m \<Longrightarrow> (\<And>v. keeps_chainId (f v)) \<Longrightarrow> keeps_chainId (sbind m f)"
  by (auto simp: keeps_chainId_def sbind_def split: prod.splits sum.splits) (metis snd_conv)+

lemma keeps_scatch [keeps]:
  "keeps_chainId m \<Longrightarrow> (\<And>e. keeps_chainId (h e)) \<Longrightarrow> keeps_chainId (scatch m h)"
  by (auto simp: keeps_chainId_def scatch_def split: prod.splits sum.splits) (metis snd_conv)+

lemma keeps_if [keeps]: "keeps_chainId m \<Longrightarrow> keeps_chainId m' \<Longrightarrow> keeps_chainId (if b then m else m')"
  by simp

lemma keeps_captureOne [keeps]: "keeps_chainId (captureOne ops W cid pid tx b i)"
  unfolding captureOne_def deadLetter_def Let_def by (intro keeps)

lemma keeps_scan_logs [keeps]: "keeps_chainId (scan_logs ops W cid logs)"
  by (induction logs) (simp_all only: scan_logs.simps, (intro keeps | assumption)+)

lemma keeps_retry_loop [keeps]: "keeps_chainId (retry_loop ops W cid fl)"
  by (induction fl) (simp_all only: retry_loop.simps, (intro keeps | assumption)+)

lemma keeps_scan_loop [keeps]: "keeps_chainId (scan_loop n ops W cid a h)"
  by (induction n arbitrary: a) (simp_all only: scan_loop.simps scanRange_def Let_def, (intro keeps | assumption)+)

lemma keeps_guarded_tick [keeps]: "keeps_chainId (guarded_tick n ops W cid)"
  unfolding guarded_tick_def tick_body_def retryFailures_def Let_def by (intro keeps)

lemma tick_keeps_chainId: "w_chainId (snd (watcher_tick n ops W w)) = w_chainId w"
proof -
  have "w_chainId (snd (guarded_tick n ops W cid w')) = w_chainId w'" for cid w'
    using keeps_guarded_tick [of n ops W cid] by (simp add: keeps_chainId_def)
  then have "guarded_tick n ops W cid w' = (r, x) \<Longrightarrow> w_chainId x = w_chainId w'" for cid w' r x
    by (metis snd_conv)
  then show ?thesis
    by (cases "w_stops w") (auto simp: watcher_tick_def sbind_def read_stopping_def split: option.splits prod.splits)
qed

text \<open>What can happen to a node: it starts on an empty store, it ticks against a provider that
  answers for the finalized part of the chain (or fails), and the environment decides which file
  operations will fail and when shutdown is seen. A restart keeps the disk and clears the
  in-flight flag.\<close>

inductive watcher_reach ::
    "'b ethers \<Rightarrow> watcher_config \<Rightarrow> int \<Rightarrow> (nat \<times> nat \<rightharpoonup> int) \<Rightarrow> fs watcher \<Rightarrow> bool"
  for E :: "'b ethers" and cfg :: watcher_config and cid :: int and ledger :: "nat \<times> nat \<rightharpoonup> int" where
  fresh: "fs_files (w_store w) = [] \<Longrightarrow> w_chainId w = Some cid \<Longrightarrow> watcher_reach E cfg cid ledger w"
| tick: "watcher_reach E cfg cid ledger w \<Longrightarrow> we_ethers W = E \<Longrightarrow> we_cfg W = cfg \<Longrightarrow> logs_sound ledger W \<Longrightarrow>
    watcher_reach E cfg cid ledger (snd (watcher_tick n local_store W w))"
| environment: "watcher_reach E cfg cid ledger w \<Longrightarrow> fs_files st = fs_files (w_store w) \<Longrightarrow>
    watcher_reach E cfg cid ledger (w\<lparr>w_store := st, w_stops := stops, w_inFlight := busy\<rparr>)"

lemma cov_same_files:
  "ls.cov E d ledger fb s \<Longrightarrow> fs_files s' = fs_files s \<Longrightarrow> ls.cov E d ledger fb s'"
  using fs_lookup_eq [of s' s] by (simp add: ls.cov_def fs_lookup_def fun_eq_iff)

lemma fresh_store:
  assumes "fs_files s = []"
  shows "fs_view s = \<lparr>sv_verified = Map.empty, sv_unverified = Map.empty, sv_failed = Map.empty, sv_cursor = None\<rparr>" "fs_inv s"
  using assms by (auto simp: fs_view_def fs_inv_def fs_lookup_def fun_eq_iff)

lemma watcher_reach_inv:
  assumes "watcher_reach E cfg cid ledger w"
  shows "w_chainId w = Some cid \<and> ls.cov E (watch_domain cfg cid) ledger (wc_fromBlock cfg) (w_store w)"
  using assms
proof induction
  case (fresh w)
  then show ?case by (simp add: ls.cov_def fresh_store store_sound_def covered_def)
next
  case (tick w W n)
  then show ?case using ls.tick_keeps_cov [of ledger W cid w n] tick_keeps_chainId [of n local_store W w] by simp
next
  case (environment w st stops busy)
  then show ?case using cov_same_files by auto
qed

section \<open>Records against the chain\<close>

text \<open>The history of the aggregator contract: for a block, the commitment stored for a proposal and the validator registered at a slot. A provider reads it when every pinned read that returns at all returns the value of the
  history; a read may throw.\<close>

record aggregator_history =
  ah_commitment :: "int \<Rightarrow> int \<Rightarrow> string"
  ah_validator :: "int \<Rightarrow> int \<Rightarrow> string"

definition reads_history :: "aggregator_history \<Rightarrow> chain_view \<Rightarrow> bool" where
  "reads_history X C \<longleftrightarrow> (\<forall>b p c. cv_proposalSignersCommitment C (Some b) p = Inr c \<longrightarrow> c = ah_commitment X b p)
     \<and> (\<forall>b s v. cv_validatorAtSlot C (Some b) s = Inr v \<longrightarrow> v = ah_validator X b s)"

text \<open>What a canonical record of a proposal says about the chain.\<close>

definition verified_on_chain :: "'b ethers \<Rightarrow> bls_consensus_domain \<Rightarrow> aggregator_history \<Rightarrow> int \<Rightarrow> guardian_signer_record \<Rightarrow> bool" where
  "verified_on_chain E d X p r \<longleftrightarrow> gr_commitmentVerified r \<and> js_BigInt (gr_proposalId r) = Inr p
     \<and> gr_commitment r = ah_commitment X (int (gr_executionBlock r)) p \<and> gr_commitment r \<noteq> ZeroHash
     \<and> (\<exists>m e mh. js_BigInt (gr_signerMask r) = Inr m \<and> js_BigInt (gr_epoch r) = Inr e
        \<and> resolveClaimedSigners E (\<lambda>b s. Inr (ah_validator X b s)) m (int (gr_executionBlock r)) = Inr (gr_claimedSigners r)
        \<and> (rawSlashMessageHash E d p (gr_operator r) (gr_slashLevel r) e (gr_evidenceHash r) = Inr mh
           \<or> (\<exists>users scores. users \<noteq> [] \<and> repSlashMessageHash E d p (gr_operator r) (gr_slashLevel r) users scores e = Inr mh))
        \<and> computeSignersCommitment E d p mh m (gr_claimedSigners r) = Inr (ah_commitment X (int (gr_executionBlock r)) p))"

lemma rmap_refine: "rmap f xs = Inr ys \<Longrightarrow> (\<And>x y. f x = Inr y \<Longrightarrow> g x = Inr y) \<Longrightarrow> rmap g xs = Inr ys"
  by (induction xs arbitrary: ys) auto

lemma resolve_history:
  assumes "reads_history X C" "resolveClaimedSigners E (\<lambda>b. cv_validatorAtSlot C (Some b)) m b = Inr as"
  shows "resolveClaimedSigners E (\<lambda>b s. Inr (ah_validator X b s)) m b = Inr as"
proof -
  from assms(2) obtain as0 where c: "collect_slots E m (cv_validatorAtSlot C (Some b)) [1..MAX_VALIDATORS] = Inr as0"
    by (auto simp: resolveClaimedSigners_def orderSignersFromSlotMap_def)
  have "collect_slots E m (\<lambda>s. Inr (ah_validator X b s)) [1..MAX_VALIDATORS] = Inr as0"
    using c unfolding collect_slots_rmap by (rule rmap_refine) (use assms(1) in \<open>auto simp: reads_history_def\<close>)
  with c assms(2) show ?thesis by (simp add: resolveClaimedSigners_def orderSignersFromSlotMap_def)
qed

lemma build_on_chain:
  assumes "reads_history X (we_chain W)" "buildGuardianSignerRecord W cid pid tx b = Inr r" "gr_commitmentVerified r"
  shows "verified_on_chain (we_ethers W) (watch_domain (we_cfg W) cid) X pid r"
proof -
  let ?d = "watch_domain (we_cfg W) cid"
  from assms(2) obtain data args where d: "cv_getTransaction (we_chain W) tx = Inr (Some data)" "decodeVerifyAndExecuteCalldata (we_ethers W) (we_lib W) data = Inr args"
    by (auto simp: buildGuardianSignerRecord_def Let_def)
  with assms(2,3) obtain mh where
    f: "gr_proposalId r = int_to_string pid" "gr_epoch r = int_to_string (va_epoch args)" "gr_signerMask r = int_to_string (va_signerMask args)" "gr_executionBlock r = b"
      "gr_operator r = va_operator args" "gr_slashLevel r = va_slashLevel args" "gr_evidenceHash r = va_evidenceHash args" "gr_commitment r \<noteq> ZeroHash"
    and res: "resolveClaimedSigners (we_ethers W) (\<lambda>b. cv_validatorAtSlot (we_chain W) (Some b)) (va_signerMask args) (int b) = Inr (gr_claimedSigners r)"
    and msg: "(if va_repUsers args = [] then rawSlashMessageHash (we_ethers W) ?d pid (va_operator args) (va_slashLevel args) (va_epoch args) (va_evidenceHash args)
       else repSlashMessageHash (we_ethers W) ?d pid (va_operator args) (va_slashLevel args) (va_repUsers args) (va_newScores args) (va_epoch args)) = Inr mh"
    and com: "computeSignersCommitment (we_ethers W) ?d pid mh (va_signerMask args) (gr_claimedSigners r) = Inr (gr_commitment r)"
    and chain: "cv_proposalSignersCommitment (we_chain W) (Some (int b)) pid = Inr (gr_commitment r)"
    by (auto simp: buildGuardianSignerRecord_def Let_def split del: if_split)
  have c: "gr_commitment r = ah_commitment X (int b) pid" using assms(1) chain by (simp add: reads_history_def)
  have "rawSlashMessageHash (we_ethers W) ?d pid (gr_operator r) (gr_slashLevel r) (va_epoch args) (gr_evidenceHash r) = Inr mh
      \<or> (\<exists>users scores. users \<noteq> [] \<and> repSlashMessageHash (we_ethers W) ?d pid (gr_operator r) (gr_slashLevel r) users scores (va_epoch args) = Inr mh)"
    using msg f(5-7) by (auto split: if_splits)
  then show ?thesis unfolding verified_on_chain_def
    using assms(3) f(1-4,8) c resolve_history [OF assms(1) res] com by auto
qed

lemma stable_in_store: "stable P m \<Longrightarrow> stable (\<lambda>w. P (w_store w)) (in_store m)"
  by (auto simp: stable_def in_store_def split: prod.splits)

lemma stable_watch [frame_rules]: "stable (\<lambda>w. P (w_store w)) read_stopping" "stable (\<lambda>w. P (w_store w)) (send_alert a)"
  by (auto simp: stable_def read_stopping_def send_alert_def split: list.splits)

context signer_store
begin

text \<open>A store whose canonical records all satisfy \<open>G\<close> stays so, as long as only such records are put.\<close>

definition canonical :: "(int \<Rightarrow> guardian_signer_record \<Rightarrow> bool) \<Rightarrow> 's \<Rightarrow> bool" where
  "canonical G s \<longleftrightarrow> inv s \<and> (\<forall>p r. sv_verified (view s) p = Some r \<longrightarrow> G p r)"

lemma canonical_step:
  "(\<And>s. inv s \<Longrightarrow> inv (snd (m s)) \<and> sv_verified (view (snd (m s))) = sv_verified (view s)) \<Longrightarrow> stable (canonical G) m"
  by (auto simp: stable_def canonical_def)

lemma canonical_reads:
  "stable (canonical G) (so_hasTerminal ops pid)" "stable (canonical G) (so_hasFailure ops b i)" "stable (canonical G) (so_listFailures ops)" "stable (canonical G) (so_readCursor ops)"
  using hasTerminal_read hasFailure_read listFailures_read readCursor_read by (metis canonical_step prod.collapse)+

lemma atomic_verified: "atomic_effect v v' res Q \<Longrightarrow> (\<And>v'. Q v' \<Longrightarrow> sv_verified v' = sv_verified v) \<Longrightarrow> sv_verified v' = sv_verified v"
  by (auto simp: atomic_effect_def split: sum.splits)

lemma canonical_writes:
  "stable (canonical G) (so_putUnverified ops r)" "stable (canonical G) (so_putFailure ops f)" "stable (canonical G) (so_writeCursor ops b)" "stable (canonical G) (so_removeFailure ops bl li)"
proof -
  have "sv_verified (view (snd (so_putUnverified ops r s))) = sv_verified (view s)" if "inv s" for s
    by (rule atomic_verified [OF putUnverified_view [OF that, of r]], rule surjective_pairing) auto
  then show "stable (canonical G) (so_putUnverified ops r)" by (intro canonical_step conjI putUnverified_inv)
  have "sv_verified (view (snd (so_putFailure ops f s))) = sv_verified (view s)" if "inv s" for s
    by (rule atomic_verified [OF putFailure_view [OF that, of f]], rule surjective_pairing) auto
  then show "stable (canonical G) (so_putFailure ops f)" by (intro canonical_step conjI putFailure_inv)
  have "sv_verified (view (snd (so_writeCursor ops b s))) = sv_verified (view s)" if "inv s" for s
    by (rule atomic_verified [OF writeCursor_view [OF that, of b]], rule surjective_pairing) auto
  then show "stable (canonical G) (so_writeCursor ops b)" by (intro canonical_step conjI writeCursor_inv)
  have "sv_verified (view (snd (so_removeFailure ops bl li s))) = sv_verified (view s)" if "inv s" for s
    using removeFailure_view [OF that surjective_pairing, of bl li] by auto
  then show "stable (canonical G) (so_removeFailure ops bl li)" by (intro canonical_step conjI removeFailure_inv)
qed

lemma canonical_put:
  assumes "\<And>p. js_BigInt (gr_proposalId r) = Inr p \<Longrightarrow> G p r"
  shows "stable (canonical G) (so_putVerified ops r)"
  unfolding stable_def
proof (intro allI impI)
  fix s assume s: "canonical G s"
  then have i: "inv s" by (simp add: canonical_def)
  from putVerified_view [OF i, of r "fst (so_putVerified ops r s)" "snd (so_putVerified ops r s)"]
  show "canonical G (snd (so_putVerified ops r s))" using putVerified_inv [OF i] s assms
    by (auto simp: canonical_def atomic_effect_def split: sum.splits if_splits)
qed

lemmas canonical_ops = canonical_reads [THEN stable_in_store] canonical_writes [THEN stable_in_store]

lemma canonical_capture:
  assumes "\<And>r. buildGuardianSignerRecord W cid pid tx b = Inr r \<Longrightarrow> gr_commitmentVerified r \<Longrightarrow> G pid r"
  shows "stable (\<lambda>w. canonical G (w_store w)) (captureOne ops W cid pid tx b i)"
proof -
  have dead: "stable (\<lambda>w. canonical G (w_store w)) (deadLetter ops pid tx b i e)" for e
    unfolding deadLetter_def Let_def by (intro frame_rules canonical_ops)
  show ?thesis
  proof (cases "buildGuardianSignerRecord W cid pid tx b")
    case (Inl e)
    show ?thesis unfolding captureOne_def Inl by (rule stable_scatch [OF _ dead]) (simp add: stable_def sbind_def)
  next
    case (Inr r)
    have "stable (canonical G) (so_putVerified ops r)" if "gr_commitmentVerified r"
      using assms [OF Inr that] build_record_fields(1) [OF Inr] by (intro canonical_put) simp
    then have "stable (\<lambda>w. canonical G (w_store w)) (if gr_commitmentVerified r then sbind (in_store (so_putVerified ops r)) (\<lambda>_. sret ())
          else sbind (in_store (so_putUnverified ops r)) (\<lambda>_. send_alert (Quarantined pid)))"
      by (cases "gr_commitmentVerified r") (simp_all add: frame_rules canonical_ops stable_in_store)
    then show ?thesis unfolding captureOne_def Inr sbind_slift_Inr by (rule stable_scatch [OF _ dead])
  qed
qed

lemma canonical_tick:
  assumes "\<And>pid tx b r. buildGuardianSignerRecord W cid pid tx b = Inr r \<Longrightarrow> gr_commitmentVerified r \<Longrightarrow> G pid r"
  shows "stable (\<lambda>w. canonical G (w_store w)) (guarded_tick n ops W cid)"
proof -
  note cap = canonical_capture [of W cid _ _ _ G, OF assms]
  have logs: "stable (\<lambda>w. canonical G (w_store w)) (scan_logs ops W cid logs)" for logs
    by (induction logs) (simp_all only: scan_logs.simps, (intro frame_rules canonical_ops cap | assumption)+)
  have retry: "stable (\<lambda>w. canonical G (w_store w)) (retry_loop ops W cid fl)" for fl
    by (induction fl) (simp_all only: retry_loop.simps, (intro frame_rules canonical_ops cap | assumption)+)
  have scan: "stable (\<lambda>w. canonical G (w_store w)) (scan_loop m ops W cid a h)" for m a h
    by (induction m arbitrary: a) (simp_all only: scan_loop.simps scanRange_def Let_def, (intro frame_rules canonical_ops logs | assumption)+)
  show ?thesis unfolding guarded_tick_def tick_body_def retryFailures_def Let_def by (intro frame_rules canonical_ops retry scan)
qed

end

text \<open>The life of a watcher whose provider reads the history of the contract.\<close>

inductive watcher_on_chain :: "'b ethers \<Rightarrow> watcher_config \<Rightarrow> int \<Rightarrow> aggregator_history \<Rightarrow> fs watcher \<Rightarrow> bool"
  for E :: "'b ethers" and cfg :: watcher_config and cid :: int and X :: aggregator_history where
  fresh: "fs_files (w_store w) = [] \<Longrightarrow> w_chainId w = Some cid \<Longrightarrow> watcher_on_chain E cfg cid X w"
| tick: "watcher_on_chain E cfg cid X w \<Longrightarrow> we_ethers W = E \<Longrightarrow> we_cfg W = cfg \<Longrightarrow> reads_history X (we_chain W) \<Longrightarrow>
    watcher_on_chain E cfg cid X (snd (watcher_tick n local_store W w))"
| environment: "watcher_on_chain E cfg cid X w \<Longrightarrow> fs_files st = fs_files (w_store w) \<Longrightarrow>
    watcher_on_chain E cfg cid X (w\<lparr>w_store := st, w_stops := stops, w_inFlight := busy\<rparr>)"

lemma canonical_same_files: "ls.canonical G s \<Longrightarrow> fs_files s' = fs_files s \<Longrightarrow> ls.canonical G s'"
  using fs_lookup_eq [of s' s] by (simp add: ls.canonical_def fs_lookup_def fun_eq_iff)

lemma on_chain_inv:
  assumes "watcher_on_chain E cfg cid X w"
  shows "w_chainId w = Some cid \<and> ls.canonical (verified_on_chain E (watch_domain cfg cid) X) (w_store w)"
  using assms
proof induction
  case (fresh w)
  then show ?case by (simp add: ls.canonical_def fresh_store)
next
  case (tick w W n)
  let ?G = "verified_on_chain E (watch_domain cfg cid) X"
  have "stable (\<lambda>w. ls.canonical ?G (w_store w)) (guarded_tick n local_store W cid)"
    using build_on_chain [OF tick.hyps(4)] tick.hyps(2,3) by (intro ls.canonical_tick) simp
  then have "ls.canonical ?G (w_store (snd (watcher_tick n local_store W w)))"
    using watcher_tick_store [of w cid n local_store W] tick.IH unfolding stable_def by metis
  then show ?case using tick_keeps_chainId [of n local_store W w] tick.IH by simp
next
  case (environment w st stops busy)
  then show ?case using canonical_same_files by auto
qed

section \<open>Properties\<close>

text \<open>A small chain for the witnesses: one \<^verbatim>\<open>SlashExecuted\<close> log at block 7 whose transaction the
  provider cannot return, three blocks above the finalized head.\<close>

definition demo_ledger :: "nat \<times> nat \<rightharpoonup> int" where
  "demo_ledger = [(7, 0) \<mapsto> 42]"

definition demo_getLogs :: "int \<Rightarrow> int \<Rightarrow> slash_log list result" where
  "demo_getLogs a b = Inr (if a \<le> 7 \<and> 7 \<le> b
     then [\<lparr>sl_proposalId = 42, sl_txHash = ''0xaa'', sl_block = 7, sl_index = 0\<rparr>] else [])"

definition demo_chain :: chain_view where
  "demo_chain = \<lparr>cv_getTransaction = (\<lambda>_. Inr None), cv_validatorAtSlot = (\<lambda>_ _. Inr ZeroAddress),
     cv_proposalSignersCommitment = (\<lambda>_ _. Inr ZeroHash), cv_getBlockTimestamp = (\<lambda>_. Inr None),
     cv_getLogs = demo_getLogs, cv_getBlockNumber = Inr 12, cv_getCode = Inr ''0x60'', cv_getChainId = Inr 1,
     cv_REGISTRY = Inr ZeroAddress, cv_domainSeparator = Inr ZeroHash\<rparr>"

definition demo_config :: watcher_config where
  "demo_config = \<lparr>wc_enabled = True, wc_aggregatorAddress = ZeroAddress, wc_registryAddress = ZeroAddress,
     wc_expectedChainId = 1, wc_aggregatorFromEnv = True, wc_rpcUrl = ''http'', wc_intervalMs = JFin 60000,
     wc_fromBlock = 5, wc_finalityConfirmations = 3, wc_logChunk = 4\<rparr>"

definition demo_lib :: calldata_lib where
  "demo_lib = \<lparr>parseTransaction = (\<lambda>_. None), decode_first_word = (\<lambda>_. None)\<rparr>"

definition demo_env :: "abi_value list watch_env" where
  "demo_env = \<lparr>we_ethers = sample_ethers, we_lib = demo_lib, we_chain = demo_chain, we_cfg = demo_config\<rparr>"

definition demo_watcher :: "fs watcher" where
  "demo_watcher = \<lparr>w_store = \<lparr>fs_files = [], fs_faults = []\<rparr>, w_stops = [], w_inFlight = False,
     w_chainId = Some 1, w_alerts = []\<rparr>"

definition demo_failure :: guardian_capture_failure where
  "demo_failure = \<lparr>gf_block = 7, gf_logIndex = 0, gf_txHash = ''0xaa'', gf_proposalId = int_to_string 42,
     gf_reason = TxNotFound, gf_attempts = 1, gf_parked = False\<rparr>"

lemmas demo_defs = demo_ledger_def demo_getLogs_def demo_chain_def demo_config_def demo_lib_def demo_env_def
  demo_watcher_def demo_failure_def

lemma demo_logs_sound: "logs_sound demo_ledger demo_env"
  by (auto simp: logs_sound_def logs_upto_def demo_defs split: if_splits)

lemma demo_capture: "buildGuardianSignerRecord demo_env 1 42 ''0xaa'' 7 = Inl TxNotFound"
  by (simp add: buildGuardianSignerRecord_def demo_defs)

lemmas demo_eval = watcher_tick_def guarded_tick_def tick_body_def retryFailures_def scanRange_def
  read_stopping_def in_store_def send_alert_def captureOne_def deadLetter_def listFailures_def
  hasTerminal_def hasFailure_def putFailure_def readCursor_def writeCursor_def atomicWrite_def
  fs_mkdir_def fs_writeFile_def fs_readFile_def fs_rename_def fs_access_def fs_readdir_def fs_fault_def
  sbind_def scatch_def fs_lookup_def Let_def

lemma demo_tick:
  "watcher_tick 3 local_store demo_env demo_watcher =
     (Inr True, demo_watcher\<lparr>w_store := \<lparr>fs_files = [(failedFile 7 0, FFailure demo_failure),
        (cursorFile, FText (int_to_string 9))], fs_faults = []\<rparr>, w_alerts := [NotCaptured 42 1 TxNotFound]\<rparr>)"
proof -
  have cap: "buildGuardianSignerRecord demo_env 1 42 ''0xaa'' 7 = Inl TxNotFound" by (rule demo_capture)
  have cfg: "wc_fromBlock (we_cfg demo_env) = 5" "wc_finalityConfirmations (we_cfg demo_env) = 3"
    "wc_logChunk (we_cfg demo_env) = 4" "cv_getBlockNumber (we_chain demo_env) = Inr 12"
    "cv_getLogs (we_chain demo_env) = demo_getLogs"
    by (simp_all add: demo_defs)
  have ne: "failedFile 7 0 \<noteq> tmp_path cursorFile" by (metis tmp_path_is_tmp paths_not_tmp(3))
  show ?thesis
    by (simp add: ne ne [symmetric] demo_eval cfg cap demo_watcher_def demo_getLogs_def numeral_3_eq_3 MAX_CAPTURE_ATTEMPTS_def demo_failure_def)
qed

lemma demo_reach:
  "watcher_reach sample_ethers demo_config 1 demo_ledger demo_watcher"
  "watcher_reach sample_ethers demo_config 1 demo_ledger (snd (watcher_tick 3 local_store demo_env demo_watcher))"
proof -
  show f: "watcher_reach sample_ethers demo_config 1 demo_ledger demo_watcher"
    by (rule watcher_reach.fresh) (simp_all add: demo_watcher_def)
  show "watcher_reach sample_ethers demo_config 1 demo_ledger (snd (watcher_tick 3 local_store demo_env demo_watcher))"
    by (rule watcher_reach.tick [OF f _ _ demo_logs_sound]) (simp_all add: demo_env_def)
qed

text \<open>C1: the scan cursor never passes a slash that was not accounted for. Whatever file operations
  fail, whenever shutdown is seen and whichever provider reads throw, in every state a node can
  reach each \<^verbatim>\<open>SlashExecuted\<close> log between the configured start block and the durable cursor has a
  verified record, a quarantined record or a dead letter.\<close>

theorem cursor_never_skips_a_slash:
  assumes "watcher_reach E cfg cid ledger w"
    and "ledger (block, index) = Some proposalId"
    and "fst (readCursor (w_store w)) = Inr (Some cursor)"
    and "wc_fromBlock cfg \<le> int block" "int block \<le> cursor"
  shows "terminal (fs_view (w_store w)) proposalId \<or> (block, index) \<in> dom (sv_failed (fs_view (w_store w)))"
proof -
  obtain s' where "readCursor (w_store w) = (Inr (Some cursor), s')" using assms(3) by (metis prod.collapse)
  then have "sv_cursor (fs_view (w_store w)) = Some cursor" using readCursor_cases(2) by fastforce
  then have "accounted ledger (fs_view (w_store w)) (block, index)"
    using watcher_reach_inv [OF assms(1)] assms(2,4,5) by (fastforce simp: ls.cov_def covered_def)
  then show ?thesis using assms(2) by (simp add: accounted_def)
qed

lemma demo_cursor:
  "fst (readCursor (w_store (snd (watcher_tick 3 local_store demo_env demo_watcher)))) = Inr (Some 9)"
proof -
  have "cursor_of_text (int_to_string 9) = Some 9" using cursor_roundtrip [of 9] by simp
  then show ?thesis
    unfolding demo_tick by (simp add: demo_eval cursorFile_def failedFile_def)
qed

theorem cursor_never_skips_a_slash_witness:
  "terminal (fs_view (w_store (snd (watcher_tick 3 local_store demo_env demo_watcher)))) 42 \<or>
   (7, 0) \<in> dom (sv_failed (fs_view (w_store (snd (watcher_tick 3 local_store demo_env demo_watcher)))))"
  by (rule cursor_never_skips_a_slash [OF demo_reach(2) _ demo_cursor])
    (simp_all add: demo_ledger_def demo_config_def)

text \<open>C24: a tick over a working disk and provider completes. If no file operation fails, no shutdown
  is seen, every \<^verbatim>\<open>getLogs\<close> call answers and the chunk size is positive, as the configuration
  enforces, then \<open>safeHead + 2\<close> rounds of the scan loop are enough, the tick ends without an
  exception and the durable cursor stands at the finalized head or beyond.\<close>

theorem tick_reaches_finalized_head:
  assumes "watcher_reach (we_ethers W) (we_cfg W) cid ledger w" "logs_sound ledger W"
    and "\<And>a b. is_ok (cv_getLogs (we_chain W) a b)"
    and "cv_getBlockNumber (we_chain W) = Inr head" "safeHead = head - wc_finalityConfirmations (we_cfg W)"
    and "0 \<le> wc_fromBlock (we_cfg W)" "wc_fromBlock (we_cfg W) \<le> safeHead" "1 \<le> wc_logChunk (we_cfg W)"
    and "fs_faults (w_store w) = []" "w_stops w = []" "\<not> w_inFlight w" "nat (safeHead + 1) < fuel"
  shows "\<exists>w' cursor. watcher_tick fuel local_store W w = (Inr True, w') \<and> \<not> w_inFlight w' \<and>
    sv_cursor (fs_view (w_store w')) = Some cursor \<and> safeHead \<le> cursor"
proof (rule ls.healthy_tick [OF assms(2,3,8,4,6,5,7,12)])
  show "ls.healthy (we_ethers W) (watch_domain (we_cfg W) cid) ledger (w_store w)" "w_chainId w = Some cid"
    using watcher_reach_inv [OF assms(1)] assms(9) by (auto simp: ls.healthy_def ls.cov_def)
qed (use assms in simp_all)

theorem tick_reaches_finalized_head_witness:
  "\<exists>w' cursor. watcher_tick 11 local_store demo_env demo_watcher = (Inr True, w') \<and> \<not> w_inFlight w' \<and>
    sv_cursor (fs_view (w_store w')) = Some cursor \<and> 9 \<le> cursor"
proof (rule tick_reaches_finalized_head [where cid = 1, OF _ demo_logs_sound])
  show "watcher_reach (we_ethers demo_env) (we_cfg demo_env) 1 demo_ledger demo_watcher"
    using demo_reach(1) by (simp add: demo_env_def)
qed (simp_all add: demo_defs)

text \<open>The same chain with a provider that returns the transaction: the watcher verifies it.\<close>

definition demo_call :: "string \<Rightarrow> parsed_call" where
  "demo_call ev = \<lparr>pc_name = ''verifyAndExecute'', pc_proposalId = 42, pc_operator = demo_signer, pc_slashLevel = 1,
     pc_repUsers = [], pc_newScores = [], pc_epoch = 9, pc_evidenceHash = ev, pc_proof = []\<rparr>"

definition demo_message :: "string \<Rightarrow> string" where
  "demo_message ev = projr (rawSlashMessageHash sample_ethers (watch_domain demo_config 1) 42 demo_signer 1 9 ev)"

definition demo_commitment :: "string \<Rightarrow> string" where
  "demo_commitment ev = projr (computeSignersCommitment sample_ethers (watch_domain demo_config 1) 42 (demo_message ev) 1 [demo_signer])"

definition demo2_env :: "string \<Rightarrow> abi_value list watch_env" where
  "demo2_env ev = demo_env\<lparr>we_lib := \<lparr>parseTransaction = (\<lambda>_. Some (demo_call ev)), decode_first_word = (\<lambda>_. Some 1)\<rparr>,
     we_chain := demo_chain\<lparr>cv_getTransaction := (\<lambda>_. Inr (Some ''0x'')), cv_validatorAtSlot := (\<lambda>_ _. Inr demo_signer),
       cv_proposalSignersCommitment := (\<lambda>_ _. Inr (demo_commitment ev))\<rparr>\<rparr>"

definition demo_record :: "string \<Rightarrow> guardian_signer_record" where
  "demo_record ev = \<lparr>gr_proposalId = int_to_string 42, gr_operator = demo_signer, gr_slashLevel = 1,
     gr_epoch = int_to_string 9, gr_evidenceHash = ev, gr_signerMask = int_to_string 1,
     gr_claimedSigners = [demo_signer], gr_executionBlock = 7, gr_txHash = ''0xaa'', gr_chainId = int_to_string 1,
     gr_commitment = (demo_commitment ev), gr_commitmentVerified = True, gr_executionBlockTimestamp = 0\<rparr>"

lemma demo_hashes:
  "rawSlashMessageHash sample_ethers (watch_domain demo_config 1) 42 demo_signer 1 9 ev = Inr (demo_message ev)"
  "computeSignersCommitment sample_ethers (watch_domain demo_config 1) 42 (demo_message ev) 1 [demo_signer] = Inr (demo_commitment ev)"
  "(demo_commitment ev) \<noteq> ZeroHash"
  by (simp_all add: demo_message_def demo_commitment_def computeSignersCommitment_def signersCommitment_def
      rawSlashMessageHash_def executeSlashMessageHash_def domainSeparator_def keccak_encode_def address_of_def
      watch_domain_def demo_config_def assertCanonicalSigners_def)

lemma demo_resolve: "resolveClaimedSigners sample_ethers (\<lambda>b s. Inr demo_signer) 1 7 = Inr [demo_signer]"
  by (simp add: resolveClaimedSigners_def orderSignersFromSlotMap_def MAX_VALIDATORS_def upto.simps
      collect_slots_rmap address_of_def)

lemma demo2_capture: "buildGuardianSignerRecord (demo2_env ev) 1 42 ''0xaa'' 7 = Inr (demo_record ev)"
proof -
  have env: "we_ethers (demo2_env ev) = sample_ethers" "we_cfg (demo2_env ev) = demo_config"
    "cv_getTransaction (we_chain (demo2_env ev)) = (\<lambda>_. Inr (Some ''0x''))"
    "cv_validatorAtSlot (we_chain (demo2_env ev)) = (\<lambda>_ _. Inr demo_signer)"
    "cv_proposalSignersCommitment (we_chain (demo2_env ev)) = (\<lambda>_ _. Inr (demo_commitment ev))"
    "cv_getBlockTimestamp (we_chain (demo2_env ev)) = (\<lambda>_. Inr None)"
    "parseTransaction (we_lib (demo2_env ev)) = (\<lambda>_. Some (demo_call ev))" "decode_first_word (we_lib (demo2_env ev)) = (\<lambda>_. Some 1)"
    by (simp_all add: demo2_env_def demo_env_def demo_chain_def)
  show ?thesis
    by (simp add: buildGuardianSignerRecord_def env decodeVerifyAndExecuteCalldata_def decodeSignerMaskFromBlsProof_def
        demo_call_def address_of_def demo_resolve demo_hashes demo_record_def)
qed

lemma demo2_tick:
  "watcher_tick 3 local_store (demo2_env ev) demo_watcher =
     (Inr True, demo_watcher\<lparr>w_store := \<lparr>fs_files = [(verifiedFile 42, FRecord (demo_record ev)),
        (cursorFile, FText (int_to_string 9))], fs_faults = []\<rparr>\<rparr>)"
proof -
  have cfg: "wc_fromBlock (we_cfg (demo2_env ev)) = 5" "wc_finalityConfirmations (we_cfg (demo2_env ev)) = 3"
    "wc_logChunk (we_cfg (demo2_env ev)) = 4" "cv_getBlockNumber (we_chain (demo2_env ev)) = Inr 12"
    "cv_getLogs (we_chain (demo2_env ev)) = demo_getLogs" "gr_proposalId (demo_record ev) = int_to_string 42"
    "gr_commitmentVerified (demo_record ev)"
    by (simp_all add: demo2_env_def demo_defs demo_record_def)
  have ne: "verifiedFile 42 \<noteq> tmp_path cursorFile" by (metis tmp_path_is_tmp paths_not_tmp(1))
  show ?thesis
    by (simp add: ne ne [symmetric] demo_eval putVerified_def cfg demo2_capture demo_watcher_def demo_getLogs_def numeral_3_eq_3)
qed

lemma demo2_on_chain:
  "watcher_on_chain sample_ethers demo_config 1 \<lparr>ah_commitment = \<lambda>_ _. demo_commitment ev, ah_validator = \<lambda>_ _. demo_signer\<rparr> (snd (watcher_tick 3 local_store (demo2_env ev) demo_watcher))"
proof (rule watcher_on_chain.tick [OF watcher_on_chain.fresh])
  show "reads_history \<lparr>ah_commitment = \<lambda>_ _. demo_commitment ev, ah_validator = \<lambda>_ _. demo_signer\<rparr> (we_chain (demo2_env ev))"
    by (simp add: reads_history_def demo2_env_def)
qed (simp_all add: demo_watcher_def demo2_env_def demo_env_def)

text \<open>C11: every record the canonical store area returns is backed by the chain. Whatever file operations, shutdowns and throwing provider reads a run has, the record of a proposal carries the non-zero commitment that the aggregator
  held for that proposal at the record's execution block; its signers are exactly the validators that held the slots of its mask at that block, in the canonical order; and the signers commitment recomputed
  under the configured domain from its own proposal id, mask and signers, and from the slash message of its own operator, level, epoch and evidence hash (or a reputation message of its epoch), is that on-chain
  commitment. A record whose commitment did not match is never there.\<close>

theorem canonical_records_are_self_verified:
  assumes "watcher_on_chain E cfg cid X w" "fst (getVerified proposalId (w_store w)) = Inr (Some r)"
  shows "gr_commitmentVerified r \<and> js_BigInt (gr_proposalId r) = Inr proposalId \<and>
    gr_commitment r = ah_commitment X (int (gr_executionBlock r)) proposalId \<and> gr_commitment r \<noteq> ZeroHash \<and>
    assertCanonicalSigners (gr_claimedSigners r) = Inr () \<and>
    (\<exists>signerMask epoch messageHash. js_BigInt (gr_signerMask r) = Inr signerMask \<and> js_BigInt (gr_epoch r) = Inr epoch \<and>
       resolveClaimedSigners E (\<lambda>block slot. Inr (ah_validator X block slot)) signerMask (int (gr_executionBlock r)) = Inr (gr_claimedSigners r) \<and>
       (rawSlashMessageHash E (watch_domain cfg cid) proposalId (gr_operator r) (gr_slashLevel r) epoch (gr_evidenceHash r) = Inr messageHash \<or>
        (\<exists>users scores. users \<noteq> [] \<and> repSlashMessageHash E (watch_domain cfg cid) proposalId (gr_operator r) (gr_slashLevel r) users scores epoch = Inr messageHash)) \<and>
       computeSignersCommitment E (watch_domain cfg cid) proposalId messageHash signerMask (gr_claimedSigners r) =
         Inr (ah_commitment X (int (gr_executionBlock r)) proposalId))"
proof -
  obtain s' where "getVerified proposalId (w_store w) = (Inr (Some r), s')" using assms(2) by (metis prod.collapse)
  then have "sv_verified (fs_view (w_store w)) proposalId = Some r" using getVerified_cases(2) by fastforce
  then have v: "verified_on_chain E (watch_domain cfg cid) X proposalId r"
    using on_chain_inv [OF assms(1)] by (simp add: ls.canonical_def)
  moreover from v have "assertCanonicalSigners (gr_claimedSigners r) = Inr ()"
    by (auto simp: verified_on_chain_def computeSignersCommitment_def signersCommitment_def)
  ultimately show ?thesis unfolding verified_on_chain_def by blast
qed

lemma demo2_getVerified:
  "fst (getVerified 42 (w_store (snd (watcher_tick 3 local_store (demo2_env ''0xee'') demo_watcher)))) = Inr (Some (demo_record ''0xee''))"
  unfolding demo2_tick by (simp add: getVerified_def demo_eval)

theorem canonical_records_are_self_verified_witness:
  "gr_commitment (demo_record ''0xee'') = demo_commitment ''0xee'' \<and> gr_commitment (demo_record ''0xee'') \<noteq> ZeroHash \<and>
    (\<exists>signerMask. js_BigInt (gr_signerMask (demo_record ''0xee'')) = Inr signerMask \<and>
       resolveClaimedSigners sample_ethers (\<lambda>_ _. Inr demo_signer) signerMask (int (gr_executionBlock (demo_record ''0xee''))) = Inr (gr_claimedSigners (demo_record ''0xee'')))"
  using canonical_records_are_self_verified [OF demo2_on_chain demo2_getVerified] by auto

text \<open>A watcher that polls runs on the aggregator's own domain. If bootstrap lets the polling start
  on a chain id, then that is the configured chain id, the aggregator address was given explicitly
  unless the chain is Sepolia, and the (chain, aggregator, registry) triple the node recomputes every
  commitment with is the one the on-chain aggregator hashed into its domain separator.\<close>

theorem bootstrap_pins_chain_and_domain:
  assumes "ethers_ok (we_ethers W)" "bootstrapAndPoll W stopping = Some cid"
    and "cv_domainSeparator (we_chain W) = domainSeparator (we_ethers W) aggregatorDomain"
  shows "\<not> stopping \<and> cid = wc_expectedChainId (we_cfg W) \<and>
    (wc_aggregatorFromEnv (we_cfg W) \<or> cid = SEPOLIA_CHAIN_ID) \<and>
    same_domain (we_ethers W) (watch_domain (we_cfg W) cid) aggregatorDomain"
proof -
  from assms(2) have st: "\<not> stopping" and b: "bootstrap_checks W = Inr (Some cid)"
    by (auto simp: bootstrapAndPoll_def split: sum.splits option.splits if_splits)
  from b have pol: "checkAggregatorChainPolicy \<lparr>cp_expectedChainId = wc_expectedChainId (we_cfg W), cp_providerChainId = cid,
       cp_aggregatorFromEnv = wc_aggregatorFromEnv (we_cfg W), cp_aggregatorRequired = True\<rparr> = PolicyOk"
    and att: "attestDomainAgainstAggregator (we_ethers W) (cv_REGISTRY (we_chain W)) (cv_domainSeparator (we_chain W))
       (watch_domain (we_cfg W) cid) = Inr ()"
    by (auto simp: bootstrap_checks_def Let_def split: if_splits)
  from attest_pins_domain(1) [OF assms(1) att [unfolded assms(3)]] pol st
  show ?thesis by (auto simp: chain_policy_ok_iff)
qed

definition demo3_env :: "abi_value list watch_env" where
  "demo3_env = demo_env\<lparr>we_cfg := demo_config\<lparr>wc_aggregatorAddress := demo_signer, wc_registryAddress := demo_registry\<rparr>,
     we_chain := demo_chain\<lparr>cv_REGISTRY := Inr demo_registry, cv_domainSeparator := domainSeparator sample_ethers
       \<lparr>bd_chainId = 1, bd_aggregator = demo_signer, bd_registry = demo_registry\<rparr>\<rparr>\<rparr>"

theorem bootstrap_pins_chain_and_domain_witness:
  "bootstrapAndPoll demo3_env False = Some 1 \<and>
   same_domain sample_ethers (watch_domain (we_cfg demo3_env) 1)
     \<lparr>bd_chainId = 1, bd_aggregator = demo_signer, bd_registry = demo_registry\<rparr>"
proof -
  have b: "bootstrapAndPoll demo3_env False = Some 1"
    by (simp add: bootstrapAndPoll_def bootstrap_checks_def demo3_env_def demo_env_def demo_chain_def demo_config_def
        checkAggregatorChainPolicy_def attestDomainAgainstAggregator_def address_of_def watch_domain_def
        domainSeparator_def keccak_encode_def)
  have e: "we_ethers demo3_env = sample_ethers" by (simp add: demo3_env_def demo_env_def)
  have "cv_domainSeparator (we_chain demo3_env) =
      domainSeparator sample_ethers \<lparr>bd_chainId = 1, bd_aggregator = demo_signer, bd_registry = demo_registry\<rparr>"
    by (simp add: demo3_env_def)
  with bootstrap_pins_chain_and_domain [of demo3_env False 1] b sample_ethers_ok show ?thesis by (simp add: e)
qed

end
