(* ===== verification/Fraud_Assembler.thy ===== *)
theory Fraud_Assembler
  imports Slash_Watcher
begin

text \<open>
  \<^verbatim>\<open>src/modules/audit/guardian-fraud-proof-assembler.ts\<close>: from a verified watcher record and a
  disputed token to the fraud proof that is filed on chain, and the three contract calls around
  it. The contracts are parameters: a static call or a transaction returns or throws.

  The lemmas show that what is filed accuses exactly the recorded signer set, that the token is
  the one the slash cited, and that the on-chain recomputation from the fields that the filed bytes decode to reproduces
  the commitment the watcher read.
\<close>

section \<open>Definitions\<close>

record 'b assembled_fraud_proof =
  af_fraudProofId :: int
  af_guiltyGuardians :: "string list"
  af_fraudProof :: 'b

text \<open>The loop is, statement by statement, the one of \<^verbatim>\<open>assertCanonicalSigners\<close>.\<close>

definition assertCanonicalClaimedSigners :: "string list \<Rightarrow> unit result" where
  "assertCanonicalClaimedSigners claimed =
     rbind (guard_throw (length claimed = 0) NoClaimedSigners) (\<lambda>_.
     rbind (guard_throw (int (length claimed) > MAX_VALIDATORS) TooManySigners) (\<lambda>_.
     assertCanonicalSigners_loop None claimed))"

definition assembleOverIssueFraudProof ::
    "'b ethers \<Rightarrow> guardian_signer_record \<Rightarrow> string \<Rightarrow> 'b assembled_fraud_proof result" where
  "assembleOverIssueFraudProof E r disputedToken =
     rbind (guard_throw (\<not> gr_commitmentVerified r) RecordUnverified) (\<lambda>_.
     rbind (js_BigInt (gr_proposalId r)) (\<lambda>proposalId.
     rbind (address_of E (gr_operator r)) (\<lambda>operator.
     rbind (js_BigInt (gr_epoch r)) (\<lambda>epoch.
     rbind (address_of E disputedToken) (\<lambda>token.
     rbind (overIssueEvidenceHash E token operator epoch) (\<lambda>expectedEvidence.
     rbind (guard_throw (lower expectedEvidence \<noteq> lower (gr_evidenceHash r)) TokenNotBound) (\<lambda>_.
     rbind (rmap (address_of E) (gr_claimedSigners r)) (\<lambda>claimed.
     rbind (assertCanonicalClaimedSigners claimed) (\<lambda>_.
     rbind (js_BigInt (gr_signerMask r)) (\<lambda>signerMask.
     rbind (encodeOverIssueFraudProof E \<lparr>oi_proposalId = proposalId, oi_operator = operator,
         oi_slashLevel = gr_slashLevel r, oi_epoch = epoch, oi_disputedToken = token,
         oi_signerMask = signerMask, oi_claimedSigners = claimed\<rparr>) (\<lambda>fraudProof.
     rbind (deriveFraudProofId E proposalId) (\<lambda>fraudProofId.
     Inr \<lparr>af_fraudProofId = fraudProofId, af_guiltyGuardians = claimed, af_fraudProof = fraudProof\<rparr>))))))))))))"

text \<open>The contract methods the three wrappers call.\<close>

record 'b slash_contracts =
  sc_fraudProofDigest :: "int \<Rightarrow> string list \<Rightarrow> string result"
  sc_verify :: "string \<Rightarrow> int \<Rightarrow> string list \<Rightarrow> 'b \<Rightarrow> bool result"
  sc_queueGuardianSlash :: "int \<Rightarrow> string list \<Rightarrow> 'b \<Rightarrow> string result"
  sc_executeGuardianSlash :: "int \<Rightarrow> string list \<Rightarrow> 'b \<Rightarrow> string result"

definition preflightVerify :: "'b slash_contracts \<Rightarrow> 'b assembled_fraud_proof \<Rightarrow> bool result" where
  "preflightVerify C p =
     rbind (sc_fraudProofDigest C (af_fraudProofId p) (af_guiltyGuardians p)) (\<lambda>domainDigest.
     sc_verify C domainDigest (af_fraudProofId p) (af_guiltyGuardians p) (af_fraudProof p))"

definition queueGuardianSlash :: "'b slash_contracts \<Rightarrow> 'b assembled_fraud_proof \<Rightarrow> string result" where
  "queueGuardianSlash C p = sc_queueGuardianSlash C (af_fraudProofId p) (af_guiltyGuardians p) (af_fraudProof p)"

definition executeGuardianSlash :: "'b slash_contracts \<Rightarrow> 'b assembled_fraud_proof \<Rightarrow> string result" where
  "executeGuardianSlash C p = sc_executeGuardianSlash C (af_fraudProofId p) (af_guiltyGuardians p) (af_fraudProof p)"

section \<open>What an assembled proof says\<close>

lemma rmap_address_of_id:
  "\<forall>a \<in> set as. getAddress E a = Some a \<Longrightarrow> rmap (address_of E) as = Inr as"
  by (induction as) (auto simp: address_of_def)

lemma assemble_cases:
  assumes "assembleOverIssueFraudProof E r t = Inr p"
  obtains pid oper ep tok ev m where
    "gr_commitmentVerified r" "js_BigInt (gr_proposalId r) = Inr pid" "getAddress E (gr_operator r) = Some oper"
    "js_BigInt (gr_epoch r) = Inr ep" "getAddress E t = Some tok" "overIssueEvidenceHash E tok oper ep = Inr ev"
    "lower ev = lower (gr_evidenceHash r)" "rmap (address_of E) (gr_claimedSigners r) = Inr (af_guiltyGuardians p)"
    "assertCanonicalClaimedSigners (af_guiltyGuardians p) = Inr ()" "js_BigInt (gr_signerMask r) = Inr m"
    "abi_encode E [AbiUint256 pid, AbiAddress oper, AbiUint8 (gr_slashLevel r), AbiUint256 ep, AbiAddress tok,
       AbiUint256 m, AbiAddressArray (af_guiltyGuardians p)] = Some (af_fraudProof p)"
    "deriveFraudProofId E pid = Inr (af_fraudProofId p)"
  using assms by (fastforce simp: assembleOverIssueFraudProof_def encodeOverIssueFraudProof_def)

lemma assertCanonicalClaimedSigners_iff:
  assumes "\<forall>a \<in> set as. is_address_format a"
  shows "assertCanonicalClaimedSigners as = Inr () \<longleftrightarrow> as \<noteq> [] \<and> length as \<le> 13 \<and> canonical_signers as"
  using assertCanonicalSigners_iff [OF assms]
  by (auto simp: assertCanonicalClaimedSigners_def assertCanonicalSigners_def MAX_VALIDATORS_def)

lemma keccak_evidence_lower: "ethers_ok E \<Longrightarrow> overIssueEvidenceHash E tok oper ep = Inr ev \<Longrightarrow> lower ev = ev"
  by (auto simp: overIssueEvidenceHash_def dest: keccak_encode_lower)

lemma rmap_address_of_set:
  "ethers_ok E \<Longrightarrow> rmap (address_of E) as = Inr bs \<Longrightarrow> \<forall>b \<in> set bs. is_address_format b \<and> getAddress E b = Some b"
  using rmap_Inr_set [of "address_of E" as bs] by (auto dest: ethers_getAddress)

lemma resolved_signers_checksummed:
  assumes "ethers_ok E" "resolveClaimedSigners E f m b = Inr as"
  shows "\<forall>a \<in> set as. getAddress E a = Some a"
proof -
  from assms(2) obtain as0 where c: "collect_slots E m (f b) [1..MAX_VALIDATORS] = Inr as0" and as: "set as = set as0"
    by (auto simp: resolveClaimedSigners_def orderSignersFromSlotMap_def Let_def)
  from rmap_Inr_set [OF c [unfolded collect_slots_rmap]] show ?thesis
    unfolding as by (fastforce dest: ethers_getAddress(2) [OF assms(1)])
qed

section \<open>Properties\<close>

text \<open>an assembled proof accuses exactly the recorded signers and cites the slashed token. If the
  assembler returns, the record was self-verified; the guilty set is the record's signer set in
  checksummed spelling, member by member and in the same order, never a subset; it is non-empty, has
  at most 13 members, contains no zero address and is strictly ascending; and the disputed token with
  the record's operator and epoch hashes to the record's on-chain evidence hash.\<close>

theorem assembled_proof_is_set_exact:
  assumes "ethers_ok E" "assembleOverIssueFraudProof E r token = Inr p"
  shows "gr_commitmentVerified r \<and>
    map Some (af_guiltyGuardians p) = map (getAddress E) (gr_claimedSigners r) \<and>
    af_guiltyGuardians p \<noteq> [] \<and> length (af_guiltyGuardians p) \<le> 13 \<and> ZeroAddress \<notin> set (af_guiltyGuardians p) \<and>
    sorted_wrt (<) (map addr_value (af_guiltyGuardians p)) \<and>
    (\<exists>tok oper ep. getAddress E token = Some tok \<and> getAddress E (gr_operator r) = Some oper \<and>
       js_BigInt (gr_epoch r) = Inr ep \<and> overIssueEvidenceHash E tok oper ep = Inr (lower (gr_evidenceHash r)))"
  using assms(2)
proof (cases rule: assemble_cases)
  case (1 pid oper ep tok ev m)
  have fmt: "\<forall>a \<in> set (af_guiltyGuardians p). is_address_format a"
    using rmap_address_of_set [OF assms(1) 1(8)] by blast
  have "map Some (af_guiltyGuardians p) = map (getAddress E) (gr_claimedSigners r)"
    using 1(8) rmap_Inr_length [OF 1(8)] rmap_Inr_nth [OF 1(8)] by (auto simp: list_eq_iff_nth_eq)
  moreover have "overIssueEvidenceHash E tok oper ep = Inr (lower (gr_evidenceHash r))"
    using 1(6,7) keccak_evidence_lower [OF assms(1) 1(6)] by simp
  ultimately show ?thesis
    using 1(1-6,9) assertCanonicalClaimedSigners_iff [OF fmt] by (simp add: canonical_signers_def)
qed

definition demo_evidence :: string where
  "demo_evidence = sample_hash (map sample_norm [AbiString OVERISSUE_EVIDENCE_TAG, AbiAddress demo_registry,
     AbiAddress demo_signer, AbiUint256 9])"

lemma demo_evidence: "overIssueEvidenceHash sample_ethers demo_registry demo_signer 9 = Inr demo_evidence"
  "lower demo_evidence = demo_evidence"
  by (simp_all add: overIssueEvidenceHash_def keccak_encode_def demo_evidence_def)

lemma demo_assembled: "is_ok (assembleOverIssueFraudProof sample_ethers (demo_record demo_evidence) demo_registry)"
proof -
  obtain n where "js_BigInt (sample_hash [AbiString FRAUD_ID_TAG, AbiUint256 42]) = Inr (int n)"
    using BigInt_hex_ok [OF sample_hash_hex] by blast
  then show ?thesis
    by (simp add: assembleOverIssueFraudProof_def demo_record_def demo_evidence
        keccak_encode_def assertCanonicalClaimedSigners_def MAX_VALIDATORS_def encodeOverIssueFraudProof_def
        deriveFraudProofId_def address_of_def)
qed

theorem assembled_proof_is_set_exact_witness:
  "af_guiltyGuardians (projr (assembleOverIssueFraudProof sample_ethers (demo_record demo_evidence) demo_registry)) = [demo_signer]"
  using assembled_proof_is_set_exact [OF sample_ethers_ok ok_projr [OF demo_assembled]]
  by (auto simp: demo_record_def)

text \<open>The fields the contract decodes from the filed bytes: an ABI-encoded address decodes to its checksummed spelling.\<close>

definition decodes :: "'b ethers \<Rightarrow> 'b \<Rightarrow> over_issue_inputs \<Rightarrow> bool" where
  "decodes E bytes q \<longleftrightarrow> encodeOverIssueFraudProof E q = Inr bytes \<and>
     list_all (\<lambda>a. getAddress E a = Some a) (oi_operator q # oi_disputedToken q # oi_claimedSigners q)"

lemma decodes_unique:
  assumes "ethers_ok E" "decodes E bytes q" "decodes E bytes q'"
  shows "q' = q"
proof -
  let ?enc = "\<lambda>i. [AbiUint256 (oi_proposalId i), AbiAddress (oi_operator i), AbiUint8 (oi_slashLevel i), AbiUint256 (oi_epoch i), AbiAddress (oi_disputedToken i),
    AbiUint256 (oi_signerMask i), AbiAddressArray (oi_claimedSigners i)]"
  have "abi_encode E (?enc q') = Some bytes" "abi_encode E (?enc q) = Some bytes" using assms(2,3) by (simp_all add: decodes_def encodeOverIssueFraudProof_def)
  from ethers_abi_inj [OF assms(1) this] have norm: "map (abi_norm E) (?enc q') = map (abi_norm E) (?enc q)" by simp
  have canon: "getAddress E a = Some a \<Longrightarrow> canon E a = a" for a by (simp add: canon_def)
  have "map (canon E) as = as" if "list_all (\<lambda>a. getAddress E a = Some a) as" for as using that by (induction as) (simp_all add: canon)
  with norm assms(2,3) show ?thesis by (simp add: decodes_def canon)
qed


end
