(* ===== verification/Slot_Registry.thy ===== *)
theory Slot_Registry
  imports Slash_Consensus
begin

text \<open>
  The slot reads of \<^verbatim>\<open>src/modules/blockchain/blockchain.service.ts\<close> that quorum co-signing binds
  against: \<^verbatim>\<open>getValidatorAtSlot\<close>, \<^verbatim>\<open>getBlsPublicKeyAtSlot\<close>, \<^verbatim>\<open>getRegisteredSlot\<close> and
  \<^verbatim>\<open>attestBlsDomain\<close>. The aggregator contract is the parameter \<open>bls_contract\<close>; a read returns or
  throws. \<open>None\<close> is JavaScript's \<^verbatim>\<open>null\<close>.
\<close>

text \<open>\<^verbatim>\<open>getBLSPublicKey\<close> yields the four words of the key (\<open>None\<close> for a word that is no string), the
  slot and the active flag.\<close>

record bls_contract =
  bc_provider :: bool
  bc_validatorAtSlot :: "int \<Rightarrow> string result"
  bc_getBLSPublicKey :: "string \<Rightarrow> (string option list \<times> int \<times> bool) result"
  bc_REGISTRY :: "string result"
  bc_domainSeparator :: "string result"

definition no_provider :: error where
  "no_provider = External ''Blockchain provider not configured''"

definition getValidatorAtSlot :: "'b ethers \<Rightarrow> bls_contract \<Rightarrow> int \<Rightarrow> string option result" where
  "getValidatorAtSlot E C slot =
     rbind (guard_throw (\<not> bc_provider C) no_provider) (\<lambda>_.
     Inr (case bc_validatorAtSlot C slot of Inl _ \<Rightarrow> None
          | Inr addr \<Rightarrow> if addr = [] \<or> addr = ZeroAddress then None else getAddress E addr))"

definition getBlsPublicKeyAtSlot :: "'b ethers \<Rightarrow> bls_contract \<Rightarrow> int \<Rightarrow> string option result" where
  "getBlsPublicKeyAtSlot E C slot =
     rbind (guard_throw (\<not> bc_provider C) no_provider) (\<lambda>_.
     rbind (getValidatorAtSlot E C slot) (\<lambda>v.
     case v of None \<Rightarrow> Inr None
     | Some validator \<Rightarrow>
         (case bc_getBLSPublicKey C validator of Inl _ \<Rightarrow> Inr None
          | Inr (pk, sl, isActive) \<Rightarrow>
              if \<not> isActive then Inr None
              else if None \<in> set pk then Inr None
              else Inr (Some (lower (''0x'' @ concat (map (\<lambda>w. drop 2 (the w)) pk)))))))"

definition getRegisteredSlot :: "'b ethers \<Rightarrow> bls_contract \<Rightarrow> string \<Rightarrow> int option result" where
  "getRegisteredSlot E C operatorEoa =
     rbind (guard_throw (\<not> bc_provider C) no_provider) (\<lambda>_.
     Inr (case getAddress E operatorEoa of None \<Rightarrow> None
          | Some validator \<Rightarrow>
              (case bc_getBLSPublicKey C validator of Inl _ \<Rightarrow> None
               | Inr (pk, slot, isActive) \<Rightarrow>
                   if \<not> isActive then None else if slot < 1 then None else Some slot)))"

definition attestBlsDomain :: "'b ethers \<Rightarrow> bls_contract \<Rightarrow> bls_consensus_domain \<Rightarrow> unit result" where
  "attestBlsDomain E C domain =
     rbind (guard_throw (\<not> bc_provider C) no_provider) (\<lambda>_.
     attestDomainAgainstAggregator E (bc_REGISTRY C) (bc_domainSeparator C) domain)"

section \<open>Facts\<close>

text \<open>A key is only ever read for a non-zero validator that is active.\<close>

lemma key_at_slot_bound:
  assumes "getBlsPublicKeyAtSlot E C slot = Inr (Some k)"
  shows "\<exists>addr validator pk sl. bc_validatorAtSlot C slot = Inr addr \<and> addr \<noteq> ZeroAddress \<and>
    getAddress E addr = Some validator \<and> bc_getBLSPublicKey C validator = Inr (pk, sl, True) \<and>
    k = lower (''0x'' @ concat (map (\<lambda>w. drop 2 (the w)) pk))"
  using assms
  by (auto simp: getBlsPublicKeyAtSlot_def getValidatorAtSlot_def split: option.splits sum.splits if_splits prod.splits)

lemma key_at_slot_lower: "getBlsPublicKeyAtSlot E C slot = Inr (Some k) \<Longrightarrow> lower k = k"
  by (auto dest!: key_at_slot_bound)

lemma registered_slot_pos: "getRegisteredSlot E C w = Inr (Some s) \<Longrightarrow> 1 \<le> s"
  by (auto simp: getRegisteredSlot_def split: option.splits sum.splits if_splits prod.splits)

lemma attestBlsDomain_Inr:
  "attestBlsDomain E C d = Inr () \<longleftrightarrow>
     bc_provider C \<and> attestDomainAgainstAggregator E (bc_REGISTRY C) (bc_domainSeparator C) d = Inr ()"
  by (auto simp: attestBlsDomain_def)

text \<open>Slot reads fail closed. With a provider configured the three slot reads never throw: an empty
  slot, an inactive or malformed key, a malformed address and a reverted call all give \<^verbatim>\<open>null\<close>;
  without one each of them throws.\<close>

theorem slot_reads_fail_closed:
  "is_ok (getValidatorAtSlot E C slot) = bc_provider C \<and> is_ok (getBlsPublicKeyAtSlot E C slot) = bc_provider C \<and>
   is_ok (getRegisteredSlot E C wallet) = bc_provider C \<and>
   (is_ok (bc_validatorAtSlot C slot) \<or> getBlsPublicKeyAtSlot E C slot = (if bc_provider C then Inr None else Inl no_provider))"
  by (auto simp: getValidatorAtSlot_def getBlsPublicKeyAtSlot_def getRegisteredSlot_def guard_throw_def
      split: option.splits sum.splits prod.splits)

end
