(* ===== verification/Cosign_Collector.thy ===== *)
theory Cosign_Collector
  imports Slash_Consensus
begin

text \<open>
  The co-sign transport of \<^verbatim>\<open>src/modules/gossip/gossip.service.ts\<close> (\<^verbatim>\<open>requestCoSignatures\<close>,
  \<^verbatim>\<open>handleCoSignResponse\<close>, \<^verbatim>\<open>countValidatedResponse\<close>) and its payloads
  (\<^verbatim>\<open>gossip.interfaces.ts\<close>). \<open>collector\<close> is the entry of one request in \<^verbatim>\<open>pendingCoSign\<close>; entries of
  other requests are independent. What happens to it is a list of events: a response arrives on a
  connection, a started validation completes, the timer fires. The validator is an argument that
  works on a state of its own (the co-signer's key cache); it runs when its completion is
  processed. Sockets are numbers; a response injected without a socket has none.

  The fields of a response come from the network: \<open>None\<close> stands for a value of another type.
\<close>

section \<open>Definitions\<close>

record co_sign_request_payload = co_sign_request +
  rp_requestId :: string
  rp_requesterNodeId :: string

record co_sign_response =
  rs_requestId :: "string option"
  rs_slot :: "jsnum option"
  rs_signerNodeId :: "string option"
  rs_signerPublicKey :: "string option"
  rs_signatureCompact :: "string option"
  rs_messageHash :: string

type_synonym 'c validator = "co_sign_response \<Rightarrow> ('c, bool) io"

text \<open>\<open>show_slot\<close> is the conversion of a number to a string.\<close>

record ('c, 'k) collect_opts =
  co_threshold :: int
  co_validate :: "'c validator option"
  co_dedupKey :: "co_sign_response \<Rightarrow> 'k"
  co_maxValidations :: "int option"
  co_perConnCap :: "int option"
  co_show_slot :: "jsnum option \<Rightarrow> string"

record ('c, 'k) collector =
  cl_validated :: "('k \<times> co_sign_response) list"
  cl_seenExact :: "string list"
  cl_validationsStarted :: int
  cl_perConn :: "(nat \<times> int) list"
  cl_inFlight :: "co_sign_response list"
  cl_result :: "co_sign_response list option"
  cl_validator :: 'c

definition max_validations :: "('c, 'k) collect_opts \<Rightarrow> int" where
  "max_validations opts = max 1 (case co_maxValidations opts of None \<Rightarrow> 64 | Some n \<Rightarrow> n)"

definition per_conn_cap :: "('c, 'k) collect_opts \<Rightarrow> int" where
  "per_conn_cap opts = max 1 (case co_perConnCap opts of None \<Rightarrow> 4 | Some n \<Rightarrow> n)"

definition per_conn :: "('c, 'k) collector \<Rightarrow> nat \<Rightarrow> int" where
  "per_conn cl ws = (case map_of (cl_perConn cl) ws of None \<Rightarrow> 0 | Some n \<Rightarrow> n)"

definition finish :: "('c, 'k) collector \<Rightarrow> ('c, 'k) collector" where
  "finish cl = (if cl_result cl \<noteq> None then cl else cl\<lparr>cl_result := Some (map snd (cl_validated cl))\<rparr>)"

definition countValidatedResponse ::
    "('c, 'k) collect_opts \<Rightarrow> co_sign_response \<Rightarrow> ('c, 'k) collector \<Rightarrow> ('c, 'k) collector" where
  "countValidatedResponse opts resp cl =
     (if cl_result cl \<noteq> None then cl
      else let key = co_dedupKey opts resp in
        if key \<in> fst ` set (cl_validated cl) then cl
        else let cl' = cl\<lparr>cl_validated := cl_validated cl @ [(key, resp)]\<rparr> in
          if int (length (cl_validated cl')) \<ge> co_threshold opts then finish cl' else cl')"

text \<open>\<^verbatim>\<open>`${payload.signerNodeId}|${payload.slot}|${payload.signatureCompact}`\<close>\<close>

definition exactKey :: "('c, 'k) collect_opts \<Rightarrow> string \<Rightarrow> co_sign_response \<Rightarrow> string" where
  "exactKey opts signerNodeId resp = signerNodeId @ ''|'' @ co_show_slot opts (rs_slot resp) @ ''|'' @
     (case rs_signatureCompact resp of None \<Rightarrow> ''undefined'' | Some s \<Rightarrow> s)"

definition handleCoSignResponse ::
    "('c, 'k) collect_opts \<Rightarrow> string \<Rightarrow> nat option \<Rightarrow> co_sign_response \<Rightarrow> ('c, 'k) collector \<Rightarrow> ('c, 'k) collector" where
  "handleCoSignResponse opts requestId ws resp cl =
     (case rs_requestId resp of None \<Rightarrow> cl
      | Some rid \<Rightarrow>
     (case rs_signerNodeId resp of None \<Rightarrow> cl
      | Some signerNodeId \<Rightarrow>
     if rid \<noteq> requestId \<or> cl_result cl \<noteq> None then cl
     else (case co_validate opts of
       None \<Rightarrow> countValidatedResponse opts resp cl
     | Some _ \<Rightarrow>
         let key = exactKey opts signerNodeId resp in
         if key \<in> set (cl_seenExact cl) then cl
         else let cl1 = cl\<lparr>cl_seenExact := key # cl_seenExact cl\<rparr> in
           if (case ws of None \<Rightarrow> False | Some c \<Rightarrow> per_conn cl1 c \<ge> per_conn_cap opts) then cl1
           else if cl_validationsStarted cl1 \<ge> max_validations opts then cl1
           else cl1\<lparr>cl_perConn := (case ws of None \<Rightarrow> cl_perConn cl1
                       | Some c \<Rightarrow> AList.update c (per_conn cl1 c + 1) (cl_perConn cl1)),
                    cl_validationsStarted := cl_validationsStarted cl1 + 1,
                    cl_inFlight := cl_inFlight cl1 @ [resp]\<rparr>)))"

text \<open>The continuation of a started validation.\<close>

definition validation_done ::
    "('c, 'k) collect_opts \<Rightarrow> nat \<Rightarrow> ('c, 'k) collector \<Rightarrow> ('c, 'k) collector" where
  "validation_done opts i cl =
     (case co_validate opts of None \<Rightarrow> cl
      | Some validate \<Rightarrow>
          if i < length (cl_inFlight cl) then
            let resp = cl_inFlight cl ! i;
                rest = take i (cl_inFlight cl) @ drop (Suc i) (cl_inFlight cl)
            in (case validate resp (cl_validator cl) of
                  (Inr True, v') \<Rightarrow> countValidatedResponse opts resp (cl\<lparr>cl_inFlight := rest, cl_validator := v'\<rparr>)
                | (_, v') \<Rightarrow> cl\<lparr>cl_inFlight := rest, cl_validator := v'\<rparr>)
          else cl)"

datatype collect_event =
    Arrive "nat option" co_sign_response
  | Validated nat
  | Timer

fun collect_step ::
    "('c, 'k) collect_opts \<Rightarrow> string \<Rightarrow> collect_event \<Rightarrow> ('c, 'k) collector \<Rightarrow> ('c, 'k) collector" where
  "collect_step opts requestId (Arrive ws resp) cl = handleCoSignResponse opts requestId ws resp cl"
| "collect_step opts requestId (Validated i) cl = validation_done opts i cl"
| "collect_step opts requestId Timer cl = finish cl"

definition collect_start :: "('c, 'k) collect_opts \<Rightarrow> 'c \<Rightarrow> ('c, 'k) collector" where
  "collect_start opts v =
     (let cl = \<lparr>cl_validated = [], cl_seenExact = [], cl_validationsStarted = 0, cl_perConn = [],
         cl_inFlight = [], cl_result = None, cl_validator = v\<rparr>
      in if co_threshold opts \<le> 0 then finish cl else cl)"

definition collect_run ::
    "('c, 'k) collect_opts \<Rightarrow> string \<Rightarrow> collect_event list \<Rightarrow> ('c, 'k) collector \<Rightarrow> ('c, 'k) collector" where
  "collect_run opts requestId evs cl = fold (collect_step opts requestId) evs cl"

text \<open>The promise: the events up to the moment the timer would fire, then the timer.\<close>

definition requestCoSignatures ::
    "('c, 'k) collect_opts \<Rightarrow> string \<Rightarrow> collect_event list \<Rightarrow> 'c \<Rightarrow> co_sign_response list \<times> 'c" where
  "requestCoSignatures opts requestId evs v =
     (let cl = collect_run opts requestId (evs @ [Timer]) (collect_start opts v)
      in (the (cl_result cl), cl_validator cl))"

section \<open>Invariants of a collector\<close>

text \<open>Every accepted response was accepted by the validator in some state of the validator, under
  its own key, and keys are unique; a result is the accepted list; the budgets hold.\<close>

definition accepted_by :: "('c, 'k) collect_opts \<Rightarrow> co_sign_response \<Rightarrow> bool" where
  "accepted_by opts resp \<longleftrightarrow> (case co_validate opts of None \<Rightarrow> True
     | Some validate \<Rightarrow> \<exists>v. fst (validate resp v) = Inr True)"

definition collector_inv :: "('c, 'k) collect_opts \<Rightarrow> ('c, 'k) collector \<Rightarrow> bool" where
  "collector_inv opts cl \<longleftrightarrow>
     distinct (map fst (cl_validated cl)) \<and>
     (\<forall>(k, r) \<in> set (cl_validated cl). k = co_dedupKey opts r \<and> accepted_by opts r) \<and>
     (\<forall>rs. cl_result cl = Some rs \<longrightarrow> rs = map snd (cl_validated cl)) \<and>
     cl_validationsStarted cl \<le> max_validations opts \<and> (\<forall>ws. per_conn cl ws \<le> per_conn_cap opts)"

lemma caps_pos: "1 \<le> max_validations opts" "1 \<le> per_conn_cap opts"
  by (simp_all add: max_validations_def per_conn_cap_def)

lemma per_conn_simps [simp]:
  "per_conn (cl\<lparr>cl_seenExact := x\<rparr>) = per_conn cl"
  "per_conn (cl\<lparr>cl_validated := y\<rparr>) = per_conn cl"
  "per_conn (cl\<lparr>cl_inFlight := z, cl_validator := v\<rparr>) = per_conn cl"
  "per_conn (cl\<lparr>cl_result := w\<rparr>) = per_conn cl"
  by (simp_all add: per_conn_def fun_eq_iff)

lemma finish_inv: "collector_inv opts cl \<Longrightarrow> collector_inv opts (finish cl)"
  by (auto simp: finish_def collector_inv_def)

lemma count_inv:
  assumes "collector_inv opts cl" "accepted_by opts r"
  shows "collector_inv opts (countValidatedResponse opts r cl)"
proof (cases "cl_result cl \<noteq> None \<or> co_dedupKey opts r \<in> fst ` set (cl_validated cl)")
  case True
  with assms show ?thesis by (auto simp: countValidatedResponse_def Let_def)
next
  case False
  then have "collector_inv opts (cl\<lparr>cl_validated := cl_validated cl @ [(co_dedupKey opts r, r)]\<rparr>)"
    using assms by (auto simp: collector_inv_def)
  with False show ?thesis
    by (auto simp: countValidatedResponse_def Let_def intro: finish_inv)
qed

lemma handle_inv:
  assumes "collector_inv opts cl"
  shows "collector_inv opts (handleCoSignResponse opts rid ws r cl)"
proof (cases "\<exists>s. rs_requestId r = Some rid \<and> rs_signerNodeId r = Some s \<and> cl_result cl = None")
  case False
  with assms show ?thesis
    by (auto simp: handleCoSignResponse_def split: option.splits)
next
  case True
  then obtain s where s: "rs_requestId r = Some rid" "rs_signerNodeId r = Some s" "cl_result cl = None" by blast
  show ?thesis
  proof (cases "co_validate opts")
    case None
    with s assms show ?thesis
      using count_inv [OF assms, of r] by (simp add: handleCoSignResponse_def accepted_by_def)
  next
    case (Some f)
    let ?cl = "cl\<lparr>cl_seenExact := exactKey opts s r # cl_seenExact cl\<rparr>"
    have i: "collector_inv opts ?cl" using assms by (simp add: collector_inv_def)
    have j: "collector_inv opts (?cl\<lparr>cl_perConn := (case ws of None \<Rightarrow> cl_perConn ?cl
               | Some c \<Rightarrow> AList.update c (per_conn ?cl c + 1) (cl_perConn ?cl)),
             cl_validationsStarted := cl_validationsStarted ?cl + 1, cl_inFlight := cl_inFlight ?cl @ [r]\<rparr>)"
      if "\<not> (case ws of None \<Rightarrow> False | Some c \<Rightarrow> per_conn ?cl c \<ge> per_conn_cap opts)"
         "\<not> cl_validationsStarted ?cl \<ge> max_validations opts"
      using that assms
      by (cases ws) (auto simp: collector_inv_def per_conn_def update_conv')
    show ?thesis
      using s Some assms i j
      by (simp add: handleCoSignResponse_def Let_def)
  qed
qed

lemma validation_done_inv:
  assumes "collector_inv opts cl"
  shows "collector_inv opts (validation_done opts i cl)"
proof (cases "co_validate opts")
  case None
  with assms show ?thesis by (simp add: validation_done_def)
next
  case (Some f)
  show ?thesis
  proof (cases "i < length (cl_inFlight cl)")
    case True
    let ?r = "cl_inFlight cl ! i"
    obtain res v' where f: "f ?r (cl_validator cl) = (res, v')" by fastforce
    have k: "collector_inv opts (cl\<lparr>cl_inFlight := z, cl_validator := v'\<rparr>)" for z
      using assms by (simp add: collector_inv_def)
    have "res = Inr True \<Longrightarrow> accepted_by opts ?r"
      using f Some by (auto simp: accepted_by_def intro: exI [of _ "cl_validator cl"])
    with k f Some True show ?thesis
      by (auto simp: validation_done_def Let_def split: sum.splits bool.splits intro: count_inv)
  next
    case False
    with assms Some show ?thesis by (simp add: validation_done_def)
  qed
qed

lemma collect_step_inv: "collector_inv opts cl \<Longrightarrow> collector_inv opts (collect_step opts rid ev cl)"
  by (cases ev) (simp_all add: handle_inv validation_done_inv finish_inv)

lemma collect_run_inv: "collector_inv opts cl \<Longrightarrow> collector_inv opts (collect_run opts rid evs cl)"
  by (induction evs arbitrary: cl) (simp_all add: collect_run_def collect_step_inv)

lemma collect_start_inv: "collector_inv opts (collect_start opts v)"
  using caps_pos [of opts]
  by (simp add: collect_start_def Let_def collector_inv_def finish_def per_conn_def)

text \<open>Before the timer fires a result has reached the threshold.\<close>

definition full_result :: "('c, 'k) collect_opts \<Rightarrow> ('c, 'k) collector \<Rightarrow> bool" where
  "full_result opts cl \<longleftrightarrow> (\<forall>rs. cl_result cl = Some rs \<longrightarrow> co_threshold opts \<le> int (length rs))"

lemma count_full: "full_result opts cl \<Longrightarrow> full_result opts (countValidatedResponse opts r cl)"
  by (auto simp: countValidatedResponse_def Let_def full_result_def finish_def)

lemma full_same [simp]:
  "full_result opts (cl\<lparr>cl_seenExact := x\<rparr>) = full_result opts cl"
  "full_result opts (cl\<lparr>cl_seenExact := x, cl_perConn := p, cl_validationsStarted := n, cl_inFlight := q\<rparr>) = full_result opts cl"
  "full_result opts (cl\<lparr>cl_seenExact := x, cl_validationsStarted := n, cl_inFlight := q\<rparr>) = full_result opts cl"
  "full_result opts (cl\<lparr>cl_inFlight := q, cl_validator := v\<rparr>) = full_result opts cl"
  by (simp_all add: full_result_def)

lemma handle_full: "full_result opts cl \<Longrightarrow> full_result opts (handleCoSignResponse opts rid ws r cl)"
  by (cases "co_validate opts")
    (auto simp: handleCoSignResponse_def Let_def count_full split: option.splits)

lemma validation_done_full: "full_result opts cl \<Longrightarrow> full_result opts (validation_done opts i cl)"
  by (auto simp: validation_done_def Let_def split: option.splits sum.splits bool.splits prod.splits
      intro!: count_full)

lemma collect_run_full:
  "Timer \<notin> set evs \<Longrightarrow> full_result opts cl \<Longrightarrow> full_result opts (collect_run opts rid evs cl)"
proof (induction evs arbitrary: cl)
  case (Cons ev evs)
  have "full_result opts (collect_step opts rid ev cl)"
    using Cons.prems by (cases ev) (simp_all add: handle_full validation_done_full)
  with Cons show ?case by (simp add: collect_run_def)
qed (simp add: collect_run_def)

lemma run_snoc: "collect_run opts rid (evs @ [ev]) cl = collect_step opts rid ev (collect_run opts rid evs cl)"
  by (simp add: collect_run_def)

lemma request_result:
  "\<exists>cl. collector_inv opts cl \<and> requestCoSignatures opts rid evs v = (map snd (cl_validated cl), cl_validator cl)"
proof -
  let ?cl = "collect_run opts rid evs (collect_start opts v)"
  have i: "collector_inv opts (finish ?cl)" by (intro finish_inv collect_run_inv collect_start_inv)
  have "\<exists>rs. cl_result (finish ?cl) = Some rs" by (cases "cl_result ?cl") (simp_all add: finish_def)
  then obtain rs where "cl_result (finish ?cl) = Some rs" by blast
  with i show ?thesis
    by (intro exI [of _ "finish ?cl"]) (auto simp: requestCoSignatures_def Let_def run_snoc collector_inv_def)
qed

text \<open>An invariant the validator keeps of its own state survives a whole request.\<close>

lemma count_validator [simp]: "cl_validator (countValidatedResponse opts r cl) = cl_validator cl"
  by (simp add: countValidatedResponse_def Let_def finish_def)

lemma handle_validator [simp]: "cl_validator (handleCoSignResponse opts rid ws r cl) = cl_validator cl"
  by (simp add: handleCoSignResponse_def Let_def split: option.splits)

lemma request_validator_inv:
  assumes "co_validate opts = Some f" "\<And>r v. I v \<Longrightarrow> I (snd (f r v))" "I v"
  shows "I (snd (requestCoSignatures opts rid evs v))"
proof -
  have d: "I (cl_validator cl) \<Longrightarrow> I (cl_validator (validation_done opts i cl))" for cl i
    using assms(1) assms(2) [of "cl_validator cl" "cl_inFlight cl ! i"]
    by (auto simp: validation_done_def Let_def split: prod.splits sum.splits bool.splits)
  have st: "I (cl_validator cl) \<Longrightarrow> I (cl_validator (collect_step opts rid ev cl))" for cl ev
    by (cases ev) (simp_all add: d finish_def)
  have "I (cl_validator cl) \<Longrightarrow> I (cl_validator (collect_run opts rid es cl))" for es cl
    by (induction es arbitrary: cl) (simp_all add: collect_run_def st)
  then show ?thesis
    using assms(3) by (simp add: requestCoSignatures_def Let_def collect_start_def finish_def)
qed

section \<open>Properties\<close>

text \<open>Only validated responses are returned, one per key. Whatever arrives on whatever connection and
  in whatever order validations complete, every response the collector returns was accepted by the
  validator and no two of them have the same deduplication key (the co-signer's key is the slot).\<close>

theorem collector_returns_validated_unique:
  "distinct (map (co_dedupKey opts) (fst (requestCoSignatures opts requestId events v))) \<and>
   list_all (accepted_by opts) (fst (requestCoSignatures opts requestId events v))"
proof -
  obtain cl where cl: "collector_inv opts cl" "requestCoSignatures opts requestId events v = (map snd (cl_validated cl), cl_validator cl)"
    using request_result [of opts requestId events v] by auto
  have keys: "map (co_dedupKey opts) (map snd (cl_validated cl)) = map fst (cl_validated cl)"
    using cl(1) by (auto simp: collector_inv_def)
  have "list_all (accepted_by opts) (map snd (cl_validated cl))"
    using cl(1) by (auto simp: collector_inv_def list_all_iff)
  with cl keys show ?thesis by (simp only: fst_conv collector_inv_def)
qed

text \<open>An early result has reached the threshold: a collector that resolves before its timer fires
  returns at least as many responses as were asked for.\<close>

theorem collector_early_result_is_full:
  assumes "Timer \<notin> set events" "cl_result (collect_run opts requestId events (collect_start opts v)) = Some rs"
  shows "co_threshold opts \<le> int (length rs)"
proof -
  have "full_result opts (collect_start opts v)"
    by (simp add: collect_start_def Let_def finish_def full_result_def)
  from collect_run_full [OF assms(1) this] assms(2) show ?thesis by (auto simp: full_result_def)
qed

text \<open>a flood costs a bounded number of validations. In every state of a collector at most 64
  validations (or the configured cap) were started in all, and at most 4 (or the configured cap) on
  behalf of any one connection.\<close>

theorem collector_work_is_bounded:
  "cl_validationsStarted (collect_run opts requestId events (collect_start opts v)) \<le> max_validations opts \<and>
   per_conn (collect_run opts requestId events (collect_start opts v)) ws \<le> per_conn_cap opts"
  using collect_run_inv [OF collect_start_inv, of opts requestId events v] by (simp add: collector_inv_def)

text \<open>The resend filter drops a response it has not seen. Its key covers the signer id, the slot and
  the signature, but neither the public key nor the message hash. A response that repeats those three
  fields of an honest one with another public key, arriving first on another connection and rejected by
  the validator, makes the collector drop the honest response unvalidated, and the request ends
  without it.\<close>

theorem resend_filter_drops_honest_response:
  assumes "co_validate opts = Some validate" "0 < co_threshold opts"
    and "rs_requestId honest = Some requestId" "rs_signerNodeId honest = Some signer"
    and "forged = honest\<lparr>rs_signerPublicKey := otherKey\<rparr>" "fst (validate forged v) = Inr False"
  shows "fst (requestCoSignatures opts requestId
    [Arrive (Some 1) forged, Validated 0, Arrive (Some 2) honest, Validated 0] v) = []"
proof -
  obtain v' where f: "validate forged v = (Inr False, v')" using assms(6) by (metis prod.collapse)
  have k: "exactKey opts signer forged = exactKey opts signer honest" using assms(5) by (simp add: exactKey_def)
  have fr: "rs_requestId forged = Some requestId" "rs_signerNodeId forged = Some signer" using assms(3-5) by simp_all
  have caps: "\<not> per_conn_cap opts \<le> 0" "\<not> max_validations opts \<le> 0" using caps_pos [of opts] by simp_all
  show ?thesis
    using assms(1-4) f k fr caps
    by (simp add: requestCoSignatures_def collect_run_def collect_start_def Let_def handleCoSignResponse_def
        validation_done_def per_conn_def finish_def not_le)
qed

definition demo_response :: co_sign_response where
  "demo_response = \<lparr>rs_requestId = Some ''r1'', rs_slot = Some (js_of_int 2), rs_signerNodeId = Some ''n2'',
     rs_signerPublicKey = Some ''0xk2'', rs_signatureCompact = Some ''0xs2'', rs_messageHash = ''0xmm''\<rparr>"

definition demo_opts :: "(unit, jsnum option) collect_opts" where
  "demo_opts = \<lparr>co_threshold = 1, co_validate = Some (\<lambda>r. sret (rs_signerPublicKey r = Some ''0xk2'')),
     co_dedupKey = rs_slot, co_maxValidations = None, co_perConnCap = None, co_show_slot = (\<lambda>_. ''2'')\<rparr>"

theorem resend_filter_drops_honest_response_witness:
  "fst (requestCoSignatures demo_opts ''r1''
     [Arrive (Some 1) (demo_response\<lparr>rs_signerPublicKey := None\<rparr>), Validated 0, Arrive (Some 2) demo_response, Validated 0] ()) = []"
proof (rule resend_filter_drops_honest_response [OF _ _ _ _ refl])
  show "co_validate demo_opts = Some (\<lambda>r. sret (rs_signerPublicKey r = Some ''0xk2''))" by (simp add: demo_opts_def)
qed (simp_all add: demo_opts_def demo_response_def)

lemma demo_collect:
  "cl_result (collect_run demo_opts ''r1'' [Arrive (Some 1) demo_response, Validated 0] (collect_start demo_opts ())) =
     Some [demo_response]"
  by (simp add: collect_run_def collect_start_def Let_def handleCoSignResponse_def validation_done_def per_conn_def
      per_conn_cap_def max_validations_def countValidatedResponse_def finish_def demo_opts_def demo_response_def)

theorem collector_early_result_is_full_witness: "co_threshold demo_opts \<le> int (length [demo_response])"
  by (rule collector_early_result_is_full [OF _ demo_collect]) simp

end
