(* ===== verification/Proof_Archive.thy ===== *)
theory Proof_Archive
  imports Ethers "HOL-Library.Char_ord" "HOL-Library.List_Lexorder"
begin

text \<open>
  \<^verbatim>\<open>src/modules/audit/proof-archive.ts\<close>: the canonical serialisation of a proof identity, its content
  address, and the archive on disk.

  JavaScript values are \<open>json\<close>; an object is the list of its own properties, with \<open>None\<close> for a property whose value is
  \<^verbatim>\<open>undefined\<close>, and its numbers are integers. \<^verbatim>\<open>ethers.keccak256(ethers.toUtf8Bytes(s))\<close>
  is \<^verbatim>\<open>ethers.id(s)\<close>, the parameter \<open>ethers_id\<close>. The archive directory maps a proof hash to its file, whose
  content is \<open>None\<close> when a write to it failed halfway (the code overwrites in place); marker files are a set of coarse keys, whose
  file names \<^verbatim>\<open>encodeURIComponent\<close> keeps apart. Every file primitive may fail, as the list \<open>ar_faults\<close> says. Fields of a
  proof that the code only ever sets to a constant are left out.
\<close>

section \<open>Definitions\<close>

definition PROOF_SCHEMA_VERSION :: int where "PROOF_SCHEMA_VERSION = 2"

datatype json =
    JNull
  | JBool bool
  | JInt int
  | JString string
  | JArray "json list"
  | JObject "(string \<times> json option) list"

definition hex_digit :: "nat \<Rightarrow> char" where
  "hex_digit n = ''0123456789abcdef'' ! n"

text \<open>\<^verbatim>\<open>JSON.stringify\<close> of one character of a string.\<close>

definition esc_char :: "char \<Rightarrow> string" where
  "esc_char c = (let n = of_char c :: nat in
     if n = 34 then [CHR 0x5C, CHR 0x22]
     else if n = 92 then [CHR 0x5C, CHR 0x5C]
     else if n = 8 then [CHR 0x5C, CHR ''b'']
     else if n = 9 then [CHR 0x5C, CHR ''t'']
     else if n = 10 then [CHR 0x5C, CHR ''n'']
     else if n = 12 then [CHR 0x5C, CHR ''f'']
     else if n = 13 then [CHR 0x5C, CHR ''r'']
     else if n < 32 then [CHR 0x5C, CHR ''u'', CHR ''0'', CHR ''0'', hex_digit (n div 16), hex_digit (n mod 16)]
     else [c])"

definition json_string :: "string \<Rightarrow> string" where
  "json_string s = CHR 0x22 # concat (map esc_char s) @ [CHR 0x22]"

text \<open>\<^verbatim>\<open>xs.join(",")\<close>\<close>

fun join_comma :: "string list \<Rightarrow> string" where
  "join_comma [] = []"
| "join_comma [x] = x"
| "join_comma (x # y # ys) = x @ CHR '','' # join_comma (y # ys)"

fun stableStringify :: "json \<Rightarrow> string" and stable_fields :: "(string \<times> json option) list \<Rightarrow> (string \<times> string) list"
  and stable_list :: "json list \<Rightarrow> string list" where
  "stableStringify JNull = ''null''"
| "stableStringify (JBool b) = (if b then ''true'' else ''false'')"
| "stableStringify (JInt n) = int_to_string n"
| "stableStringify (JString s) = json_string s"
| "stableStringify (JArray xs) = ''['' @ join_comma (stable_list xs) @ '']''"
| "stableStringify (JObject fs) =
     ''{'' @ join_comma (map (\<lambda>(k, s). json_string k @ '':'' @ s) (sort_key fst (stable_fields fs))) @ ''}''"
| "stable_fields [] = []"
| "stable_fields ((k, None) # fs) = stable_fields fs"
| "stable_fields ((k, Some v) # fs) = (k, stableStringify v) # stable_fields fs"
| "stable_list [] = []"
| "stable_list (x # xs) = stableStringify x # stable_list xs"

record proof_identity =
  pi_proofSchemaVersion :: int
  pi_chainId :: int
  pi_operator :: string
  pi_rule :: string
  pi_violationBlock :: int
  pi_slashLevel :: int
  pi_registry :: string
  pi_dvtValidator :: string
  pi_creditLimit :: "string option"
  pi_availableCredit :: "string option"
  pi_debt :: "string option"
  pi_superPaymaster :: "string option"
  pi_apntsToken :: "string option"
  pi_offlineThresholdMs :: "int option"
  pi_blsAggregator :: "string option"
  pi_overIssueToken :: "string option"

definition identity_fields :: "proof_identity \<Rightarrow> (string \<times> json option) list" where
  "identity_fields i =
     [(''proofSchemaVersion'', Some (JInt (pi_proofSchemaVersion i))),
      (''chainId'', Some (JInt (pi_chainId i))),
      (''operator'', Some (JString (pi_operator i))),
      (''rule'', Some (JString (pi_rule i))),
      (''violationBlock'', Some (JInt (pi_violationBlock i))),
      (''slashLevel'', Some (JInt (pi_slashLevel i))),
      (''registry'', Some (JString (pi_registry i))),
      (''dvtValidator'', Some (JString (pi_dvtValidator i))),
      (''creditLimit'', map_option JString (pi_creditLimit i)),
      (''availableCredit'', map_option JString (pi_availableCredit i)),
      (''debt'', map_option JString (pi_debt i)),
      (''superPaymaster'', map_option JString (pi_superPaymaster i)),
      (''apntsToken'', map_option JString (pi_apntsToken i)),
      (''offlineThresholdMs'', map_option JInt (pi_offlineThresholdMs i)),
      (''blsAggregator'', map_option JString (pi_blsAggregator i)),
      (''overIssueToken'', map_option JString (pi_overIssueToken i))]"

definition identity_json :: "proof_identity \<Rightarrow> json" where
  "identity_json i = JObject (identity_fields i)"

definition computeProofHash :: "'b ethers \<Rightarrow> proof_identity \<Rightarrow> string" where
  "computeProofHash E identity = ethers_id E (stableStringify (identity_json identity))"

record evidence =
  ev_rule :: string
  ev_observed :: string
  ev_threshold :: string
  ev_violationBlock :: int
  ev_violationBlockHash :: string
  ev_observedAt :: int

record slash_proof =
  sp_chainId :: int
  sp_operator :: string
  sp_slashLevel :: int
  sp_reason :: string
  sp_epoch :: int
  sp_messageHash :: string
  sp_intendedExecuteMessageHash :: "string option"
  sp_queueMessageHash :: "string option"
  sp_evidence :: evidence
  sp_proposalId :: "string option"
  sp_signerMask :: string
  sp_sigG2 :: string
  sp_proofHash :: string
  sp_proposer :: string
  sp_createdAt :: int
  sp_proposalTx :: "string option"
  sp_queueTx :: "string option"
  sp_executeTx :: "string option"

record archive =
  ar_files :: "string \<rightharpoonup> slash_proof option"
  ar_slashed :: "string set"
  ar_faults :: "bool list"

definition ar_fault :: "(archive, unit) io" where
  "ar_fault s = (case ar_faults s of [] \<Rightarrow> (Inr (), s)
     | b # bs \<Rightarrow> (if b then Inl IoError else Inr (), s\<lparr>ar_faults := bs\<rparr>))"

text \<open>\<^verbatim>\<open>fs.writeFile\<close> truncates first, so a failed write leaves a file that does not parse.\<close>

definition archive_put :: "slash_proof \<Rightarrow> (archive, string) io" where
  "archive_put p = sbind ar_fault (\<lambda>_ s.
     case ar_fault s of
       (Inl e, s') \<Rightarrow> (Inl e, s'\<lparr>ar_files := (ar_files s')(sp_proofHash p \<mapsto> None)\<rparr>)
     | (Inr _, s') \<Rightarrow> (Inr (sp_proofHash p), s'\<lparr>ar_files := (ar_files s')(sp_proofHash p \<mapsto> Some p)\<rparr>))"

definition archive_has :: "string \<Rightarrow> (archive, bool) io" where
  "archive_has h = scatch (sbind ar_fault (\<lambda>_. sgets (\<lambda>s. ar_files s h \<noteq> None))) (\<lambda>_. sret False)"

definition archive_get :: "string \<Rightarrow> (archive, slash_proof option) io" where
  "archive_get h = scatch (sbind ar_fault (\<lambda>_. sgets (\<lambda>s. case ar_files s h of Some (Some p) \<Rightarrow> Some p | _ \<Rightarrow> None))) (\<lambda>_. sret None)"

definition archive_recordSlashed :: "string \<Rightarrow> (archive, unit) io" where
  "archive_recordSlashed key = sbind ar_fault (\<lambda>_ s.
     case ar_fault s of (r, s') \<Rightarrow> (r, s'\<lparr>ar_slashed := insert key (ar_slashed s')\<rparr>))"

definition archive_hasSlashed :: "string \<Rightarrow> (archive, bool) io" where
  "archive_hasSlashed key = scatch (sbind ar_fault (\<lambda>_. sgets (\<lambda>s. key \<in> ar_slashed s))) (\<lambda>_. sret False)"

definition archive_removeSlashed :: "string \<Rightarrow> (archive, unit) io" where
  "archive_removeSlashed key =
     scatch (sbind ar_fault (\<lambda>_. smodify (\<lambda>s. s\<lparr>ar_slashed := ar_slashed s - {key}\<rparr>))) (\<lambda>_. sret ())"

section \<open>The serialisation determines the value\<close>

text \<open>The value a serialisation stands for: undefined properties dropped, properties in key order.\<close>

datatype cjson = CNull | CBool bool | CInt int | CString string | CArray "cjson list" | CObject "(string \<times> cjson) list"

fun canonical :: "json \<Rightarrow> cjson" and canonical_fields :: "(string \<times> json option) list \<Rightarrow> (string \<times> cjson) list"
  and canonical_list :: "json list \<Rightarrow> cjson list" where
  "canonical JNull = CNull"
| "canonical (JBool b) = CBool b"
| "canonical (JInt n) = CInt n"
| "canonical (JString s) = CString s"
| "canonical (JArray xs) = CArray (canonical_list xs)"
| "canonical (JObject fs) = CObject (sort_key fst (canonical_fields fs))"
| "canonical_fields [] = []"
| "canonical_fields ((k, None) # fs) = canonical_fields fs"
| "canonical_fields ((k, Some v) # fs) = (k, canonical v) # canonical_fields fs"
| "canonical_list [] = []"
| "canonical_list (x # xs) = canonical x # canonical_list xs"

fun cser :: "cjson \<Rightarrow> string" where
  "cser CNull = ''null''"
| "cser (CBool b) = (if b then ''true'' else ''false'')"
| "cser (CInt n) = int_to_string n"
| "cser (CString s) = json_string s"
| "cser (CArray xs) = CHR ''['' # join_comma (map cser xs) @ '']''"
| "cser (CObject fs) = CHR ''{'' # join_comma (map (\<lambda>(k, v). json_string k @ CHR '':'' # cser v) fs) @ ''}''"

lemma sort_key_map_snd: "sort_key fst (map (\<lambda>p. (fst p, f (snd p))) xs) = map (\<lambda>p. (fst p, f (snd p))) (sort_key fst xs)"
proof -
  have "insort_key fst (k, f v) (map (\<lambda>p. (fst p, f (snd p))) ys) = map (\<lambda>p. (fst p, f (snd p))) (insort_key fst (k, v) ys)" for k v ys
    by (induction ys) auto
  note ins = this
  show ?thesis by (induction xs) (simp_all add: sort_key_def ins)
qed

lemma stable_cser:
  "stableStringify v = cser (canonical v)"
  "stable_fields fs = map (\<lambda>p. (fst p, cser (snd p))) (canonical_fields fs)"
  "stable_list xs = map cser (canonical_list xs)"
  by (induction v and fs and xs rule: stableStringify_stable_fields_stable_list.induct)
    (simp_all add: sort_key_map_snd comp_def case_prod_unfold)

definition stops :: "string \<Rightarrow> bool" where
  "stops r \<longleftrightarrow> r = [] \<or> hd r \<in> {CHR '','', CHR '']'', CHR ''}''}"

lemma hex_digit_inj: "m < 16 \<Longrightarrow> n < 16 \<Longrightarrow> hex_digit m = hex_digit n \<longleftrightarrow> m = n"
  unfolding hex_digit_def by (subst nth_eq_iff_index_eq) simp_all

lemma esc_shape: "\<forall>c. (length (esc_char c) = 1 \<and> hd (esc_char c) \<noteq> CHR 0x5C \<and> hd (esc_char c) \<noteq> CHR 0x22)
    \<or> (length (esc_char c) = 2 \<and> hd (esc_char c) = CHR 0x5C \<and> esc_char c ! 1 \<noteq> CHR ''u'')
    \<or> (length (esc_char c) = 6 \<and> hd (esc_char c) = CHR 0x5C \<and> esc_char c ! 1 = CHR ''u'')"
proof
  fix c :: char
  have "c = CHR 0x5C \<Longrightarrow> of_char c = (92::nat)" "c = CHR 0x22 \<Longrightarrow> of_char c = (34::nat)" by simp_all
  then show "(length (esc_char c) = 1 \<and> hd (esc_char c) \<noteq> CHR 0x5C \<and> hd (esc_char c) \<noteq> CHR 0x22)
    \<or> (length (esc_char c) = 2 \<and> hd (esc_char c) = CHR 0x5C \<and> esc_char c ! 1 \<noteq> CHR ''u'')
    \<or> (length (esc_char c) = 6 \<and> hd (esc_char c) = CHR 0x5C \<and> esc_char c ! 1 = CHR ''u'')" unfolding esc_char_def Let_def by auto
qed

lemma esc_by_length:
  "length (esc_char c) = 1 \<Longrightarrow> esc_char c = [c]"
  "length (esc_char c) = 2 \<Longrightarrow> of_char c =
     the (map_of [(CHR 0x22, 34), (CHR 0x5C, 92), (CHR ''b'', 8), (CHR ''t'', 9), (CHR ''n'', 10), (CHR ''f'', 12), (CHR ''r'', 13 :: nat)] (esc_char c ! 1))"
  "length (esc_char c) = 6 \<Longrightarrow> of_char c < (32::nat) \<and> esc_char c ! 4 = hex_digit (of_char c div 16) \<and> esc_char c ! 5 = hex_digit (of_char c mod 16)"
  by (auto simp: esc_char_def Let_def split: if_splits)

lemma esc_inj:
  assumes "esc_char c = esc_char d"
  shows "c = d"
proof -
  have hex: "of_char c div 16 = (of_char d div 16 :: nat) \<Longrightarrow> of_char c mod 16 = (of_char d mod 16 :: nat) \<Longrightarrow> of_char c = (of_char d :: nat)"
    by (metis div_mult_mod_eq)
  consider "length (esc_char c) = 1" | "length (esc_char c) = 2" | "length (esc_char c) = 6" using esc_shape by auto
  then have "c = d \<or> of_char c = (of_char d :: nat)"
  proof cases
    case 1
    then show ?thesis using assms esc_by_length(1) [of c] esc_by_length(1) [of d] by simp
  next
    case 2
    then show ?thesis using assms esc_by_length(2) [of c] esc_by_length(2) [of d] by simp
  next
    case 3
    note six = esc_by_length(3) [OF 3] esc_by_length(3) [OF 3 [unfolded assms]]
    have "hex_digit (of_char c div 16) = hex_digit (of_char d div 16)" "hex_digit (of_char c mod 16) = hex_digit (of_char d mod 16)"
      using six assms by simp_all
    moreover have "of_char c div 16 < (16::nat)" "of_char d div 16 < (16::nat)" using six by linarith+
    ultimately show ?thesis by (intro disjI2 hex) (simp_all add: hex_digit_inj)
  qed
  then show ?thesis by (auto simp: of_char_eq_iff)
qed

lemma esc_char_inj:
  assumes "esc_char c @ x = esc_char d @ y"
  shows "c = d \<and> x = y"
proof -
  have "length (esc_char z @ w) > 0 \<and> hd (esc_char z @ w) = hd (esc_char z) \<and> (length (esc_char z) > 1 \<longrightarrow> (esc_char z @ w) ! 1 = esc_char z ! 1)" for z w
    using esc_shape [rule_format, of z] by (cases "esc_char z") (auto simp: nth_append)
  then have "hd (esc_char c) = hd (esc_char d)"
    "length (esc_char c) > 1 \<Longrightarrow> length (esc_char d) > 1 \<Longrightarrow> esc_char c ! 1 = esc_char d ! 1"
    using assms by metis+
  then have "length (esc_char c) = length (esc_char d)"
    using esc_shape [rule_format, of c] esc_shape [rule_format, of d] by auto
  with assms show ?thesis using esc_inj by auto
qed

lemma esc_string_inj: "concat (map esc_char s) @ CHR 0x22 # x = concat (map esc_char t) @ CHR 0x22 # y \<Longrightarrow> s = t \<and> x = y"
proof (induction s arbitrary: t)
  have q: "hd (esc_char c) \<noteq> CHR 0x22 \<and> esc_char c \<noteq> []" for c using esc_shape [rule_format, of c] by auto
  {
    case Nil
    then show ?case using q by (cases t) (auto simp: append_eq_Cons_conv Cons_eq_append_conv, metis list.sel(1))
  next
    case (Cons c s)
    show ?case
    proof (cases t)
      case Nil
      with Cons.prems q [of c] show ?thesis by (auto simp: append_eq_Cons_conv)
    next
      case (Cons d u)
      with Cons.prems have "esc_char c @ concat (map esc_char s) @ CHR 0x22 # x = esc_char d @ concat (map esc_char u) @ CHR 0x22 # y"
        by simp
      from esc_char_inj [OF this] Cons.IH [of u] Cons show ?thesis by simp
    qed
  }
qed

lemma json_string_inj: "json_string s @ x = json_string t @ y \<Longrightarrow> s = t \<and> x = y"
  unfolding json_string_def using esc_string_inj [of s x t y] by simp

lemma digits_inj:
  assumes "int_to_string m @ x = int_to_string n @ y" "stops x" "stops y"
  shows "m = n \<and> x = y"
proof -
  let ?P = "\<lambda>c. c = CHR ''-'' \<or> digit_val c \<noteq> None"
  have all: "\<And>c k. c \<in> set (int_to_string k) \<Longrightarrow> ?P c"
    using dec_digits_digit_val by (auto simp: int_to_string_def split: if_splits)
  have stop: "takeWhile ?P z = []" if "stops z" for z
    using that by (cases z) (auto simp: stops_def digit_val_def)
  have "takeWhile ?P (int_to_string k @ z) = int_to_string k" if "stops z" for k z
    using all stop [OF that] by (subst takeWhile_append2) auto
  with assms have "int_to_string m = int_to_string n" by metis
  with assms(1) int_to_string_inj show ?thesis by auto
qed

lemma cser_head: "cser v \<noteq> [] \<and> hd (cser v) \<notin> {CHR '','', CHR '']'', CHR ''}''}"
proof (cases v)
  case (CInt n)
  have "digit_val (CHR '','') = None" "digit_val (CHR '']'') = None" "digit_val (CHR ''}'') = None" by code_simp+
  moreover have "digit_val (hd (dec_digits (nat n))) \<noteq> None" by (rule dec_digits_digit_val [OF hd_in_set [OF dec_digits_nonempty]])
  ultimately show ?thesis using CInt by (auto simp: int_to_string_def)
qed (auto simp: json_string_def)

text \<open>A comma-separated sequence of items that are each self-delimiting before a separator.\<close>

definition decodes :: "('a \<Rightarrow> string) \<Rightarrow> 'a \<Rightarrow> bool" where
  "decodes f v \<longleftrightarrow> (\<forall>w x y. f v @ x = f w @ y \<longrightarrow> stops x \<longrightarrow> stops y \<longrightarrow> v = w \<and> x = y)"

lemma decodesD: "decodes f v \<Longrightarrow> f v @ x = f w @ y \<Longrightarrow> stops x \<Longrightarrow> stops y \<Longrightarrow> v = w \<and> x = y"
  unfolding decodes_def by blast

lemma join_decodes:
  assumes "\<And>v. v \<in> set vs \<Longrightarrow> decodes f v" "\<And>v. f v \<noteq> [] \<and> hd (f v) \<notin> {CHR '','', CHR '']'', CHR ''}''}"
    and "z \<in> {CHR '']'', CHR ''}''}" "join_comma (map f vs) @ z # x = join_comma (map f ws) @ z # y"
  shows "vs = ws \<and> x = y"
  using assms(1,4)
proof (induction vs arbitrary: ws)
  have h: "f v @ r \<noteq> c # r'" if "c \<in> {CHR '','', CHR '']'', CHR ''}''}" for v r c r'
    using assms(2) [of v] that by (cases "f v") auto
  have st: "stops (z # r)" "stops (CHR '','' # r)" for r using assms(3) by (auto simp: stops_def)
  have z: "z \<noteq> CHR '',''" using assms(3) by auto
  have tl: "join_comma (map f (v # vs)) @ r = f v @ (if vs = [] then r else CHR '','' # join_comma (map f vs) @ r)" for v vs r
    by (cases vs) auto
  {
    case Nil
    show ?case
    proof (cases ws)
      case (Cons w us)
      with Nil.prems have "z # x = f w @ (if us = [] then z # y else CHR '','' # join_comma (map f us) @ z # y)" using tl [of w us "z # y"] by simp
      with h [of z w] assms(3) show ?thesis by (metis insert_iff)
    qed (use Nil.prems in simp)
  next
    case (Cons v vs)
    show ?case
    proof (cases ws)
      case Nil
      with Cons.prems(2) h assms(3) show ?thesis unfolding tl by auto
    next
      case (Cons w us)
      let ?r = "\<lambda>vs x. if vs = [] then z # x else CHR '','' # join_comma (map f vs) @ z # x"
      have e: "f v @ ?r vs x = f w @ ?r us y" using Cons.prems(2) unfolding Cons tl .
      have "decodes f v" using Cons.prems(1) by simp
      from decodesD [OF this e] st have eq: "v = w" "?r vs x = ?r us y" by auto
      from eq(2) z have "join_comma (map f vs) @ z # x = join_comma (map f us) @ z # y"
        by (auto split: if_splits)
      from Cons.IH [OF Cons.prems(1) this] eq(1) Cons show ?thesis by simp
    qed
  }
qed

lemma field_decodes:
  assumes "decodes cser v"
  shows "decodes (\<lambda>(k, v). json_string k @ CHR '':'' # cser v) (k, v)"
  unfolding decodes_def
proof (intro allI impI)
  fix w :: "string \<times> cjson" and x y
  assume a: "(case (k, v) of (k, v) \<Rightarrow> json_string k @ CHR '':'' # cser v) @ x = (case w of (k, v) \<Rightarrow> json_string k @ CHR '':'' # cser v) @ y"
    and "stops x" "stops y"
  obtain l u where w: "w = (l, u)" by fastforce
  from a w have "json_string k @ CHR '':'' # cser v @ x = json_string l @ CHR '':'' # cser u @ y" by simp
  from json_string_inj [OF this] have "k = l" "cser v @ x = cser u @ y" by auto
  with assms \<open>stops x\<close> \<open>stops y\<close> w show "(k, v) = w \<and> x = y" unfolding decodes_def by auto
qed

fun ckind :: "cjson \<Rightarrow> nat" where
  "ckind CNull = 0" | "ckind (CBool b) = 1" | "ckind (CInt n) = 2" | "ckind (CString s) = 3" | "ckind (CArray xs) = 4" | "ckind (CObject fs) = 5"

definition first_kind :: "char \<Rightarrow> nat" where
  "first_kind c = (if c = CHR ''n'' then 0 else if c = CHR ''t'' \<or> c = CHR ''f'' then 1 else if c = CHR 0x22 then 3
     else if c = CHR ''['' then 4 else if c = CHR ''{'' then 5 else 2)"

lemma first_kind_cser: "first_kind (hd (cser v)) = ckind v"
proof (cases v)
  case (CInt n)
  have "digit_val (hd (dec_digits (nat n))) \<noteq> None" by (rule dec_digits_digit_val [OF hd_in_set [OF dec_digits_nonempty]])
  moreover have "digit_val (CHR ''n'') = None" "digit_val (CHR ''t'') = None" "digit_val (CHR ''f'') = None" "digit_val (CHR 0x22) = None"
    "digit_val (CHR ''['') = None" "digit_val (CHR ''{'') = None" by code_simp+
  ultimately show ?thesis using CInt by (auto simp: int_to_string_def first_kind_def)
qed (auto simp: json_string_def first_kind_def)

lemma same_kind: "cser v @ x = cser w @ y \<Longrightarrow> ckind v = ckind w"
  using cser_head [of v] cser_head [of w] by (metis first_kind_cser hd_append)

lemma decodesI:
  assumes "\<And>w x y. ckind v = ckind w \<Longrightarrow> cser v @ x = cser w @ y \<Longrightarrow> stops x \<Longrightarrow> stops y \<Longrightarrow> v = w \<and> x = y"
  shows "decodes cser v"
  unfolding decodes_def using assms same_kind by blast

lemma cser_decodes: "decodes cser v"
proof (induction v)
  case CNull
  show ?case by (rule decodesI, case_tac w) simp_all
next
  case (CBool b)
  show ?case by (rule decodesI, case_tac w) (simp_all split: if_splits)
next
  case (CInt n)
  show ?case by (rule decodesI, case_tac w) (auto dest: digits_inj)
next
  case (CString s)
  show ?case by (rule decodesI, case_tac w) (auto dest: json_string_inj)
next
  case (CArray xs)
  show ?case
  proof (rule decodesI)
    fix w x y assume k: "ckind (CArray xs) = ckind w" and e: "cser (CArray xs) @ x = cser w @ y"
    then obtain ys where w: "w = CArray ys" by (cases w) simp_all
    from e w have "join_comma (map cser xs) @ CHR '']'' # x = join_comma (map cser ys) @ CHR '']'' # y" by simp
    from join_decodes [OF _ cser_head _ this] CArray w show "CArray xs = w \<and> x = y" by auto
  qed
next
  case (CObject fs)
  let ?f = "\<lambda>(k, v). json_string k @ CHR '':'' # cser v"
  have dec: "\<And>p. p \<in> set fs \<Longrightarrow> decodes ?f p" using CObject by (auto intro!: field_decodes)
  have head: "?f p \<noteq> [] \<and> hd (?f p) \<notin> {CHR '','', CHR '']'', CHR ''}''}" for p by (cases p) (simp add: json_string_def)
  show ?case
  proof (rule decodesI)
    fix w x y assume k: "ckind (CObject fs) = ckind w" and e: "cser (CObject fs) @ x = cser w @ y"
    then obtain gs where w: "w = CObject gs" by (cases w) simp_all
    from e w have "join_comma (map ?f fs) @ CHR ''}'' # x = join_comma (map ?f gs) @ CHR ''}'' # y" by simp
    from join_decodes [OF dec head _ this] w show "CObject fs = w \<and> x = y" by auto
  qed
qed

lemma stable_iff_canonical: "stableStringify v = stableStringify w \<longleftrightarrow> canonical v = canonical w"
  using cser_decodes [of "canonical v"] unfolding decodes_def stable_cser(1)
  by (metis append_Nil2 stops_def)

section \<open>The content address\<close>

lemma canonical_fields_keys: "fst ` set (canonical_fields fs) \<subseteq> fst ` set fs"
proof (induction fs rule: list.induct)
  case (Cons p fs)
  then show ?case by (cases p; cases "snd p") auto
qed simp

lemma canonical_fields_distinct: "distinct (map fst fs) \<Longrightarrow> distinct (map fst (canonical_fields fs))"
proof (induction fs rule: list.induct)
  case (Cons p fs)
  then show ?case using canonical_fields_keys [of fs] by (cases p; cases "snd p") auto
qed simp

lemma canonical_lookup:
  "distinct (map fst fs) \<Longrightarrow> map_of (canonical_fields fs) k = Option.bind (map_of fs k) (map_option canonical)"
proof (induction fs rule: list.induct)
  case (Cons p fs)
  have "k \<notin> fst ` set fs \<Longrightarrow> map_of (canonical_fields fs) k = None"
    using canonical_fields_keys [of fs] by (force simp: map_of_eq_None_iff)
  with Cons show ?case by (cases p; cases "snd p") (auto simp: image_iff map_of_eq_None_iff)
qed simp

lemma map_of_sort_key: "distinct (map fst xs) \<Longrightarrow> map_of (sort_key fst xs) = map_of xs"
proof -
  assume d: "distinct (map fst xs)"
  then have "distinct (map fst (sort_key fst xs))" by (simp add: distinct_map)
  with d show ?thesis by (intro map_of_inject_set [THEN iffD2]) simp_all
qed

lemma object_lookup:
  assumes "stableStringify (JObject fs) = stableStringify (JObject gs)" "distinct (map fst fs)" "distinct (map fst gs)"
  shows "Option.bind (map_of fs k) (map_option canonical) = Option.bind (map_of gs k) (map_option canonical)"
proof -
  have "sort_key fst (canonical_fields fs) = sort_key fst (canonical_fields gs)"
    using assms(1) unfolding stable_iff_canonical by simp
  then have "map_of (canonical_fields fs) = map_of (canonical_fields gs)"
    using map_of_sort_key canonical_fields_distinct assms(2,3) by metis
  then show ?thesis using canonical_lookup [OF assms(2)] canonical_lookup [OF assms(3)] by metis
qed

lemma map_option_inj: "inj f \<Longrightarrow> map_option f x = map_option f y \<Longrightarrow> x = y"
  by (metis option.inj_map_strong injD)

lemma identity_json_inj:
  assumes "stableStringify (identity_json i) = stableStringify (identity_json j)"
  shows "i = j"
proof -
  have d: "distinct (map fst (identity_fields k))" for k by (simp add: identity_fields_def)
  note look = object_lookup [OF assms [unfolded identity_json_def] d d]
  have inj: "inj CString" "inj CInt" by (auto intro: injI)
  note o = map_option_inj [OF inj(1)] map_option_inj [OF inj(2)]
  note fs = identity_fields_def option.map_comp comp_def
  have proofSchemaVersion: "pi_proofSchemaVersion i = pi_proofSchemaVersion j" using look [of "''proofSchemaVersion''"] by (simp add: fs)
  have chainId: "pi_chainId i = pi_chainId j" using look [of "''chainId''"] by (simp add: fs)
  have operator: "pi_operator i = pi_operator j" using look [of "''operator''"] by (simp add: fs)
  have rule: "pi_rule i = pi_rule j" using look [of "''rule''"] by (simp add: fs)
  have violationBlock: "pi_violationBlock i = pi_violationBlock j" using look [of "''violationBlock''"] by (simp add: fs)
  have slashLevel: "pi_slashLevel i = pi_slashLevel j" using look [of "''slashLevel''"] by (simp add: fs)
  have registry: "pi_registry i = pi_registry j" using look [of "''registry''"] by (simp add: fs)
  have dvtValidator: "pi_dvtValidator i = pi_dvtValidator j" using look [of "''dvtValidator''"] by (simp add: fs)
  have creditLimit: "pi_creditLimit i = pi_creditLimit j" using look [of "''creditLimit''"] by (simp add: fs) (auto dest: o)
  have availableCredit: "pi_availableCredit i = pi_availableCredit j" using look [of "''availableCredit''"] by (simp add: fs) (auto dest: o)
  have debt: "pi_debt i = pi_debt j" using look [of "''debt''"] by (simp add: fs) (auto dest: o)
  have superPaymaster: "pi_superPaymaster i = pi_superPaymaster j" using look [of "''superPaymaster''"] by (simp add: fs) (auto dest: o)
  have apntsToken: "pi_apntsToken i = pi_apntsToken j" using look [of "''apntsToken''"] by (simp add: fs) (auto dest: o)
  have offlineThresholdMs: "pi_offlineThresholdMs i = pi_offlineThresholdMs j" using look [of "''offlineThresholdMs''"] by (simp add: fs) (auto dest: o)
  have blsAggregator: "pi_blsAggregator i = pi_blsAggregator j" using look [of "''blsAggregator''"] by (simp add: fs) (auto dest: o)
  have overIssueToken: "pi_overIssueToken i = pi_overIssueToken j" using look [of "''overIssueToken''"] by (simp add: fs) (auto dest: o)
  show ?thesis by (simp add: proofSchemaVersion chainId operator rule violationBlock slashLevel registry dvtValidator creditLimit availableCredit debt superPaymaster apntsToken offlineThresholdMs blsAggregator overIssueToken)
qed

text \<open>C31: a proof hash is a content address. Two proof identities with the same hash agree in every field, optional ones included:
  schema version, chain, operator, rule, block, level, contracts and the rule's own fields; the canonical
  serialisation never makes two different identities collide.\<close>

theorem proof_hash_is_content_address:
  assumes "ethers_ok E" "computeProofHash E i = computeProofHash E j"
  shows "i = j"
  using assms identity_json_inj ethers_id_inj unfolding computeProofHash_def by blast

definition demo_identity :: proof_identity where
  "demo_identity = \<lparr>pi_proofSchemaVersion = PROOF_SCHEMA_VERSION, pi_chainId = 1, pi_operator = demo_signer, pi_rule = ''offline'',
     pi_violationBlock = 7, pi_slashLevel = 0, pi_registry = demo_registry, pi_dvtValidator = demo_registry, pi_creditLimit = None,
     pi_availableCredit = None, pi_debt = None, pi_superPaymaster = None, pi_apntsToken = None, pi_offlineThresholdMs = Some 600000,
     pi_blsAggregator = Some demo_registry, pi_overIssueToken = None\<rparr>"

theorem proof_hash_is_content_address_witness:
  "demo_identity\<lparr>pi_violationBlock := 8, pi_rule := ''x''\<rparr> = demo_identity\<lparr>pi_rule := ''x'', pi_violationBlock := 8\<rparr>
   \<and> computeProofHash sample_ethers demo_identity \<noteq> computeProofHash sample_ethers (demo_identity\<lparr>pi_violationBlock := 8\<rparr>)"
proof
  have "computeProofHash sample_ethers (demo_identity\<lparr>pi_violationBlock := 8, pi_rule := ''x''\<rparr>)
      = computeProofHash sample_ethers (demo_identity\<lparr>pi_rule := ''x'', pi_violationBlock := 8\<rparr>)"
    by (simp add: demo_identity_def)
  from proof_hash_is_content_address [OF sample_ethers_ok this]
  show "demo_identity\<lparr>pi_violationBlock := 8, pi_rule := ''x''\<rparr> = demo_identity\<lparr>pi_rule := ''x'', pi_violationBlock := 8\<rparr>" .
  show "computeProofHash sample_ethers demo_identity \<noteq> computeProofHash sample_ethers (demo_identity\<lparr>pi_violationBlock := 8\<rparr>)"
    using proof_hash_is_content_address [OF sample_ethers_ok, of demo_identity "demo_identity\<lparr>pi_violationBlock := 8\<rparr>"]
    by (auto simp: demo_identity_def)
qed

end
