(* ===== verification/Quorum_Cosigner.thy ===== *)
theory Quorum_Cosigner
  imports Slot_Registry Cosign_Collector Proof_Archive
begin

text \<open>
  \<^verbatim>\<open>src/modules/audit/gossip-quorum-cosigner.ts\<close>, with the request side of the gossip transport it
  registers on. The mutable fields of the class are the record \<open>cosigner\<close>; \<open>q_signed\<close> lists the
  hashes handed to the BLS signer, newest first. What lies outside (the chain, the node's wallet
  and key, the violation verifier, the BLS library, the events of the transport) is the record
  \<open>cosign_env\<close>, given to each call, so that two calls may see different worlds.

  Main results: a signature is only produced by an armed node, on its attested domain, over the
  hash it recomputed itself, for a violation its own verifier confirmed with the requested
  evidence; and a quorum proof is only returned over a mask in which every slot carries a
  signature that verifies under the key registered on chain for that slot, and which has at least
  the threshold number of slots.
\<close>

section \<open>Definitions\<close>

record slash_thresholds =
  st_WARNING :: "jsnum option"
  st_MINOR :: "jsnum option"
  st_MAJOR :: "jsnum option"

record cosigner_settings =
  auditBlsAggregatorAddress :: "string option"
  auditRegistryAddress :: "string option"
  auditChainId :: "int option"
  auditMaxSlots :: "jsnum option"
  auditSlashThresholds :: "slash_thresholds option"
  auditExecuteSlash :: "bool option"

record cosigner_config =
  qc_aggregator :: string
  qc_registry :: string
  qc_chainId :: int
  qc_maxSlots :: int
  qc_thresholds :: slash_thresholds
  qc_executeSlash :: bool

definition orElse :: "'a option \<Rightarrow> 'a \<Rightarrow> 'a" where
  "orElse x d = (case x of None \<Rightarrow> d | Some v \<Rightarrow> v)"

definition GossipQuorumCoSigner_config :: "cosigner_settings \<Rightarrow> cosigner_config" where
  "GossipQuorumCoSigner_config cfg =
     (let maxSlots = orElse (auditMaxSlots cfg) (js_of_int MAX_VALIDATORS) in
      \<lparr>qc_aggregator = orElse (auditBlsAggregatorAddress cfg) [],
       qc_registry = orElse (auditRegistryAddress cfg) [],
       qc_chainId = orElse (auditChainId cfg) 11155111,
       qc_maxSlots = (if js_int_in 1 MAX_VALIDATORS maxSlots then js_to_int maxSlots else MAX_VALIDATORS),
       qc_thresholds = orElse (auditSlashThresholds cfg)
         \<lparr>st_WARNING = Some (js_of_int 2), st_MINOR = Some (js_of_int 3), st_MAJOR = Some (js_of_int 3)\<rparr>,
       qc_executeSlash = (auditExecuteSlash cfg = Some True)\<rparr>)"

record ('sig, 'pk, 'pt) bls_lib =
  bl_signatureFromHex :: "string \<Rightarrow> 'sig option"
  bl_publicKeyFromHex :: "string \<Rightarrow> 'pk option"
  bl_hashMessageToCurve :: "string \<Rightarrow> 'pt result"
  bl_verifySignature :: "'sig \<Rightarrow> 'pt \<Rightarrow> 'pk \<Rightarrow> bool result"
  bl_encodePublicKeyToEIP2537 :: "'pk \<Rightarrow> string"
  bl_aggregateSignaturesOnly :: "'sig list \<Rightarrow> 'sig result"
  bl_encodeToEIP2537 :: "'sig \<Rightarrow> string"

text \<open>\<open>qe_sign h\<close> is \<^verbatim>\<open>blsService.signDerivedHash\<close>: the compact signature and the public key.\<close>

record ('b, 'sig, 'pk, 'pt) cosign_env =
  qe_ethers :: "'b ethers"
  qe_chain :: bls_contract
  qe_bls :: "('sig, 'pk, 'pt) bls_lib"
  qe_walletAddress :: "string option"
  qe_nodeForSigning :: "string result"
  qe_sign :: "string \<Rightarrow> (string option \<times> string option) result"
  qe_verifier :: "co_sign_request_payload \<Rightarrow> (bool \<times> string option) result"
  qe_peers :: nat
  qe_uuid :: "nat \<Rightarrow> string"
  qe_events :: "collect_event list"
  qe_show_slot :: "jsnum option \<Rightarrow> string"

record cosigner =
  q_verifier :: bool
  q_handler :: bool
  q_ownSlot :: "int option"
  q_ownSlotResolved :: bool
  q_domainAttested :: bool
  q_signed :: "string list"

definition blsDomain :: "cosigner_config \<Rightarrow> bls_consensus_domain" where
  "blsDomain cfg = \<lparr>bd_chainId = qc_chainId cfg, bd_aggregator = qc_aggregator cfg, bd_registry = qc_registry cfg\<rparr>"

definition ensureDomainAttested ::
    "cosigner_config \<Rightarrow> ('b, 'sig, 'pk, 'pt) cosign_env \<Rightarrow> (cosigner, bool) io" where
  "ensureDomainAttested cfg Q st =
     (if q_domainAttested st then (Inr True, st)
      else case attestBlsDomain (qe_ethers Q) (qe_chain Q) (blsDomain cfg) of
          Inl _ \<Rightarrow> (Inr False, st)
        | Inr _ \<Rightarrow> (Inr True, st\<lparr>q_domainAttested := True\<rparr>))"

definition arm :: "cosigner_config \<Rightarrow> ('b, 'sig, 'pk, 'pt) cosign_env \<Rightarrow> (cosigner, unit) io" where
  "arm cfg Q = sbind (smodify (\<lambda>st. st\<lparr>q_verifier := True, q_handler := True\<rparr>)) (\<lambda>_.
     sbind (ensureDomainAttested cfg Q) (\<lambda>_. sret ()))"

definition resolveOwnSlot :: "('b, 'sig, 'pk, 'pt) cosign_env \<Rightarrow> (cosigner, int option) io" where
  "resolveOwnSlot Q st =
     (if q_ownSlotResolved st then (Inr (q_ownSlot st), st)
      else case qe_walletAddress Q of None \<Rightarrow> (Inr None, st)
        | Some operatorEoa \<Rightarrow>
            if operatorEoa = [] then (Inr None, st)
            else case getRegisteredSlot (qe_ethers Q) (qe_chain Q) operatorEoa of
                Inl e \<Rightarrow> (Inl e, st)
              | Inr None \<Rightarrow> (Inr None, st)
              | Inr (Some slot) \<Rightarrow> (Inr (Some slot), st\<lparr>q_ownSlot := Some slot, q_ownSlotResolved := True\<rparr>))"

definition refreshOwnSlot :: "cosigner \<Rightarrow> cosigner" where
  "refreshOwnSlot st = st\<lparr>q_ownSlot := None, q_ownSlotResolved := False\<rparr>"

definition signDerivedHash ::
    "('b, 'sig, 'pk, 'pt) cosign_env \<Rightarrow> string \<Rightarrow> (cosigner, string option \<times> string option) io" where
  "signDerivedHash Q h = sbind (smodify (\<lambda>st. st\<lparr>q_signed := h # q_signed st\<rparr>)) (\<lambda>_. slift (qe_sign Q h))"

definition verifyAndSign_body ::
    "cosigner_config \<Rightarrow> ('b, 'sig, 'pk, 'pt) cosign_env \<Rightarrow> co_sign_request_payload \<Rightarrow> (cosigner, co_sign_response option) io" where
  "verifyAndSign_body cfg Q req =
     (if \<not> qc_executeSlash cfg then sret None else
      sbind (sgets q_verifier) (\<lambda>wired. if \<not> wired then sret None else
      sbind (ensureDomainAttested cfg Q) (\<lambda>attested. if \<not> attested then sret None else
      if cr_proofSchemaVersion req \<noteq> PROOF_SCHEMA_VERSION then sret None else
      if getAddress (qe_ethers Q) (cr_operator req) = None then sret None else
      (case recomputeMessageHash (qe_ethers Q) req (blsDomain cfg) of Inl _ \<Rightarrow> sret None
       | Inr localHash \<Rightarrow>
      if lower localHash \<noteq> lower (cr_messageHash req) then sret None else
      sbind (slift (qe_verifier Q req)) (\<lambda>(confirmed, proofHash).
      (case proofHash of None \<Rightarrow> sret None
       | Some ph \<Rightarrow>
      if \<not> confirmed then sret None else
      (case cr_evidenceHash req of None \<Rightarrow> sret None
       | Some ev \<Rightarrow>
      if lower ph \<noteq> lower ev then sret None else
      sbind (slift (qe_nodeForSigning Q)) (\<lambda>nodeId.
      sbind (resolveOwnSlot Q) (\<lambda>s. case s of None \<Rightarrow> sret None
       | Some slot \<Rightarrow>
      sbind (signDerivedHash Q localHash) (\<lambda>(signatureCompact, publicKey).
      if signatureCompact = None \<or> publicKey = None then sret None
      else sret (Some \<lparr>rs_requestId = Some (rp_requestId req), rs_slot = Some (js_of_int slot),
        rs_signerNodeId = Some nodeId, rs_signerPublicKey = publicKey,
        rs_signatureCompact = signatureCompact, rs_messageHash = localHash\<rparr>)))))))))))"

definition verifyAndSign ::
    "cosigner_config \<Rightarrow> ('b, 'sig, 'pk, 'pt) cosign_env \<Rightarrow> co_sign_request_payload \<Rightarrow> (cosigner, co_sign_response option) io" where
  "verifyAndSign cfg Q req = scatch (verifyAndSign_body cfg Q req) (\<lambda>_. sret None)"

text \<open>\<^verbatim>\<open>GossipService.handleCoSignRequest\<close>: the reply sent on the socket, if any.\<close>

definition handleCoSignRequest ::
    "cosigner_config \<Rightarrow> ('b, 'sig, 'pk, 'pt) cosign_env \<Rightarrow> co_sign_request_payload \<Rightarrow> (cosigner, co_sign_response option) io" where
  "handleCoSignRequest cfg Q req =
     sbind (sgets q_handler) (\<lambda>h. if \<not> h then sret None else verifyAndSign cfg Q req)"

definition thresholdFor :: "cosigner_config \<Rightarrow> int \<Rightarrow> int" where
  "thresholdFor cfg slashLevel =
     (let thr = qc_thresholds cfg;
          val = (if slashLevel = SlashLevel_WARNING then st_WARNING thr
                 else if slashLevel = SlashLevel_MINOR then st_MINOR thr
                 else if slashLevel = SlashLevel_MAJOR then st_MAJOR thr else None);
          dflt = (if slashLevel = SlashLevel_WARNING then 2 else 3)
      in case val of None \<Rightarrow> dflt
         | Some v \<Rightarrow> if js_isInteger v \<and> 0 < js_to_int v then js_to_int v else dflt)"

type_synonym key_cache = "int \<rightharpoonup> string option"

definition cached_key :: "('b, 'sig, 'pk, 'pt) cosign_env \<Rightarrow> int \<Rightarrow> (key_cache, string option) io" where
  "cached_key Q slot cache =
     (case cache slot of Some k \<Rightarrow> (Inr k, cache)
      | None \<Rightarrow> (case getBlsPublicKeyAtSlot (qe_ethers Q) (qe_chain Q) slot of
            Inl e \<Rightarrow> (Inl e, cache)
          | Inr k \<Rightarrow> (Inr k, cache(slot \<mapsto> k))))"

definition malformed_point :: error where
  "malformed_point = External ''malformed point''"

definition uncompressedFromCompressed :: "('sig, 'pk, 'pt) bls_lib \<Rightarrow> string \<Rightarrow> string result" where
  "uncompressedFromCompressed L compressed =
     rbind (of_option malformed_point (bl_publicKeyFromHex L (strip0x compressed))) (\<lambda>point.
     Inr (bl_encodePublicKeyToEIP2537 L point))"

definition validateResponse_body ::
    "cosigner_config \<Rightarrow> ('b, 'sig, 'pk, 'pt) cosign_env \<Rightarrow> 'r co_sign_request_scheme \<Rightarrow> co_sign_response \<Rightarrow> (key_cache, bool) io" where
  "validateResponse_body cfg Q req resp =
     (case rs_slot resp of None \<Rightarrow> sret False
      | Some slot \<Rightarrow>
     if \<not> js_int_in 1 (qc_maxSlots cfg) slot then sret False else
     (case (rs_signerPublicKey resp, rs_signatureCompact resp) of
        (Some pk, Some sg) \<Rightarrow>
          sbind (slift (recomputeMessageHash (qe_ethers Q) req (blsDomain cfg))) (\<lambda>expected.
          if lower (rs_messageHash resp) \<noteq> lower expected then sret False else
          sbind (slift (of_option malformed_point (bl_signatureFromHex (qe_bls Q) (strip0x sg)))) (\<lambda>signature.
          sbind (slift (of_option malformed_point (bl_publicKeyFromHex (qe_bls Q) (strip0x pk)))) (\<lambda>publicKey.
          sbind (slift (bl_hashMessageToCurve (qe_bls Q) expected)) (\<lambda>msgPoint.
          sbind (slift (bl_verifySignature (qe_bls Q) signature msgPoint publicKey)) (\<lambda>valid.
          if \<not> valid then sret False else
          sbind (cached_key Q (js_to_int slot)) (\<lambda>onchainKey.
          (case onchainKey of None \<Rightarrow> sret False
           | Some k \<Rightarrow>
          if k = [] then sret False else
          sbind (slift (uncompressedFromCompressed (qe_bls Q) pk)) (\<lambda>respUncompressed.
          if lower k \<noteq> lower respUncompressed then sret False else sret True))))))))
      | _ \<Rightarrow> sret False))"

definition validateResponse ::
    "cosigner_config \<Rightarrow> ('b, 'sig, 'pk, 'pt) cosign_env \<Rightarrow> 'r co_sign_request_scheme \<Rightarrow> co_sign_response \<Rightarrow> (key_cache, bool) io" where
  "validateResponse cfg Q req resp = scatch (validateResponse_body cfg Q req resp) (\<lambda>_. sret False)"

text \<open>The loop that fills \<^verbatim>\<open>bySlot\<close>, a map from slots to compact signatures in insertion order.\<close>

fun by_slot_loop ::
    "cosigner_config \<Rightarrow> ('b, 'sig, 'pk, 'pt) cosign_env \<Rightarrow> 'r co_sign_request_scheme \<Rightarrow> co_sign_response list \<Rightarrow>
     (int \<times> string) list \<Rightarrow> key_cache \<Rightarrow> (int \<times> string) list" where
  "by_slot_loop cfg Q req [] bySlot cache = bySlot"
| "by_slot_loop cfg Q req (resp # rest) bySlot cache =
     (case validateResponse cfg Q req resp cache of
        (Inr True, cache') \<Rightarrow>
          let slot = js_to_int (the (rs_slot resp)) in
          by_slot_loop cfg Q req rest
            (if slot \<in> fst ` set bySlot then bySlot else bySlot @ [(slot, the (rs_signatureCompact resp))]) cache'
      | (_, cache') \<Rightarrow> by_slot_loop cfg Q req rest bySlot cache')"

definition collect_peer_responses ::
    "cosigner_config \<Rightarrow> ('b, 'sig, 'pk, 'pt) cosign_env \<Rightarrow> co_sign_request \<Rightarrow> int \<Rightarrow> co_sign_response list \<times> key_cache" where
  "collect_peer_responses cfg Q req peerThreshold =
     requestCoSignatures
       \<lparr>co_threshold = peerThreshold, co_validate = Some (validateResponse cfg Q req), co_dedupKey = rs_slot,
        co_maxValidations = None, co_perConnCap = None, co_show_slot = qe_show_slot Q\<rparr>
       (qe_uuid Q 1) (qe_events Q) Map.empty"

definition aggregate_quorum ::
    "('b, 'sig, 'pk, 'pt) cosign_env \<Rightarrow> (int \<times> string) list \<Rightarrow> (int \<times> string) result" where
  "aggregate_quorum Q bySlot =
     (let slots = sort (map fst bySlot) in
      rbind (rmap (\<lambda>s. of_option malformed_point
          (bl_signatureFromHex (qe_bls Q) (strip0x (the (map_of bySlot s))))) slots) (\<lambda>signatures.
      rbind (bl_aggregateSignaturesOnly (qe_bls Q) signatures) (\<lambda>aggregate.
      rbind (buildSignerMask (map js_of_int slots)) (\<lambda>signerMask.
      Inr (signerMask, bl_encodeToEIP2537 (qe_bls Q) aggregate)))))"

definition payload_of :: "co_sign_request \<Rightarrow> string \<Rightarrow> string \<Rightarrow> co_sign_request_payload" where
  "payload_of req requestId nodeId =
     co_sign_request.extend req \<lparr>rp_requestId = requestId, rp_requesterNodeId = nodeId\<rparr>"

definition coSign ::
    "cosigner_config \<Rightarrow> ('b, 'sig, 'pk, 'pt) cosign_env \<Rightarrow> co_sign_request \<Rightarrow> (cosigner, int \<times> string) io" where
  "coSign cfg Q req =
     (if \<not> qc_executeSlash cfg then sthrow CosignNotArmed else
      sbind (sgets q_verifier) (\<lambda>wired. if \<not> wired then sthrow CosignVerifierUnwired else
      sbind (ensureDomainAttested cfg Q) (\<lambda>attested. if \<not> attested then sthrow CosignDomainUnattested else
      sbind (slift (qe_nodeForSigning Q)) (\<lambda>nodeId.
      sbind (resolveOwnSlot Q) (\<lambda>ownSlot. if ownSlot = None then sthrow CosignNoSlot else
      if qe_peers Q = 0 then sthrow CosignNoPeers else
      let threshold = thresholdFor cfg (cr_slashLevel req) in
      sbind (verifyAndSign cfg Q (payload_of req (qe_uuid Q 0) nodeId)) (\<lambda>own.
      case own of None \<Rightarrow> sthrow CosignSelfRefused
      | Some ownResp \<Rightarrow>
          let peerThreshold = max 0 (threshold - 1);
              (peerResponses, keyCache) = collect_peer_responses cfg Q req peerThreshold;
              bySlot = by_slot_loop cfg Q req (ownResp # peerResponses) [] keyCache
          in if int (length bySlot) < threshold then sthrow CosignUnderThreshold
             else slift (aggregate_quorum Q bySlot)))))))"

lemma recompute_payload: "recomputeMessageHash E (payload_of req i n) d = recomputeMessageHash E req d"
  by (simp add: recomputeMessageHash_def payload_of_def co_sign_request.defs split: option.split)

section \<open>What a validated response shows\<close>

definition cache_ok :: "('b, 'sig, 'pk, 'pt) cosign_env \<Rightarrow> key_cache \<Rightarrow> bool" where
  "cache_ok Q cache \<longleftrightarrow> (\<forall>s k. cache s = Some k \<longrightarrow> getBlsPublicKeyAtSlot (qe_ethers Q) (qe_chain Q) s = Inr k)"

text \<open>\<open>sg\<close> is a signature over the recomputed hash that verifies under the key registered at slot \<open>s\<close>.\<close>

definition slot_signature ::
    "cosigner_config \<Rightarrow> ('b, 'sig, 'pk, 'pt) cosign_env \<Rightarrow> 'r co_sign_request_scheme \<Rightarrow> int \<Rightarrow> string \<Rightarrow> bool" where
  "slot_signature cfg Q req s sg \<longleftrightarrow> 1 \<le> s \<and> s \<le> qc_maxSlots cfg \<and>
     (\<exists>expected signature publicKey msgPoint key.
        recomputeMessageHash (qe_ethers Q) req (blsDomain cfg) = Inr expected \<and>
        bl_signatureFromHex (qe_bls Q) (strip0x sg) = Some signature \<and>
        bl_hashMessageToCurve (qe_bls Q) expected = Inr msgPoint \<and>
        bl_verifySignature (qe_bls Q) signature msgPoint publicKey = Inr True \<and>
        getBlsPublicKeyAtSlot (qe_ethers Q) (qe_chain Q) s = Inr (Some key) \<and>
        key = lower (bl_encodePublicKeyToEIP2537 (qe_bls Q) publicKey))"

definition response_bound ::
    "cosigner_config \<Rightarrow> ('b, 'sig, 'pk, 'pt) cosign_env \<Rightarrow> 'r co_sign_request_scheme \<Rightarrow> co_sign_response \<Rightarrow> bool" where
  "response_bound cfg Q req resp \<longleftrightarrow> (\<exists>s sg. rs_slot resp = Some (js_of_int s) \<and>
     rs_signatureCompact resp = Some sg \<and> slot_signature cfg Q req s sg)"

lemma cached_key_triple:
  "io_triple (cache_ok Q) (cached_key Q s)
     (\<lambda>k c. cache_ok Q c \<and> getBlsPublicKeyAtSlot (qe_ethers Q) (qe_chain Q) s = Inr k) (cache_ok Q)"
  by (auto simp: io_triple_def cached_key_def cache_ok_def split: option.splits sum.splits)

lemma validate_body_triple:
  "io_triple (cache_ok Q) (validateResponse_body cfg Q req resp)
     (\<lambda>b c. cache_ok Q c \<and> (b \<longrightarrow> response_bound cfg Q req resp)) (cache_ok Q)"
proof (cases "\<exists>s pk sg. rs_slot resp = Some (js_of_int s) \<and> js_int_in 1 (qc_maxSlots cfg) (js_of_int s) \<and>
    rs_signerPublicKey resp = Some pk \<and> rs_signatureCompact resp = Some sg")
  case False
  then have "validateResponse_body cfg Q req resp = sret False"
    by (auto simp: validateResponse_body_def js_int_in_iff split: option.splits)
  then show ?thesis by (simp add: io_triple_def)
next
  case True
  then obtain s pk sg where r: "rs_slot resp = Some (js_of_int s)" "js_int_in 1 (qc_maxSlots cfg) (js_of_int s)"
    "rs_signerPublicKey resp = Some pk" "rs_signatureCompact resp = Some sg" by blast
  have s: "1 \<le> s" "s \<le> qc_maxSlots cfg" using r(2) by (auto simp: js_int_in_iff)
  have fin: "io_triple (\<lambda>c. cache_ok Q c \<and> getBlsPublicKeyAtSlot (qe_ethers Q) (qe_chain Q) s = Inr (Some k))
      (sbind (slift (uncompressedFromCompressed (qe_bls Q) pk)) (\<lambda>u. if lower k \<noteq> lower u then sret False else sret True))
      (\<lambda>b c. cache_ok Q c \<and> (b \<longrightarrow> response_bound cfg Q req resp)) (cache_ok Q)"
    if "recomputeMessageHash (qe_ethers Q) req (blsDomain cfg) = Inr expected"
      "bl_signatureFromHex (qe_bls Q) (strip0x sg) = Some signature"
      "bl_publicKeyFromHex (qe_bls Q) (strip0x pk) = Some publicKey"
      "bl_hashMessageToCurve (qe_bls Q) expected = Inr msgPoint"
      "bl_verifySignature (qe_bls Q) signature msgPoint publicKey = Inr True"
    for k expected signature publicKey msgPoint
  proof (rule io_sbind_slift)
    fix u assume u: "uncompressedFromCompressed (qe_bls Q) pk = Inr u"
    have "response_bound cfg Q req resp"
      if "lower k = lower u" "getBlsPublicKeyAtSlot (qe_ethers Q) (qe_chain Q) s = Inr (Some k)"
    proof -
      have "k = lower (bl_encodePublicKeyToEIP2537 (qe_bls Q) publicKey)"
        using that u \<open>bl_publicKeyFromHex (qe_bls Q) (strip0x pk) = Some publicKey\<close> key_at_slot_lower [OF that(2)]
        by (simp add: uncompressedFromCompressed_def)
      then show ?thesis
        unfolding response_bound_def slot_signature_def
        using r s \<open>recomputeMessageHash (qe_ethers Q) req (blsDomain cfg) = Inr expected\<close>
          \<open>bl_signatureFromHex (qe_bls Q) (strip0x sg) = Some signature\<close>
          \<open>bl_hashMessageToCurve (qe_bls Q) expected = Inr msgPoint\<close>
          \<open>bl_verifySignature (qe_bls Q) signature msgPoint publicKey = Inr True\<close> that(2) by blast
    qed
    then show "io_triple (\<lambda>c. cache_ok Q c \<and> getBlsPublicKeyAtSlot (qe_ethers Q) (qe_chain Q) s = Inr (Some k))
        (if lower k \<noteq> lower u then sret False else sret True)
        (\<lambda>b c. cache_ok Q c \<and> (b \<longrightarrow> response_bound cfg Q req resp)) (cache_ok Q)"
      by (auto simp: io_triple_def)
  qed simp
  have key: "io_triple (cache_ok Q) (sbind (cached_key Q s) (\<lambda>onchainKey.
      (case onchainKey of None \<Rightarrow> sret False | Some k \<Rightarrow> if k = [] then sret False else
        sbind (slift (uncompressedFromCompressed (qe_bls Q) pk)) (\<lambda>u. if lower k \<noteq> lower u then sret False else sret True))))
      (\<lambda>b c. cache_ok Q c \<and> (b \<longrightarrow> response_bound cfg Q req resp)) (cache_ok Q)"
    if h: "recomputeMessageHash (qe_ethers Q) req (blsDomain cfg) = Inr expected"
      "bl_signatureFromHex (qe_bls Q) (strip0x sg) = Some signature"
      "bl_publicKeyFromHex (qe_bls Q) (strip0x pk) = Some publicKey"
      "bl_hashMessageToCurve (qe_bls Q) expected = Inr msgPoint"
      "bl_verifySignature (qe_bls Q) signature msgPoint publicKey = Inr True"
    for expected signature publicKey msgPoint
  proof (rule io_sbind [OF cached_key_triple])
    fix ok
    show "io_triple (\<lambda>c. cache_ok Q c \<and> getBlsPublicKeyAtSlot (qe_ethers Q) (qe_chain Q) s = Inr ok)
      (case ok of None \<Rightarrow> sret False | Some k \<Rightarrow> if k = [] then sret False else
        sbind (slift (uncompressedFromCompressed (qe_bls Q) pk)) (\<lambda>u. if lower k \<noteq> lower u then sret False else sret True))
      (\<lambda>b c. cache_ok Q c \<and> (b \<longrightarrow> response_bound cfg Q req resp)) (cache_ok Q)"
      using fin [OF h] by (cases ok) (auto simp: io_triple_def [of _ "sret False"])
  qed
  have no: "io_triple (cache_ok Q) (sret False) (\<lambda>b c. cache_ok Q c \<and> (b \<longrightarrow> response_bound cfg Q req resp)) (cache_ok Q)"
    by (simp add: io_triple_def)
  show ?thesis
    unfolding validateResponse_body_def r option.case prod.case
    using r(2) key no by (auto intro!: io_sbind_slift)
qed

lemma validate_total: "\<exists>b. fst (validateResponse cfg Q req resp c) = Inr b"
  by (auto simp: validateResponse_def scatch_def split: prod.splits sum.splits)

lemma validate_sound:
  assumes "cache_ok Q c" "validateResponse cfg Q req resp c = (r, c')"
  shows "cache_ok Q c'" "r = Inr True \<Longrightarrow> response_bound cfg Q req resp"
proof -
  have t: "io_triple (cache_ok Q) (validateResponse cfg Q req resp)
      (\<lambda>b c. cache_ok Q c \<and> (b \<longrightarrow> response_bound cfg Q req resp)) (\<lambda>_. False)"
    unfolding validateResponse_def by (rule io_scatch [OF validate_body_triple], rule io_sret) simp
  from t assms have d: "case r of Inl _ \<Rightarrow> False | Inr b \<Rightarrow> cache_ok Q c' \<and> (b \<longrightarrow> response_bound cfg Q req resp)"
    by (auto simp: io_triple_def)
  show "cache_ok Q c'" using d by (cases r) auto
  show "r = Inr True \<Longrightarrow> response_bound cfg Q req resp" using d by auto
qed

lemma by_slot_loop_sound:
  assumes "cache_ok Q cache" "distinct (map fst bySlot)" "\<forall>(s, sg) \<in> set bySlot. slot_signature cfg Q req s sg"
  shows "distinct (map fst (by_slot_loop cfg Q req rs bySlot cache)) \<and>
    (\<forall>(s, sg) \<in> set (by_slot_loop cfg Q req rs bySlot cache). slot_signature cfg Q req s sg)"
  using assms
proof (induction rs arbitrary: bySlot cache)
  case (Cons r rs)
  obtain res c' where v: "validateResponse cfg Q req r cache = (res, c')" by fastforce
  note vs = validate_sound [OF Cons.prems(1) v]
  show ?case
  proof (cases "res = Inr True")
    case True
    then obtain s sg where b: "rs_slot r = Some (js_of_int s)" "rs_signatureCompact r = Some sg" "slot_signature cfg Q req s sg"
      using vs(2) by (auto simp: response_bound_def)
    let ?by = "if s \<in> fst ` set bySlot then bySlot else bySlot @ [(s, sg)]"
    have "by_slot_loop cfg Q req (r # rs) bySlot cache = by_slot_loop cfg Q req rs ?by c'"
      using v True b by simp
    moreover have "distinct (map fst ?by)" using Cons.prems(2) by simp
    moreover have "\<forall>(s, sg) \<in> set ?by. slot_signature cfg Q req s sg" using Cons.prems(3) b(3) by auto
    ultimately show ?thesis using Cons.IH [OF vs(1), of ?by] by simp
  next
    case False
    then have "by_slot_loop cfg Q req (r # rs) bySlot cache = by_slot_loop cfg Q req rs bySlot c'"
      using v by (cases res) (auto split: bool.splits)
    then show ?thesis using Cons.IH [OF vs(1) Cons.prems(2,3)] by simp
  qed
qed simp

lemma collect_cache_ok: "cache_ok Q (snd (collect_peer_responses cfg Q req n))"
  unfolding collect_peer_responses_def
proof (rule request_validator_inv [where I = "cache_ok Q"])
  fix r v assume "cache_ok Q v"
  then show "cache_ok Q (snd (validateResponse cfg Q req r v))"
    using validate_sound(1) [of Q v cfg req r] by (metis prod.collapse)
qed (simp_all add: cache_ok_def)

lemma aggregate_quorum_mask:
  assumes "aggregate_quorum Q bySlot = Inr (m, g)" "distinct (map fst bySlot)"
  shows "set (mask_slots m) = fst ` set bySlot" "length (mask_slots m) = length bySlot" "0 \<le> m" "m < 2 ^ 13"
proof -
  let ?slots = "sort (map fst bySlot)"
  from assms(1) have b: "buildSignerMask (map js_of_int ?slots) = Inr m" by (auto simp: aggregate_quorum_def Let_def)
  have dist: "distinct (map js_of_int ?slots)"
    using assms(2) by (simp add: distinct_map inj_on_def)
  show "set (mask_slots m) = fst ` set bySlot"
    using mask_slots_buildSignerMask [OF b] by (simp add: image_image)
  show "length (mask_slots m) = length bySlot" using length_mask_slots [OF b dist] by simp
  show "0 \<le> m" "m < 2 ^ 13" using buildSignerMask_bounds [OF b] by simp_all
qed

lemma ensureDomainAttested_cases:
  assumes "ensureDomainAttested cfg Q st = (r, st')"
  obtains "r = Inr False" "st' = st" "\<not> q_domainAttested st"
  | "r = Inr True" "st' = st\<lparr>q_domainAttested := True\<rparr>"
    "q_domainAttested st \<or> attestBlsDomain (qe_ethers Q) (qe_chain Q) (blsDomain cfg) = Inr ()"
  using assms by (auto simp: ensureDomainAttested_def split: if_splits sum.splits)

lemma resolveOwnSlot_cases:
  assumes "resolveOwnSlot Q st = (r, st')"
  shows "q_domainAttested st' = q_domainAttested st" "q_signed st' = q_signed st" "q_verifier st' = q_verifier st"
  using assms by (auto simp: resolveOwnSlot_def split: if_splits option.splits sum.splits)

section \<open>What a signature commits the node to\<close>

text \<open>Everything the responder checked before it handed \<open>h\<close> to the signer.\<close>

definition sign_agreed ::
    "cosigner_config \<Rightarrow> ('b, 'sig, 'pk, 'pt) cosign_env \<Rightarrow> co_sign_request_payload \<Rightarrow> string \<Rightarrow> bool" where
  "sign_agreed cfg Q req h \<longleftrightarrow> qc_executeSlash cfg \<and> cr_proofSchemaVersion req = PROOF_SCHEMA_VERSION \<and>
     recomputeMessageHash (qe_ethers Q) req (blsDomain cfg) = Inr h \<and> lower h = lower (cr_messageHash req) \<and>
     (\<exists>ph ev. qe_verifier Q req = Inr (True, Some ph) \<and> cr_evidenceHash req = Some ev \<and> lower ph = lower ev)"

definition attested_since ::
    "cosigner_config \<Rightarrow> ('b, 'sig, 'pk, 'pt) cosign_env \<Rightarrow> cosigner \<Rightarrow> bool" where
  "attested_since cfg Q st \<longleftrightarrow>
     q_domainAttested st \<or> attestBlsDomain (qe_ethers Q) (qe_chain Q) (blsDomain cfg) = Inr ()"

definition signed_only_agreed ::
    "cosigner_config \<Rightarrow> ('b, 'sig, 'pk, 'pt) cosign_env \<Rightarrow> co_sign_request_payload \<Rightarrow> cosigner \<Rightarrow> cosigner \<Rightarrow> bool" where
  "signed_only_agreed cfg Q req st st' \<longleftrightarrow> (q_signed st' = q_signed st \<or>
     (\<exists>h. q_signed st' = h # q_signed st \<and> sign_agreed cfg Q req h \<and> q_verifier st \<and> attested_since cfg Q st))"

definition response_agreed ::
    "cosigner_config \<Rightarrow> ('b, 'sig, 'pk, 'pt) cosign_env \<Rightarrow> co_sign_request_payload \<Rightarrow> cosigner \<Rightarrow> cosigner \<Rightarrow> co_sign_response \<Rightarrow> bool" where
  "response_agreed cfg Q req st st' resp \<longleftrightarrow> (\<exists>h slot pk sg. sign_agreed cfg Q req h \<and> q_signed st' = h # q_signed st \<and>
     qe_sign Q h = Inr (Some sg, Some pk) \<and> fst (resolveOwnSlot Q st) = Inr (Some slot) \<and>
     rs_messageHash resp = h \<and> rs_slot resp = Some (js_of_int slot) \<and> rs_requestId resp = Some (rp_requestId req) \<and>
     rs_signerPublicKey resp = Some pk \<and> rs_signatureCompact resp = Some sg)"

text \<open>The tail of the responder, from the verifier on.\<close>

definition sign_tail ::
    "('b, 'sig, 'pk, 'pt) cosign_env \<Rightarrow> co_sign_request_payload \<Rightarrow> string \<Rightarrow> (cosigner, co_sign_response option) io" where
  "sign_tail Q req localHash =
      sbind (slift (qe_nodeForSigning Q)) (\<lambda>nodeId.
      sbind (resolveOwnSlot Q) (\<lambda>s. case s of None \<Rightarrow> sret None
       | Some slot \<Rightarrow>
      sbind (signDerivedHash Q localHash) (\<lambda>(signatureCompact, publicKey).
      if signatureCompact = None \<or> publicKey = None then sret None
      else sret (Some \<lparr>rs_requestId = Some (rp_requestId req), rs_slot = Some (js_of_int slot),
        rs_signerNodeId = Some nodeId, rs_signerPublicKey = publicKey,
        rs_signatureCompact = signatureCompact, rs_messageHash = localHash\<rparr>))))"

lemma verifyAndSign_body_eq:
  "verifyAndSign_body cfg Q req st =
     (if qc_executeSlash cfg \<and> q_verifier st then
        (case ensureDomainAttested cfg Q st of (Inr True, st1) \<Rightarrow>
           if cr_proofSchemaVersion req = PROOF_SCHEMA_VERSION \<and> getAddress (qe_ethers Q) (cr_operator req) \<noteq> None then
             (case recomputeMessageHash (qe_ethers Q) req (blsDomain cfg) of Inl _ \<Rightarrow> (Inr None, st1)
              | Inr h \<Rightarrow> if lower h \<noteq> lower (cr_messageHash req) then (Inr None, st1)
                 else (case qe_verifier Q req of Inl e \<Rightarrow> (Inl e, st1)
                   | Inr (True, Some ph) \<Rightarrow>
                       (case cr_evidenceHash req of None \<Rightarrow> (Inr None, st1)
                        | Some ev \<Rightarrow> if lower ph = lower ev then sign_tail Q req h st1 else (Inr None, st1))
                   | _ \<Rightarrow> (Inr None, st1)))
           else (Inr None, st1)
         | (_, st1) \<Rightarrow> (Inr None, st1))
      else (Inr None, st))"
proof (cases "ensureDomainAttested cfg Q st")
  case (Pair r st1)
  from ensureDomainAttested_cases [OF Pair] have "r = Inr True \<or> r = Inr False" by metis
  then show ?thesis
    using Pair
    by (auto simp: verifyAndSign_body_def sbind_def sign_tail_def split: sum.splits option.splits bool.splits prod.splits)
qed

lemma sign_tail_cases:
  assumes "sign_tail Q req h st = (r, st')"
  shows "q_signed st' = q_signed st \<or> q_signed st' = h # q_signed st"
    "r = Inr (Some resp) \<Longrightarrow> \<exists>slot pk sg. q_signed st' = h # q_signed st \<and> qe_sign Q h = Inr (Some sg, Some pk) \<and>
       fst (resolveOwnSlot Q st) = Inr (Some slot) \<and> rs_messageHash resp = h \<and> rs_slot resp = Some (js_of_int slot) \<and>
       rs_requestId resp = Some (rp_requestId req) \<and> rs_signerPublicKey resp = Some pk \<and> rs_signatureCompact resp = Some sg"
proof -
  obtain s st1 where o: "resolveOwnSlot Q st = (s, st1)" by fastforce
  note oc = resolveOwnSlot_cases [OF o]
  show "q_signed st' = q_signed st \<or> q_signed st' = h # q_signed st"
    using assms o oc
    by (auto simp: sign_tail_def sbind_def signDerivedHash_def split: sum.splits option.splits prod.splits if_splits)
  show "r = Inr (Some resp) \<Longrightarrow> \<exists>slot pk sg. q_signed st' = h # q_signed st \<and> qe_sign Q h = Inr (Some sg, Some pk) \<and>
       fst (resolveOwnSlot Q st) = Inr (Some slot) \<and> rs_messageHash resp = h \<and> rs_slot resp = Some (js_of_int slot) \<and>
       rs_requestId resp = Some (rp_requestId req) \<and> rs_signerPublicKey resp = Some pk \<and> rs_signatureCompact resp = Some sg"
    using assms o oc
    by (auto simp: sign_tail_def sbind_def signDerivedHash_def split: sum.splits option.splits prod.splits if_splits)
qed

lemma resolveOwnSlot_attested:
  "fst (resolveOwnSlot Q (st\<lparr>q_domainAttested := b\<rparr>)) = fst (resolveOwnSlot Q st)"
  by (simp add: resolveOwnSlot_def split: option.splits sum.splits)

lemma verifyAndSign_body_cases:
  assumes "verifyAndSign_body cfg Q req st = (r, st')"
  shows "(r = Inr None \<or> (\<exists>e. r = Inl e)) \<and> q_signed st' = q_signed st \<or>
    (\<exists>h. sign_agreed cfg Q req h \<and> q_verifier st \<and> attested_since cfg Q st \<and>
       sign_tail Q req h (st\<lparr>q_domainAttested := True\<rparr>) = (r, st'))"
proof (cases "qc_executeSlash cfg \<and> q_verifier st")
  case True
  obtain a st1 where a: "ensureDomainAttested cfg Q st = (a, st1)" by fastforce
  from a show ?thesis
  proof (cases rule: ensureDomainAttested_cases)
    case 1
    with assms a True show ?thesis by (simp add: verifyAndSign_body_eq)
  next
    case 2
    with assms a True show ?thesis
      by (auto simp: verifyAndSign_body_eq sign_agreed_def attested_since_def
          split: if_splits sum.splits option.splits prod.splits bool.splits)
  qed
qed (use assms in \<open>auto simp: verifyAndSign_body_eq\<close>)

lemma verifyAndSign_sound:
  assumes "verifyAndSign cfg Q req st = (r, st')"
  shows "\<exists>out. r = Inr out" "signed_only_agreed cfg Q req st st'"
    "r = Inr (Some resp) \<Longrightarrow> response_agreed cfg Q req st st' resp \<and> q_verifier st \<and> attested_since cfg Q st"
proof -
  obtain r0 st0 where b: "verifyAndSign_body cfg Q req st = (r0, st0)" by fastforce
  have st: "st' = st0" "r = (case r0 of Inl _ \<Rightarrow> Inr None | Inr v \<Rightarrow> Inr v)"
    using assms b by (auto simp: verifyAndSign_def scatch_def split: sum.splits)
  show "\<exists>out. r = Inr out" using st by (cases r0) auto
  note c = verifyAndSign_body_cases [OF b]
  show "signed_only_agreed cfg Q req st st'"
    using c sign_tail_cases(1) [of Q req _ "st\<lparr>q_domainAttested := True\<rparr>" r0 st0] st
    by (fastforce simp: signed_only_agreed_def)
  assume "r = Inr (Some resp)"
  then have r0: "r0 = Inr (Some resp)" using st(2) by (cases r0) auto
  with c obtain h where h: "sign_agreed cfg Q req h" "q_verifier st" "attested_since cfg Q st"
    "sign_tail Q req h (st\<lparr>q_domainAttested := True\<rparr>) = (Inr (Some resp), st0)" by auto
  from sign_tail_cases(2) [OF h(4) refl] h(1-3) st(1)
  show "response_agreed cfg Q req st st' resp \<and> q_verifier st \<and> attested_since cfg Q st"
    unfolding response_agreed_def resolveOwnSlot_attested by auto
qed

lemma coSign_returns:
  assumes "coSign cfg Q req st = (Inr (m, g), st')"
  obtains own peers cache bySlot where "qc_executeSlash cfg" "q_verifier st" "attested_since cfg Q st"
    "bySlot = by_slot_loop cfg Q req (own # peers) [] cache" "cache_ok Q cache"
    "thresholdFor cfg (cr_slashLevel req) \<le> int (length bySlot)" "aggregate_quorum Q bySlot = Inr (m, g)"
proof -
  obtain a st1 where a: "ensureDomainAttested cfg Q st = (a, st1)" by fastforce
  obtain s st2 where s: "resolveOwnSlot Q st1 = (s, st2)" by fastforce
  from assms have arm: "qc_executeSlash cfg" "q_verifier st"
    by (auto simp: coSign_def sbind_def split: if_splits)
  from a have at: "a = Inr True" "attested_since cfg Q st"
    using assms arm a by (cases rule: ensureDomainAttested_cases; auto simp: coSign_def sbind_def attested_since_def)+
  obtain nodeId where n: "qe_nodeForSigning Q = Inr nodeId"
    using assms arm a at by (auto simp: coSign_def sbind_def split: sum.splits)
  obtain o2 st3 where v: "verifyAndSign cfg Q (payload_of req (qe_uuid Q 0) nodeId) st2 = (o2, st3)" by fastforce
  obtain slot where slot: "s = Inr (Some slot)"
    using assms arm a at n s by (auto simp: coSign_def sbind_def split: sum.splits if_splits)
  obtain own where own: "o2 = Inr (Some own)"
    using assms arm a at n s slot v
    by (auto simp: coSign_def sbind_def Let_def split: sum.splits if_splits option.splits)
  obtain peers cache where pc: "collect_peer_responses cfg Q req (max 0 (thresholdFor cfg (cr_slashLevel req) - 1)) = (peers, cache)"
    by fastforce
  have ok: "cache_ok Q cache" using collect_cache_ok pc by (metis snd_conv)
  show thesis
    by (rule that [OF arm at(2) refl ok, of own peers], insert assms arm a at n s slot v own pc)
      (auto simp: coSign_def sbind_def Let_def simp del: by_slot_loop.simps split: if_splits)
qed

section \<open>The co-signer interface\<close>

text \<open>\<^verbatim>\<open>IQuorumCoSigner\<close>: whatever implements it, a returned mask is a quorum for the request.\<close>

locale quorum_cosigner =
  fixes cosign :: "co_sign_request \<Rightarrow> ('s, int \<times> string) io" and quorum :: "co_sign_request \<Rightarrow> int set \<Rightarrow> bool"
  assumes cosign_quorum: "cosign req st = (Inr (m, g), st') \<Longrightarrow> quorum req (set (mask_slots m))"
    and cosign_range: "cosign req st = (Inr (m, g), st') \<Longrightarrow> 0 \<le> m \<and> m < 2 ^ 13"
begin

text \<open>The mask never trips the high-bit guard of the signer resolution, and its slots are a quorum.\<close>

lemma cosign_mask_resolvable:
  assumes "cosign req st = (Inr (m, g), st')"
  shows "drop_bit (nat MAX_VALIDATORS) m = 0 \<and> quorum req (set (mask_slots m))"
  using cosign_range [OF assms] cosign_quorum [OF assms] by (simp add: drop_bit_eq_div MAX_VALIDATORS_def)

end

definition backed_quorum ::
    "cosigner_config \<Rightarrow> ('b, 'sig, 'pk, 'pt) cosign_env \<Rightarrow> co_sign_request \<Rightarrow> int set \<Rightarrow> bool" where
  "backed_quorum cfg Q req slots \<longleftrightarrow> thresholdFor cfg (cr_slashLevel req) \<le> int (card slots) \<and>
     (\<forall>s \<in> slots. \<exists>sg. slot_signature cfg Q req s sg)"

interpretation pending: quorum_cosigner "\<lambda>req. slift (PendingSlotCoSigner_coSign req)" "\<lambda>_ _. False"
  by unfold_locales (simp_all add: PendingSlotCoSigner_coSign_def)

lemma coSign_backed:
  assumes "coSign cfg Q req st = (Inr (m, g), st')"
  shows "backed_quorum cfg Q req (set (mask_slots m)) \<and> 0 \<le> m \<and> m < 2 ^ 13"
proof -
  from assms obtain own peers cache bySlot where c: "bySlot = by_slot_loop cfg Q req (own # peers) [] cache" "cache_ok Q cache"
    "thresholdFor cfg (cr_slashLevel req) \<le> int (length bySlot)" "aggregate_quorum Q bySlot = Inr (m, g)"
    by (rule coSign_returns)
  from by_slot_loop_sound [OF c(2), of "[]" cfg req "own # peers"] c(1)
  have b: "distinct (map fst bySlot)" "\<forall>(s, sg) \<in> set bySlot. slot_signature cfg Q req s sg" by simp_all
  note m = aggregate_quorum_mask [OF c(4) b(1)]
  have "card (set (mask_slots m)) = length bySlot" using m(2) by (simp add: distinct_card)
  with b(2) m c(3) show ?thesis by (fastforce simp: backed_quorum_def)
qed

interpretation gossip: quorum_cosigner "coSign cfg Q" "backed_quorum cfg Q" for cfg Q
  by unfold_locales (use coSign_backed in blast)+

section \<open>Properties\<close>

text \<open>C6: a node never signs what it did not check itself. Handling any request from the network never
  throws, and hands at most one hash to the BLS signer; if it hands one over, the node is armed and its
  verifier wired, its consensus domain was attested against the aggregator, the request has the node's
  proof schema version, the hash is the one the node recomputed from the request under its own domain and
  equals the requested one, and the node's own verifier confirmed the violation with exactly the
  evidence hash of the request.\<close>

theorem responder_signs_only_what_it_checked:
  assumes "handleCoSignRequest cfg Q req st = (r, st')"
  shows "is_ok r \<and> (q_signed st' = q_signed st \<or>
    (\<exists>h ph ev. q_signed st' = h # q_signed st \<and> qc_executeSlash cfg \<and> q_handler st \<and> q_verifier st \<and>
       (q_domainAttested st \<or> attestBlsDomain (qe_ethers Q) (qe_chain Q) (blsDomain cfg) = Inr ()) \<and>
       cr_proofSchemaVersion req = PROOF_SCHEMA_VERSION \<and>
       recomputeMessageHash (qe_ethers Q) req (blsDomain cfg) = Inr h \<and> lower h = lower (cr_messageHash req) \<and>
       qe_verifier Q req = Inr (True, Some ph) \<and> cr_evidenceHash req = Some ev \<and> lower ph = lower ev))"
proof (cases "q_handler st")
  case True
  then have v: "verifyAndSign cfg Q req st = (r, st')" using assms by (simp add: handleCoSignRequest_def sbind_def)
  from verifyAndSign_sound(1,2) [OF v] True show ?thesis
    by (auto simp: signed_only_agreed_def sign_agreed_def attested_since_def)
qed (use assms in \<open>auto simp: handleCoSignRequest_def sbind_def\<close>)

text \<open>C3: a quorum proof is always backed. If \<^verbatim>\<open>coSign\<close> returns a mask, then at least the threshold number of
  slots (by severity) are in it, it fits in 13 bits, and for every slot in it there is a signature over the
  hash recomputed from the request that verifies under the key registered on chain at that slot for an
  active validator; whatever peers sent, in whatever order, and however often.\<close>

theorem quorum_proof_is_backed:
  assumes "coSign cfg Q req st = (Inr (signerMask, sigG2), st')"
  shows "thresholdFor cfg (cr_slashLevel req) \<le> int (length (mask_slots signerMask)) \<and>
    drop_bit (nat MAX_VALIDATORS) signerMask = 0 \<and>
    (\<forall>s \<in> set (mask_slots signerMask). \<exists>sg. slot_signature cfg Q req s sg)"
  using gossip.cosign_mask_resolvable [OF assms] distinct_card [OF mask_slots_distinct, of signerMask]
  by (simp add: backed_quorum_def)

text \<open>Quorum thresholds are positive. For every severity the threshold is at least one; it is the
  configured value when that is a positive integer, and otherwise 2 for a warning and 3 for every other
  level, an unknown one included.\<close>

theorem threshold_is_positive:
  "1 \<le> thresholdFor cfg slashLevel \<and>
   (thresholdFor cfg slashLevel = (if slashLevel = SlashLevel_WARNING then 2 else 3) \<or>
    Some (js_of_int (thresholdFor cfg slashLevel)) \<in>
      {st_WARNING (qc_thresholds cfg), st_MINOR (qc_thresholds cfg), st_MAJOR (qc_thresholds cfg)})"
  by (auto simp: thresholdFor_def Let_def js_isInteger_iff [symmetric] split: option.splits)
    (metis js_isInteger_iff)+

text \<open>A one-validator world: node and key at slot 1, a warning threshold of one.\<close>

definition demo_bls :: "(string, string, string) bls_lib" where
  "demo_bls = \<lparr>bl_signatureFromHex = Some, bl_publicKeyFromHex = Some, bl_hashMessageToCurve = Inr,
     bl_verifySignature = (\<lambda>s p k. Inr (s = k @ p)), bl_encodePublicKeyToEIP2537 = (\<lambda>k. ''0x'' @ k),
     bl_aggregateSignaturesOnly = (\<lambda>ss. Inr (concat ss)), bl_encodeToEIP2537 = (\<lambda>s. s)\<rparr>"

definition demo_contract :: bls_contract where
  "demo_contract = \<lparr>bc_provider = True, bc_validatorAtSlot = (\<lambda>s. Inr demo_signer),
     bc_getBLSPublicKey = (\<lambda>_. Inr ([Some ''0xab''], 1, True)), bc_REGISTRY = Inr demo_registry,
     bc_domainSeparator = domainSeparator sample_ethers demo_domain\<rparr>"

definition demo_cosign_env :: "(abi_value list, string, string, string) cosign_env" where
  "demo_cosign_env = \<lparr>qe_ethers = sample_ethers, qe_chain = demo_contract, qe_bls = demo_bls,
     qe_walletAddress = Some demo_signer, qe_nodeForSigning = Inr ''n1'',
     qe_sign = (\<lambda>h. Inr (Some (''0xab'' @ h), Some ''0xab'')), qe_verifier = (\<lambda>_. Inr (True, Some ''0xee'')),
     qe_peers = 1, qe_uuid = (\<lambda>_. ''u''), qe_events = [], qe_show_slot = (\<lambda>_. ''1'')\<rparr>"

definition demo_cosigner_config :: cosigner_config where
  "demo_cosigner_config = GossipQuorumCoSigner_config \<lparr>auditBlsAggregatorAddress = Some demo_signer,
     auditRegistryAddress = Some demo_registry, auditChainId = None, auditMaxSlots = None,
     auditSlashThresholds = Some \<lparr>st_WARNING = Some (js_of_int 1), st_MINOR = None, st_MAJOR = None\<rparr>,
     auditExecuteSlash = Some True\<rparr>"

definition demo_cosigner :: cosigner where
  "demo_cosigner = \<lparr>q_verifier = True, q_handler = True, q_ownSlot = None, q_ownSlotResolved = False,
     q_domainAttested = False, q_signed = []\<rparr>"

definition demo_hash :: string where
  "demo_hash = projr (buildExecuteMessageHash sample_ethers demo_domain 42 demo_signer 0 9 ''0xee'')"

definition demo_case :: co_sign_request where
  "demo_case = demo_request\<lparr>cr_proofSchemaVersion := 2, cr_slashLevel := 0, cr_messageHash := demo_hash\<rparr>"

lemma demo_cosigner_config:
  "blsDomain demo_cosigner_config = demo_domain" "qc_executeSlash demo_cosigner_config" "qc_maxSlots demo_cosigner_config = 13"
  "thresholdFor demo_cosigner_config 0 = 1"
  by (simp_all add: demo_cosigner_config_def GossipQuorumCoSigner_config_def blsDomain_def demo_domain_def orElse_def
      MAX_VALIDATORS_def js_int_in_iff thresholdFor_def SlashLevel_WARNING_def js_isInteger_iff)

lemma demo_hash: "recomputeMessageHash sample_ethers demo_case demo_domain = Inr demo_hash" "lower demo_hash = demo_hash"
  "recomputeMessageHash sample_ethers (payload_of demo_case i n) demo_domain = Inr demo_hash"
  by (simp_all add: demo_case_def demo_hash_def recomputeMessageHash_def demo_request_def demo_domain_def payload_of_def
      co_sign_request.defs buildExecuteMessageHash_def executeSlashMessageHash_def domainSeparator_def keccak_encode_def
      BigInt_42 address_of_def)

lemma demo_key: "getBlsPublicKeyAtSlot sample_ethers demo_contract 1 = Inr (Some ''0xab'')"
proof -
  have "lower ''0xab'' = ''0xab''" by code_simp
  then show ?thesis by (simp add: getBlsPublicKeyAtSlot_def getValidatorAtSlot_def demo_contract_def)
qed

lemma demo_verifyAndSign:
  "verifyAndSign demo_cosigner_config demo_cosign_env (payload_of demo_case ''u'' ''n1'') (demo_cosigner\<lparr>q_domainAttested := b, q_ownSlot := s, q_ownSlotResolved := (s = Some 1)\<rparr>) =
     (Inr (Some \<lparr>rs_requestId = Some ''u'', rs_slot = Some (js_of_int 1), rs_signerNodeId = Some ''n1'',
        rs_signerPublicKey = Some ''0xab'', rs_signatureCompact = Some (''0xab'' @ demo_hash), rs_messageHash = demo_hash\<rparr>),
      demo_cosigner\<lparr>q_domainAttested := True, q_ownSlot := Some 1, q_ownSlotResolved := True, q_signed := [demo_hash]\<rparr>)"
proof -
  have att: "attestBlsDomain sample_ethers demo_contract demo_domain = Inr ()"
    by (simp add: attestBlsDomain_def attestDomainAgainstAggregator_def demo_contract_def demo_domain_def domainSeparator_def
        keccak_encode_def address_of_def)
  have sl: "getRegisteredSlot sample_ethers demo_contract demo_signer = Inr (Some 1)"
    by (simp_all add: getRegisteredSlot_def demo_contract_def)
  have fl: "cr_proofSchemaVersion (payload_of demo_case ''u'' ''n1'') = PROOF_SCHEMA_VERSION"
    "cr_operator (payload_of demo_case ''u'' ''n1'') = demo_signer"
    "cr_messageHash (payload_of demo_case ''u'' ''n1'') = demo_hash"
    "cr_evidenceHash (payload_of demo_case ''u'' ''n1'') = Some ''0xee''"
    "rp_requestId (payload_of demo_case ''u'' ''n1'') = ''u''"
    by (simp_all add: demo_case_def demo_request_def payload_of_def co_sign_request.defs PROOF_SCHEMA_VERSION_def)
  show ?thesis
    by (simp add: verifyAndSign_def scatch_def verifyAndSign_body_eq ensureDomainAttested_def demo_cosigner_config demo_hash fl
        demo_cosign_env_def demo_cosigner_def att sign_tail_def sbind_def resolveOwnSlot_def sl signDerivedHash_def)
qed

theorem responder_signs_only_what_it_checked_witness:
  "q_signed (snd (handleCoSignRequest demo_cosigner_config demo_cosign_env (payload_of demo_case ''u'' ''n1'') demo_cosigner)) = [demo_hash] \<and>
   recomputeMessageHash sample_ethers (payload_of demo_case ''u'' ''n1'') demo_domain = Inr demo_hash"
proof -
  have st: "demo_cosigner = demo_cosigner\<lparr>q_domainAttested := False, q_ownSlot := None, q_ownSlotResolved := (None = Some (1::int))\<rparr>"
    by (simp add: demo_cosigner_def)
  obtain r st' where h: "handleCoSignRequest demo_cosigner_config demo_cosign_env (payload_of demo_case ''u'' ''n1'') demo_cosigner = (r, st')"
    by fastforce
  then have "q_signed st' = [demo_hash]" "q_signed demo_cosigner = []"
    using demo_verifyAndSign [where b = False and s = None] st by (auto simp: handleCoSignRequest_def sbind_def demo_cosigner_def)
  with responder_signs_only_what_it_checked [OF h] h show ?thesis
    by (auto simp: demo_cosigner_config demo_hash)
qed

definition demo_own :: co_sign_response where
  "demo_own = \<lparr>rs_requestId = Some ''u'', rs_slot = Some (js_of_int 1), rs_signerNodeId = Some ''n1'',
     rs_signerPublicKey = Some ''0xab'', rs_signatureCompact = Some (''0xab'' @ demo_hash), rs_messageHash = demo_hash\<rparr>"

lemma demo_validate: "validateResponse demo_cosigner_config demo_cosign_env demo_case demo_own Map.empty = (Inr True, [1 \<mapsto> Some ''0xab''])"
  by (simp add: validateResponse_def scatch_def validateResponse_body_def demo_own_def demo_cosigner_config js_int_in_iff
      demo_cosign_env_def demo_hash sbind_def demo_bls_def strip0x_def cached_key_def demo_key uncompressedFromCompressed_def)

lemma demo_coSign:
  "fst (coSign demo_cosigner_config demo_cosign_env demo_case demo_cosigner) = Inr (1, ''ab'' @ demo_hash)"
proof -
  have att: "attestBlsDomain sample_ethers demo_contract demo_domain = Inr ()"
    by (simp add: attestBlsDomain_def attestDomainAgainstAggregator_def demo_contract_def demo_domain_def domainSeparator_def
        keccak_encode_def address_of_def)
  have sl: "getRegisteredSlot sample_ethers demo_contract demo_signer = Inr (Some 1)"
    by (simp add: getRegisteredSlot_def demo_contract_def)
  have env: "qe_ethers demo_cosign_env = sample_ethers" "qe_chain demo_cosign_env = demo_contract"
    "qe_nodeForSigning demo_cosign_env = Inr ''n1''" "qe_walletAddress demo_cosign_env = Some demo_signer"
    "qe_peers demo_cosign_env = 1" "qe_uuid demo_cosign_env = (\<lambda>_. ''u'')" "qe_bls demo_cosign_env = demo_bls"
    by (simp_all add: demo_cosign_env_def)
  have lvl: "cr_slashLevel demo_case = 0" by (simp add: demo_case_def)
  have peers: "collect_peer_responses demo_cosigner_config demo_cosign_env demo_case 0 = ([], Map.empty)"
    by (simp add: collect_peer_responses_def requestCoSignatures_def collect_run_def collect_start_def finish_def
        demo_cosign_env_def)
  have by_slot: "by_slot_loop demo_cosigner_config demo_cosign_env demo_case [demo_own] [] Map.empty = [(1, ''0xab'' @ demo_hash)]"
    by (simp add: demo_validate) (simp add: demo_own_def)
  have m: "buildSignerMask [js_of_int 1] = Inr 1"
    by (simp add: buildSignerMask_def js_int_in_iff MAX_VALIDATORS_def)
  have agg: "aggregate_quorum demo_cosign_env [(1, ''0xab'' @ demo_hash)] = Inr (1, ''ab'' @ demo_hash)"
    by (simp add: aggregate_quorum_def env demo_bls_def strip0x_def m)
  note vs = demo_verifyAndSign [where b = True and s = "Some 1", folded demo_own_def]
  show ?thesis
    using vs agg by (simp add: coSign_def demo_cosigner_config sbind_def ensureDomainAttested_def env att resolveOwnSlot_def sl lvl
        peers by_slot agg Let_def demo_cosigner_def del: by_slot_loop.simps)
qed

theorem quorum_proof_is_backed_witness:
  "thresholdFor demo_cosigner_config 0 \<le> int (length (mask_slots 1)) \<and> (\<exists>sg. slot_signature demo_cosigner_config demo_cosign_env demo_case 1 sg)"
proof -
  obtain st' where c: "coSign demo_cosigner_config demo_cosign_env demo_case demo_cosigner = (Inr (1, ''ab'' @ demo_hash), st')"
    using demo_coSign by (metis prod.collapse)
  have "1 \<in> set (mask_slots 1)" "cr_slashLevel demo_case = 0" by (simp_all add: mask_slots_set demo_case_def)
  with quorum_proof_is_backed [OF c] show ?thesis by auto
qed

text \<open>Honest nodes interoperate. If an honest responder answers a request, then a requester with the same
  consensus domain, library and chain accepts the answer, provided the responder's slot is within range, its
  key is the one registered at that slot, and signatures made with the key verify (the correctness of the
  BLS scheme); its key cache does not matter.\<close>

theorem honest_response_is_accepted:
  assumes "verifyAndSign cfg' Q' (payload_of req requestId nodeId) st = (Inr (Some resp), st')"
    and "qe_ethers Q = qe_ethers Q'" "blsDomain cfg = blsDomain cfg'" "cache_ok Q cache"
    and bls: "\<And>h sg pk slot. qe_sign Q' h = Inr (Some sg, Some pk) \<Longrightarrow> fst (resolveOwnSlot Q' st) = Inr (Some slot) \<Longrightarrow>
      1 \<le> slot \<and> slot \<le> qc_maxSlots cfg \<and>
      (\<exists>signature key point. bl_signatureFromHex (qe_bls Q) (strip0x sg) = Some signature \<and>
        bl_publicKeyFromHex (qe_bls Q) (strip0x pk) = Some key \<and> bl_hashMessageToCurve (qe_bls Q) h = Inr point \<and>
        bl_verifySignature (qe_bls Q) signature point key = Inr True \<and> bl_encodePublicKeyToEIP2537 (qe_bls Q) key \<noteq> [] \<and>
        getBlsPublicKeyAtSlot (qe_ethers Q) (qe_chain Q) slot =
          Inr (Some (lower (bl_encodePublicKeyToEIP2537 (qe_bls Q) key))))"
  shows "fst (validateResponse cfg Q req resp cache) = Inr True"
proof -
  from verifyAndSign_sound(3) [OF assms(1)] obtain h slot pk sg where
    a: "sign_agreed cfg' Q' (payload_of req requestId nodeId) h" "qe_sign Q' h = Inr (Some sg, Some pk)"
      "fst (resolveOwnSlot Q' st) = Inr (Some slot)"
    and r: "rs_messageHash resp = h" "rs_slot resp = Some (js_of_int slot)" "rs_signerPublicKey resp = Some pk"
      "rs_signatureCompact resp = Some sg"
    unfolding response_agreed_def by blast
  from bls [OF a(2,3)] obtain signature key point where
    b: "1 \<le> slot" "slot \<le> qc_maxSlots cfg" "bl_signatureFromHex (qe_bls Q) (strip0x sg) = Some signature"
      "bl_publicKeyFromHex (qe_bls Q) (strip0x pk) = Some key" "bl_hashMessageToCurve (qe_bls Q) h = Inr point"
      "bl_verifySignature (qe_bls Q) signature point key = Inr True" "bl_encodePublicKeyToEIP2537 (qe_bls Q) key \<noteq> []"
      "getBlsPublicKeyAtSlot (qe_ethers Q) (qe_chain Q) slot = Inr (Some (lower (bl_encodePublicKeyToEIP2537 (qe_bls Q) key)))"
    by blast
  have h: "recomputeMessageHash (qe_ethers Q) req (blsDomain cfg) = Inr h"
    using a(1) assms(2,3) by (simp add: sign_agreed_def recompute_payload)
  have k: "fst (cached_key Q slot cache) = Inr (Some (lower (bl_encodePublicKeyToEIP2537 (qe_bls Q) key)))"
    using assms(4) b(8) by (auto simp: cached_key_def cache_ok_def split: option.splits)
  obtain c' where c: "cached_key Q slot cache = (Inr (Some (lower (bl_encodePublicKeyToEIP2537 (qe_bls Q) key))), c')"
    using k by (metis prod.collapse)
  have "lower x \<noteq> [] \<longleftrightarrow> x \<noteq> []" for x by (simp add: lower_def)
  with b c h r show ?thesis
    by (simp add: validateResponse_def scatch_def validateResponse_body_def js_int_in_iff sbind_def uncompressedFromCompressed_def)
qed

theorem honest_response_is_accepted_witness:
  "fst (validateResponse demo_cosigner_config demo_cosign_env demo_case demo_own Map.empty) = Inr True"
proof (rule honest_response_is_accepted [OF demo_verifyAndSign [where b = False and s = None, folded demo_own_def]])
  fix h sg pk slot
  assume "qe_sign demo_cosign_env h = Inr (Some sg, Some pk)"
    "fst (resolveOwnSlot demo_cosign_env (demo_cosigner\<lparr>q_domainAttested := False, q_ownSlot := None, q_ownSlotResolved := (None = Some (1::int))\<rparr>)) = Inr (Some slot)"
  then have "sg = ''0xab'' @ h" "pk = ''0xab''" "slot = 1"
    by (auto simp: demo_cosign_env_def resolveOwnSlot_def getRegisteredSlot_def demo_contract_def)
  moreover have "lower ''0xab'' = ''0xab''" by code_simp
  ultimately show "1 \<le> slot \<and> slot \<le> qc_maxSlots demo_cosigner_config \<and>
      (\<exists>signature key point. bl_signatureFromHex (qe_bls demo_cosign_env) (strip0x sg) = Some signature \<and>
        bl_publicKeyFromHex (qe_bls demo_cosign_env) (strip0x pk) = Some key \<and> bl_hashMessageToCurve (qe_bls demo_cosign_env) h = Inr point \<and>
        bl_verifySignature (qe_bls demo_cosign_env) signature point key = Inr True \<and> bl_encodePublicKeyToEIP2537 (qe_bls demo_cosign_env) key \<noteq> [] \<and>
        getBlsPublicKeyAtSlot (qe_ethers demo_cosign_env) (qe_chain demo_cosign_env) slot =
          Inr (Some (lower (bl_encodePublicKeyToEIP2537 (qe_bls demo_cosign_env) key))))"
    by (simp add: demo_cosigner_config demo_cosign_env_def demo_bls_def strip0x_def demo_key)
qed (simp_all add: cache_ok_def)

end
