(* ===== verification/Liveness_Keeper.thy ===== *)
theory Liveness_Keeper
  imports Ethers
begin

text \<open>
  \<^verbatim>\<open>src/modules/audit/liveness-keeper.service.ts\<close>: the keeper that proves the node's liveness on
  chain, its watchdog and its advisory cadence check; and \<^verbatim>\<open>getAttestAnchor\<close> of
  \<^verbatim>\<open>blockchain.service.ts\<close>.

  The chain is the parameter \<open>keeper_env\<close>, given to each cycle; a read that fails or exceeds its
  deadline throws. The two block-number reads of a cycle (the pinned head and the one of the block
  time sample) are separate. \<open>k_stops\<close> says before which of the successive reads of
  \<^verbatim>\<open>this.stopping\<close> the shutdown hook runs. \<open>k_watchdog\<close> is the delay of the pending watchdog timer. An attest the watchdog
  stops waiting for still runs: its effects stay although the cycle throws. Block times and
  window lengths in milliseconds are exact rationals here.
\<close>

section \<open>Definitions\<close>

definition KEEPER_MIN_INTERVAL_MS :: int where "KEEPER_MIN_INTERVAL_MS = 30000"
definition KEEPER_MAX_INTERVAL_MS :: int where "KEEPER_MAX_INTERVAL_MS = 21600000"
definition WINDOW_SAFETY_DIVISOR :: int where "WINDOW_SAFETY_DIVISOR = 3"
definition BLOCK_TIME_SAMPLE :: int where "BLOCK_TIME_SAMPLE = 100"
definition WATCHDOG_MIN_MS :: int where "WATCHDOG_MIN_MS = 5000"
definition WATCHDOG_MAX_MS :: int where "WATCHDOG_MAX_MS = 60000"
definition WATCHDOG_FALLBACK_MS :: int where "WATCHDOG_FALLBACK_MS = 30000"
definition DEFAULT_INTERVAL_MS :: int where "DEFAULT_INTERVAL_MS = 600000"
definition WATCHDOG_FAIL_ALERT_AFTER :: int where "WATCHDOG_FAIL_ALERT_AFTER = 3"
definition MIN_ONCHAIN_WINDOW :: int where "MIN_ONCHAIN_WINDOW = 100"
definition MAX_ONCHAIN_WINDOW :: int where "MAX_ONCHAIN_WINDOW = 10000000"
definition INCLUSION_ALLOWANCE_MS :: int where "INCLUSION_ALLOWANCE_MS = 60000"

lemmas keeper_consts = KEEPER_MIN_INTERVAL_MS_def KEEPER_MAX_INTERVAL_MS_def WINDOW_SAFETY_DIVISOR_def
  BLOCK_TIME_SAMPLE_def WATCHDOG_MIN_MS_def WATCHDOG_MAX_MS_def WATCHDOG_FALLBACK_MS_def DEFAULT_INTERVAL_MS_def
  WATCHDOG_FAIL_ALERT_AFTER_def MIN_ONCHAIN_WINDOW_def MAX_ONCHAIN_WINDOW_def INCLUSION_ALLOWANCE_MS_def

record keeper_settings =
  auditAttestEnabled :: "bool option"
  auditLivenessRegistryAddress :: "string option"
  auditAttestIntervalMs :: "jsnum option"
  auditAttestAnchorDepth :: "jsnum option"

record keeper_config =
  lk_enabled :: bool
  lk_registryAddress :: string
  lk_anchorDepth :: int

datatype keeper_alert =
    KeeperDisabled
  | IntervalMisconfigured
  | AttestFailed error
  | WatchdogRecovered
  | WatchdogDown
  | WindowInfeasible
  | CadenceTooSlow

record keeper =
  k_intervalMs :: jsnum
  k_timer :: bool
  k_inFlight :: bool
  k_stopping :: bool
  k_stops :: "bool list"
  k_watchdog :: "int option"
  k_watchdogInFlight :: bool
  k_cadenceUnsafe :: bool
  k_infeasibleWarned :: bool
  k_confirmedAtBlock :: int
  k_watchdogFailures :: int
  k_lastBlockTimeMs :: rat
  k_attests :: "(int \<times> string) list"
  k_alerts :: "keeper_alert list"

record keeper_env =
  le_walletAddress :: "string option"
  le_head :: "int result"
  le_latest :: "int result"
  le_getLivenessWindow :: "string \<Rightarrow> int \<Rightarrow> int result"
  le_getLastLive :: "string \<Rightarrow> string \<Rightarrow> int \<Rightarrow> int result"
  le_getBlockTimestamp :: "int \<Rightarrow> int result"
  le_getAttestAnchor :: "int \<Rightarrow> (int \<times> string) result"
  le_attestLiveness :: "string \<Rightarrow> int \<Rightarrow> string \<Rightarrow> string result"
  le_attestDeadline :: bool

text \<open>\<^verbatim>\<open>Number.isFinite(d) ? Math.min(255, Math.max(1, Math.floor(d))) : 16\<close>\<close>

definition clampAnchorDepth :: "jsnum \<Rightarrow> int" where
  "clampAnchorDepth d = (if js_isFinite d then min 255 (max 1 (js_to_int d)) else 16)"

definition LivenessKeeper_config :: "keeper_settings \<Rightarrow> keeper_config" where
  "LivenessKeeper_config s =
     \<lparr>lk_enabled = (auditAttestEnabled s = Some True),
      lk_registryAddress = (case auditLivenessRegistryAddress s of None \<Rightarrow> [] | Some a \<Rightarrow> a),
      lk_anchorDepth = clampAnchorDepth (case auditAttestAnchorDepth s of None \<Rightarrow> js_of_int 16 | Some d \<Rightarrow> d)\<rparr>"

definition LivenessKeeper_new :: "keeper_settings \<Rightarrow> keeper" where
  "LivenessKeeper_new s =
     \<lparr>k_intervalMs = (case auditAttestIntervalMs s of None \<Rightarrow> js_of_int 600000 | Some i \<Rightarrow> i),
      k_timer = False, k_inFlight = False, k_stopping = False, k_stops = [], k_watchdog = None, k_watchdogInFlight = False,
      k_cadenceUnsafe = False, k_infeasibleWarned = False, k_confirmedAtBlock = 0, k_watchdogFailures = 0,
      k_lastBlockTimeMs = 0, k_attests = [], k_alerts = []\<rparr>"

definition keeper_alert :: "keeper_alert \<Rightarrow> (keeper, unit) io" where
  "keeper_alert a = smodify (\<lambda>k. k\<lparr>k_alerts := a # k_alerts k\<rparr>)"

definition keeper_onApplicationShutdown :: "keeper \<Rightarrow> keeper" where
  "keeper_onApplicationShutdown k = k\<lparr>k_stopping := True, k_timer := False, k_watchdog := None\<rparr>"

text \<open>A read of \<^verbatim>\<open>this.stopping\<close>: the environment decides whether the shutdown hook ran before it.\<close>

definition keeper_stopping :: "(keeper, bool) io" where
  "keeper_stopping k =
     (if k_stopping k then (Inr True, k)
      else case k_stops k of [] \<Rightarrow> (Inr False, k)
        | b # bs \<Rightarrow> (Inr b, (if b then keeper_onApplicationShutdown else id) (k\<lparr>k_stops := bs\<rparr>)))"

definition armWatchdog :: "int \<Rightarrow> (keeper, unit) io" where
  "armWatchdog delayMs = sbind keeper_stopping (\<lambda>stopping. if stopping then sret ()
     else smodify (\<lambda>k. k\<lparr>k_watchdog := Some delayMs\<rparr>))"

text \<open>\<^verbatim>\<open>onApplicationBootstrap\<close> up to the timers; the boot attest is a tick of its own. The result says
  whether the keeper runs.\<close>

definition keeper_onApplicationBootstrap :: "keeper_config \<Rightarrow> keeper_env \<Rightarrow> (keeper, bool) io" where
  "keeper_onApplicationBootstrap cfg L =
     (if \<not> lk_enabled cfg then sret False
      else if \<not> is_address_format (lk_registryAddress cfg) then sbind (keeper_alert KeeperDisabled) (\<lambda>_. sret False)
      else if le_walletAddress L = None \<or> le_walletAddress L = Some [] then sbind (keeper_alert KeeperDisabled) (\<lambda>_. sret False)
      else sbind (sgets k_intervalMs) (\<lambda>intervalMs.
        sbind (if \<not> js_isFinite intervalMs \<or> js_less intervalMs (js_of_int KEEPER_MIN_INTERVAL_MS)
                  \<or> js_less (js_of_int KEEPER_MAX_INTERVAL_MS) intervalMs
               then sbind (smodify (\<lambda>k. k\<lparr>k_intervalMs := js_of_int DEFAULT_INTERVAL_MS\<rparr>)) (\<lambda>_.
                 keeper_alert IntervalMisconfigured)
               else sret ()) (\<lambda>_.
        sbind (smodify (\<lambda>k. k\<lparr>k_timer := True\<rparr>)) (\<lambda>_.
        sbind (armWatchdog 0) (\<lambda>_. sret True)))))"

definition getAttestAnchor ::
    "bool \<Rightarrow> int result \<Rightarrow> (int \<Rightarrow> (int option \<times> string option) option result) \<Rightarrow> jsnum \<Rightarrow> (int \<times> string) result" where
  "getAttestAnchor provider blockNumber getBlock depth =
     rbind (guard_throw (\<not> provider) (External ''Blockchain provider not configured'')) (\<lambda>_.
     let safeDepth = clampAnchorDepth depth in
     rbind blockNumber (\<lambda>latest.
     let target = max 0 (latest - safeDepth) in
     rbind (getBlock target) (\<lambda>b.
     case b of Some (Some n, Some h) \<Rightarrow> if h = [] then Inl (External ''no anchor'') else Inr (n, h)
     | _ \<Rightarrow> Inl (External ''no anchor''))))"

text \<open>The attest itself; the recorded pair is the anchor that was confirmed.\<close>

definition attest_once :: "keeper_config \<Rightarrow> keeper_env \<Rightarrow> (keeper, bool) io" where
  "attest_once cfg L =
     scatch
       (sbind (slift (le_getAttestAnchor L (lk_anchorDepth cfg))) (\<lambda>anchor.
        sbind keeper_stopping (\<lambda>stopping. if stopping then sret False else
        sbind (slift (le_attestLiveness L (lk_registryAddress cfg) (fst anchor) (snd anchor))) (\<lambda>_.
        sbind (smodify (\<lambda>k. k\<lparr>k_attests := anchor # k_attests k\<rparr>)) (\<lambda>_. sret True)))))
       (\<lambda>e. sbind (keeper_alert (AttestFailed e)) (\<lambda>_. sret False))"

definition keeper_tick :: "keeper_config \<Rightarrow> keeper_env \<Rightarrow> (keeper, bool) io" where
  "keeper_tick cfg L = sbind keeper_stopping (\<lambda>stopping. if stopping then sret False else
     (\<lambda>k. if k_inFlight k then (Inr False, k)
          else (case attest_once cfg L (k\<lparr>k_inFlight := True\<rparr>) of (r, k') \<Rightarrow> (r, k'\<lparr>k_inFlight := False\<rparr>))))"

definition measureBlockTimeMs :: "keeper_env \<Rightarrow> rat result" where
  "measureBlockTimeMs L =
     rbind (le_latest L) (\<lambda>latest.
     rbind (guard_throw (latest < 1) (External ''insufficient chain history'')) (\<lambda>_.
     let span = min BLOCK_TIME_SAMPLE latest in
     rbind (le_getBlockTimestamp L latest) (\<lambda>tsLatest.
     rbind (le_getBlockTimestamp L (latest - span)) (\<lambda>tsEarlier.
     let deltaMs = of_int ((tsLatest - tsEarlier) * 1000) / of_int span in
     rbind (guard_throw (deltaMs \<le> 0) (External ''implausible block-time sample'')) (\<lambda>_. Inr deltaMs)))))"

definition warnIfCadenceTooSlow :: "keeper_env \<Rightarrow> int \<Rightarrow> (keeper, unit) io" where
  "warnIfCadenceTooSlow L windowBlocks =
     sbind keeper_stopping (\<lambda>stopping. if stopping then sret () else
     (case measureBlockTimeMs L of Inl _ \<Rightarrow> sret ()
      | Inr blockTimeMs \<Rightarrow>
     sbind keeper_stopping (\<lambda>stopping2. if stopping2 then sret () else
     if blockTimeMs \<le> 0 then sret () else
     let windowMs = of_int windowBlocks * blockTimeMs;
         maxSafeMs = \<lfloor>windowMs / of_int WINDOW_SAFETY_DIVISOR\<rfloor>;
         needMs = WATCHDOG_MIN_MS + INCLUSION_ALLOWANCE_MS
     in sbind (smodify (\<lambda>k. k\<lparr>k_lastBlockTimeMs := blockTimeMs\<rparr>)) (\<lambda>_.
        if maxSafeMs < needMs then
          sbind (sgets k_infeasibleWarned) (\<lambda>warned.
          sbind (if warned then sret () else sbind (keeper_alert WindowInfeasible) (\<lambda>_.
            smodify (\<lambda>k. k\<lparr>k_infeasibleWarned := True\<rparr>))) (\<lambda>_.
          smodify (\<lambda>k. k\<lparr>k_cadenceUnsafe := True\<rparr>)))
        else
          sbind (smodify (\<lambda>k. k\<lparr>k_infeasibleWarned := False\<rparr>)) (\<lambda>_.
          sbind (sgets id) (\<lambda>k.
          let unsafe = js_less (js_of_int maxSafeMs) (k_intervalMs k) in
          sbind (if unsafe \<and> \<not> k_cadenceUnsafe k then keeper_alert CadenceTooSlow else sret ()) (\<lambda>_.
          smodify (\<lambda>k. k\<lparr>k_cadenceUnsafe := unsafe\<rparr>))))))))"

definition watchdogPeriodMs :: "keeper \<Rightarrow> int \<Rightarrow> int" where
  "watchdogPeriodMs k windowBlocks =
     (if k_lastBlockTimeMs k = 0 then WATCHDOG_FALLBACK_MS
      else min WATCHDOG_MAX_MS (max WATCHDOG_MIN_MS \<lfloor>of_int windowBlocks * k_lastBlockTimeMs k / 6\<rfloor>))"

text \<open>The early attest: \<open>None\<close> when shutdown was seen after it.\<close>

definition watchdog_attest :: "keeper_config \<Rightarrow> keeper_env \<Rightarrow> int \<Rightarrow> (keeper, unit option) io" where
  "watchdog_attest cfg L head =
     sbind (keeper_tick cfg L) (\<lambda>confirmed.
     sbind (if le_attestDeadline L then sthrow (External ''watchdog attest exceeded its deadline'') else sret ()) (\<lambda>_.
     sbind keeper_stopping (\<lambda>stopping. if stopping then sret None else
     sbind (if confirmed then smodify (\<lambda>k. k\<lparr>k_confirmedAtBlock := head\<rparr>) else sret ()) (\<lambda>_. sret (Some ())))))"

definition watchdog_settle :: "keeper_env \<Rightarrow> int \<Rightarrow> (keeper, int) io" where
  "watchdog_settle L windowBlocks =
     sbind (warnIfCadenceTooSlow L windowBlocks) (\<lambda>_.
     sbind (sgets (\<lambda>k. watchdogPeriodMs k windowBlocks)) (\<lambda>next.
     sbind (sgets k_watchdogFailures) (\<lambda>failures.
     sbind (if failures \<ge> WATCHDOG_FAIL_ALERT_AFTER then keeper_alert WatchdogRecovered else sret ()) (\<lambda>_.
     sbind (smodify (\<lambda>k. k\<lparr>k_watchdogFailures := 0\<rparr>)) (\<lambda>_. sret next)))))"

text \<open>The body of the \<^verbatim>\<open>try\<close>: the next delay, which an early \<^verbatim>\<open>return\<close> leaves at the fallback.\<close>

definition watchdog_body :: "keeper_config \<Rightarrow> keeper_env \<Rightarrow> (keeper, int) io" where
  "watchdog_body cfg L =
     (case le_walletAddress L of None \<Rightarrow> sret WATCHDOG_FALLBACK_MS
      | Some oper \<Rightarrow>
     if oper = [] then sret WATCHDOG_FALLBACK_MS else
     sbind (slift (le_head L)) (\<lambda>head.
     sbind keeper_stopping (\<lambda>s1. if s1 then sret WATCHDOG_FALLBACK_MS else
     sbind (slift (le_getLivenessWindow L (lk_registryAddress cfg) head)) (\<lambda>windowBlocks.
     sbind (slift (le_getLastLive L (lk_registryAddress cfg) oper head)) (\<lambda>lastLive.
     sbind keeper_stopping (\<lambda>s2. if s2 then sret WATCHDOG_FALLBACK_MS else
     if windowBlocks < MIN_ONCHAIN_WINDOW \<or> windowBlocks > MAX_ONCHAIN_WINDOW then sret WATCHDOG_FALLBACK_MS else
     if lastLive > head then sret WATCHDOG_FALLBACK_MS else
     sbind (sgets k_confirmedAtBlock) (\<lambda>confirmedAtBlock.
     let budgetBlocks = windowBlocks div WINDOW_SAFETY_DIVISOR;
         spent = (if lastLive = 0 then budgetBlocks + 1 else head - lastLive);
         progressed = (head - confirmedAtBlock > budgetBlocks)
     in if spent > budgetBlocks \<and> (confirmedAtBlock = 0 \<or> progressed)
        then sbind (watchdog_attest cfg L head) (\<lambda>go.
          case go of None \<Rightarrow> sret WATCHDOG_FALLBACK_MS | Some _ \<Rightarrow> watchdog_settle L windowBlocks)
        else watchdog_settle L windowBlocks)))))))"

definition watchdog_failed :: "error \<Rightarrow> (keeper, int) io" where
  "watchdog_failed e =
     sbind (smodify (\<lambda>k. k\<lparr>k_watchdogFailures := k_watchdogFailures k + 1\<rparr>)) (\<lambda>_.
     sbind (sgets k_watchdogFailures) (\<lambda>n.
     sbind (if n = WATCHDOG_FAIL_ALERT_AFTER then keeper_alert WatchdogDown else sret ()) (\<lambda>_.
     sret WATCHDOG_FALLBACK_MS)))"

definition watchdogCycle :: "keeper_config \<Rightarrow> keeper_env \<Rightarrow> (keeper, unit) io" where
  "watchdogCycle cfg L =
     sbind keeper_stopping (\<lambda>stopping. if stopping then sret () else
     sbind (sgets k_watchdogInFlight) (\<lambda>busy. if busy then armWatchdog WATCHDOG_FALLBACK_MS else
     sbind (smodify (\<lambda>k. k\<lparr>k_watchdogInFlight := True\<rparr>)) (\<lambda>_.
     sbind (armWatchdog WATCHDOG_FALLBACK_MS) (\<lambda>_.
     sbind (scatch (watchdog_body cfg L) watchdog_failed) (\<lambda>next.
     sbind (smodify (\<lambda>k. k\<lparr>k_watchdogInFlight := False\<rparr>)) (\<lambda>_.
     armWatchdog next))))))"

section \<open>The watchdog never dies\<close>

definition value_in :: "('a \<Rightarrow> bool) \<Rightarrow> ('s, 'a) io \<Rightarrow> bool" where
  "value_in P m \<longleftrightarrow> (\<forall>s v. fst (m s) = Inr v \<longrightarrow> P v)"

named_theorems value_in_rules \<open>value bounds of computations\<close>

lemma value_in_sret [value_in_rules]: "P v \<Longrightarrow> value_in P (sret v)"
  by (simp add: value_in_def)

lemma value_in_sbind [value_in_rules]: "(\<And>v. value_in P (f v)) \<Longrightarrow> value_in P (sbind m f)"
  by (auto simp: value_in_def sbind_def split: prod.splits sum.splits)

lemma value_in_scatch: "value_in P m \<Longrightarrow> (\<And>e. value_in P (h e)) \<Longrightarrow> value_in P (scatch m h)"
  by (auto simp: value_in_def scatch_def split: prod.splits sum.splits) (metis fst_conv)+

lemma value_in_if [value_in_rules]: "value_in P m \<Longrightarrow> value_in P m' \<Longrightarrow> value_in P (if b then m else m')"
  by simp

abbreviation railed :: "int \<Rightarrow> bool" where
  "railed d \<equiv> WATCHDOG_MIN_MS \<le> d \<and> d \<le> WATCHDOG_MAX_MS"

lemma railed_fallback: "railed WATCHDOG_FALLBACK_MS"
  by (simp add: keeper_consts)

lemma railed_period: "railed (watchdogPeriodMs k w)"
  by (simp add: watchdogPeriodMs_def keeper_consts)

lemma value_in_sgets:
  assumes "\<And>k. P (f k)" "\<And>v. P v \<Longrightarrow> value_in Q (g v)"
  shows "value_in Q (sbind (sgets f) g)"
  using assms by (auto simp: value_in_def sbind_def)

lemma settle_railed [value_in_rules]: "value_in railed (watchdog_settle L w)"
  unfolding watchdog_settle_def
  by (rule value_in_sbind, rule value_in_sgets [where P = railed], rule railed_period)
    (auto intro!: value_in_rules)

lemma body_railed: "value_in railed (watchdog_body cfg L)"
proof -
  have "value_in railed (case go of None \<Rightarrow> sret WATCHDOG_FALLBACK_MS | Some _ \<Rightarrow> watchdog_settle L w)" for go :: "unit option" and w
    by (cases go) (simp_all add: value_in_rules railed_fallback)
  then show ?thesis
    unfolding watchdog_body_def Let_def
    by (cases "le_walletAddress L")
      (auto intro!: value_in_rules railed_fallback)
qed

lemma failed_railed: "value_in railed (watchdog_failed e)"
  unfolding watchdog_failed_def by (intro value_in_rules railed_fallback)

lemma keeper_stopping_cases:
  assumes "keeper_stopping k = (r, k')"
  obtains "r = Inr True" "k_stopping k'" | "r = Inr False" "\<not> k_stopping k" "k' = k\<lparr>k_stops := tl (k_stops k)\<rparr>"
  using assms
  by (auto simp: keeper_stopping_def keeper_onApplicationShutdown_def split: if_splits list.splits)

lemma arm_result:
  assumes "armWatchdog d k = (r, k')"
  shows "r = Inr ()" "k_stopping k' \<or> k_watchdog k' = Some d" "k_watchdogInFlight k' = k_watchdogInFlight k"
  using assms
  by (auto simp: armWatchdog_def sbind_def keeper_stopping_def keeper_onApplicationShutdown_def split: list.splits if_splits)

lemma cycle_not_busy:
  assumes "\<not> k_watchdogInFlight k"
  shows "k_stopping (snd (watchdogCycle cfg L k)) \<and> fst (watchdogCycle cfg L k) = Inr () \<or>
    (\<exists>next k1. railed next \<and> watchdogCycle cfg L k = armWatchdog next (k1\<lparr>k_watchdogInFlight := False\<rparr>))"
proof -
  obtain s k0 where s: "keeper_stopping k = (s, k0)" by fastforce
  obtain a k1 where a: "armWatchdog WATCHDOG_FALLBACK_MS (k0\<lparr>k_watchdogInFlight := True\<rparr>) = (a, k1)" by fastforce
  then have a0: "a = Inr ()" by (rule arm_result)
  have vi: "value_in railed (scatch (watchdog_body cfg L) watchdog_failed)"
    by (intro value_in_scatch body_railed failed_railed)
  obtain n k2 where n: "scatch (watchdog_body cfg L) watchdog_failed k1 = (n, k2)" by fastforce
  have "\<exists>v. n = Inr v"
    using n by (cases "watchdog_body cfg L k1"; cases "fst (watchdog_body cfg L k1)")
      (auto simp: scatch_def watchdog_failed_def sbind_def keeper_alert_def split: if_splits)
  then obtain v where v: "n = Inr v" "railed v" using vi n unfolding value_in_def by (metis fst_conv)
  from s show ?thesis
  proof (cases rule: keeper_stopping_cases)
    case 1
    with s show ?thesis by (simp add: watchdogCycle_def sbind_def)
  next
    case 2
    then have nb: "\<not> k_watchdogInFlight k0" using assms by simp
    have "watchdogCycle cfg L k = armWatchdog v (k2\<lparr>k_watchdogInFlight := False\<rparr>)"
      using s 2(1) nb a a0 n v(1) by (simp add: watchdogCycle_def sbind_def)
    with v(2) show ?thesis by blast
  qed
qed

section \<open>Frame rules of the keeper\<close>

lemma total_keeper [frame_rules]: "total_io (keeper_alert a)" "total_io keeper_stopping"
  by (auto simp: total_io_def keeper_alert_def keeper_stopping_def split: list.splits)

text \<open>What the advisory half of a cycle leaves alone: everything but the warning latches, the block
  time, the failure count and the alerts.\<close>

definition advisory :: "(keeper \<Rightarrow> bool) \<Rightarrow> bool" where
  "advisory P \<longleftrightarrow> (\<forall>k. P k \<longrightarrow>
     (\<forall>a. P (k\<lparr>k_alerts := a\<rparr>)) \<and> (\<forall>b. P (k\<lparr>k_infeasibleWarned := b\<rparr>)) \<and> (\<forall>b. P (k\<lparr>k_cadenceUnsafe := b\<rparr>))
     \<and> (\<forall>t. P (k\<lparr>k_lastBlockTimeMs := t\<rparr>)) \<and> (\<forall>n. P (k\<lparr>k_watchdogFailures := n\<rparr>)))"

lemma advisory_alert: "advisory P \<Longrightarrow> stable P (keeper_alert a)"
  by (simp add: advisory_def keeper_alert_def stable_smodify)

lemma settle_frame:
  assumes "advisory P" "stable P keeper_stopping"
  shows "stable P (watchdog_settle L w)" "total_io (watchdog_settle L w)"
proof -
  have P: "stable P (smodify (\<lambda>k. k\<lparr>k_infeasibleWarned := b\<rparr>))" "stable P (smodify (\<lambda>k. k\<lparr>k_cadenceUnsafe := b\<rparr>))"
    "stable P (smodify (\<lambda>k. k\<lparr>k_lastBlockTimeMs := t\<rparr>))" "stable P (smodify (\<lambda>k. k\<lparr>k_watchdogFailures := n\<rparr>))" for b t n
    using assms(1) by (simp_all add: advisory_def stable_smodify)
  have warn: "stable P (warnIfCadenceTooSlow L w)" "total_io (warnIfCadenceTooSlow L w)"
    unfolding warnIfCadenceTooSlow_def Let_def
    by (intro frame_rules P assms advisory_alert)+
  show "stable P (watchdog_settle L w)" "total_io (watchdog_settle L w)"
    unfolding watchdog_settle_def by (intro frame_rules P assms advisory_alert warn)+
qed

section \<open>What a cycle may change\<close>

text \<open>No attest was recorded, and a shutdown is never undone.\<close>

definition settled :: "keeper \<Rightarrow> keeper \<Rightarrow> bool" where
  "settled k k' \<longleftrightarrow> k_confirmedAtBlock k' = k_confirmedAtBlock k \<and> k_attests k' = k_attests k
     \<and> (k_stopping k \<longrightarrow> k_stopping k')"

text \<open>One attest was confirmed, with the budget spent since the last recorded one.\<close>

definition attested :: "keeper_config \<Rightarrow> keeper_env \<Rightarrow> keeper \<Rightarrow> keeper \<Rightarrow> bool" where
  "attested cfg L k k' \<longleftrightarrow> (\<exists>a h w. k_attests k' = a # k_attests k \<and> le_head L = Inr h
     \<and> le_getLivenessWindow L (lk_registryAddress cfg) h = Inr w \<and> MIN_ONCHAIN_WINDOW \<le> w
     \<and> (k_confirmedAtBlock k = 0 \<or> h - k_confirmedAtBlock k > w div WINDOW_SAFETY_DIVISOR)
     \<and> (k_confirmedAtBlock k' = h \<or> k_confirmedAtBlock k' = k_confirmedAtBlock k \<and> (le_attestDeadline L \<or> k_stopping k'))
     \<and> (k_stopping k \<longrightarrow> k_stopping k'))"

lemma settled_refl: "settled k k"
  by (simp add: settled_def)

lemma stopping_settled: "stable (settled k) keeper_stopping"
  by (auto simp: stable_def settled_def keeper_stopping_def keeper_onApplicationShutdown_def split: list.splits)

lemma stopping_attested: "stable (attested cfg L k) keeper_stopping"
  unfolding stable_def attested_def keeper_stopping_def keeper_onApplicationShutdown_def
  by (auto split: list.splits)

lemma advisory_settled: "advisory (settled k)" and advisory_attested: "advisory (attested cfg L k)"
  by (simp_all add: advisory_def settled_def attested_def)

lemma arm_stable:
  assumes "stable P keeper_stopping" "\<And>k d. P k \<Longrightarrow> P (k\<lparr>k_watchdog := d\<rparr>)"
  shows "stable P (armWatchdog d)"
  unfolding armWatchdog_def using assms by (intro frame_rules)

lemma tick_effect:
  assumes "keeper_tick cfg L k = (r, k')"
  shows "r = Inr False \<and> settled k k' \<or>
    r = Inr True \<and> settled k (k'\<lparr>k_attests := tl (k_attests k')\<rparr>) \<and> k_attests k' \<noteq> []"
  using assms
  by (auto simp: keeper_tick_def attest_once_def sbind_def scatch_def keeper_stopping_def keeper_alert_def settled_def
      keeper_onApplicationShutdown_def split: if_splits list.splits prod.splits sum.splits)

lemma attest_effect:
  assumes "le_head L = Inr h" "le_getLivenessWindow L (lk_registryAddress cfg) h = Inr w" "MIN_ONCHAIN_WINDOW \<le> w"
    and "k_confirmedAtBlock k = 0 \<or> h - k_confirmedAtBlock k > w div WINDOW_SAFETY_DIVISOR"
    and "settled k s" "watchdog_attest cfg L h s = (r, s')"
  shows "settled k s' \<or> attested cfg L k s'"
proof -
  obtain t s1 where t: "keeper_tick cfg L s = (t, s1)" by fastforce
  show ?thesis
    using tick_effect [OF t] t assms
    by (auto simp: watchdog_attest_def sbind_def settled_def attested_def keeper_stopping_def
        keeper_onApplicationShutdown_def neq_Nil_conv split: if_splits list.splits)
qed

lemma body_effect:
  "io_triple (settled k) (watchdog_body cfg L)
     (\<lambda>_ s. settled k s \<or> attested cfg L k s) (\<lambda>s. settled k s \<or> attested cfg L k s)"
proof -
  let ?Q = "\<lambda>s. settled k s \<or> attested cfg L k s"
  have adv: "advisory ?Q" using advisory_settled advisory_attested unfolding advisory_def by blast
  have stop: "stable ?Q keeper_stopping"
    using stopping_settled stopping_attested unfolding stable_def by blast
  have settle: "io_triple ?Q (watchdog_settle L w) (\<lambda>_. ?Q) ?Q" for w
    by (intro triple_stable settle_frame adv stop)
  have settle': "io_triple (settled k) (watchdog_settle L w) (\<lambda>_. ?Q) ?Q" for w
    by (rule io_pre [OF settle]) simp
  have ret: "io_triple (settled k) (sret v) (\<lambda>_. ?Q) ?Q" for v :: int
    by (rule io_sret) simp
  have stopping: "io_triple (settled k) keeper_stopping (\<lambda>_. settled k) ?Q"
    using triple_stable [OF stopping_settled [of k]] by (rule io_conseq) simp_all
  have go: "io_triple ?Q (case g of None \<Rightarrow> sret WATCHDOG_FALLBACK_MS | Some _ \<Rightarrow> watchdog_settle L w) (\<lambda>_. ?Q) ?Q"
    for w and g :: "unit option"
    by (cases g) (auto intro: settle io_sret)
  have act: "io_triple (\<lambda>s. settled k s \<and> v = k_confirmedAtBlock k)
      (let budgetBlocks = w div WINDOW_SAFETY_DIVISOR;
           spent = if l = 0 then budgetBlocks + 1 else h - l;
           progressed = budgetBlocks < h - v
       in if budgetBlocks < spent \<and> (v = 0 \<or> progressed)
          then sbind (watchdog_attest cfg L h) (\<lambda>go.
            case go of None \<Rightarrow> sret WATCHDOG_FALLBACK_MS | Some _ \<Rightarrow> watchdog_settle L w)
          else watchdog_settle L w) (\<lambda>_. ?Q) ?Q"
    if "le_head L = Inr h" "le_getLivenessWindow L (lk_registryAddress cfg) h = Inr w" "MIN_ONCHAIN_WINDOW \<le> w" for h w l v
  proof -
    have "io_triple (\<lambda>s. settled k s \<and> v = k_confirmedAtBlock k) (watchdog_attest cfg L h) (\<lambda>_. ?Q) ?Q"
      if "v = 0 \<or> w div WINDOW_SAFETY_DIVISOR < h - v"
      using that \<open>le_head L = Inr h\<close> \<open>le_getLivenessWindow L _ h = Inr w\<close> \<open>MIN_ONCHAIN_WINDOW \<le> w\<close>
      by (auto intro!: io_tripleI dest!: attest_effect [rotated -1])
    moreover have "io_triple (\<lambda>s. settled k s \<and> v = k_confirmedAtBlock k) (watchdog_settle L w) (\<lambda>_. ?Q) ?Q"
      by (rule io_pre [OF settle]) simp
    ultimately show ?thesis
      unfolding Let_def by (auto intro: io_sbind go)
  qed
  have gets: "io_triple (settled k) (sgets k_confirmedAtBlock) (\<lambda>v s. settled k s \<and> v = k_confirmedAtBlock k) ?Q"
    by (simp add: io_triple_def settled_def)
  show ?thesis
    unfolding watchdog_body_def
    by (cases "le_walletAddress L"; simp; intro conjI impI ret)
      (rule io_sbind_slift io_sbind [OF stopping] io_sbind [OF gets] ret act io_if | simp split del: if_split)+
qed

lemma cycle_effect:
  assumes "watchdogCycle cfg L k = (r, k')"
  shows "settled k k' \<or> attested cfg L k k'"
proof -
  let ?Q = "\<lambda>s. settled k s \<or> attested cfg L k s"
  have stop: "stable ?Q keeper_stopping"
    using stopping_settled stopping_attested unfolding stable_def by blast
  have adv: "advisory ?Q" using advisory_settled advisory_attested unfolding advisory_def by blast
  have arm: "stable ?Q (armWatchdog d)" "stable (settled k) (armWatchdog d)" for d
    by (rule arm_stable, rule stop, simp add: settled_def attested_def)
      (rule arm_stable, rule stopping_settled, simp add: settled_def)
  have flight: "stable ?Q (smodify (\<lambda>k. k\<lparr>k_watchdogInFlight := b\<rparr>))"
    "stable (settled k) (smodify (\<lambda>k. k\<lparr>k_watchdogInFlight := b\<rparr>))" for b
    by (rule stable_smodify; simp add: settled_def attested_def)+
  have failures: "stable ?Q (smodify (\<lambda>k. k\<lparr>k_watchdogFailures := k_watchdogFailures k + 1\<rparr>))"
    using adv unfolding advisory_def by (intro stable_smodify) blast
  have failed: "stable ?Q (watchdog_failed e)" for e
    unfolding watchdog_failed_def by (intro frame_rules advisory_alert adv failures)
  have weak: "io_triple (settled k) m (\<lambda>_. settled k) ?Q" if "stable (settled k) m" for m :: "(keeper, 'c) io"
    using triple_stable [OF that] by (rule io_conseq) simp_all
  have body: "io_triple (settled k) (scatch (watchdog_body cfg L) watchdog_failed) (\<lambda>_. ?Q) ?Q"
    by (rule io_scatch [OF body_effect triple_stable [OF failed]])
  have after: "io_triple ?Q (sbind (smodify (\<lambda>k. k\<lparr>k_watchdogInFlight := False\<rparr>)) (\<lambda>_. armWatchdog d)) (\<lambda>_. ?Q) ?Q" for d
    by (intro triple_stable stable_sbind flight arm)
  have "io_triple (settled k) (watchdogCycle cfg L) (\<lambda>_. ?Q) ?Q"
    unfolding watchdogCycle_def
    by (rule io_sbind, rule weak, rule stopping_settled, rule io_if, rule io_sret, simp,
        rule io_sbind, rule weak, rule stable_rules, rule io_if, rule io_pre [OF triple_stable [OF arm(1)]], simp,
        rule io_sbind, rule weak, rule flight, rule io_sbind, rule weak, rule arm, rule io_sbind, rule body, rule after)
  from io_post_state [where I = ?Q, OF this settled_refl] assms show ?thesis by auto
qed

lemma stopped_does_nothing:
  assumes "k_stopping k"
  shows "watchdogCycle cfg L k = (Inr (), k)" "keeper_tick cfg L k = (Inr False, k)"
  using assms by (simp_all add: watchdogCycle_def keeper_tick_def sbind_def keeper_stopping_def)

section \<open>A run of the keeper\<close>

text \<open>The timers that fire: a watchdog cycle or an interval tick, each with what the chain answers then.\<close>

datatype keeper_event = WatchdogFires keeper_env | IntervalFires keeper_env

fun keeper_step :: "keeper_config \<Rightarrow> keeper_event \<Rightarrow> keeper \<Rightarrow> keeper" where
  "keeper_step cfg (WatchdogFires L) k = snd (watchdogCycle cfg L k)"
| "keeper_step cfg (IntervalFires L) k = snd (keeper_tick cfg L k)"

definition keeper_run :: "keeper_config \<Rightarrow> keeper_event list \<Rightarrow> keeper \<Rightarrow> keeper" where
  "keeper_run cfg es k = fold (keeper_step cfg) es k"

fun is_interval :: "keeper_event \<Rightarrow> bool" where
  "is_interval (IntervalFires L) = True"
| "is_interval (WatchdogFires L) = False"

text \<open>What the run asks of the chain: heads are positive and at most \<open>H\<close>, and an attest the watchdog
  starts settles within its deadline.\<close>

fun punctual :: "int \<Rightarrow> keeper_event \<Rightarrow> bool" where
  "punctual H (WatchdogFires L) = (\<not> le_attestDeadline L \<and> (case le_head L of Inl _ \<Rightarrow> True | Inr h \<Rightarrow> 1 \<le> h \<and> h \<le> H))"
| "punctual H (IntervalFires L) = True"

definition attest_bound :: "int \<Rightarrow> nat \<Rightarrow> keeper \<Rightarrow> bool" where
  "attest_bound H ticks k \<longleftrightarrow>
     (let n = int (length (k_attests k)) - int ticks
      in 0 \<le> k_confirmedAtBlock k \<and> k_confirmedAtBlock k \<le> H
         \<and> 34 * (n - 1) < H
         \<and> (\<not> k_stopping k \<longrightarrow> n \<le> 0 \<or> 34 * (n - 1) < k_confirmedAtBlock k))"

lemma bound_cycle:
  assumes "attest_bound H t k" "punctual H (WatchdogFires L)" "watchdogCycle cfg L k = (r, k')"
  shows "attest_bound H t k'"
proof (cases "k_stopping k")
  case True
  with assms show ?thesis by (simp add: stopped_does_nothing)
next
  case False
  from cycle_effect [OF assms(3)] show ?thesis
  proof
    assume "settled k k'"
    with assms(1) show ?thesis using False by (auto simp: attest_bound_def settled_def Let_def)
  next
    assume "attested cfg L k k'"
    then obtain a h w where e: "k_attests k' = a # k_attests k" "le_head L = Inr h" "MIN_ONCHAIN_WINDOW \<le> w"
      "k_confirmedAtBlock k = 0 \<or> h - k_confirmedAtBlock k > w div WINDOW_SAFETY_DIVISOR"
      "k_confirmedAtBlock k' = h \<or> k_confirmedAtBlock k' = k_confirmedAtBlock k \<and> (le_attestDeadline L \<or> k_stopping k')"
      unfolding attested_def by blast
    have h: "1 \<le> h" "h \<le> H" and d: "\<not> le_attestDeadline L" using assms(2) e(2) by auto
    have w: "k_confirmedAtBlock k = 0 \<or> h - k_confirmedAtBlock k > 33" using e(3,4) by (auto simp: keeper_consts)
    define n where "n = int (length (k_attests k)) - int t"
    have "n \<le> 0 \<or> 34 * (n - 1) < k_confirmedAtBlock k"
      using assms(1) False unfolding attest_bound_def n_def by meson
    then have "34 * n < h" using w h(1) by presburger
    then show ?thesis using assms(1) e(1,5) h d by (auto simp: attest_bound_def Let_def n_def)
  qed
qed

lemma bound_tick:
  assumes "attest_bound H t k" "keeper_tick cfg L k = (r, k')"
  shows "attest_bound H (Suc t) k'"
  using tick_effect [OF assms(2)] assms(1)
  by (auto simp: attest_bound_def Let_def settled_def neq_Nil_conv)

lemma bound_run:
  assumes "attest_bound H t k" "list_all (punctual H) es"
  shows "attest_bound H (t + length (filter is_interval es)) (keeper_run cfg es k)"
  using assms
proof (induction es arbitrary: t k)
  case (Cons e es)
  show ?case
  proof (cases e)
    case (WatchdogFires L)
    then show ?thesis
      using Cons bound_cycle [of H t k L cfg] by (cases "watchdogCycle cfg L k") (simp add: keeper_run_def)
  next
    case (IntervalFires L)
    then show ?thesis
      using Cons bound_tick [of H t k cfg L] Cons.IH [of "Suc t"] by (cases "keeper_tick cfg L k") (simp add: keeper_run_def)
  qed
qed (simp add: keeper_run_def)

text \<open>Anti-grief. Whatever the registry reports for the operator's last liveness, over a run of the
  keeper in which the watchdog's attests settle within their deadline, the watchdog pays for at most
  one attest per 34 blocks of chain progress, beyond those the configured interval makes.\<close>

theorem watchdog_attests_are_rate_limited:
  assumes "list_all (punctual H) es" "0 < H"
  shows "34 * (int (length (k_attests (keeper_run cfg es (LivenessKeeper_new s)))) - int (length (filter is_interval es)) - 1) < H"
  using bound_run [of H 0 "LivenessKeeper_new s" es cfg] assms
  by (simp add: attest_bound_def LivenessKeeper_new_def Let_def)

section \<open>An honest chain: the operator stays live\<close>

definition calm :: "keeper \<Rightarrow> bool" where
  "calm k \<longleftrightarrow> \<not> k_stopping k \<and> k_stops k = [] \<and> \<not> k_inFlight k"

text \<open>The chain answers: head \<open>h\<close>, window \<open>w\<close>, the operator's last liveness \<open>l\<close>, and an attest
  sent now confirms within the deadline.\<close>

definition honest :: "keeper_config \<Rightarrow> string \<Rightarrow> int \<Rightarrow> int \<Rightarrow> int \<Rightarrow> keeper_env \<Rightarrow> bool" where
  "honest cfg oper h w l L \<longleftrightarrow>
     le_walletAddress L = Some oper \<and> oper \<noteq> [] \<and> le_head L = Inr h
     \<and> le_getLivenessWindow L (lk_registryAddress cfg) h = Inr w \<and> le_getLastLive L (lk_registryAddress cfg) oper h = Inr l
     \<and> is_ok (rbind (le_getAttestAnchor L (lk_anchorDepth cfg)) (\<lambda>a. le_attestLiveness L (lk_registryAddress cfg) (fst a) (snd a)))
     \<and> \<not> le_attestDeadline L"

definition attest_due :: "keeper \<Rightarrow> int \<Rightarrow> int \<Rightarrow> int \<Rightarrow> bool" where
  "attest_due k h w l \<longleftrightarrow> (l = 0 \<or> h - l > w div WINDOW_SAFETY_DIVISOR)
     \<and> (k_confirmedAtBlock k = 0 \<or> h - k_confirmedAtBlock k > w div WINDOW_SAFETY_DIVISOR)"

lemma calm_stopping: "calm k \<Longrightarrow> keeper_stopping k = (Inr False, k)"
  by (simp add: calm_def keeper_stopping_def)

lemma calm_arm: "calm k \<Longrightarrow> armWatchdog d k = (Inr (), k\<lparr>k_watchdog := Some d\<rparr>)"
  by (simp add: armWatchdog_def sbind_def calm_stopping)

lemma calm_updates [simp]:
  "calm (k\<lparr>k_watchdog := d\<rparr>) = calm k" "calm (k\<lparr>k_watchdogInFlight := b\<rparr>) = calm k"
  "calm (k\<lparr>k_attests := a\<rparr>) = calm k" "calm (k\<lparr>k_confirmedAtBlock := h\<rparr>) = calm k"
  "calm (k\<lparr>k_alerts := x\<rparr>) = calm k" "calm (k\<lparr>k_watchdogFailures := n\<rparr>) = calm k"
  "calm (k\<lparr>k_infeasibleWarned := b\<rparr>) = calm k" "calm (k\<lparr>k_cadenceUnsafe := b\<rparr>) = calm k"
  "calm (k\<lparr>k_lastBlockTimeMs := t\<rparr>) = calm k"
  by (simp_all add: calm_def)

lemma calm_settle:
  assumes "calm k"
  obtains n k' where "watchdog_settle L w k = (Inr n, k')" "calm k'"
    "k_confirmedAtBlock k' = k_confirmedAtBlock k" "k_attests k' = k_attests k"
proof -
  let ?P = "\<lambda>k'. calm k' \<and> k_confirmedAtBlock k' = k_confirmedAtBlock k \<and> k_attests k' = k_attests k"
  have "advisory ?P" by (simp add: advisory_def)
  moreover have "stable ?P keeper_stopping" by (simp add: stable_def calm_stopping)
  ultimately have "stable ?P (watchdog_settle L w)" "total_io (watchdog_settle L w)" by (rule settle_frame)+
  with assms have "?P (snd (watchdog_settle L w k)) \<and> (\<exists>v. fst (watchdog_settle L w k) = Inr v)"
    unfolding stable_def total_io_def by simp
  then show ?thesis using that by (metis prod.collapse)
qed

lemma calm_tick:
  assumes "calm k" "is_ok (rbind (le_getAttestAnchor L (lk_anchorDepth cfg)) (\<lambda>a. le_attestLiveness L (lk_registryAddress cfg) (fst a) (snd a)))"
  shows "\<exists>a. keeper_tick cfg L k = (Inr True, k\<lparr>k_attests := a # k_attests k\<rparr>)"
proof -
  obtain x v where x: "le_getAttestAnchor L (lk_anchorDepth cfg) = Inr x" "le_attestLiveness L (lk_registryAddress cfg) (fst x) (snd x) = Inr v"
    using assms(2) by (auto simp: is_ok_iff)
  have "keeper_tick cfg L k = (Inr True, k\<lparr>k_attests := x # k_attests k, k_inFlight := False\<rparr>)"
    using assms(1) x by (simp add: keeper_tick_def attest_once_def sbind_def scatch_def calm_def keeper_stopping_def)
  moreover have "k\<lparr>k_attests := x # k_attests k, k_inFlight := False\<rparr> = k\<lparr>k_attests := x # k_attests k\<rparr>"
    using assms(1) by (cases k) (simp add: calm_def)
  ultimately show ?thesis by (intro exI [of _ x]) simp
qed

lemma calm_tick_any: "calm k \<Longrightarrow> calm (snd (keeper_tick cfg L k)) \<and> k_confirmedAtBlock (snd (keeper_tick cfg L k)) = k_confirmedAtBlock k
    \<and> k_watchdogInFlight (snd (keeper_tick cfg L k)) = k_watchdogInFlight k"
  by (auto simp: keeper_tick_def attest_once_def sbind_def scatch_def calm_def keeper_stopping_def keeper_alert_def
      split: sum.split)

lemma honest_cycle:
  assumes "calm k" "\<not> k_watchdogInFlight k" "honest cfg oper h w l L"
    "MIN_ONCHAIN_WINDOW \<le> w" "w \<le> MAX_ONCHAIN_WINDOW" "l \<le> h"
  obtains k' where "watchdogCycle cfg L k = (Inr (), k')" "calm k'" "\<not> k_watchdogInFlight k'"
    "attest_due k h w l \<Longrightarrow> k_confirmedAtBlock k' = h \<and> (\<exists>a. k_attests k' = a # k_attests k)"
    "\<not> attest_due k h w l \<Longrightarrow> k_confirmedAtBlock k' = k_confirmedAtBlock k \<and> k_attests k' = k_attests k"
proof -
  let ?k = "k\<lparr>k_watchdogInFlight := True, k_watchdog := Some WATCHDOG_FALLBACK_MS\<rparr>"
  have calm: "calm ?k" using assms(1) by simp
  have due: "attest_due ?k h w l = attest_due k h w l" by (simp add: attest_due_def)
  have cond: "(w div WINDOW_SAFETY_DIVISOR < (if l = 0 then w div WINDOW_SAFETY_DIVISOR + 1 else h - l)
      \<and> (k_confirmedAtBlock k = 0 \<or> w div WINDOW_SAFETY_DIVISOR < h - k_confirmedAtBlock k)) = attest_due k h w l"
    by (simp add: attest_due_def)
  obtain a where a: "keeper_tick cfg L ?k = (Inr True, ?k\<lparr>k_attests := a # k_attests k\<rparr>)"
    using calm_tick [OF calm, of L cfg] assms(3) unfolding honest_def by auto
  then have att: "watchdog_attest cfg L h ?k = (Inr (Some ()), ?k\<lparr>k_attests := a # k_attests k, k_confirmedAtBlock := h\<rparr>)"
    using assms(3) calm by (simp add: watchdog_attest_def sbind_def honest_def calm_stopping)
  let ?s = "if attest_due k h w l then ?k\<lparr>k_attests := a # k_attests k, k_confirmedAtBlock := h\<rparr> else ?k"
  have body: "watchdog_body cfg L ?k = watchdog_settle L w ?s"
    using assms(3-6) calm att unfolding watchdog_body_def Let_def
    by (simp add: honest_def sbind_def calm_stopping cond not_less)
  have "calm ?s" using assms(1) by simp
  then obtain n k' where s: "watchdog_settle L w ?s = (Inr n, k')" "calm k'"
    "k_confirmedAtBlock k' = k_confirmedAtBlock ?s" "k_attests k' = k_attests ?s" by (rule calm_settle)
  have "watchdogCycle cfg L k = (Inr (), k'\<lparr>k_watchdogInFlight := False, k_watchdog := Some n\<rparr>)"
    using assms(1,2) s(1,2) body by (simp add: watchdogCycle_def sbind_def scatch_def calm_stopping calm_arm)
  from that [OF this] s(2-4) show ?thesis by (simp split: if_splits)
qed

text \<open>The last liveness on chain after a step that ends at keeper state \<open>k'\<close>: an attest of this cycle lands
  at the head it read or later.\<close>

definition landed :: "keeper \<Rightarrow> keeper \<Rightarrow> int \<Rightarrow> int \<Rightarrow> int \<Rightarrow> bool" where
  "landed k k' h l l' \<longleftrightarrow> (if k_attests k' = k_attests k then l' = l else h \<le> l')"

text \<open>The keeper against an honest chain with window \<open>w\<close>: the head \<open>h\<close> of the last cycle and the
  registry's last liveness \<open>l\<close>. Interval ticks come in between, with any outcome.\<close>

inductive live_run :: "keeper_config \<Rightarrow> string \<Rightarrow> int \<Rightarrow> keeper \<Rightarrow> int \<Rightarrow> int \<Rightarrow> bool"
  for cfg :: keeper_config and oper :: string and w :: int where
  live_first: "live_run cfg oper w (snd (watchdogCycle cfg L k)) h l'"
    if "calm k" "\<not> k_watchdogInFlight k" "k_confirmedAtBlock k = 0" "0 < h" "0 \<le> l" "l \<le> h" "honest cfg oper h w l L"
       "landed k (snd (watchdogCycle cfg L k)) h l l'"
| live_cycle: "live_run cfg oper w (snd (watchdogCycle cfg L k)) h' l'"
    if "live_run cfg oper w k h l" "h \<le> h'" "l \<le> h'" "honest cfg oper h' w l L"
       "landed k (snd (watchdogCycle cfg L k)) h' l l'"
| live_interval: "live_run cfg oper w (snd (keeper_tick cfg L k)) h l'"
    if "live_run cfg oper w k h l" "l \<le> l'"

lemma live_run_inv:
  assumes "live_run cfg oper w k h l" "MIN_ONCHAIN_WINDOW \<le> w" "w \<le> MAX_ONCHAIN_WINDOW"
  shows "calm k \<and> \<not> k_watchdogInFlight k \<and> 0 < h \<and> 0 < l \<and> h \<le> l + w div WINDOW_SAFETY_DIVISOR \<and> k_confirmedAtBlock k \<le> l"
  using assms
proof (induction rule: live_run.induct)
  case (live_first k h l L l')
  have "0 \<le> w div WINDOW_SAFETY_DIVISOR" using live_first.prems by (simp add: keeper_consts)
  moreover from live_first obtain k' where "watchdogCycle cfg L k = (Inr (), k')" "calm k'" "\<not> k_watchdogInFlight k'"
    "attest_due k h w l \<Longrightarrow> k_confirmedAtBlock k' = h \<and> (\<exists>a. k_attests k' = a # k_attests k)"
    "\<not> attest_due k h w l \<Longrightarrow> k_confirmedAtBlock k' = k_confirmedAtBlock k \<and> k_attests k' = k_attests k"
    using honest_cycle [of k cfg oper h w l L] by blast
  ultimately show ?case using live_first by (cases "attest_due k h w l") (auto simp: landed_def attest_due_def)
next
  case (live_cycle k h l h' L l')
  then have IH: "calm k" "\<not> k_watchdogInFlight k" "0 < h" "0 < l" "k_confirmedAtBlock k \<le> l" by auto
  have "0 \<le> w div WINDOW_SAFETY_DIVISOR" using live_cycle.prems by (simp add: keeper_consts)
  moreover from live_cycle IH obtain k' where "watchdogCycle cfg L k = (Inr (), k')" "calm k'" "\<not> k_watchdogInFlight k'"
    "attest_due k h' w l \<Longrightarrow> k_confirmedAtBlock k' = h' \<and> (\<exists>a. k_attests k' = a # k_attests k)"
    "\<not> attest_due k h' w l \<Longrightarrow> k_confirmedAtBlock k' = k_confirmedAtBlock k \<and> k_attests k' = k_attests k"
    using honest_cycle [of k cfg oper h' w l L] by blast
  ultimately show ?case using live_cycle IH by (cases "attest_due k h' w l") (auto simp: landed_def attest_due_def)
next
  case (live_interval k h l l' L)
  then show ?case using calm_tick_any [of k cfg L] by auto
qed

text \<open>C8: against an honest registry the operator is never judged offline. After every watchdog cycle,
  whatever interval ticks came in between, no block up to two thirds of a window past the head the
  cycle read satisfies the registry's jail condition \<^verbatim>\<open>block.number > lastLive + window\<close>: the suppression of repeat
  attests never withholds one that is needed.\<close>

theorem operator_stays_live:
  assumes "live_run cfg oper w k h l" "MIN_ONCHAIN_WINDOW \<le> w" "w \<le> MAX_ONCHAIN_WINDOW"
    and "b \<le> h + (w - w div WINDOW_SAFETY_DIVISOR)"
  shows "0 < l \<and> \<not> b > l + w"
  using live_run_inv [OF assms(1-3)] assms(4) by linarith

text \<open>C25: the watchdog never dies. A cycle never throws, whatever the chain answers, and unless shutdown
  has begun it leaves a timer armed between 5 and 60 seconds and the in-flight flag as it found it.\<close>

theorem watchdog_never_dies:
  "fst (watchdogCycle cfg L k) = Inr () \<and>
   (k_stopping (snd (watchdogCycle cfg L k)) \<or>
    k_watchdogInFlight (snd (watchdogCycle cfg L k)) = k_watchdogInFlight k \<and>
    (\<exists>d. k_watchdog (snd (watchdogCycle cfg L k)) = Some d \<and> 5000 \<le> d \<and> d \<le> 60000))"
proof (cases "k_watchdogInFlight k")
  case False
  from cycle_not_busy [OF this] consider
    (stop) "k_stopping (snd (watchdogCycle cfg L k))" "fst (watchdogCycle cfg L k) = Inr ()"
    | (arm) d k1 where "railed d" "watchdogCycle cfg L k = armWatchdog d (k1\<lparr>k_watchdogInFlight := False\<rparr>)" by metis
  then show ?thesis
  proof cases
    case arm
    then show ?thesis using False arm_result [OF prod.collapse [symmetric], of d "k1\<lparr>k_watchdogInFlight := False\<rparr>"]
      by (auto simp: keeper_consts)
  qed simp
next
  case True
  obtain s k0 where s: "keeper_stopping k = (s, k0)" by fastforce
  then show ?thesis
  proof (cases rule: keeper_stopping_cases)
    case 2
    then have "watchdogCycle cfg L k = armWatchdog WATCHDOG_FALLBACK_MS k0"
      using s True by (simp add: watchdogCycle_def sbind_def)
    then show ?thesis using True 2 arm_result [OF prod.collapse [symmetric], of WATCHDOG_FALLBACK_MS k0]
      by (auto simp: keeper_consts)
  qed (simp add: watchdogCycle_def sbind_def s)
qed

section \<open>Failures and configuration\<close>

definition unreachable :: "keeper_env \<Rightarrow> bool" where
  "unreachable L \<longleftrightarrow> le_walletAddress L \<noteq> None \<and> le_walletAddress L \<noteq> Some [] \<and> \<not> is_ok (le_head L)"

lemma failing_cycle:
  assumes "calm k" "\<not> k_watchdogInFlight k" "unreachable L"
  shows "snd (watchdogCycle cfg L k) = k\<lparr>k_watchdogInFlight := False, k_watchdog := Some WATCHDOG_FALLBACK_MS,
     k_watchdogFailures := k_watchdogFailures k + 1,
     k_alerts := (if k_watchdogFailures k + 1 = WATCHDOG_FAIL_ALERT_AFTER then [WatchdogDown] else []) @ k_alerts k\<rparr>"
  using assms
  by (auto simp: unreachable_def watchdogCycle_def sbind_def scatch_def calm_stopping calm_arm watchdog_body_def
      watchdog_failed_def keeper_alert_def is_ok_def split: sum.splits)

lemma failing_run:
  assumes "calm k" "\<not> k_watchdogInFlight k" "list_all unreachable Ls" "0 \<le> k_watchdogFailures k"
    and "count_list (k_alerts k) WatchdogDown = (if WATCHDOG_FAIL_ALERT_AFTER \<le> k_watchdogFailures k then 1 else 0)"
  shows "let k' = keeper_run cfg (map WatchdogFires Ls) k in
    k_watchdogFailures k' = k_watchdogFailures k + int (length Ls) \<and>
    count_list (k_alerts k') WatchdogDown = (if WATCHDOG_FAIL_ALERT_AFTER \<le> k_watchdogFailures k + int (length Ls) then 1 else 0)"
  using assms
proof (induction Ls arbitrary: k)
  case (Cons L Ls)
  have step: "keeper_run cfg (map WatchdogFires (L # Ls)) k = keeper_run cfg (map WatchdogFires Ls) (snd (watchdogCycle cfg L k))"
    by (simp add: keeper_run_def)
  show ?case
    unfolding step using Cons.prems Cons.IH [of "snd (watchdogCycle cfg L k)"]
    by (auto simp: failing_cycle Let_def ac_simps)
qed (simp add: keeper_run_def)

text \<open>while the node cannot read the chain, the watchdog keeps cycling and raises its critical alert exactly once, at
  the third consecutive failure.\<close>

theorem silent_watchdog_alerts_once:
  assumes "list_all unreachable Ls"
  shows "count_list (k_alerts (keeper_run cfg (map WatchdogFires Ls) (LivenessKeeper_new s))) WatchdogDown
    = (if 3 \<le> length Ls then 1 else 0)"
  using failing_run [of "LivenessKeeper_new s" Ls cfg] assms
  by (auto simp: LivenessKeeper_new_def calm_def keeper_consts Let_def)

text \<open>configuration cannot switch the keeper off by a number. With the keeper enabled, a well-formed
  registry address and a wallet, bootstrap always starts the attest timer and the watchdog,
  with an interval between 30 seconds and 6 hours and an anchor depth between 1 and 255.\<close>

theorem bad_numbers_never_disable_the_keeper:
  assumes "auditAttestEnabled s = Some True" "auditLivenessRegistryAddress s = Some reg" "is_address_format reg"
    and "le_walletAddress L = Some oper" "oper \<noteq> []"
    and "keeper_onApplicationBootstrap (LivenessKeeper_config s) L (LivenessKeeper_new s) = (r, k)"
  shows "r = Inr True \<and> k_timer k \<and> k_watchdog k = Some 0
    \<and> js_isFinite (k_intervalMs k) \<and> \<not> js_less (k_intervalMs k) (js_of_int 30000) \<and> \<not> js_less (js_of_int 21600000) (k_intervalMs k)
    \<and> 1 \<le> lk_anchorDepth (LivenessKeeper_config s) \<and> lk_anchorDepth (LivenessKeeper_config s) \<le> 255"
proof -
  have depth: "1 \<le> clampAnchorDepth d \<and> clampAnchorDepth d \<le> 255" for d by (simp add: clampAnchorDepth_def)
  have dflt: "js_isFinite (js_of_int 600000)" "\<not> js_less (js_of_int 600000) (js_of_int 30000)" "\<not> js_less (js_of_int 21600000) (js_of_int 600000)"
    by simp_all
  show ?thesis
    using assms(6) depth dflt
    by (auto simp: keeper_onApplicationBootstrap_def LivenessKeeper_config_def LivenessKeeper_new_def assms(1-5) keeper_alert_def
        sbind_def armWatchdog_def keeper_stopping_def keeper_consts split: if_splits)
qed

section \<open>Concrete runs\<close>

definition keeper_demo_settings :: keeper_settings where
  "keeper_demo_settings = \<lparr>auditAttestEnabled = Some True, auditLivenessRegistryAddress = Some demo_registry,
     auditAttestIntervalMs = Some JNaN, auditAttestAnchorDepth = None\<rparr>"

definition keeper_demo_env :: "int \<Rightarrow> int \<Rightarrow> bool \<Rightarrow> keeper_env" where
  "keeper_demo_env h l late = \<lparr>le_walletAddress = Some demo_signer, le_head = Inr h, le_latest = Inl IoError,
     le_getLivenessWindow = (\<lambda>_ _. Inr 300), le_getLastLive = (\<lambda>_ _ _. Inr l), le_getBlockTimestamp = (\<lambda>_. Inl IoError),
     le_getAttestAnchor = (\<lambda>d. Inr (h - d, ''anchor'')), le_attestLiveness = (\<lambda>_ _ _. Inr ''tx''), le_attestDeadline = late\<rparr>"

definition keeper_demo_down :: keeper_env where
  "keeper_demo_down = (keeper_demo_env 5 0 False)\<lparr>le_head := Inl IoError\<rparr>"

lemma keeper_demo_honest: "honest cfg demo_signer h 300 l (keeper_demo_env h l False)"
  by (simp add: honest_def keeper_demo_env_def)

lemma keeper_new_calm:
  "calm (LivenessKeeper_new s)" "\<not> k_watchdogInFlight (LivenessKeeper_new s)" "k_confirmedAtBlock (LivenessKeeper_new s) = 0"
  by (simp_all add: calm_def LivenessKeeper_new_def)

text \<open>A hostile registry answers 0 forever, and each attest confirms just after the deadline the watchdog gives it.\<close>

lemma late_cycle:
  fixes cfg :: keeper_config and k :: keeper
  assumes "calm k" "\<not> k_watchdogInFlight k" "k_confirmedAtBlock k = 0"
  defines "k' \<equiv> snd (watchdogCycle cfg (keeper_demo_env 500 0 True) k)"
  shows "calm k' \<and> \<not> k_watchdogInFlight k' \<and> k_confirmedAtBlock k' = 0 \<and> length (k_attests k') = Suc (length (k_attests k))"
proof -
  let ?k = "k\<lparr>k_watchdogInFlight := True, k_watchdog := Some WATCHDOG_FALLBACK_MS\<rparr>" and ?L = "keeper_demo_env 500 0 True"
  have calm: "calm ?k" using assms(1) by simp
  obtain a where "keeper_tick cfg ?L ?k = (Inr True, ?k\<lparr>k_attests := a # k_attests k\<rparr>)"
    using calm_tick [OF calm, of ?L cfg] by (auto simp: keeper_demo_env_def)
  then have "watchdog_attest cfg ?L 500 ?k = (Inl (External ''watchdog attest exceeded its deadline''), ?k\<lparr>k_attests := a # k_attests k\<rparr>)"
    by (simp add: watchdog_attest_def sbind_def keeper_demo_env_def)
  then have "watchdog_body cfg ?L ?k = (Inl (External ''watchdog attest exceeded its deadline''), ?k\<lparr>k_attests := a # k_attests k\<rparr>)"
    using assms(3) calm unfolding watchdog_body_def Let_def
    by (simp add: keeper_demo_env_def sbind_def calm_stopping keeper_consts)
  then show ?thesis
    using assms(1-3) unfolding k'_def
    by (simp add: watchdogCycle_def sbind_def scatch_def calm_stopping calm_arm watchdog_failed_def keeper_alert_def)
qed

text \<open>the anti-grief bound does not survive the deadline. The watchdog abandons its own attest after the 15 second RPC deadline and
  then records no confirmation, although the transaction lands: against a
  registry that keeps answering 0, at an unmoving head, every cycle pays for one more attest.\<close>

theorem late_attests_escape_the_rate_limit:
  "length (k_attests (keeper_run cfg (replicate n (WatchdogFires (keeper_demo_env 500 0 True))) (LivenessKeeper_new s))) = n"
proof -
  have "length (k_attests (keeper_run cfg (replicate n (WatchdogFires (keeper_demo_env 500 0 True))) k)) = n + length (k_attests k)"
    if "calm k" "\<not> k_watchdogInFlight k" "k_confirmedAtBlock k = 0" for k
    using that late_cycle [of _ cfg]
    by (induction n arbitrary: k) (auto simp: keeper_run_def)
  from this [OF keeper_new_calm] show ?thesis by (simp add: LivenessKeeper_new_def)
qed

theorem watchdog_attests_are_rate_limited_witness:
  "34 * (int (length (k_attests (keeper_run (LivenessKeeper_config keeper_demo_settings)
     [WatchdogFires (keeper_demo_env 500 0 False), IntervalFires (keeper_demo_env 510 0 False)]
     (LivenessKeeper_new keeper_demo_settings)))) - int (length (filter is_interval
     [WatchdogFires (keeper_demo_env 500 0 False), IntervalFires (keeper_demo_env 510 0 False)])) - 1) < 600"
  by (rule watchdog_attests_are_rate_limited) (simp_all add: keeper_demo_env_def)

theorem silent_watchdog_alerts_once_witness:
  "count_list (k_alerts (keeper_run (LivenessKeeper_config keeper_demo_settings) (map WatchdogFires (replicate 4 keeper_demo_down))
     (LivenessKeeper_new keeper_demo_settings))) WatchdogDown = 1"
  using silent_watchdog_alerts_once [of "replicate 4 keeper_demo_down" "LivenessKeeper_config keeper_demo_settings" keeper_demo_settings]
  by (simp add: numeral_eq_Suc unreachable_def keeper_demo_down_def keeper_demo_env_def)

theorem operator_stays_live_witness:
  "\<exists>k. live_run (LivenessKeeper_config keeper_demo_settings) demo_signer 300 k 500 502 \<and> \<not> 700 > (502 + 300 :: int)"
proof -
  let ?cfg = "LivenessKeeper_config keeper_demo_settings" and ?k = "LivenessKeeper_new keeper_demo_settings"
    and ?L = "keeper_demo_env 500 0 False"
  obtain k' where "watchdogCycle ?cfg ?L ?k = (Inr (), k')" "\<exists>a. k_attests k' = a # k_attests ?k"
    by (rule honest_cycle [where k = ?k and h = 500 and l = 0 and cfg = ?cfg, OF keeper_new_calm(1,2) keeper_demo_honest])
      (simp_all add: attest_due_def keeper_consts keeper_new_calm)
  then have "landed ?k (snd (watchdogCycle ?cfg ?L ?k)) 500 0 502" by (auto simp: landed_def)
  then have "live_run ?cfg demo_signer 300 (snd (watchdogCycle ?cfg ?L ?k)) 500 502"
    by (rule live_first [OF keeper_new_calm _ _ _ keeper_demo_honest, rotated -1]) simp_all
  with operator_stays_live [OF this, of 700] show ?thesis by (auto simp: keeper_consts)
qed

theorem bad_numbers_never_disable_the_keeper_witness:
  "k_timer (snd (keeper_onApplicationBootstrap (LivenessKeeper_config keeper_demo_settings) (keeper_demo_env 500 0 False)
     (LivenessKeeper_new keeper_demo_settings)))"
proof -
  have "is_address_format demo_registry" by code_simp
  with bad_numbers_never_disable_the_keeper [of keeper_demo_settings demo_registry "keeper_demo_env 500 0 False" demo_signer, OF _ _ _ _ _ prod.collapse [symmetric]]
  show ?thesis by (simp add: keeper_demo_settings_def keeper_demo_env_def)
qed

end
