(* ===== verification/Policy_Gate.thy ===== *)
theory Policy_Gate
  imports Ethers
begin

text \<open>
  \<^verbatim>\<open>src/modules/policy/policy.service.ts\<close>: the node's own signing policy, two layers that must both allow an
  operation before the node co-signs it.

  The ABI coder of \<^verbatim>\<open>ethers\<close> is the parameter \<open>policy_abi\<close> (one decoder per type tuple the code
  decodes; it throws on malformed data) and the on-chain registry is the parameter
  \<^verbatim>\<open>checkPolicy\<close>, with results the pair of decision and remaining daily allowance. The human-readable reason is
  a datatype that keeps which rule refused and for which call. An empty string is falsy, as in the source.
\<close>

section \<open>Definitions\<close>

datatype policy_reason =
    UndecodableCallData
  | NoDecodableCalls
  | UndecodableTransfer
  | ExceedsPerTxMax nat
  | NotInAllowlist nat string
  | RegistryReverted
  | RegistryDecision nat int

datatype policy_decision = Allowed | Refused policy_reason

record decoded_call =
  dc_to :: string
  dc_value :: int
  dc_func :: string
  dc_selector :: string

record policy_call =
  pc_contract :: string
  pc_recipient :: string
  pc_asset :: string
  pc_amount :: int
  pc_selector :: string

record packed_user_op =
  uo_sender :: string
  uo_callData :: string

record policy_abi =
  decode_address_uint256_bytes :: "string \<Rightarrow> (string \<times> int \<times> string) result"
  decode_arrays :: "string \<Rightarrow> (string list \<times> int list \<times> string list) result"
  decode_address_uint256 :: "string \<Rightarrow> (string \<times> int) result"
  decode_address_address_uint256 :: "string \<Rightarrow> (string \<times> string \<times> int) result"

type_synonym check_policy = "string \<Rightarrow> string \<Rightarrow> string \<Rightarrow> string \<Rightarrow> int \<Rightarrow> string \<Rightarrow> (int \<times> int) result"

definition ALLOW :: int where "ALLOW = 0"
definition REQUIRE_DVT :: int where "REQUIRE_DVT = 1"

definition selector_of :: "'b ethers \<Rightarrow> string \<Rightarrow> string" where
  "selector_of E sig = take 10 (ethers_id E sig)"

definition EXECUTE_SELECTOR :: "'b ethers \<Rightarrow> string" where
  "EXECUTE_SELECTOR E = selector_of E ''execute(address,uint256,bytes)''"

definition EXECUTE_BATCH_SELECTOR :: "'b ethers \<Rightarrow> string" where
  "EXECUTE_BATCH_SELECTOR E = selector_of E ''executeBatch(address[],uint256[],bytes[])''"

definition NULL_SELECTOR :: string where "NULL_SELECTOR = ''0x00000000''"

definition ERC20_TRANSFER :: "'b ethers \<Rightarrow> string" where
  "ERC20_TRANSFER E = selector_of E ''transfer(address,uint256)''"

definition ERC20_TRANSFER_FROM :: "'b ethers \<Rightarrow> string" where
  "ERC20_TRANSFER_FROM E = selector_of E ''transferFrom(address,address,uint256)''"

definition ERC20_APPROVE :: "'b ethers \<Rightarrow> string" where
  "ERC20_APPROVE E = selector_of E ''approve(address,uint256)''"

record policy_settings =
  policyEnabled :: "bool option"
  policyPerTxMaxWei :: "string option"
  policyRecipientAllowlist :: "string list option"
  policyRegistryAddress :: "string option"
  policyEthSentinel :: "string option"

record policy_config =
  po_enabled :: bool
  po_perTxMaxWei :: "int option"
  po_recipientAllowlist :: "string set"
  po_registryAddress :: string
  po_ethSentinel :: string

definition PolicyService_new :: "policy_settings \<Rightarrow> policy_config result" where
  "PolicyService_new s =
     (let enabled = (policyEnabled s = Some True);
          allow = (case policyRecipientAllowlist s of None \<Rightarrow> [] | Some a \<Rightarrow> a);
          registry = (case policyRegistryAddress s of None \<Rightarrow> [] | Some r \<Rightarrow> r);
          sentinel = (case policyEthSentinel s of None \<Rightarrow> ''0xEeeeeEeeeEeEeeEeEeEeeEEEeeeeEeeeeeeeEEeE'' | Some e \<Rightarrow> e)
      in rbind (case policyPerTxMaxWei s of None \<Rightarrow> Inr None
           | Some m \<Rightarrow> if m = [] then Inr None else rbind (js_BigInt m) (\<lambda>v. Inr (Some v))) (\<lambda>perTxMaxWei.
         rbind (guard_throw (enabled \<and> registry = [] \<and> perTxMaxWei = None \<and> allow = [])
           (External ''Refusing to start a no-op gate'')) (\<lambda>_.
         Inr \<lparr>po_enabled = enabled, po_perTxMaxWei = perTxMaxWei, po_recipientAllowlist = set (map lower allow),
              po_registryAddress = registry, po_ethSentinel = sentinel\<rparr>)))"

definition innerSelector :: "string \<Rightarrow> string" where
  "innerSelector func = (if take 2 func \<noteq> ''0x'' \<or> length func < 10 then NULL_SELECTOR else take 10 func)"

definition decoded :: "string \<Rightarrow> int \<Rightarrow> string \<Rightarrow> decoded_call" where
  "decoded to value func = \<lparr>dc_to = to, dc_value = value, dc_func = func, dc_selector = innerSelector func\<rparr>"

definition decodeCalls :: "'b ethers \<Rightarrow> policy_abi \<Rightarrow> string \<Rightarrow> decoded_call list result" where
  "decodeCalls E A callData =
     rbind (guard_throw (take 2 callData \<noteq> ''0x'' \<or> length callData < 10) (External ''not selector-prefixed'')) (\<lambda>_.
     let selector = take 10 callData; args = ''0x'' @ drop 10 callData in
     if selector = EXECUTE_SELECTOR E then
       rbind (decode_address_uint256_bytes A args) (\<lambda>(dest, value, func). Inr [decoded dest value func])
     else if selector = EXECUTE_BATCH_SELECTOR E then
       rbind (decode_arrays A args) (\<lambda>(dests, values, funcs).
       rbind (guard_throw (length dests \<noteq> length values \<or> length dests \<noteq> length funcs)
         (External ''executeBatch dest/value/func length mismatch'')) (\<lambda>_.
       Inr (map (\<lambda>(to, value, func). decoded to value func) (zip dests (zip values funcs)))))
     else Inl (External ''unsupported callData selector''))"

definition normalizeForPolicy :: "'b ethers \<Rightarrow> policy_abi \<Rightarrow> policy_config \<Rightarrow> decoded_call \<Rightarrow> policy_call result" where
  "normalizeForPolicy E A cfg call =
     (let payload = ''0x'' @ drop 10 (dc_func call);
          token = (\<lambda>recipient amount. \<lparr>pc_contract = dc_to call, pc_recipient = recipient, pc_asset = dc_to call,
                     pc_amount = amount, pc_selector = dc_selector call\<rparr>)
      in if dc_selector call = ERC20_TRANSFER E then
           rbind (decode_address_uint256 A payload) (\<lambda>(to, amount). Inr (token to amount))
         else if dc_selector call = ERC20_TRANSFER_FROM E then
           rbind (decode_address_address_uint256 A payload) (\<lambda>(_, to, amount). Inr (token to amount))
         else if dc_selector call = ERC20_APPROVE E then
           rbind (decode_address_uint256 A payload) (\<lambda>(spender, amount). Inr (token spender amount))
         else if dc_value call > 0 then
           Inr \<lparr>pc_contract = dc_to call, pc_recipient = dc_to call, pc_asset = po_ethSentinel cfg,
                pc_amount = dc_value call, pc_selector = dc_selector call\<rparr>
         else Inr \<lparr>pc_contract = dc_to call, pc_recipient = dc_to call, pc_asset = dc_to call,
                pc_amount = 0, pc_selector = dc_selector call\<rparr>)"

text \<open>The operator floor: the first call that breaks it, if any.\<close>

fun address_loop :: "policy_config \<Rightarrow> nat \<Rightarrow> string list \<Rightarrow> policy_reason option" where
  "address_loop cfg i [] = None"
| "address_loop cfg i (addr # addrs) =
     (if lower addr \<notin> po_recipientAllowlist cfg then Some (NotInAllowlist i addr) else address_loop cfg i addrs)"

definition floor_call :: "policy_config \<Rightarrow> nat \<Rightarrow> decoded_call \<Rightarrow> policy_call \<Rightarrow> policy_reason option" where
  "floor_call cfg i call pc =
     (if (case po_perTxMaxWei cfg of None \<Rightarrow> False | Some m \<Rightarrow> dc_value call > m) then Some (ExceedsPerTxMax i)
      else if po_recipientAllowlist cfg \<noteq> {} then address_loop cfg i [pc_contract pc, pc_recipient pc]
      else None)"

fun floor_loop :: "policy_config \<Rightarrow> nat \<Rightarrow> (decoded_call \<times> policy_call) list \<Rightarrow> policy_reason option" where
  "floor_loop cfg i [] = None"
| "floor_loop cfg i ((call, pc) # rest) =
     (case floor_call cfg i call pc of Some r \<Rightarrow> Some r | None \<Rightarrow> floor_loop cfg (Suc i) rest)"

fun decision_loop :: "nat \<Rightarrow> (int \<times> int) list \<Rightarrow> policy_reason option" where
  "decision_loop i [] = None"
| "decision_loop i ((decision, _) # rest) =
     (if decision \<noteq> ALLOW \<and> decision \<noteq> REQUIRE_DVT then Some (RegistryDecision i decision) else decision_loop (Suc i) rest)"

definition evaluate :: "'b ethers \<Rightarrow> policy_abi \<Rightarrow> check_policy \<Rightarrow> policy_config \<Rightarrow> packed_user_op \<Rightarrow> policy_decision" where
  "evaluate E A checkPolicy cfg userOp =
     (if \<not> po_enabled cfg then Allowed
      else case decodeCalls E A (uo_callData userOp) of Inl _ \<Rightarrow> Refused UndecodableCallData
      | Inr calls \<Rightarrow>
      if calls = [] then Refused NoDecodableCalls
      else case rmap (normalizeForPolicy E A cfg) calls of Inl _ \<Rightarrow> Refused UndecodableTransfer
      | Inr pcs \<Rightarrow>
      case floor_loop cfg 0 (zip calls pcs) of Some r \<Rightarrow> Refused r
      | None \<Rightarrow>
      if po_registryAddress cfg = [] then Allowed
      else case rmap (\<lambda>pc. checkPolicy (po_registryAddress cfg) (uo_sender userOp) (pc_contract pc) (pc_asset pc)
             (pc_amount pc) (pc_selector pc)) pcs of Inl _ \<Rightarrow> Refused RegistryReverted
      | Inr results \<Rightarrow>
      case decision_loop 0 results of Some r \<Rightarrow> Refused r | None \<Rightarrow> Allowed)"

section \<open>The declarative policy\<close>

text \<open>What the operator and the account owner agreed to: a call is permitted when its view exists, its native value is within the
  cap, both the contract and the recipient are listed, and the registry answers with one of the two
  known-good decisions.\<close>

definition registry_permits :: "check_policy \<Rightarrow> policy_config \<Rightarrow> string \<Rightarrow> policy_call \<Rightarrow> bool" where
  "registry_permits checkPolicy cfg sender pc \<longleftrightarrow> po_registryAddress cfg = [] \<or>
     (\<exists>d remaining. checkPolicy (po_registryAddress cfg) sender (pc_contract pc) (pc_asset pc) (pc_amount pc) (pc_selector pc)
        = Inr (d, remaining) \<and> d \<in> {ALLOW, REQUIRE_DVT})"

definition floor_permits :: "policy_config \<Rightarrow> decoded_call \<Rightarrow> policy_call \<Rightarrow> bool" where
  "floor_permits cfg call pc \<longleftrightarrow> (\<forall>m. po_perTxMaxWei cfg = Some m \<longrightarrow> dc_value call \<le> m)
     \<and> (po_recipientAllowlist cfg = {} \<or> {lower (pc_contract pc), lower (pc_recipient pc)} \<subseteq> po_recipientAllowlist cfg)"

definition call_permitted :: "'b ethers \<Rightarrow> policy_abi \<Rightarrow> check_policy \<Rightarrow> policy_config \<Rightarrow> string \<Rightarrow> decoded_call \<Rightarrow> bool" where
  "call_permitted E A checkPolicy cfg sender call \<longleftrightarrow>
     (\<exists>pc. normalizeForPolicy E A cfg call = Inr pc \<and> floor_permits cfg call pc \<and> registry_permits checkPolicy cfg sender pc)"

lemma floor_call_None: "floor_call cfg i call pc = None \<longleftrightarrow> floor_permits cfg call pc"
  by (auto simp: floor_call_def floor_permits_def split: option.splits)

lemma floor_loop_None: "floor_loop cfg i cps = None \<longleftrightarrow> (\<forall>(call, pc) \<in> set cps. floor_permits cfg call pc)"
proof (induction cfg i cps rule: floor_loop.induct)
  case (2 cfg i call pc rest)
  then show ?case using floor_call_None [of cfg i call pc] by (cases "floor_call cfg i call pc") auto
qed simp

lemma decision_loop_None: "decision_loop i rs = None \<longleftrightarrow> (\<forall>(d, _) \<in> set rs. d \<in> {ALLOW, REQUIRE_DVT})"
  by (induction i rs rule: decision_loop.induct) (auto split: if_splits)

lemma rmap_all_Inr: "(\<exists>ys. rmap f xs = Inr ys) \<longleftrightarrow> (\<forall>x \<in> set xs. \<exists>y. f x = Inr y)"
  by (induction xs) auto

lemma rmap_Inr_iff: "rmap f xs = Inr ys \<longleftrightarrow> list_all2 (\<lambda>x y. f x = Inr y) xs ys"
  by (induction xs arbitrary: ys) (auto simp: list_all2_Cons1)

lemma registry_layer:
  "(\<exists>rs. rmap (\<lambda>pc. checkPolicy (po_registryAddress cfg) sender (pc_contract pc) (pc_asset pc) (pc_amount pc) (pc_selector pc)) pcs = Inr rs
      \<and> decision_loop 0 rs = None) \<or> po_registryAddress cfg = []
   \<longleftrightarrow> (\<forall>pc \<in> set pcs. registry_permits checkPolicy cfg sender pc)"
proof (cases "po_registryAddress cfg = []")
  case False
  let ?f = "\<lambda>pc. checkPolicy (po_registryAddress cfg) sender (pc_contract pc) (pc_asset pc) (pc_amount pc) (pc_selector pc)"
  have "(\<exists>rs. list_all2 (\<lambda>x y. ?f x = Inr y) pcs rs \<and> (\<forall>(d, _) \<in> set rs. d \<in> {ALLOW, REQUIRE_DVT}))
    \<longleftrightarrow> (\<forall>pc \<in> set pcs. \<exists>d r. ?f pc = Inr (d, r) \<and> d \<in> {ALLOW, REQUIRE_DVT})"
    by (induction pcs) (fastforce simp: list_all2_Cons1)+
  with False show ?thesis by (simp add: rmap_Inr_iff decision_loop_None registry_permits_def)
qed (simp add: registry_permits_def)

lemma evaluate_Allowed:
  assumes "po_enabled cfg"
  shows "evaluate E A checkPolicy cfg op = Allowed \<longleftrightarrow>
    (\<exists>calls pcs. decodeCalls E A (uo_callData op) = Inr calls \<and> calls \<noteq> [] \<and> rmap (normalizeForPolicy E A cfg) calls = Inr pcs
       \<and> (\<forall>(call, pc) \<in> set (zip calls pcs). floor_permits cfg call pc)
       \<and> (\<forall>pc \<in> set pcs. registry_permits checkPolicy cfg (uo_sender op) pc))"
  unfolding registry_layer [symmetric] floor_loop_None [symmetric, where i = 0]
  using assms by (auto simp: evaluate_def split: sum.splits option.splits if_splits)

lemma policy_gate_allows:
  assumes "po_enabled cfg"
  shows "evaluate E A checkPolicy cfg op = Allowed \<longleftrightarrow>
    (\<exists>calls. decodeCalls E A (uo_callData op) = Inr calls \<and> calls \<noteq> [] \<and>
       (\<forall>c \<in> set calls. call_permitted E A checkPolicy cfg (uo_sender op) c))"
proof -
  have "(\<exists>pcs. rmap (normalizeForPolicy E A cfg) calls = Inr pcs
       \<and> (\<forall>(call, pc) \<in> set (zip calls pcs). floor_permits cfg call pc)
       \<and> (\<forall>pc \<in> set pcs. registry_permits checkPolicy cfg (uo_sender op) pc))
     \<longleftrightarrow> (\<forall>c \<in> set calls. call_permitted E A checkPolicy cfg (uo_sender op) c)" for calls
    unfolding rmap_Inr_iff call_permitted_def
    by (induction calls) (fastforce simp: list_all2_Cons1)+
  then show ?thesis unfolding evaluate_Allowed [OF assms] by blast
qed

text \<open>C10: the policy gate implements the declarative policy: with the gate enabled the node may co-sign exactly when the call
  data decodes into at least one call and every one of the calls is permitted. A decode failure, an
  unknown selector, a registry revert or an unknown registry decision refuses. A disabled gate allows.\<close>

theorem policy_gate_exact:
  "evaluate E A checkPolicy cfg op = Allowed \<longleftrightarrow>
    (if po_enabled cfg
     then \<exists>calls. decodeCalls E A (uo_callData op) = Inr calls \<and> calls \<noteq> [] \<and>
       list_all (call_permitted E A checkPolicy cfg (uo_sender op)) calls
     else True)"
proof (cases "po_enabled cfg")
  case True
  then show ?thesis by (simp add: policy_gate_allows list_all_iff)
qed (simp add: evaluate_def)

lemma normalize_contract: "normalizeForPolicy E A cfg c = Inr pc \<Longrightarrow> pc_contract pc = dc_to c"
  by (auto simp: normalizeForPolicy_def Let_def split: if_splits)

text \<open>a call cannot pose as a token transfer to reach an unlisted contract. With an allowlist configured, every
  contract an allowed operation calls is on it, whatever selector and payload the call carries.\<close>

theorem allowlist_covers_called_contracts:
  assumes "po_enabled cfg" "po_recipientAllowlist cfg \<noteq> {}" "evaluate E A checkPolicy cfg op = Allowed"
    and "decodeCalls E A (uo_callData op) = Inr calls" "c \<in> set calls"
  shows "lower (dc_to c) \<in> po_recipientAllowlist cfg"
proof -
  obtain pcs where pcs: "rmap (normalizeForPolicy E A cfg) calls = Inr pcs"
    "\<forall>(call, pc) \<in> set (zip calls pcs). floor_permits cfg call pc"
    using assms(3,4) unfolding evaluate_Allowed [OF assms(1)] by auto
  from assms(5) obtain i where i: "i < length calls" "c = calls ! i" by (metis in_set_conv_nth)
  then have "normalizeForPolicy E A cfg c = Inr (pcs ! i)" using rmap_Inr_nth [OF pcs(1)] by simp
  moreover have "(c, pcs ! i) \<in> set (zip calls pcs)" using i rmap_Inr_length [OF pcs(1)] by (auto simp: set_zip)
  ultimately show ?thesis using pcs(2) assms(2) normalize_contract by (fastforce simp: floor_permits_def)
qed

section \<open>Two limits of the native cap\<close>

text \<open>The per-transaction cap is applied call by call, and the registry is asked about either the token or
  the native amount of a call, never both.\<close>

text \<open>a token selector hides native value from the registry. Without the local cap, the gate treats a call that
  carries a token selector the same whatever native value it sends along, so the account's
  native limits in the registry never apply to it.\<close>

theorem token_selector_hides_native_value:
  assumes "po_perTxMaxWei cfg = None" "dc_selector c \<in> {ERC20_TRANSFER E, ERC20_TRANSFER_FROM E, ERC20_APPROVE E}"
  shows "call_permitted E A checkPolicy cfg sender (c\<lparr>dc_value := v\<rparr>) \<longleftrightarrow> call_permitted E A checkPolicy cfg sender c"
proof -
  have "normalizeForPolicy E A cfg (c\<lparr>dc_value := v\<rparr>) = normalizeForPolicy E A cfg c"
    using assms(2) by (auto simp: normalizeForPolicy_def Let_def)
  moreover have "floor_permits cfg (c\<lparr>dc_value := v\<rparr>) pc = floor_permits cfg c pc" for pc
    using assms(1) by (simp add: floor_permits_def)
  ultimately show ?thesis unfolding call_permitted_def by simp
qed

text \<open>The real selectors; the coder of the examples decodes one fixed batch.\<close>

definition policy_demo_ethers :: "abi_value list ethers" where
  "policy_demo_ethers = sample_ethers\<lparr>ethers_id := (\<lambda>s.
     if s = ''execute(address,uint256,bytes)'' then ''0xb61d27f6''
     else if s = ''executeBatch(address[],uint256[],bytes[])'' then ''0x47e1da2a''
     else if s = ''transfer(address,uint256)'' then ''0xa9059cbb''
     else if s = ''transferFrom(address,address,uint256)'' then ''0x23b872dd''
     else if s = ''approve(address,uint256)'' then ''0x095ea7b3'' else ''0x'')\<rparr>"

definition policy_demo_abi :: "(string list \<times> int list \<times> string list) \<Rightarrow> policy_abi" where
  "policy_demo_abi batch = \<lparr>decode_address_uint256_bytes = (\<lambda>_. Inl IoError), decode_arrays = (\<lambda>_. Inr batch),
     decode_address_uint256 = (\<lambda>_. Inr (demo_signer, 0)), decode_address_address_uint256 = (\<lambda>_. Inl IoError)\<rparr>"

definition policy_demo_config :: "int option \<Rightarrow> string \<Rightarrow> policy_config" where
  "policy_demo_config cap registry = \<lparr>po_enabled = True, po_perTxMaxWei = cap, po_recipientAllowlist = {},
     po_registryAddress = registry, po_ethSentinel = ''0xEeeeeEeeeEeEeeEeEeEeeEEEeeeeEeeeeeeeEEeE''\<rparr>"

text \<open>A registry that refuses every native payment.\<close>

definition policy_demo_check :: check_policy where
  "policy_demo_check registry sender target asset amount selector =
     Inr (if asset = ''0xEeeeeEeeeEeEeeEeEeEeeEEEeeeeEeeeeeeeEEeE'' \<and> amount > 0 then 2 else 0, 0)"

definition policy_demo_op :: packed_user_op where
  "policy_demo_op = \<lparr>uo_sender = demo_signer, uo_callData = ''0x47e1da2a00''\<rparr>"

lemma policy_demo_selectors:
  "EXECUTE_SELECTOR policy_demo_ethers = ''0xb61d27f6''" "EXECUTE_BATCH_SELECTOR policy_demo_ethers = ''0x47e1da2a''"
  "ERC20_TRANSFER policy_demo_ethers = ''0xa9059cbb''" "ERC20_TRANSFER_FROM policy_demo_ethers = ''0x23b872dd''"
  "ERC20_APPROVE policy_demo_ethers = ''0x095ea7b3''"
  by (simp_all add: EXECUTE_SELECTOR_def EXECUTE_BATCH_SELECTOR_def ERC20_TRANSFER_def ERC20_TRANSFER_FROM_def
      ERC20_APPROVE_def selector_of_def policy_demo_ethers_def)

lemma policy_demo_decode:
  "decodeCalls policy_demo_ethers (policy_demo_abi (replicate n d, replicate n v, replicate n f)) (uo_callData policy_demo_op)
     = Inr (replicate n (decoded d v f))"
  by (simp add: decodeCalls_def policy_demo_op_def policy_demo_selectors policy_demo_abi_def map_replicate_const zip_replicate)

text \<open>the per-transaction cap bounds a call, not an operation. Under a cap of \<open>m\<close> wei the gate allows a batch of any number of calls that send \<open>m\<close>
  each.\<close>

theorem batch_escapes_per_tx_cap:
  "evaluate policy_demo_ethers (policy_demo_abi (replicate (Suc n) demo_signer, replicate (Suc n) m, replicate (Suc n) ''0x''))
      checkPolicy (policy_demo_config (Some m) []) policy_demo_op = Allowed
   \<and> sum_list (map dc_value (replicate (Suc n) (decoded demo_signer m ''0x''))) = (int n + 1) * m
   \<and> decodeCalls policy_demo_ethers (policy_demo_abi (replicate (Suc n) demo_signer, replicate (Suc n) m, replicate (Suc n) ''0x''))
      (uo_callData policy_demo_op) = Inr (replicate (Suc n) (decoded demo_signer m ''0x''))"
proof (intro conjI)
  have "po_enabled (policy_demo_config (Some m) [])" by (simp add: policy_demo_config_def)
  note exact = policy_gate_allows [OF this]
  have "call_permitted policy_demo_ethers A checkPolicy (policy_demo_config (Some m) []) s (decoded demo_signer m ''0x'')" for A s
    by (auto simp: call_permitted_def normalizeForPolicy_def decoded_def innerSelector_def NULL_SELECTOR_def policy_demo_selectors
        floor_permits_def registry_permits_def policy_demo_config_def)
  then show "evaluate policy_demo_ethers (policy_demo_abi (replicate (Suc n) demo_signer, replicate (Suc n) m, replicate (Suc n) ''0x''))
      checkPolicy (policy_demo_config (Some m) []) policy_demo_op = Allowed"
    unfolding exact policy_demo_decode by auto
qed (simp_all add: policy_demo_decode sum_list_replicate decoded_def algebra_simps del: replicate_Suc)

theorem token_selector_hides_native_value_witness:
  "call_permitted policy_demo_ethers (policy_demo_abi ([], [], [])) policy_demo_check (policy_demo_config None demo_registry) demo_signer
     (decoded demo_registry 1000000000000000000000 ''0xa9059cbb'')
   \<and> \<not> call_permitted policy_demo_ethers (policy_demo_abi ([], [], [])) policy_demo_check (policy_demo_config None demo_registry) demo_signer
     (decoded demo_registry 1000000000000000000000 ''0x'')"
proof
  let ?c = "decoded demo_registry 0 ''0xa9059cbb''"
  have "demo_registry \<noteq> ''0xEeeeeEeeeEeEeeEeEeEeeEEEeeeeEeeeeeeeEEeE''" by (simp add: demo_registry_def)
  then have "call_permitted policy_demo_ethers (policy_demo_abi ([], [], [])) policy_demo_check (policy_demo_config None demo_registry) demo_signer ?c"
    by (auto simp: call_permitted_def normalizeForPolicy_def decoded_def innerSelector_def policy_demo_selectors policy_demo_abi_def
        floor_permits_def registry_permits_def policy_demo_config_def policy_demo_check_def ALLOW_def)
  moreover have "decoded demo_registry 1000000000000000000000 ''0xa9059cbb'' = ?c\<lparr>dc_value := 1000000000000000000000\<rparr>"
    by (simp add: decoded_def)
  ultimately show "call_permitted policy_demo_ethers (policy_demo_abi ([], [], [])) policy_demo_check (policy_demo_config None demo_registry) demo_signer
     (decoded demo_registry 1000000000000000000000 ''0xa9059cbb'')"
    using token_selector_hides_native_value [of "policy_demo_config None demo_registry" ?c policy_demo_ethers "policy_demo_abi ([], [], [])"
        policy_demo_check demo_signer 1000000000000000000000]
    by (simp add: policy_demo_config_def policy_demo_selectors) (simp add: decoded_def innerSelector_def)
  show "\<not> call_permitted policy_demo_ethers (policy_demo_abi ([], [], [])) policy_demo_check (policy_demo_config None demo_registry) demo_signer
     (decoded demo_registry 1000000000000000000000 ''0x'')"
    by (auto simp: call_permitted_def normalizeForPolicy_def decoded_def innerSelector_def NULL_SELECTOR_def policy_demo_selectors
        registry_permits_def policy_demo_config_def policy_demo_check_def ALLOW_def REQUIRE_DVT_def)
qed

theorem allowlist_covers_called_contracts_witness:
  "lower demo_signer \<in> po_recipientAllowlist ((policy_demo_config None [])\<lparr>po_recipientAllowlist := {lower demo_signer}\<rparr>)"
proof -
  let ?cfg = "(policy_demo_config None [])\<lparr>po_recipientAllowlist := {lower demo_signer}\<rparr>"
    and ?A = "policy_demo_abi (replicate 1 demo_signer, replicate 1 5, replicate 1 ''0x'')"
  have en: "po_enabled ?cfg" by (simp add: policy_demo_config_def)
  have "call_permitted policy_demo_ethers ?A policy_demo_check ?cfg s (decoded demo_signer 5 ''0x'')" for s
    by (auto simp: call_permitted_def normalizeForPolicy_def decoded_def innerSelector_def NULL_SELECTOR_def policy_demo_selectors
        floor_permits_def registry_permits_def policy_demo_config_def)
  then have "evaluate policy_demo_ethers ?A policy_demo_check ?cfg policy_demo_op = Allowed"
    unfolding policy_gate_allows [OF en] policy_demo_decode by auto
  from allowlist_covers_called_contracts [OF en _ this policy_demo_decode, of "decoded demo_signer 5 ''0x''"]
  show ?thesis by (simp add: decoded_def)
qed

end
