(* ===== verification/Relay.thy ===== *)
theory Relay
  imports Ethers
begin

text \<open>
  \<^verbatim>\<open>src/modules/relay/relay.service.ts\<close> (the gasless purchase relay), its controller and constants, and
  \<^verbatim>\<open>src/utils/gas.util.ts\<close>.

  The request body is unchecked JSON below its top level: an address-like field of the intent is
  absent, a string or a number (\<open>js_field\<close>), the deadline is absent or a number. The environment of
  one request, \<open>relay_env\<close>, holds the two clock reads, the \<^verbatim>\<open>ethers\<close> functions (\<^verbatim>\<open>verifyTypedData\<close>,
  \<^verbatim>\<open>encodeFunctionData\<close>) and the answers of the RPC node. \<open>rs_sent\<close> logs the call data of every broadcast the service asks for;
  submissions are serialised by \<^verbatim>\<open>submitChain\<close>, so a request runs as one step. \<^verbatim>\<open>Map\<close>s are maps;
  human-readable reasons are dropped; an operator key of the right format is a valid key. Fees are non-negative, so BigInt division is \<open>div\<close>.
\<close>

section \<open>Definitions\<close>

datatype js_field = JUndef | JStr string | JNum jsnum

datatype relay_error_code =
    INVALID_SHAPE | EXPIRED | SIGNATURE_INVALID | NOT_WHITELISTED | RATE_LIMITED | PREFLIGHT_REVERTED | SUBMIT_FAILED | INFRA_NOT_READY

datatype relay_result = RelayOk string string | RelayErr relay_error_code

record buy_intent =
  bi_buyer :: js_field
  bi_paymentToken :: js_field
  bi_paymentAmount :: js_field
  bi_targetToken :: js_field
  bi_recipient :: js_field
  bi_minOut :: js_field
  bi_deadline :: "jsnum option"
  bi_nonce :: js_field

record transfer_auth =
  ta_validAfter :: "jsnum option"
  ta_v :: jsnum
  ta_r :: string
  ta_s :: string

record relay_body =
  rb_intent :: "buy_intent option"
  rb_buyIntentSig :: string
  rb_transferAuth :: "transfer_auth option"

text \<open>The message both the typed-data check and the call data encode.\<close>

record typed_intent =
  ti_buyer :: js_field
  ti_paymentToken :: js_field
  ti_paymentAmount :: int
  ti_targetToken :: js_field
  ti_recipient :: js_field
  ti_minOut :: int
  ti_deadline :: int
  ti_nonce :: js_field

record relay_env =
  re_nowRate :: int
  re_nowDeadline :: int
  re_verifyTypedData :: "int \<Rightarrow> string \<Rightarrow> typed_intent \<Rightarrow> string \<Rightarrow> string result"
  re_encodeExecuteBuy :: "typed_intent \<Rightarrow> string \<Rightarrow> int \<Rightarrow> transfer_auth \<Rightarrow> string result"
  re_call :: "string \<Rightarrow> string \<Rightarrow> string result"
  re_feeData :: "(int option \<times> int option) result"
  re_sendTransaction :: "string \<Rightarrow> string \<Rightarrow> int \<Rightarrow> int \<Rightarrow> string result"

record relay_settings =
  relayEnabled :: "bool option"
  relayOperatorPk :: "string option"
  relayRpcUrl :: "string option"
  ethRpcUrl :: "string option"
  relayChainId :: "int option"
  relayBuyHelper :: "string option"
  relayUsdc :: "string option"
  relayGtoken :: "string option"
  relayApnts :: "string option"
  relayMaxPaymentAmount :: "string option"
  relayRateLimitPerAddressPerHour :: "int option"
  relayRateLimitGlobalPerHour :: "int option"

record relay_config =
  rc_enabledByConfig :: bool
  rc_operatorPk :: string
  rc_rpcUrl :: string
  rc_chainId :: int
  rc_buyHelper :: string
  rc_usdc :: string
  rc_gtoken :: string
  rc_apnts :: string
  rc_maxPaymentAmount :: int
  rc_maxPerAddressPerHour :: int
  rc_maxGlobalPerHour :: int

record relay_state =
  rs_wallet :: bool
  rs_addrCounts :: "string \<rightharpoonup> int"
  rs_globalCounts :: "int \<rightharpoonup> int"
  rs_sent :: "string list"

definition SEPOLIA_chainId :: int where "SEPOLIA_chainId = 11155111"
definition SEPOLIA_usdc :: string where "SEPOLIA_usdc = ''0x1c7D4B196Cb0C7B01d743Fbc6116a902379C7238''"
definition SEPOLIA_gtoken :: string where "SEPOLIA_gtoken = ''0x20a051502a7AE6e40cfFd6EBe59057538E698984''"
definition SEPOLIA_apnts :: string where "SEPOLIA_apnts = ''0x9e66B457E0ABb1F139FD8A596d00f784eBA2873b''"
definition SEPOLIA_buyHelper :: string where "SEPOLIA_buyHelper = ''0x8d08fBD8297355BC93397820AE1CfFD884BEaA00''"
definition DEFAULT_MAX_PAYMENT_USDC_6DEC :: string where "DEFAULT_MAX_PAYMENT_USDC_6DEC = ''864000000''"

text \<open>\<^verbatim>\<open>a ?? b\<close>\<close>

definition nullish :: "'a option \<Rightarrow> 'a \<Rightarrow> 'a" where
  "nullish a b = (case a of None \<Rightarrow> b | Some x \<Rightarrow> x)"

definition RelayService_new :: "relay_settings \<Rightarrow> relay_config result" where
  "RelayService_new s =
     rbind (js_BigInt (nullish (relayMaxPaymentAmount s) DEFAULT_MAX_PAYMENT_USDC_6DEC)) (\<lambda>maxPaymentAmount.
     Inr \<lparr>rc_enabledByConfig = (relayEnabled s = Some True),
          rc_operatorPk = nullish (relayOperatorPk s) [],
          rc_rpcUrl = nullish (relayRpcUrl s) (nullish (ethRpcUrl s) []),
          rc_chainId = nullish (relayChainId s) SEPOLIA_chainId,
          rc_buyHelper = nullish (relayBuyHelper s) SEPOLIA_buyHelper,
          rc_usdc = nullish (relayUsdc s) SEPOLIA_usdc,
          rc_gtoken = nullish (relayGtoken s) SEPOLIA_gtoken,
          rc_apnts = nullish (relayApnts s) SEPOLIA_apnts,
          rc_maxPaymentAmount = maxPaymentAmount,
          rc_maxPerAddressPerHour = nullish (relayRateLimitPerAddressPerHour s) 5,
          rc_maxGlobalPerHour = nullish (relayRateLimitGlobalPerHour s) 100\<rparr>)"

text \<open>\<^verbatim>\<open>/^0x[0-9a-fA-F]{64}$/\<close>\<close>

definition is_key_format :: "string \<Rightarrow> bool" where
  "is_key_format s = (length s = 66 \<and> take 2 s = ''0x'' \<and> list_all (\<lambda>c. hex_val c \<noteq> None) (drop 2 s))"

definition relay_onApplicationBootstrap :: "relay_config \<Rightarrow> relay_state \<Rightarrow> relay_state" where
  "relay_onApplicationBootstrap cfg st =
     (if \<not> rc_enabledByConfig cfg then st
      else if \<not> is_key_format (rc_operatorPk cfg) then st
      else if rc_rpcUrl cfg = [] then st
      else st\<lparr>rs_wallet := True\<rparr>)"

definition bump :: "int \<Rightarrow> int option \<Rightarrow> int option" where
  "bump bumpPct x = (case x of None \<Rightarrow> None | Some v \<Rightarrow> Some ((v * (100 + bumpPct)) div 100))"

text \<open>The pair of \<^verbatim>\<open>maxFeePerGas\<close> and \<^verbatim>\<open>maxPriorityFeePerGas\<close>, of the provider's estimates in the same order.\<close>

definition bumpedFees :: "(int option \<times> int option) result \<Rightarrow> int \<Rightarrow> int \<Rightarrow> (int \<times> int) result" where
  "bumpedFees feeData bumpPct priorityFloorWei =
     rbind feeData (\<lambda>(fdMaxFee, fdPriority).
     let p0 = nullish (bump bumpPct fdPriority) priorityFloorWei;
         p = (if p0 < priorityFloorWei then priorityFloorWei else p0)
     in Inr (case bump bumpPct fdMaxFee of None \<Rightarrow> (p * 2, p) | Some m \<Rightarrow> (if m < p then (p * 2, p) else (m, p))))"

definition rate_epoch :: "int \<Rightarrow> int" where
  "rate_epoch now = now div 3600000"

definition addrKey :: "string \<Rightarrow> int \<Rightarrow> string" where
  "addrKey buyer epoch = lower buyer @ '':'' @ int_to_string epoch"

text \<open>\<^verbatim>\<open>Number(key.slice(key.lastIndexOf(":") + 1))\<close>, \<open>None\<close> for \<^verbatim>\<open>NaN\<close>; the suffix is an integer literal.\<close>

definition key_epoch :: "string \<Rightarrow> int option" where
  "key_epoch key = (case js_BigInt (rev (takeWhile (\<lambda>c. c \<noteq> CHR '':'') (rev key))) of Inl _ \<Rightarrow> None | Inr n \<Rightarrow> Some n)"

definition pruneWindows :: "int \<Rightarrow> relay_state \<Rightarrow> relay_state" where
  "pruneWindows currentEpoch st =
     st\<lparr>rs_globalCounts := (\<lambda>epoch. if epoch < currentEpoch then None else rs_globalCounts st epoch),
        rs_addrCounts := (\<lambda>key. if (case key_epoch key of None \<Rightarrow> False | Some epoch \<Rightarrow> epoch < currentEpoch) then None
                                 else rs_addrCounts st key)\<rparr>"

definition checkRateLimit :: "relay_config \<Rightarrow> int \<Rightarrow> string \<Rightarrow> relay_state \<Rightarrow> bool \<times> relay_state" where
  "checkRateLimit cfg now buyer st0 =
     (let epoch = rate_epoch now; st = pruneWindows epoch st0; key = addrKey buyer epoch;
          addrCount = nullish (rs_addrCounts st key) 0; globalCount = nullish (rs_globalCounts st epoch) 0
      in if addrCount \<ge> rc_maxPerAddressPerHour cfg then (False, st)
         else if globalCount \<ge> rc_maxGlobalPerHour cfg then (False, st)
         else (True, st\<lparr>rs_addrCounts := (rs_addrCounts st)(key \<mapsto> addrCount + 1),
                        rs_globalCounts := (rs_globalCounts st)(epoch \<mapsto> globalCount + 1)\<rparr>))"

definition truthy :: "js_field \<Rightarrow> bool" where
  "truthy f = (case f of JUndef \<Rightarrow> False | JStr s \<Rightarrow> s \<noteq> [] | JNum x \<Rightarrow> x \<noteq> JNaN \<and> x \<noteq> js_of_int 0)"

text \<open>\<^verbatim>\<open>f.toLowerCase()\<close>: a \<^verbatim>\<open>TypeError\<close> on anything but a string.\<close>

definition field_lower :: "js_field \<Rightarrow> string result" where
  "field_lower f = (case f of JStr s \<Rightarrow> Inr (lower s) | _ \<Rightarrow> Inl (External ''TypeError''))"

definition number_BigInt :: "jsnum option \<Rightarrow> int result" where
  "number_BigInt x = (case x of None \<Rightarrow> Inl BadBigInt | Some n \<Rightarrow> if js_isInteger n then Inr (js_to_int n) else Inl BadBigInt)"

definition field_BigInt :: "js_field \<Rightarrow> int result" where
  "field_BigInt f = (case f of JUndef \<Rightarrow> Inl BadBigInt | JStr s \<Rightarrow> js_BigInt s | JNum x \<Rightarrow> number_BigInt (Some x))"

datatype built = BuiltOk string string | BuiltErr relay_error_code

text \<open>The \<^verbatim>\<open>try\<close> of the signature check, then the one of the encoding: the message has the BigInt of the deadline, which may throw.\<close>

definition intent_message :: "buy_intent \<Rightarrow> int \<Rightarrow> int \<Rightarrow> typed_intent result" where
  "intent_message i paymentAmount minOut =
     rbind (number_BigInt (bi_deadline i)) (\<lambda>deadline.
     Inr \<lparr>ti_buyer = bi_buyer i, ti_paymentToken = bi_paymentToken i, ti_paymentAmount = paymentAmount,
          ti_targetToken = bi_targetToken i, ti_recipient = bi_recipient i, ti_minOut = minOut, ti_deadline = deadline,
          ti_nonce = bi_nonce i\<rparr>)"

definition encode_call :: "relay_env \<Rightarrow> buy_intent \<Rightarrow> int \<Rightarrow> int \<Rightarrow> string \<Rightarrow> transfer_auth \<Rightarrow> string result" where
  "encode_call R i paymentAmount minOut sig ta =
     rbind (intent_message i paymentAmount minOut) (\<lambda>m.
     rbind (number_BigInt (ta_validAfter ta)) (\<lambda>validAfter. re_encodeExecuteBuy R m sig validAfter ta))"

definition sign_and_encode :: "relay_config \<Rightarrow> relay_env \<Rightarrow> buy_intent \<Rightarrow> string \<Rightarrow> transfer_auth \<Rightarrow> int \<Rightarrow> int \<Rightarrow> bool \<Rightarrow> built result" where
  "sign_and_encode cfg R i sig ta paymentAmount minOut isGToken =
     (case rbind (intent_message i paymentAmount minOut) (\<lambda>m. re_verifyTypedData R (rc_chainId cfg) (rc_buyHelper cfg) m sig) of
        Inl _ \<Rightarrow> Inr (BuiltErr SIGNATURE_INVALID)
      | Inr recovered \<Rightarrow>
        rbind (field_lower (bi_buyer i)) (\<lambda>buyer.
        if lower recovered \<noteq> buyer then Inr (BuiltErr SIGNATURE_INVALID)
        else case encode_call R i paymentAmount minOut sig ta of
            Inl _ \<Rightarrow> Inr (BuiltErr INVALID_SHAPE)
          | Inr callData \<Rightarrow> Inr (BuiltOk callData (if isGToken then ''TOKEN_BUY GToken'' else ''TOKEN_BUY aPNTs''))))"

definition check_amounts :: "relay_config \<Rightarrow> relay_env \<Rightarrow> buy_intent \<Rightarrow> string \<Rightarrow> transfer_auth \<Rightarrow> bool \<Rightarrow> built result" where
  "check_amounts cfg R i sig ta isGToken =
     (if (case bi_deadline i of None \<Rightarrow> False | Some d \<Rightarrow> js_less d (js_of_int (re_nowDeadline R div 1000)))
      then Inr (BuiltErr EXPIRED)
      else case rbind (field_BigInt (bi_paymentAmount i)) (\<lambda>p. rbind (field_BigInt (bi_minOut i)) (\<lambda>m. Inr (p, m))) of
          Inl _ \<Rightarrow> Inr (BuiltErr INVALID_SHAPE)
        | Inr (paymentAmount, minOut) \<Rightarrow>
          if paymentAmount = 0 then Inr (BuiltErr INVALID_SHAPE)
          else if paymentAmount > rc_maxPaymentAmount cfg then Inr (BuiltErr NOT_WHITELISTED)
          else sign_and_encode cfg R i sig ta paymentAmount minOut isGToken)"

definition validateAndBuild :: "relay_config \<Rightarrow> relay_env \<Rightarrow> relay_body \<Rightarrow> built result" where
  "validateAndBuild cfg R body =
     (case (rb_intent body, rb_transferAuth body) of
        (Some i, Some ta) \<Rightarrow>
          if rb_buyIntentSig body = [] then Inr (BuiltErr INVALID_SHAPE)
          else if \<not> truthy (bi_buyer i) \<or> \<not> truthy (bi_paymentToken i) \<or> \<not> truthy (bi_targetToken i)
                  \<or> \<not> truthy (bi_recipient i) \<or> \<not> truthy (bi_nonce i) then Inr (BuiltErr INVALID_SHAPE)
          else rbind (field_lower (bi_paymentToken i)) (\<lambda>paymentToken.
            if paymentToken \<noteq> lower (rc_usdc cfg) then Inr (BuiltErr NOT_WHITELISTED)
            else rbind (field_lower (bi_targetToken i)) (\<lambda>targetToken.
              let isGToken = (targetToken = lower (rc_gtoken cfg)); isAPNTs = (targetToken = lower (rc_apnts cfg)) in
              if \<not> isGToken \<and> \<not> isAPNTs then Inr (BuiltErr NOT_WHITELISTED)
              else check_amounts cfg R i (rb_buyIntentSig body) ta isGToken))
      | _ \<Rightarrow> Inr (BuiltErr INVALID_SHAPE))"

definition sendTx :: "relay_config \<Rightarrow> relay_env \<Rightarrow> string \<Rightarrow> string \<Rightarrow> relay_state \<Rightarrow> relay_result \<times> relay_state" where
  "sendTx cfg R callData matchedRule st =
     (case re_call R (rc_buyHelper cfg) callData of Inl _ \<Rightarrow> (RelayErr PREFLIGHT_REVERTED, st)
      | Inr _ \<Rightarrow>
        (case bumpedFees (re_feeData R) 15 1500000000 of Inl _ \<Rightarrow> (RelayErr SUBMIT_FAILED, st)
         | Inr (maxFee, priority) \<Rightarrow>
           (let st' = st\<lparr>rs_sent := callData # rs_sent st\<rparr> in
            (case re_sendTransaction R (rc_buyHelper cfg) callData maxFee priority of Inl _ \<Rightarrow> (RelayErr SUBMIT_FAILED, st')
             | Inr txHash \<Rightarrow> (RelayOk txHash matchedRule, st')))))"

text \<open>The address of the buyer when the early shape check accepts it.\<close>

definition valid_buyer :: "relay_body \<Rightarrow> string option" where
  "valid_buyer body = (case rb_intent body of None \<Rightarrow> None
     | Some i \<Rightarrow> (case bi_buyer i of JStr b \<Rightarrow> if is_address_format b then Some b else None | _ \<Rightarrow> None))"

definition relay :: "relay_config \<Rightarrow> relay_env \<Rightarrow> relay_body \<Rightarrow> (relay_state, relay_result) io" where
  "relay cfg R body st =
     (if \<not> rs_wallet st then (Inr (RelayErr INFRA_NOT_READY), st)
      else (case valid_buyer body of None \<Rightarrow> (Inr (RelayErr INVALID_SHAPE), st)
        | Some buyer \<Rightarrow>
          (case checkRateLimit cfg (re_nowRate R) buyer st of (allowed, st') \<Rightarrow>
            if \<not> allowed then (Inr (RelayErr RATE_LIMITED), st')
            else (case validateAndBuild cfg R body of Inl e \<Rightarrow> (Inl e, st')
              | Inr (BuiltErr c) \<Rightarrow> (Inr (RelayErr c), st')
              | Inr (BuiltOk callData rule) \<Rightarrow> apfst Inr (sendTx cfg R callData rule st')))))"

definition httpStatus :: "relay_error_code \<Rightarrow> int" where
  "httpStatus code = (case code of INVALID_SHAPE \<Rightarrow> 400 | EXPIRED \<Rightarrow> 400 | SIGNATURE_INVALID \<Rightarrow> 400 | NOT_WHITELISTED \<Rightarrow> 403
     | RATE_LIMITED \<Rightarrow> 429 | INFRA_NOT_READY \<Rightarrow> 503 | PREFLIGHT_REVERTED \<Rightarrow> 422 | SUBMIT_FAILED \<Rightarrow> 502)"

text \<open>The HTTP answer: the status of an error, 500 for an uncaught exception, 201 for a submission.\<close>

definition relayV3 :: "relay_config \<Rightarrow> relay_env \<Rightarrow> relay_body \<Rightarrow> relay_state \<Rightarrow> int \<times> relay_state" where
  "relayV3 cfg R body st = (case relay cfg R body st of
     (Inl _, st') \<Rightarrow> (500, st') | (Inr (RelayErr c), st') \<Rightarrow> (httpStatus c, st') | (Inr (RelayOk _ _), st') \<Rightarrow> (201, st'))"

section \<open>Fixed-window rate limits\<close>

text \<open>How many requests of kind \<open>P\<close> a sequence of steps admits.\<close>

fun admitted :: "('r \<Rightarrow> 's \<Rightarrow> bool \<times> 's) \<Rightarrow> ('r \<Rightarrow> bool) \<Rightarrow> 'r list \<Rightarrow> 's \<Rightarrow> nat" where
  "admitted step P [] s = 0"
| "admitted step P (r # rs) s =
     (if fst (step r s) \<and> P r then 1 else 0) + admitted step P rs (snd (step r s))"

lemma admitted_none: "(\<And>r. r \<in> set rs \<Longrightarrow> \<not> P r) \<Longrightarrow> admitted step P rs s = 0"
  by (induction rs arbitrary: s) auto

text \<open>The contract of a counter for one window \<open>e\<close>: earlier windows do not touch it, it never decreases within its window, and an
  admitted request of the counted kind finds it below the limit and adds one.\<close>

locale fixed_window =
  fixes step :: "'r \<Rightarrow> 's \<Rightarrow> bool \<times> 's" and epoch :: "'r \<Rightarrow> int" and hit :: "'r \<Rightarrow> bool"
    and cnt :: "'s \<Rightarrow> int" and limit :: int and e :: int
  assumes before: "epoch r < e \<Longrightarrow> cnt (snd (step r s)) = cnt s"
    and mono: "epoch r = e \<Longrightarrow> cnt s \<le> cnt (snd (step r s))"
    and admit: "epoch r = e \<Longrightarrow> hit r \<Longrightarrow> fst (step r s) \<Longrightarrow> cnt s < limit \<and> cnt s + 1 \<le> cnt (snd (step r s))"
begin

lemma window_bound:
  "sorted (map epoch rs) \<Longrightarrow> int (admitted step (\<lambda>r. epoch r = e \<and> hit r) rs s) \<le> max 0 (limit - cnt s)"
proof (induction rs arbitrary: s)
  case (Cons r rs)
  then have IH: "int (admitted step (\<lambda>r. epoch r = e \<and> hit r) rs (snd (step r s))) \<le> max 0 (limit - cnt (snd (step r s)))"
    by simp
  consider "epoch r < e" | "epoch r = e" | "epoch r > e" by linarith
  then show ?case
  proof cases
    case 1
    then show ?thesis using IH before [of r s] by simp
  next
    case 2
    then show ?thesis using IH mono [of r s] admit [of r s] by (cases "hit r \<and> fst (step r s)") auto
  next
    case 3
    then have "admitted step (\<lambda>r. epoch r = e \<and> hit r) (r # rs) s = 0"
      using Cons.prems by (intro admitted_none) auto
    then show ?thesis by simp
  qed
qed simp

end

lemma key_epoch_addrKey: "key_epoch (addrKey b n) = Some n"
proof -
  have "CHR '':'' \<notin> set (int_to_string n)"
    using dec_digits_digit_val [of "CHR '':''"] by (auto simp: int_to_string_def digit_val_def)
  then have "takeWhile (\<lambda>c. c \<noteq> CHR '':'') (rev (int_to_string n) @ CHR '':'' # rev (lower b)) = rev (int_to_string n)"
    by (subst takeWhile_append2) auto
  then show ?thesis by (simp add: key_epoch_def addrKey_def)
qed

text \<open>One request as a step: whether it broadcasts, and the state after it.\<close>

definition relay_sends :: "relay_config \<Rightarrow> relay_env \<times> relay_body \<Rightarrow> relay_state \<Rightarrow> bool \<times> relay_state" where
  "relay_sends cfg req st = (let st' = snd (relay cfg (fst req) (snd req) st) in (rs_sent st' \<noteq> rs_sent st, st'))"

definition request_epoch :: "relay_env \<times> relay_body \<Rightarrow> int" where
  "request_epoch req = rate_epoch (re_nowRate (fst req))"

definition buyer_is :: "string \<Rightarrow> relay_env \<times> relay_body \<Rightarrow> bool" where
  "buyer_is b req \<longleftrightarrow> (\<exists>a. valid_buyer (snd req) = Some a \<and> lower a = lower b)"

definition addr_count :: "string \<Rightarrow> int \<Rightarrow> relay_state \<Rightarrow> int" where
  "addr_count b e st = nullish (rs_addrCounts st (addrKey b e)) 0"

definition global_count :: "int \<Rightarrow> relay_state \<Rightarrow> int" where
  "global_count e st = nullish (rs_globalCounts st e) 0"

lemma sendTx_counts:
  "rs_addrCounts (snd (sendTx cfg R c m st)) = rs_addrCounts st" "rs_globalCounts (snd (sendTx cfg R c m st)) = rs_globalCounts st"
  by (auto simp: sendTx_def Let_def split: sum.split)

lemma sendTx_counts':
  assumes "apfst f (sendTx cfg R c m st) = (r, st')"
  shows "rs_addrCounts st' = rs_addrCounts st" "rs_globalCounts st' = rs_globalCounts st"
  using assms sendTx_counts [of cfg R c m st] by (metis snd_apfst snd_conv)+

lemma limit_counts:
  assumes "checkRateLimit cfg now b st = (ok, st')" "rate_epoch now \<le> e"
  shows "rs_sent st' = rs_sent st" "rs_wallet st' = rs_wallet st"
    "addr_count a e st' = (if ok \<and> addrKey b (rate_epoch now) = addrKey a e then addr_count a e st + 1 else addr_count a e st)"
    "global_count e st' = (if ok \<and> rate_epoch now = e then global_count e st + 1 else global_count e st)"
    "ok \<Longrightarrow> addr_count b (rate_epoch now) st < rc_maxPerAddressPerHour cfg \<and> global_count (rate_epoch now) st < rc_maxGlobalPerHour cfg"
  using assms
  by (auto simp: checkRateLimit_def Let_def pruneWindows_def addr_count_def global_count_def key_epoch_addrKey nullish_def
      split: if_splits)

text \<open>A request either stops before the limiter, or its counters are those of the limiter.\<close>

lemma relay_counts:
  assumes "relay cfg R body st = (r, st')"
  obtains "st' = st" | b ok st1 where "valid_buyer body = Some b" "checkRateLimit cfg (re_nowRate R) b st = (ok, st1)"
    "rs_addrCounts st' = rs_addrCounts st1" "rs_globalCounts st' = rs_globalCounts st1"
    "rs_sent st' \<noteq> rs_sent st \<Longrightarrow> ok"
proof (cases "rs_wallet st \<and> valid_buyer body \<noteq> None")
  case True
  then obtain b where b: "valid_buyer body = Some b" by auto
  obtain ok st1 where c: "checkRateLimit cfg (re_nowRate R) b st = (ok, st1)" by fastforce
  have "rs_addrCounts st' = rs_addrCounts st1 \<and> rs_globalCounts st' = rs_globalCounts st1 \<and> (rs_sent st' \<noteq> rs_sent st \<longrightarrow> ok)"
    using assms True b c limit_counts(1) [OF c order.refl]
    by (auto simp: relay_def dest: sendTx_counts' split: if_splits sum.splits built.splits)
  with b c that(2) show ?thesis by blast
next
  case False
  with assms that(1) show ?thesis by (auto simp: relay_def split: if_splits option.splits)
qed

lemma relay_window:
  assumes "rate_epoch (re_nowRate R) \<le> e"
  obtains "snd (relay cfg R body st) = st"
  | b ok where "valid_buyer body = Some b"
    "\<And>a. addr_count a e (snd (relay cfg R body st))
       = (if ok \<and> addrKey b (rate_epoch (re_nowRate R)) = addrKey a e then addr_count a e st + 1 else addr_count a e st)"
    "global_count e (snd (relay cfg R body st)) = (if ok \<and> rate_epoch (re_nowRate R) = e then global_count e st + 1 else global_count e st)"
    "rs_sent (snd (relay cfg R body st)) \<noteq> rs_sent st \<Longrightarrow> ok"
    "ok \<Longrightarrow> addr_count b (rate_epoch (re_nowRate R)) st < rc_maxPerAddressPerHour cfg
       \<and> global_count (rate_epoch (re_nowRate R)) st < rc_maxGlobalPerHour cfg"
proof -
  obtain r st' where *: "relay cfg R body st = (r, st')" by fastforce
  then show ?thesis
  proof (cases rule: relay_counts)
    case (2 b ok st1)
    note lc = limit_counts [OF 2(2) assms]
    have "addr_count a e st' = addr_count a e st1" "global_count e st' = global_count e st1" for a
      using 2 by (simp_all add: addr_count_def global_count_def)
    with lc 2 * that(2) [of b ok] show ?thesis by simp
  qed (simp add: that * )
qed

lemma addr_count_case: "lower a = lower b \<Longrightarrow> addr_count a e st = addr_count b e st"
  by (simp add: addr_count_def addrKey_def)

lemma addrKey_epoch: "addrKey a m = addrKey b n \<Longrightarrow> m = n"
  by (metis key_epoch_addrKey option.inject)

interpretation addr_window: fixed_window "relay_sends cfg" request_epoch "buyer_is b" "addr_count b e" "rc_maxPerAddressPerHour cfg" e
  for cfg b e
proof (unfold_locales; unfold relay_sends_def Let_def snd_conv fst_conv request_epoch_def)
  fix req :: "relay_env \<times> relay_body" and st
  let ?n = "rate_epoch (re_nowRate (fst req))" and ?st = "snd (relay cfg (fst req) (snd req) st)"
  show "addr_count b e ?st = addr_count b e st" if "?n < e"
    by (rule relay_window [of "fst req" e cfg "snd req" st])
      (use that addrKey_epoch [of _ ?n b e] in \<open>auto split: if_splits\<close>)
  show "addr_count b e st \<le> addr_count b e ?st" if "?n = e"
    by (rule relay_window [of "fst req" e cfg "snd req" st]) (use that in auto)
  show "addr_count b e st < rc_maxPerAddressPerHour cfg \<and> addr_count b e st + 1 \<le> addr_count b e ?st"
    if "?n = e" "buyer_is b req" "rs_sent ?st \<noteq> rs_sent st"
  proof -
    have "?n \<le> e" using that by simp
    then show ?thesis
    proof (cases rule: relay_window [of "fst req" e cfg "snd req" st])
      case (2 a ok)
      with that have l: "lower a = lower b" and ok by (auto simp: buyer_is_def)
      then show ?thesis using 2 that(1) addr_count_case [OF l, of e st] by (simp add: addrKey_def)
    qed (use that in auto)
  qed
qed

interpretation global_window: fixed_window "relay_sends cfg" request_epoch "\<lambda>_. True" "global_count e" "rc_maxGlobalPerHour cfg" e
  for cfg e
proof (unfold_locales; unfold relay_sends_def Let_def snd_conv fst_conv request_epoch_def)
  fix req :: "relay_env \<times> relay_body" and st
  let ?n = "rate_epoch (re_nowRate (fst req))" and ?st = "snd (relay cfg (fst req) (snd req) st)"
  show "global_count e ?st = global_count e st" if "?n < e"
    by (rule relay_window [of "fst req" e cfg "snd req" st]) (use that in auto)
  show "global_count e st \<le> global_count e ?st" if "?n = e"
    by (rule relay_window [of "fst req" e cfg "snd req" st]) (use that in auto)
  show "global_count e st < rc_maxGlobalPerHour cfg \<and> global_count e st + 1 \<le> global_count e ?st"
    if "?n = e" "rs_sent ?st \<noteq> rs_sent st"
    by (rule relay_window [of "fst req" e cfg "snd req" st]) (use that in auto)
qed

text \<open>C14: the relay's rate limits hold. However requests of different buyers interleave and whatever they contain, as long as the clock does not
  run backwards across hours, within one hour the operator wallet broadcasts at most
  the per-address limit for one buyer (spelled in any case) and at most the global limit overall.\<close>

theorem relay_rate_limits_hold:
  assumes "sorted (map request_epoch reqs)" "rs_addrCounts st = Map.empty" "rs_globalCounts st = Map.empty"
  shows "int (admitted (relay_sends cfg) (\<lambda>r. request_epoch r = e \<and> buyer_is b r) reqs st) \<le> max 0 (rc_maxPerAddressPerHour cfg)
    \<and> int (admitted (relay_sends cfg) (\<lambda>r. request_epoch r = e) reqs st) \<le> max 0 (rc_maxGlobalPerHour cfg)"
  using addr_window.window_bound [OF assms(1), of cfg e b st] global_window.window_bound [OF assms(1), of cfg e st] assms(2,3)
  by (simp add: addr_count_def global_count_def nullish_def)

section \<open>What the relay broadcasts\<close>

definition well_formed_purchase :: "relay_config \<Rightarrow> relay_env \<Rightarrow> relay_body \<Rightarrow> string \<Rightarrow> bool" where
  "well_formed_purchase cfg R body callData \<longleftrightarrow>
     (\<exists>i ta buyer payTok target m recovered validAfter.
        rb_intent body = Some i \<and> rb_transferAuth body = Some ta
        \<and> bi_buyer i = JStr buyer \<and> is_address_format buyer
        \<and> bi_paymentToken i = JStr payTok \<and> lower payTok = lower (rc_usdc cfg)
        \<and> bi_targetToken i = JStr target \<and> lower target \<in> {lower (rc_gtoken cfg), lower (rc_apnts cfg)}
        \<and> ti_buyer m = bi_buyer i \<and> ti_paymentToken m = bi_paymentToken i \<and> ti_targetToken m = bi_targetToken i
        \<and> ti_recipient m = bi_recipient i \<and> ti_nonce m = bi_nonce i
        \<and> field_BigInt (bi_paymentAmount i) = Inr (ti_paymentAmount m) \<and> field_BigInt (bi_minOut i) = Inr (ti_minOut m)
        \<and> ti_paymentAmount m \<noteq> 0 \<and> ti_paymentAmount m \<le> rc_maxPaymentAmount cfg
        \<and> re_nowDeadline R div 1000 \<le> ti_deadline m
        \<and> re_verifyTypedData R (rc_chainId cfg) (rc_buyHelper cfg) m (rb_buyIntentSig body) = Inr recovered
        \<and> lower recovered = lower buyer
        \<and> re_encodeExecuteBuy R m (rb_buyIntentSig body) validAfter ta = Inr callData)"

lemma field_lower_Inr: "field_lower f = Inr s \<longleftrightarrow> (\<exists>t. f = JStr t \<and> s = lower t)"
  by (cases f) (auto simp: field_lower_def)

lemma number_BigInt_Inr: "number_BigInt x = Inr n \<longleftrightarrow> x = Some (js_of_int n)"
  by (auto simp: number_BigInt_def js_isInteger_iff split: option.splits if_splits)

lemma sign_and_encode_ok:
  assumes "sign_and_encode cfg R i sig ta p q g = Inr (BuiltOk callData rule)"
  obtains m recovered validAfter buyer where "intent_message i p q = Inr m"
    "re_verifyTypedData R (rc_chainId cfg) (rc_buyHelper cfg) m sig = Inr recovered" "bi_buyer i = JStr buyer" "lower recovered = lower buyer"
    "re_encodeExecuteBuy R m sig validAfter ta = Inr callData"
  using assms by (auto simp: sign_and_encode_def encode_call_def field_lower_Inr split: sum.splits if_splits)

lemma build_ok:
  assumes "validateAndBuild cfg R body = Inr (BuiltOk callData rule)" "valid_buyer body = Some b"
  shows "well_formed_purchase cfg R body callData"
proof -
  obtain i ta payTok target g where i: "rb_intent body = Some i" "rb_transferAuth body = Some ta"
    "bi_paymentToken i = JStr payTok" "lower payTok = lower (rc_usdc cfg)"
    "bi_targetToken i = JStr target" "lower target \<in> {lower (rc_gtoken cfg), lower (rc_apnts cfg)}"
    "check_amounts cfg R i (rb_buyIntentSig body) ta g = Inr (BuiltOk callData rule)"
    using assms(1) by (auto simp: validateAndBuild_def Let_def field_lower_Inr split: option.splits if_splits)
  then obtain p q where pq: "field_BigInt (bi_paymentAmount i) = Inr p" "field_BigInt (bi_minOut i) = Inr q"
    "p \<noteq> 0" "p \<le> rc_maxPaymentAmount cfg" "sign_and_encode cfg R i (rb_buyIntentSig body) ta p q g = Inr (BuiltOk callData rule)"
    "\<And>d. bi_deadline i = Some d \<Longrightarrow> \<not> js_less d (js_of_int (re_nowDeadline R div 1000))"
    by (auto simp: check_amounts_def split: if_splits sum.splits option.splits)
  from pq(5) obtain m recovered validAfter buyer where s: "intent_message i p q = Inr m"
    "re_verifyTypedData R (rc_chainId cfg) (rc_buyHelper cfg) m (rb_buyIntentSig body) = Inr recovered"
    "bi_buyer i = JStr buyer" "lower recovered = lower buyer"
    "re_encodeExecuteBuy R m (rb_buyIntentSig body) validAfter ta = Inr callData" by (rule sign_and_encode_ok)
  have addr: "is_address_format buyer" using assms(2) i(1) s(3) by (auto simp: valid_buyer_def split: if_splits)
  have m: "ti_buyer m = bi_buyer i" "ti_paymentToken m = bi_paymentToken i" "ti_targetToken m = bi_targetToken i"
    "ti_recipient m = bi_recipient i" "ti_nonce m = bi_nonce i" "ti_paymentAmount m = p" "ti_minOut m = q"
    "bi_deadline i = Some (js_of_int (ti_deadline m))"
    using s(1) by (auto simp: intent_message_def number_BigInt_Inr)
  have "re_nowDeadline R div 1000 \<le> ti_deadline m" using m(8) pq(6) by simp
  then show ?thesis
    unfolding well_formed_purchase_def
    by (intro exI [of _ i] exI [of _ ta] exI [of _ buyer] exI [of _ payTok] exI [of _ target] exI [of _ m] exI [of _ recovered]
        exI [of _ validAfter]) (use i(6) in \<open>simp add: i(1-5) addr m(1-7) s(2-5) pq(1-4)\<close>)
qed

text \<open>C12: the operator wallet pays only for purchases it has checked. A request broadcasts at most one transaction, whose call
  data encode a whitelisted purchase within the payment cap and the deadline, signed by its buyer over the
  same message on the configured chain and helper contract, and whose dry run succeeded.\<close>

theorem relay_broadcasts_only_checked_purchases:
  assumes "relay cfg R body st = (r, st')" "rs_sent st' \<noteq> rs_sent st"
  shows "\<exists>callData. rs_sent st' = callData # rs_sent st \<and> well_formed_purchase cfg R body callData
    \<and> is_ok (re_call R (rc_buyHelper cfg) callData)"
proof -
  from assms obtain b st1 callData rule where b: "valid_buyer body = Some b" "checkRateLimit cfg (re_nowRate R) b st = (True, st1)"
    "validateAndBuild cfg R body = Inr (BuiltOk callData rule)" "apfst Inr (sendTx cfg R callData rule st1) = (r, st')"
    using limit_counts(1) [OF _ order.refl]
    by (auto simp: relay_def split: if_splits option.splits prod.splits sum.splits built.splits)
  have "rs_sent st1 = rs_sent st" using limit_counts(1) [OF b(2) order.refl] .
  then show ?thesis
    using build_ok [OF b(3,1)] b(4) assms(2)
    by (auto simp: sendTx_def Let_def apfst_def map_prod_def split: sum.splits prod.splits)
qed

section \<open>Errors and fees\<close>

definition is_number :: "js_field \<Rightarrow> bool" where
  "is_number f = (case f of JNum _ \<Rightarrow> True | _ \<Rightarrow> False)"

definition is_text :: "js_field \<Rightarrow> bool" where
  "is_text f = (case f of JStr _ \<Rightarrow> True | _ \<Rightarrow> False)"

lemma field_kind_simps [simp]: "is_text (JStr t)" "is_number (JNum x)"
  by (simp_all add: is_text_def is_number_def)

lemma field_lower_text: "is_text f \<Longrightarrow> field_lower f \<noteq> Inl e"
  by (cases f) (simp_all add: field_lower_def is_text_def)

lemma validate_no_throw:
  assumes "rb_intent body = Some i" "is_text (bi_buyer i)" "is_text (bi_paymentToken i)" "is_text (bi_targetToken i)"
  shows "validateAndBuild cfg R body \<noteq> Inl e"
proof
  assume "validateAndBuild cfg R body = Inl e"
  moreover obtain b p t where "bi_buyer i = JStr b" "bi_paymentToken i = JStr p" "bi_targetToken i = JStr t"
    using assms(2-4) by (auto simp: is_text_def split: js_field.splits)
  ultimately show False
    using assms(1)
    by (auto simp: validateAndBuild_def check_amounts_def sign_and_encode_def field_lower_def Let_def
        split: option.splits if_splits sum.splits prod.splits)
qed

text \<open>on a body whose token fields are strings the relay never throws: every failure is one of
  the result codes.\<close>

theorem relay_returns_a_code:
  assumes "rb_intent body = Some i" "is_text (bi_paymentToken i)" "is_text (bi_targetToken i)"
  shows "is_ok (fst (relay cfg R body st))"
proof (cases "valid_buyer body")
  case (Some b)
  then have "is_text (bi_buyer i)" using assms(1) by (auto simp: valid_buyer_def is_text_def split: js_field.splits)
  with assms have "validateAndBuild cfg R body \<noteq> Inl e" for e by (intro validate_no_throw)
  with Some show ?thesis
    by (auto simp: relay_def is_ok_def split: prod.split sum.splits built.splits)
qed (simp add: relay_def)

text \<open>a body whose payment token is a number makes the relay throw, after the request has already
  used up one unit of the buyer's hourly quota; the controller answers 500.\<close>

theorem relay_throws_on_numeric_token:
  assumes "rs_wallet st" "rb_intent body = Some i" "rb_transferAuth body = Some ta" "rb_buyIntentSig body \<noteq> []"
    and "valid_buyer body = Some b" "is_number (bi_paymentToken i)" "truthy (bi_paymentToken i)"
    and "truthy (bi_targetToken i)" "truthy (bi_recipient i)" "truthy (bi_nonce i)"
    and "fst (checkRateLimit cfg (re_nowRate R) b st)"
  shows "fst (relay cfg R body st) = Inl (External ''TypeError'') \<and> fst (relayV3 cfg R body st) = 500
    \<and> addr_count b (rate_epoch (re_nowRate R)) (snd (relay cfg R body st)) = addr_count b (rate_epoch (re_nowRate R)) st + 1"
proof -
  obtain st1 where c: "checkRateLimit cfg (re_nowRate R) b st = (True, st1)" using assms(11) by (metis prod.collapse)
  have b: "truthy (bi_buyer i)" using assms(2,5)
    by (auto simp: valid_buyer_def truthy_def is_address_format_def split: js_field.splits if_splits)
  then have "validateAndBuild cfg R body = Inl (External ''TypeError'')"
    using assms by (auto simp: validateAndBuild_def field_lower_def is_number_def split: js_field.splits)
  then have "relay cfg R body st = (Inl (External ''TypeError''), st1)" using assms(1,5) c by (simp add: relay_def)
  then show ?thesis using limit_counts(3) [OF c order.refl, of b] by (simp add: relayV3_def)
qed

text \<open>The fees of a relayed transaction never undercut the provider's estimate: both are at least 115\% of it
  (rounded down), the tip is at least the floor, and the tip never exceeds the fee cap.\<close>

theorem bumped_fees_cover_estimate:
  "case bumpedFees (Inr (estFee, estTip)) 15 1500000000 of
     Inl _ \<Rightarrow> False
   | Inr (maxFee, tip) \<Rightarrow> 1500000000 \<le> tip \<and> tip \<le> maxFee
       \<and> (case estFee of None \<Rightarrow> True | Some f \<Rightarrow> f * 115 div 100 \<le> maxFee) \<and> (case estTip of None \<Rightarrow> True | Some t \<Rightarrow> t * 115 div 100 \<le> tip)"
  by (auto simp: bumpedFees_def bump_def nullish_def Let_def split: option.split)

section \<open>A concrete relay\<close>

definition relay_demo_config :: relay_config where
  "relay_demo_config = \<lparr>rc_enabledByConfig = True, rc_operatorPk = ''0x'', rc_rpcUrl = ''rpc'', rc_chainId = 1, rc_buyHelper = demo_registry,
     rc_usdc = demo_registry, rc_gtoken = demo_registry, rc_apnts = demo_signer, rc_maxPaymentAmount = 9,
     rc_maxPerAddressPerHour = 1, rc_maxGlobalPerHour = 2\<rparr>"

definition relay_demo_env :: relay_env where
  "relay_demo_env = \<lparr>re_nowRate = 5, re_nowDeadline = 5, re_verifyTypedData = (\<lambda>_ _ _ _. Inr demo_signer),
     re_encodeExecuteBuy = (\<lambda>_ _ _ _. Inr ''0xdata''), re_call = (\<lambda>_ _. Inr ''0x''), re_feeData = Inr (None, None),
     re_sendTransaction = (\<lambda>_ _ _ _. Inr ''0xhash'')\<rparr>"

definition relay_demo_intent :: "js_field \<Rightarrow> buy_intent" where
  "relay_demo_intent token = \<lparr>bi_buyer = JStr demo_signer, bi_paymentToken = token, bi_paymentAmount = JNum (js_of_int 7),
     bi_targetToken = JStr demo_signer, bi_recipient = JStr demo_signer, bi_minOut = JNum (js_of_int 0),
     bi_deadline = Some (js_of_int 9), bi_nonce = JStr ''0x01''\<rparr>"

definition relay_demo_body :: "js_field \<Rightarrow> relay_body" where
  "relay_demo_body token = \<lparr>rb_intent = Some (relay_demo_intent token), rb_buyIntentSig = ''0xsig'',
     rb_transferAuth = Some \<lparr>ta_validAfter = Some (js_of_int 0), ta_v = js_of_int 27, ta_r = ''0x'', ta_s = ''0x''\<rparr>\<rparr>"

definition relay_demo_state :: relay_state where
  "relay_demo_state = \<lparr>rs_wallet = True, rs_addrCounts = Map.empty, rs_globalCounts = Map.empty, rs_sent = []\<rparr>"

lemma relay_demo_address: "is_address_format demo_signer" "demo_signer \<noteq> []" "demo_registry \<noteq> []"
  by code_simp+

lemma relay_demo_valid: "valid_buyer (relay_demo_body token) = Some demo_signer"
  by (simp add: valid_buyer_def relay_demo_body_def relay_demo_intent_def relay_demo_address)

lemma relay_demo_limit: "fst (checkRateLimit relay_demo_config (re_nowRate relay_demo_env) demo_signer relay_demo_state)"
  by (simp add: checkRateLimit_def Let_def pruneWindows_def relay_demo_config_def relay_demo_state_def nullish_def)

lemma relay_demo_sends: "rs_sent (snd (relay relay_demo_config relay_demo_env (relay_demo_body (JStr demo_registry)) relay_demo_state)) = [''0xdata'']"
proof -
  obtain st1 where c: "checkRateLimit relay_demo_config (re_nowRate relay_demo_env) demo_signer relay_demo_state = (True, st1)"
    using relay_demo_limit by (metis prod.collapse)
  have "rs_sent st1 = []" using limit_counts(1) [OF c order.refl] by (simp add: relay_demo_state_def)
  moreover have "validateAndBuild relay_demo_config relay_demo_env (relay_demo_body (JStr demo_registry)) = Inr (BuiltOk ''0xdata'' ''TOKEN_BUY aPNTs'')"
    by (simp add: validateAndBuild_def relay_demo_body_def relay_demo_intent_def relay_demo_config_def relay_demo_env_def truthy_def
        check_amounts_def sign_and_encode_def intent_message_def encode_call_def field_lower_def field_BigInt_def number_BigInt_def relay_demo_address)
      (simp add: demo_signer_def demo_registry_def lower_def lower_char_def)
  ultimately show ?thesis
    using c relay_demo_valid
    by (simp add: relay_def relay_demo_state_def sendTx_def relay_demo_env_def bumpedFees_def bump_def nullish_def Let_def)
qed

theorem relay_rate_limits_hold_witness:
  "int (admitted (relay_sends relay_demo_config) (\<lambda>r. request_epoch r = 0 \<and> buyer_is demo_signer r)
     (replicate 3 (relay_demo_env, relay_demo_body (JStr demo_registry))) relay_demo_state) \<le> 1"
  using relay_rate_limits_hold [of "replicate 3 (relay_demo_env, relay_demo_body (JStr demo_registry))" relay_demo_state relay_demo_config 0 demo_signer]
  by (simp add: numeral_eq_Suc relay_demo_state_def relay_demo_config_def)

theorem relay_broadcasts_only_checked_purchases_witness:
  "\<exists>callData. well_formed_purchase relay_demo_config relay_demo_env (relay_demo_body (JStr demo_registry)) callData"
proof -
  have "rs_sent (snd (relay relay_demo_config relay_demo_env (relay_demo_body (JStr demo_registry)) relay_demo_state)) \<noteq> rs_sent relay_demo_state"
    by (simp add: relay_demo_sends) (simp add: relay_demo_state_def)
  from relay_broadcasts_only_checked_purchases [OF prod.collapse [symmetric] this] show ?thesis by blast
qed

theorem relay_returns_a_code_witness:
  "is_ok (fst (relay relay_demo_config relay_demo_env (relay_demo_body (JStr demo_registry)) relay_demo_state))"
  by (rule relay_returns_a_code [of _ "relay_demo_intent (JStr demo_registry)"]) (simp_all add: relay_demo_body_def relay_demo_intent_def)

theorem relay_throws_on_numeric_token_witness:
  "fst (relayV3 relay_demo_config relay_demo_env (relay_demo_body (JNum (js_of_int 1))) relay_demo_state) = 500"
proof -
  let ?i = "relay_demo_intent (JNum (js_of_int 1))" and ?b = "relay_demo_body (JNum (js_of_int 1))"
  have "rs_wallet relay_demo_state" "rb_intent ?b = Some ?i" "rb_transferAuth ?b = Some (the (rb_transferAuth ?b))" "rb_buyIntentSig ?b \<noteq> []"
    "is_number (bi_paymentToken ?i)" "truthy (bi_paymentToken ?i)" "truthy (bi_targetToken ?i)" "truthy (bi_recipient ?i)" "truthy (bi_nonce ?i)"
    by (simp_all add: relay_demo_state_def relay_demo_body_def relay_demo_intent_def truthy_def js_of_int_def)
  with relay_throws_on_numeric_token [OF this(1-4) relay_demo_valid this(5-9) relay_demo_limit] show ?thesis by simp
qed

end
