(* ===== verification/Audit_Service.thy ===== *)
theory Audit_Service
  imports Slash_Consensus Aggregator_Guard Proof_Archive
begin

text \<open>
  \<^verbatim>\<open>src/modules/audit/audit.service.ts\<close>: the autonomous audit, from the tick over the watched operators to the two-step
  slash. \<open>audit_config\<close> holds the fields the constructor fixes, \<open>audit\<close> the mutable ones; \<^verbatim>\<open>Map\<close>s and \<^verbatim>\<open>Set\<close>s whose
  order or size the code looks at are lists in insertion order.

  The world of one tick is the record \<open>audit_env\<close>: the clock (its successive readings), the chain reads and writes, the gossip ledger and
  the quorum co-signer; any of them may throw. \<open>au_txs\<close> logs every contract write the service asks for, newest
  first, with its dry-run flag and the archived file of its evidence at that moment. The proof object that
  \<^verbatim>\<open>coordinateQuorumCoSign\<close> mutates is passed and returned. A derivation of operators never overlaps another
  one here, as the only callers are the tick and the bootstrap, which are sequential. Log lines are left out, human-readable
  notes on a proof too.
\<close>

section \<open>Data\<close>

definition SLASH_LEVEL_OFFLINE :: int where "SLASH_LEVEL_OFFLINE = SlashLevel_WARNING"
definition RULE_OFFLINE :: string where "RULE_OFFLINE = ''offline''"
definition OFFLINE_THRESHOLD_MS :: int where "OFFLINE_THRESHOLD_MS = 600000"
definition DRY_RUN_TX_SENTINEL :: string where "DRY_RUN_TX_SENTINEL = ''0xDRYRUN''"
definition MAX_DEDUP_ENTRIES :: nat where "MAX_DEDUP_ENTRIES = 10000"
definition MAX_RECENT :: nat where "MAX_RECENT = 20"

record audit_detection =
  ad_operator :: string
  ad_rule :: string
  ad_proofHash :: string
  ad_proposalId :: "string option"
  ad_reason :: string
  ad_detectedAt :: int
  ad_proposalTx :: "string option"
  ad_queueTx :: "string option"
  ad_executeTx :: "string option"

record audit_config =
  ac_cooldownMs :: int
  ac_watchlist :: "string list"
  ac_chainId :: int
  ac_registryAddress :: string
  ac_superPaymasterAddress :: string
  ac_dvtValidatorAddress :: string
  ac_blsAggregatorAddress :: string
  ac_blsAggregatorAddressFromEnv :: bool
  ac_gtokenStakingAddress :: string
  ac_executeSlash :: bool
  ac_dryRun :: bool
  ac_finalityConfirmations :: int
  ac_slashLookbackBlocks :: int
  ac_roleDerive :: bool
  ac_roleIds :: "string list"
  ac_roleFromBlock :: int
  ac_roleLogChunk :: int
  ac_roleRefreshMs :: int
  ac_roleUseGetter :: bool
  ac_roleMaxStaleMs :: int
  ac_offlineEnabled :: bool
  ac_gossip :: bool

datatype audit_tx =
    TxQueue string int int string bool
  | TxPropose string int string bool
  | TxExecute int int string bool

record audit_metrics =
  am_detections :: int
  am_slashesExecuted :: int
  am_dryRunPassed :: int
  am_coSignAborts :: int
  am_overSlashSkips :: int
  am_errors :: int

record audit =
  au_enabled :: bool
  au_offlineNodeIdCache :: "(string \<times> string) list"
  au_derivedOperators :: "string list"
  au_lastRoleRefreshAt :: "int option"
  au_lastRoleAttemptAt :: "int option"
  au_roleDeriveSucceeded :: bool
  au_lastTickAt :: "int option"
  au_tickInFlight :: bool
  au_proposedStableKeys :: "(string \<times> int) list"
  au_lastProposalAt :: "(string \<times> int) list"
  au_slashedCoarseKeys :: "string list"
  au_coSignRetryKeys :: "string list"
  au_pendingProposalIds :: "(string \<times> string) list"
  au_recentDetections :: "audit_detection list"
  au_metrics :: audit_metrics
  au_archive :: archive
  au_relevantNodeIds :: "string list"
  au_txs :: "(audit_tx \<times> slash_proof option option) list"
  au_clockReads :: nat

record 'b audit_env =
  ae_ethers :: "'b ethers"
  ae_clock :: "nat \<Rightarrow> int"
  ae_getChainId :: "int result"
  ae_getCode :: "string \<Rightarrow> string result"
  ae_probeBlsAggregator :: "string \<Rightarrow> unit result"
  ae_getViolationBlock :: "int \<Rightarrow> (int \<times> string) result"
  ae_getRegisteredOperators :: "string \<Rightarrow> string list \<Rightarrow> int \<Rightarrow> int \<Rightarrow> int \<Rightarrow> bool \<Rightarrow> string list result"
  ae_hasRole :: "string \<Rightarrow> string \<Rightarrow> string \<Rightarrow> int \<Rightarrow> bool result"
  ae_getOperatorNodeId :: "string \<Rightarrow> string \<Rightarrow> string option result"
  ae_getLastSeen :: "string \<Rightarrow> int option"
  ae_getBlockTimestamp :: "int \<Rightarrow> int result"
  ae_getWalletAddress :: "string option"
  ae_getRecentSlashExecuted :: "string \<Rightarrow> string \<Rightarrow> int \<Rightarrow> int \<Rightarrow> bool option result"
  ae_isSlashPending :: "string \<Rightarrow> string \<Rightarrow> int \<Rightarrow> bool option result"
  ae_coSign :: "co_sign_request \<Rightarrow> (int \<times> string) result"
  ae_queueSlashWithProof :: "string \<Rightarrow> string \<Rightarrow> int \<Rightarrow> int \<Rightarrow> 'b \<Rightarrow> bool \<Rightarrow> string result"
  ae_createProposalWithEvidence :: "string \<Rightarrow> string \<Rightarrow> int \<Rightarrow> string \<Rightarrow> string \<Rightarrow> bool \<Rightarrow> (string \<times> int option) result"
  ae_executeSlashWithProof :: "string \<Rightarrow> int \<Rightarrow> int \<Rightarrow> 'b \<Rightarrow> bool \<Rightarrow> string result"
  ae_toBeHex :: "int \<Rightarrow> string"

datatype slash_state = Executed | Pending | Clear | Blocked

text \<open>A non-empty string, as the code's truth tests on optional hashes ask.\<close>

definition has_text :: "string option \<Rightarrow> bool" where
  "has_text x = (x \<noteq> None \<and> x \<noteq> Some [])"

section \<open>Bookkeeping\<close>

definition audit_clock :: "'b audit_env \<Rightarrow> (audit, int) io" where
  "audit_clock A st = (Inr (ae_clock A (au_clockReads st)), st\<lparr>au_clockReads := Suc (au_clockReads st)\<rparr>)"

definition in_archive :: "(archive, 'a) io \<Rightarrow> (audit, 'a) io" where
  "in_archive m st = (case m (au_archive st) of (r, a) \<Rightarrow> (r, st\<lparr>au_archive := a\<rparr>))"

definition log_tx :: "audit_tx \<Rightarrow> string \<Rightarrow> (audit, unit) io" where
  "log_tx t ev = smodify (\<lambda>st. st\<lparr>au_txs := (t, ar_files (au_archive st) ev) # au_txs st\<rparr>)"

definition bump_metric :: "(audit_metrics \<Rightarrow> audit_metrics) \<Rightarrow> (audit, unit) io" where
  "bump_metric f = smodify (\<lambda>st. st\<lparr>au_metrics := f (au_metrics st)\<rparr>)"

definition set_add :: "string \<Rightarrow> string list \<Rightarrow> string list" where
  "set_add k ks = (if k \<in> set ks then ks else ks @ [k])"

definition set_delete :: "string \<Rightarrow> string list \<Rightarrow> string list" where
  "set_delete k ks = filter (\<lambda>x. x \<noteq> k) ks"

definition recordStableKey :: "'b audit_env \<Rightarrow> string \<Rightarrow> (audit, unit) io" where
  "recordStableKey A stableKey = sbind (audit_clock A) (\<lambda>now. smodify (\<lambda>st.
     let m = AList.update stableKey now (au_proposedStableKeys st) in
     st\<lparr>au_proposedStableKeys := (if length m > MAX_DEDUP_ENTRIES then tl m else m)\<rparr>))"

definition coarseKey :: "audit_config \<Rightarrow> string \<Rightarrow> string \<Rightarrow> string" where
  "coarseKey cfg operator rule = int_to_string (ac_chainId cfg) @ ''|'' @ operator @ ''|'' @ rule"

definition normalizeAddress :: "'b ethers \<Rightarrow> string \<Rightarrow> string" where
  "normalizeAddress E addr = (case getAddress E addr of None \<Rightarrow> addr | Some a \<Rightarrow> a)"

definition markCoarseSlashed :: "string \<Rightarrow> (audit, unit) io" where
  "markCoarseSlashed key = smodify (\<lambda>st. let ks = set_add key (au_slashedCoarseKeys st) in
     st\<lparr>au_slashedCoarseKeys := (if length ks > MAX_DEDUP_ENTRIES then tl ks else ks),
        au_pendingProposalIds := AList.delete key (au_pendingProposalIds st)\<rparr>)"

definition recordCoarseSlashed :: "string \<Rightarrow> (audit, unit) io" where
  "recordCoarseSlashed key = sbind (markCoarseSlashed key) (\<lambda>_.
     scatch (in_archive (archive_recordSlashed key)) (\<lambda>_. sret ()))"

definition clearCoarseSlashed :: "audit_config \<Rightarrow> string \<Rightarrow> string \<Rightarrow> (audit, unit) io" where
  "clearCoarseSlashed cfg operator rule = (let key = coarseKey cfg operator rule in
     sbind (smodify (\<lambda>st. st\<lparr>au_slashedCoarseKeys := set_delete key (au_slashedCoarseKeys st),
       au_pendingProposalIds := AList.delete key (au_pendingProposalIds st)\<rparr>)) (\<lambda>_.
     scatch (in_archive (archive_removeSlashed key)) (\<lambda>_. sret ())))"

definition pruneDedupState :: "audit_config \<Rightarrow> 'b audit_env \<Rightarrow> (audit, unit) io" where
  "pruneDedupState cfg A = sbind (audit_clock A) (\<lambda>now. smodify (\<lambda>st.
     st\<lparr>au_proposedStableKeys := filter (\<lambda>(_, ts). \<not> now - ts > ac_cooldownMs cfg) (au_proposedStableKeys st),
        au_lastProposalAt := filter (\<lambda>(_, ts). \<not> now - ts > ac_cooldownMs cfg) (au_lastProposalAt st),
        au_coSignRetryKeys := (if length (au_coSignRetryKeys st) > MAX_DEDUP_ENTRIES then [] else au_coSignRetryKeys st),
        au_pendingProposalIds := (if length (au_pendingProposalIds st) > MAX_DEDUP_ENTRIES then [] else au_pendingProposalIds st)\<rparr>))"

text \<open>\<^verbatim>\<open>[...new Set(xs)]\<close>\<close>

definition js_unique :: "string list \<Rightarrow> string list" where
  "js_unique xs = rev (remdups (rev xs))"

definition effectiveWatchlist :: "audit_config \<Rightarrow> audit \<Rightarrow> string list" where
  "effectiveWatchlist cfg st =
     (if au_derivedOperators st = [] then ac_watchlist cfg
      else if ac_watchlist cfg = [] then au_derivedOperators st
      else js_unique (ac_watchlist cfg @ au_derivedOperators st))"

definition derivedSetIsFresh :: "audit_config \<Rightarrow> 'b audit_env \<Rightarrow> (audit, bool) io" where
  "derivedSetIsFresh cfg A =
     (if \<not> ac_roleDerive cfg then sret True
      else sbind (sgets au_roleDeriveSucceeded) (\<lambda>ok. if \<not> ok then sret False
      else sbind (sgets au_lastRoleRefreshAt) (\<lambda>t. case t of None \<Rightarrow> sret False
      | Some lastAt \<Rightarrow> sbind (audit_clock A) (\<lambda>now. sret (now - lastAt \<le> ac_roleMaxStaleMs cfg)))))"

fun any_role :: "audit_config \<Rightarrow> 'b audit_env \<Rightarrow> string \<Rightarrow> int \<Rightarrow> string list \<Rightarrow> bool" where
  "any_role cfg A operator blockTag [] = False"
| "any_role cfg A operator blockTag (roleId # rest) =
     (case ae_hasRole A (ac_registryAddress cfg) roleId operator blockTag of
        Inl _ \<Rightarrow> False | Inr b \<Rightarrow> if b then True else any_role cfg A operator blockTag rest)"

definition confirmSlashableAtBlock :: "audit_config \<Rightarrow> 'b audit_env \<Rightarrow> string \<Rightarrow> int \<Rightarrow> (audit, bool) io" where
  "confirmSlashableAtBlock cfg A operator blockTag =
     (if operator \<in> set (ac_watchlist cfg) then sret True
      else sbind (derivedSetIsFresh cfg A) (\<lambda>fresh.
        if \<not> fresh then sret False else sret (any_role cfg A operator blockTag (ac_roleIds cfg))))"

definition doRefreshDerivedOperators :: "audit_config \<Rightarrow> 'b audit_env \<Rightarrow> int \<Rightarrow> int option \<Rightarrow> (audit, unit) io" where
  "doRefreshDerivedOperators cfg A now pinnedToBlock =
     scatch
       (sbind (case pinnedToBlock of Some b \<Rightarrow> sret b
               | None \<Rightarrow> slift (rbind (ae_getViolationBlock A (ac_finalityConfirmations cfg)) (\<lambda>(n, _). Inr n))) (\<lambda>toBlock.
        sbind (slift (ae_getRegisteredOperators A (ac_registryAddress cfg) (ac_roleIds cfg) (ac_roleFromBlock cfg) toBlock
                 (ac_roleLogChunk cfg) (ac_roleUseGetter cfg))) (\<lambda>members.
        smodify (\<lambda>st. st\<lparr>au_derivedOperators := List.map_filter (getAddress (ae_ethers A)) members,
          au_lastRoleRefreshAt := Some now, au_roleDeriveSucceeded := True\<rparr>))))
       (\<lambda>_. sret ())"

definition refreshDerivedOperators :: "audit_config \<Rightarrow> 'b audit_env \<Rightarrow> bool \<Rightarrow> int option \<Rightarrow> (audit, unit) io" where
  "refreshDerivedOperators cfg A force pinnedToBlock =
     (if \<not> ac_roleDerive cfg \<or> ac_roleIds cfg = [] then sret ()
      else sbind (audit_clock A) (\<lambda>now.
        sbind (sgets au_lastRoleAttemptAt) (\<lambda>last.
        if \<not> force \<and> (case last of None \<Rightarrow> False | Some t \<Rightarrow> now - t < ac_roleRefreshMs cfg) then sret ()
        else sbind (smodify (\<lambda>st. st\<lparr>au_lastRoleAttemptAt := Some now\<rparr>)) (\<lambda>_.
          doRefreshDerivedOperators cfg A now pinnedToBlock))))"

section \<open>The slash state of an operator\<close>

text \<open>The scan of the executed-slash events: \<open>None\<close> when a slash was found, otherwise whether a target could not be read.\<close>

fun scan_targets :: "audit_config \<Rightarrow> 'b audit_env \<Rightarrow> string \<Rightarrow> int \<Rightarrow> string list \<Rightarrow> bool \<Rightarrow> bool option" where
  "scan_targets cfg A operator slashLevel [] indeterminate = Some indeterminate"
| "scan_targets cfg A operator slashLevel (target # rest) indeterminate =
     (case ae_getRecentSlashExecuted A target operator slashLevel (ac_slashLookbackBlocks cfg) of
        Inl _ \<Rightarrow> Some True
      | Inr hit \<Rightarrow> if hit = Some True then None
          else scan_targets cfg A operator slashLevel rest (indeterminate \<or> hit = None))"

definition assessSlashState :: "audit_config \<Rightarrow> 'b audit_env \<Rightarrow> string \<Rightarrow> string \<Rightarrow> int \<Rightarrow> (audit, slash_state) io" where
  "assessSlashState cfg A key operator slashLevel =
     sbind (sgets (\<lambda>st. key \<in> set (au_slashedCoarseKeys st))) (\<lambda>marked. if marked then sret Executed else
     sbind (scatch (in_archive (archive_hasSlashed key)) (\<lambda>_. sret False)) (\<lambda>journal.
     if journal then sbind (markCoarseSlashed key) (\<lambda>_. sret Executed) else
     (case scan_targets cfg A operator slashLevel
             (filter (\<lambda>a. a \<noteq> []) [ac_blsAggregatorAddress cfg, ac_superPaymasterAddress cfg]) False of
        None \<Rightarrow> sbind (recordCoarseSlashed key) (\<lambda>_. sret Executed)
      | Some scanIndeterminate \<Rightarrow>
          if ae_isSlashPending A (ac_superPaymasterAddress cfg) operator (ac_slashLookbackBlocks cfg) = Inr (Some True) then sret Pending
          else if scanIndeterminate then sret Blocked else sret Clear)))"

section \<open>The slash orchestration\<close>

record coord_args =
  ca_operator :: string
  ca_slashLevel :: int
  ca_reason :: string
  ca_epoch :: int
  ca_evidenceHash :: string
  ca_rule :: string

record coord_result =
  cq_proposalTx :: "string option"
  cq_proposalId :: "int option"
  cq_queueTx :: "string option"
  cq_executeTx :: "string option"
  cq_queueMessageHash :: "string option"
  cq_signerMask :: string
  cq_sigG2 :: string
  cq_coSignAborted :: bool

definition audit_blsDomain :: "audit_config \<Rightarrow> bls_consensus_domain" where
  "audit_blsDomain cfg = \<lparr>bd_chainId = ac_chainId cfg, bd_aggregator = ac_blsAggregatorAddress cfg, bd_registry = ac_registryAddress cfg\<rparr>"

definition persistStep :: "slash_proof \<Rightarrow> (audit, unit) io" where
  "persistStep proof = scatch (sbind (in_archive (archive_put proof)) (\<lambda>_. sret ())) (\<lambda>_. sret ())"

definition cosign_request :: "audit_config \<Rightarrow> coord_args \<Rightarrow> string \<Rightarrow> string option \<Rightarrow> string \<Rightarrow> co_sign_request" where
  "cosign_request cfg a step proposalId messageHash =
     \<lparr>cr_proofSchemaVersion = PROOF_SCHEMA_VERSION, cr_step = step, cr_operator = ca_operator a, cr_slashLevel = ca_slashLevel a,
      cr_epoch = ca_epoch a, cr_chainId = ac_chainId cfg, cr_proposalId = proposalId, cr_evidenceHash = Some (ca_evidenceHash a),
      cr_messageHash = messageHash\<rparr>"

text \<open>Step 1. The result is the queue transaction, the co-signed hash (set even when a later call throws) and the proof.\<close>

definition queue_step :: "audit_config \<Rightarrow> 'b audit_env \<Rightarrow> coord_args \<Rightarrow> slash_proof \<Rightarrow>
    (audit, string option \<times> string option \<times> slash_proof) io" where
  "queue_step cfg A a proof =
     (case buildQueueMessageHash (ae_ethers A) (audit_blsDomain cfg) (ca_operator a) (ca_slashLevel a) (ca_epoch a) of
        Inl _ \<Rightarrow> sret (None, None, proof)
      | Inr h \<Rightarrow> scatch
         (sbind (slift (ae_coSign A (cosign_request cfg a ''queue'' None h))) (\<lambda>(signerMask, sigG2).
          sbind (slift (encodeProof (ae_ethers A) signerMask sigG2)) (\<lambda>encoded.
          sbind (log_tx (TxQueue (ca_operator a) (ca_slashLevel a) (ca_epoch a) (ca_evidenceHash a) (ac_dryRun cfg)) (ca_evidenceHash a)) (\<lambda>_.
          sbind (slift (ae_queueSlashWithProof A (ac_dvtValidatorAddress cfg) (ca_operator a) (ca_slashLevel a) (ca_epoch a) encoded
                   (ac_dryRun cfg))) (\<lambda>queueTx.
          let proof' = proof\<lparr>sp_queueTx := Some queueTx, sp_queueMessageHash := Some h\<rparr> in
          sbind (persistStep proof') (\<lambda>_. sret (Some queueTx, Some h, proof')))))))
         (\<lambda>_. sret (None, Some h, proof)))"

text \<open>Step 2, when a proposal has to be filed: the transaction, the id and the proof.\<close>

definition propose_step :: "audit_config \<Rightarrow> 'b audit_env \<Rightarrow> coord_args \<Rightarrow> bool \<Rightarrow> slash_proof \<Rightarrow>
    (audit, string option \<times> int option \<times> slash_proof) io" where
  "propose_step cfg A a armed proof = scatch
     (sbind (log_tx (TxPropose (ca_operator a) (ca_slashLevel a) (ca_evidenceHash a) (ac_dryRun cfg)) (ca_evidenceHash a)) (\<lambda>_.
      sbind (slift (ae_createProposalWithEvidence A (ac_dvtValidatorAddress cfg) (ca_operator a) (ca_slashLevel a) (ca_reason a)
               (ca_evidenceHash a) (ac_dryRun cfg))) (\<lambda>(txHash, proposalId).
      case proposalId of
        Some p \<Rightarrow>
          if armed \<and> txHash \<noteq> DRY_RUN_TX_SENTINEL then
            let proof' = proof\<lparr>sp_proposalId := Some (int_to_string p)\<rparr> in
            sbind (persistStep proof') (\<lambda>_. sret (Some txHash, Some p, proof'))
          else sret (Some txHash, Some p, proof)
      | None \<Rightarrow> sret (Some txHash, None, proof))))
     (\<lambda>_. sret (None, None, proof))"

text \<open>Step 3: the execute transaction, the signer mask and aggregate signature, and the proof.\<close>

definition execute_step :: "audit_config \<Rightarrow> 'b audit_env \<Rightarrow> coord_args \<Rightarrow> int \<Rightarrow> slash_proof \<Rightarrow>
    (audit, string option \<times> string \<times> string \<times> slash_proof) io" where
  "execute_step cfg A a proposalId proof = scatch
     (sbind (slift (buildExecuteMessageHash (ae_ethers A) (audit_blsDomain cfg) proposalId (ca_operator a) (ca_slashLevel a)
               (ca_epoch a) (ca_evidenceHash a))) (\<lambda>execMsgHash.
      sbind (slift (ae_coSign A (cosign_request cfg a ''execute'' (Some (int_to_string proposalId)) execMsgHash))) (\<lambda>(mask, sigG2).
      sbind (slift (encodeProof (ae_ethers A) mask sigG2)) (\<lambda>encoded.
      sbind (log_tx (TxExecute proposalId (ca_epoch a) (ca_evidenceHash a) (ac_dryRun cfg)) (ca_evidenceHash a)) (\<lambda>_.
      sbind (slift (ae_executeSlashWithProof A (ac_dvtValidatorAddress cfg) proposalId (ca_epoch a) encoded (ac_dryRun cfg))) (\<lambda>executeTx.
      let signerMask = ae_toBeHex A mask;
          proof' = proof\<lparr>sp_executeTx := Some executeTx, sp_signerMask := signerMask, sp_sigG2 := sigG2,
                         sp_messageHash := execMsgHash, sp_intendedExecuteMessageHash := None\<rparr>
      in sbind (persistStep proof') (\<lambda>_. sret (Some executeTx, signerMask, sigG2, proof'))))))))
     (\<lambda>_. sret (None, ''0x'', ''0x'', proof))"

definition coordinateQuorumCoSign :: "audit_config \<Rightarrow> 'b audit_env \<Rightarrow> coord_args \<Rightarrow> slash_proof \<Rightarrow> bool \<Rightarrow> int option \<Rightarrow>
    (audit, coord_result \<times> slash_proof) io" where
  "coordinateQuorumCoSign cfg A a proof0 resume resumeProposalId =
     (let fileOnlyRule = (ca_rule a = RULE_OFFLINE) in
      sbind (if \<not> ac_executeSlash cfg \<or> fileOnlyRule then sret False
             else confirmSlashableAtBlock cfg A (ca_operator a) (ca_epoch a)) (\<lambda>armed.
      sbind (if armed \<and> \<not> resume then queue_step cfg A a proof0 else sret (None, None, proof0)) (\<lambda>(queueTx, queueMessageHash, proof1).
      sbind (if resumeProposalId \<noteq> None then sret (None, resumeProposalId, proof1)
             else if \<not> armed \<or> queueTx \<noteq> None \<or> resume then propose_step cfg A a armed proof1
             else sret (None, None, proof1)) (\<lambda>(proposalTx, proposalId, proof2).
      sbind (case proposalId of
               Some p \<Rightarrow> if armed \<and> (queueTx \<noteq> None \<or> resume) then execute_step cfg A a p proof2 else sret (None, ''0x'', ''0x'', proof2)
             | None \<Rightarrow> sret (None, ''0x'', ''0x'', proof2)) (\<lambda>(executeTx, signerMask, sigG2, proof3).
      sret (\<lparr>cq_proposalTx = proposalTx, cq_proposalId = proposalId, cq_queueTx = queueTx, cq_executeTx = executeTx,
             cq_queueMessageHash = queueMessageHash, cq_signerMask = signerMask, cq_sigG2 = sigG2,
             cq_coSignAborted = ((armed \<and> \<not> resume \<and> queueTx = None) \<or> (armed \<and> \<not> ac_dryRun cfg \<and> executeTx = None))\<rparr>, proof3))))))"

section \<open>Handling a violation\<close>

record violation =
  vi_operator :: string
  vi_slashLevel :: int
  vi_reason :: string
  vi_rule :: string
  vi_violationBlock :: int
  vi_violationBlockHash :: string
  vi_observedAt :: int
  vi_identity :: proof_identity
  vi_observed :: string
  vi_threshold :: string
  vi_dedupSubject :: "string option"

definition stable_key :: "audit_config \<Rightarrow> violation \<Rightarrow> string" where
  "stable_key cfg v = int_to_string (ac_chainId cfg) @ ''|'' @ (case vi_dedupSubject v of None \<Rightarrow> vi_operator v | Some d \<Rightarrow> d)
     @ ''|'' @ vi_rule v @ ''|'' @ int_to_string (vi_violationBlock v)"

definition coarse_key_of :: "audit_config \<Rightarrow> violation \<Rightarrow> string" where
  "coarse_key_of cfg v = coarseKey cfg (case vi_dedupSubject v of None \<Rightarrow> vi_operator v | Some d \<Rightarrow> d) (vi_rule v)"

text \<open>The first proof of a violation, with the progress of an archived one carried forward.\<close>

definition initial_proof :: "audit_config \<Rightarrow> 'b audit_env \<Rightarrow> violation \<Rightarrow> string \<Rightarrow> slash_proof option \<Rightarrow> int \<Rightarrow> slash_proof" where
  "initial_proof cfg A v proofHash archived createdAt =
     (let carry = (\<lambda>f. case archived of None \<Rightarrow> None | Some p \<Rightarrow> f p) in
      \<lparr>sp_chainId = ac_chainId cfg, sp_operator = vi_operator v, sp_slashLevel = vi_slashLevel v, sp_reason = vi_reason v,
       sp_epoch = vi_violationBlock v, sp_messageHash = ''0x'', sp_intendedExecuteMessageHash = None, sp_queueMessageHash = carry sp_queueMessageHash,
       sp_evidence = \<lparr>ev_rule = vi_rule v, ev_observed = vi_observed v, ev_threshold = vi_threshold v, ev_violationBlock = vi_violationBlock v,
         ev_violationBlockHash = vi_violationBlockHash v, ev_observedAt = vi_observedAt v\<rparr>,
       sp_proposalId = carry sp_proposalId, sp_signerMask = ''0x'', sp_sigG2 = ''0x'', sp_proofHash = proofHash,
       sp_proposer = (case ae_getWalletAddress A of None \<Rightarrow> ZeroAddress | Some w \<Rightarrow> w), sp_createdAt = createdAt,
       sp_proposalTx = carry sp_proposalTx, sp_queueTx = carry sp_queueTx, sp_executeTx = None\<rparr>)"

text \<open>Whether the violation at this block is already handled: the dedup gate.\<close>

definition dedup_skip :: "audit_config \<Rightarrow> string \<Rightarrow> string \<Rightarrow> string \<Rightarrow> slash_proof option \<Rightarrow> (audit, bool) io" where
  "dedup_skip cfg stableKey key proofHash archived =
     sbind (sgets id) (\<lambda>st.
     let armedUnfinished = (ac_executeSlash cfg \<and> key \<notin> set (au_slashedCoarseKeys st)
           \<and> (case archived of None \<Rightarrow> True | Some p \<Rightarrow> \<not> has_text (sp_executeTx p)))
     in if stableKey \<in> set (au_coSignRetryKeys st) \<or> armedUnfinished then sret False
        else if stableKey \<in> fst ` set (au_proposedStableKeys st) then sret True
        else in_archive (archive_has proofHash))"

text \<open>The bookkeeping after the orchestration, with the updated proof.\<close>

definition after_coordinate :: "audit_config \<Rightarrow> string \<Rightarrow> string \<Rightarrow> bool \<Rightarrow> coord_result \<Rightarrow> slash_proof \<Rightarrow> (audit, slash_proof) io" where
  "after_coordinate cfg stableKey key resume res proof =
     sbind (case cq_executeTx res of
              None \<Rightarrow> (case cq_proposalId res of
                         Some p \<Rightarrow> smodify (\<lambda>st. st\<lparr>au_pendingProposalIds := AList.update key (int_to_string p) (au_pendingProposalIds st)\<rparr>)
                       | None \<Rightarrow> sret ())
            | Some tx \<Rightarrow> if tx \<noteq> DRY_RUN_TX_SENTINEL
                then smodify (\<lambda>st. st\<lparr>au_pendingProposalIds := AList.delete key (au_pendingProposalIds st)\<rparr>) else sret ()) (\<lambda>_.
     let proof1 = (if has_text (cq_queueMessageHash res) then proof\<lparr>sp_queueMessageHash := cq_queueMessageHash res\<rparr> else proof) in
     sbind (if cq_coSignAborted res then
              sbind (smodify (\<lambda>st. st\<lparr>au_coSignRetryKeys := set_add stableKey (au_coSignRetryKeys st)\<rparr>)) (\<lambda>_.
              sbind (if cq_queueTx res \<noteq> None \<or> resume then sret ()
                     else smodify (\<lambda>st. st\<lparr>au_lastProposalAt := AList.delete key (au_lastProposalAt st)\<rparr>)) (\<lambda>_.
              bump_metric (\<lambda>m. m\<lparr>am_coSignAborts := am_coSignAborts m + 1\<rparr>)))
            else smodify (\<lambda>st. st\<lparr>au_coSignRetryKeys := set_delete stableKey (au_coSignRetryKeys st)\<rparr>)) (\<lambda>_.
     (case cq_executeTx res of
        None \<Rightarrow> sret proof1
      | Some tx \<Rightarrow>
          if tx = DRY_RUN_TX_SENTINEL then
            sbind (bump_metric (\<lambda>m. m\<lparr>am_dryRunPassed := am_dryRunPassed m + 1\<rparr>)) (\<lambda>_.
            sret (proof1\<lparr>sp_signerMask := cq_signerMask res, sp_sigG2 := cq_sigG2 res\<rparr>))
          else
            sbind (recordCoarseSlashed key) (\<lambda>_.
            sbind (bump_metric (\<lambda>m. m\<lparr>am_slashesExecuted := am_slashesExecuted m + 1\<rparr>)) (\<lambda>_.
            sret (proof1\<lparr>sp_signerMask := cq_signerMask res, sp_sigG2 := cq_sigG2 res\<rparr>))))))"

definition no_result :: coord_result where
  "no_result = \<lparr>cq_proposalTx = None, cq_proposalId = None, cq_queueTx = None, cq_executeTx = None, cq_queueMessageHash = None,
     cq_signerMask = ''0x'', cq_sigG2 = ''0x'', cq_coSignAborted = False\<rparr>"

text \<open>The on-chain attempt: cooldown, over-slash guard, or the orchestration.\<close>

definition slash_attempt :: "audit_config \<Rightarrow> 'b audit_env \<Rightarrow> violation \<Rightarrow> string \<Rightarrow> string \<Rightarrow> string \<Rightarrow> string option \<Rightarrow> slash_proof \<Rightarrow>
    (audit, coord_result \<times> slash_proof) io" where
  "slash_attempt cfg A v proofHash stableKey key archivedProposalId proof =
     sbind (sgets id) (\<lambda>st.
     let last_attempt = map_of (au_lastProposalAt st) key;
         inFlight = (key \<in> fst ` set (au_pendingProposalIds st) \<or> stableKey \<in> set (au_coSignRetryKeys st))
     in sbind (case last_attempt of None \<Rightarrow> sret False
               | Some t \<Rightarrow> sbind (audit_clock A) (\<lambda>now. sret (now - t < ac_cooldownMs cfg))) (\<lambda>withinCooldown.
     sbind (if ac_executeSlash cfg \<and> (\<not> withinCooldown \<or> inFlight)
            then assessSlashState cfg A key (vi_operator v) (vi_slashLevel v) else sret Clear) (\<lambda>slashState.
     if withinCooldown then sbind (audit_clock A) (\<lambda>_. sret (no_result, proof))
     else if slashState = Executed \<or> slashState = Blocked then
       sbind (bump_metric (\<lambda>m. m\<lparr>am_overSlashSkips := am_overSlashSkips m + 1\<rparr>)) (\<lambda>_. sret (no_result, proof))
     else let resume = (slashState = Pending) in
       sbind (audit_clock A) (\<lambda>now.
       sbind (smodify (\<lambda>st. st\<lparr>au_lastProposalAt := AList.update key now (au_lastProposalAt st)\<rparr>)) (\<lambda>_.
       sbind (sgets (\<lambda>st. case archivedProposalId of Some p \<Rightarrow> Some p | None \<Rightarrow> map_of (au_pendingProposalIds st) key)) (\<lambda>carried.
       sbind (if resume \<and> has_text carried then slift (rbind (js_BigInt (the carried)) (\<lambda>p. Inr (Some p))) else sret None) (\<lambda>resumeProposalId.
       sbind (coordinateQuorumCoSign cfg A
                \<lparr>ca_operator = vi_operator v, ca_slashLevel = vi_slashLevel v, ca_reason = vi_reason v, ca_epoch = vi_violationBlock v,
                 ca_evidenceHash = proofHash, ca_rule = vi_rule v\<rparr> proof resume resumeProposalId) (\<lambda>(res, proof').
       sbind (after_coordinate cfg stableKey key resume res proof') (\<lambda>proof''. sret (res, proof''))))))))))"

definition final_proof :: "audit_config \<Rightarrow> 'b audit_env \<Rightarrow> violation \<Rightarrow> string \<Rightarrow> coord_result \<Rightarrow> slash_proof \<Rightarrow> slash_proof result" where
  "final_proof cfg A v proofHash res proof =
     rbind (case cq_proposalId res of
              None \<Rightarrow> Inr (proof\<lparr>sp_messageHash := ''0x''\<rparr>)
            | Some p \<Rightarrow>
                rbind (buildExecuteMessageHash (ae_ethers A) (audit_blsDomain cfg) p (vi_operator v) (vi_slashLevel v) (vi_violationBlock v) proofHash)
                  (\<lambda>h. Inr (if cq_executeTx res \<noteq> None
                       then proof\<lparr>sp_messageHash := h, sp_intendedExecuteMessageHash := None, sp_proposalId := Some (int_to_string p)\<rparr>
                       else proof\<lparr>sp_messageHash := ''0x'', sp_intendedExecuteMessageHash := Some h, sp_proposalId := Some (int_to_string p)\<rparr>)))
       (\<lambda>q. Inr (q\<lparr>sp_proposalTx := (if has_text (cq_proposalTx res) then cq_proposalTx res else sp_proposalTx q),
                    sp_queueTx := (if has_text (cq_queueTx res) then cq_queueTx res else sp_queueTx q),
                    sp_executeTx := (if has_text (cq_executeTx res) then cq_executeTx res else sp_executeTx q)\<rparr>))"

text \<open>A violation up to its first durable record: \<open>None\<close> when it is already handled, otherwise the archived proof and the
  proposal id of an incomplete attempt.\<close>

definition open_violation :: "audit_config \<Rightarrow> 'b audit_env \<Rightarrow> violation \<Rightarrow> string \<Rightarrow> (audit, (slash_proof \<times> string option) option) io" where
  "open_violation cfg A v proofHash =
     sbind (if ac_executeSlash cfg then in_archive (archive_get proofHash) else sret None) (\<lambda>archived.
     sbind (dedup_skip cfg (stable_key cfg v) (coarse_key_of cfg v) proofHash archived) (\<lambda>skip. if skip then sret None else
     sbind (audit_clock A) (\<lambda>createdAt.
     let proof = initial_proof cfg A v proofHash archived createdAt;
         resumeId = (case archived of None \<Rightarrow> None
           | Some p \<Rightarrow> if has_text (sp_queueTx p) \<and> \<not> has_text (sp_executeTx p) then sp_proposalId p else None)
     in sbind (in_archive (archive_put proof)) (\<lambda>_.
        sbind (recordStableKey A (stable_key cfg v)) (\<lambda>_. sret (Some (proof, resumeId)))))))"

text \<open>From the result of the attempt to the reported detection.\<close>

definition close_violation :: "audit_config \<Rightarrow> 'b audit_env \<Rightarrow> violation \<Rightarrow> string \<Rightarrow> coord_result \<Rightarrow> slash_proof \<Rightarrow>
    (audit, audit_detection option) io" where
  "close_violation cfg A v proofHash res proof =
     sbind (slift (final_proof cfg A v proofHash res proof)) (\<lambda>proof'.
     sbind (in_archive (archive_put proof')) (\<lambda>_.
     let detection = \<lparr>ad_operator = vi_operator v, ad_rule = vi_rule v, ad_proofHash = proofHash,
           ad_proposalId = map_option int_to_string (cq_proposalId res), ad_reason = vi_reason v, ad_detectedAt = vi_observedAt v,
           ad_proposalTx = cq_proposalTx res, ad_queueTx = cq_queueTx res, ad_executeTx = cq_executeTx res\<rparr>
     in sbind (smodify (\<lambda>st. st\<lparr>au_recentDetections := take MAX_RECENT (detection # au_recentDetections st)\<rparr>)) (\<lambda>_.
        sbind (bump_metric (\<lambda>m. m\<lparr>am_detections := am_detections m + 1\<rparr>)) (\<lambda>_.
        sret (Some detection)))))"

definition handleViolation :: "audit_config \<Rightarrow> 'b audit_env \<Rightarrow> violation \<Rightarrow> (audit, audit_detection option) io" where
  "handleViolation cfg A v =
     (let proofHash = computeProofHash (ae_ethers A) (vi_identity v) in
      sbind (open_violation cfg A v proofHash) (\<lambda>x. case x of None \<Rightarrow> sret None
      | Some (proof, resumeId) \<Rightarrow>
          sbind (slash_attempt cfg A v proofHash (stable_key cfg v) (coarse_key_of cfg v) resumeId proof) (\<lambda>(res, proof').
          close_violation cfg A v proofHash res proof')))"

section \<open>The offline rule and the tick\<close>

definition offline_identity :: "audit_config \<Rightarrow> 'b ethers \<Rightarrow> string \<Rightarrow> int \<Rightarrow> proof_identity" where
  "offline_identity cfg E operator violationBlock =
     \<lparr>pi_proofSchemaVersion = PROOF_SCHEMA_VERSION, pi_chainId = ac_chainId cfg, pi_operator = operator, pi_rule = RULE_OFFLINE,
      pi_violationBlock = violationBlock, pi_slashLevel = SLASH_LEVEL_OFFLINE, pi_registry = normalizeAddress E (ac_registryAddress cfg),
      pi_dvtValidator = normalizeAddress E (ac_dvtValidatorAddress cfg), pi_creditLimit = None, pi_availableCredit = None, pi_debt = None,
      pi_superPaymaster = None, pi_apntsToken = None, pi_offlineThresholdMs = Some OFFLINE_THRESHOLD_MS,
      pi_blsAggregator = Some (normalizeAddress E (ac_blsAggregatorAddress cfg)), pi_overIssueToken = None\<rparr>"

definition offline_violation :: "audit_config \<Rightarrow> 'b ethers \<Rightarrow> string \<Rightarrow> string \<Rightarrow> int \<Rightarrow> string \<Rightarrow> int \<Rightarrow> int \<Rightarrow> violation" where
  "offline_violation cfg E operator nodeId block hash offlineForMs observedAt =
     \<lparr>vi_operator = operator, vi_slashLevel = SLASH_LEVEL_OFFLINE,
      vi_reason = ''offline: nodeId '' @ nodeId @ '' last heartbeat '' @ int_to_string offlineForMs @ ''ms before finalized block ''
        @ int_to_string block @ '' (> threshold '' @ int_to_string OFFLINE_THRESHOLD_MS @ ''ms)'',
      vi_rule = RULE_OFFLINE, vi_violationBlock = block, vi_violationBlockHash = hash, vi_observedAt = observedAt,
      vi_identity = offline_identity cfg E operator block, vi_observed = ''offline '' @ int_to_string offlineForMs @ ''ms'',
      vi_threshold = int_to_string OFFLINE_THRESHOLD_MS @ ''ms'', vi_dedupSubject = None\<rparr>"

definition auditOfflineForOperator :: "audit_config \<Rightarrow> 'b audit_env \<Rightarrow> string \<Rightarrow> int \<times> string \<Rightarrow> string option \<Rightarrow> (audit, unit) io" where
  "auditOfflineForOperator cfg A operator pinnedBlock preResolvedNodeId =
     (if \<not> ac_offlineEnabled cfg \<or> \<not> ac_gossip cfg \<or> ac_blsAggregatorAddress cfg = [] then sret ()
      else sbind (case preResolvedNodeId of Some n \<Rightarrow> sret (Some n)
                  | None \<Rightarrow> slift (ae_getOperatorNodeId A (ac_blsAggregatorAddress cfg) operator)) (\<lambda>nodeId.
      if \<not> has_text nodeId then sret () else
      (case ae_getLastSeen A (the nodeId) of None \<Rightarrow> sret ()
       | Some lastSeen \<Rightarrow>
      (case ae_getBlockTimestamp A (fst pinnedBlock) of Inl _ \<Rightarrow> sret ()
       | Inr blockTsSec \<Rightarrow>
      sbind (audit_clock A) (\<lambda>now. if now < blockTsSec * 1000 then sbind (audit_clock A) (\<lambda>_. sret ()) else
      let deadlineMs = blockTsSec * 1000 - OFFLINE_THRESHOLD_MS in
      if lastSeen \<ge> deadlineMs then clearCoarseSlashed cfg operator RULE_OFFLINE
      else sbind (audit_clock A) (\<lambda>observedAt.
           sbind (handleViolation cfg A (offline_violation cfg (ae_ethers A) operator (the nodeId) (fst pinnedBlock) (snd pinnedBlock)
             (blockTsSec * 1000 - lastSeen) observedAt)) (\<lambda>_. sret ())))))))"

text \<open>The stable operator to node id cache of the tick.\<close>

fun resolve_node_ids :: "audit_config \<Rightarrow> 'b audit_env \<Rightarrow> string list \<Rightarrow> (string \<times> string) list \<Rightarrow> (string \<times> string) list" where
  "resolve_node_ids cfg A [] cache = cache"
| "resolve_node_ids cfg A (operator # rest) cache =
     resolve_node_ids cfg A rest (case ae_getOperatorNodeId A (ac_blsAggregatorAddress cfg) operator of
        Inl _ \<Rightarrow> cache
      | Inr nid \<Rightarrow> if has_text nid then AList.update operator (the nid) cache else AList.delete operator cache)"

definition refresh_node_ids :: "audit_config \<Rightarrow> 'b audit_env \<Rightarrow> string list \<Rightarrow> audit \<Rightarrow> audit" where
  "refresh_node_ids cfg A operators st =
     (if ac_offlineEnabled cfg \<and> ac_gossip cfg \<and> ac_blsAggregatorAddress cfg \<noteq> [] then
        let cache = resolve_node_ids cfg A operators (filter (\<lambda>(oper, _). oper \<in> set operators) (au_offlineNodeIdCache st))
        in st\<lparr>au_offlineNodeIdCache := cache, au_relevantNodeIds := map snd cache\<rparr>
      else st)"

fun sweep :: "audit_config \<Rightarrow> 'b audit_env \<Rightarrow> int \<times> string \<Rightarrow> string list \<Rightarrow> (audit, unit) io" where
  "sweep cfg A pinnedBlock [] = sret ()"
| "sweep cfg A pinnedBlock (operator # rest) =
     sbind (if ac_offlineEnabled cfg
            then sbind (sgets (\<lambda>st. map_of (au_offlineNodeIdCache st) operator)) (\<lambda>nid.
              scatch (auditOfflineForOperator cfg A operator pinnedBlock nid)
                (\<lambda>_. bump_metric (\<lambda>m. m\<lparr>am_errors := am_errors m + 1\<rparr>)))
            else sret ()) (\<lambda>_. sweep cfg A pinnedBlock rest)"

definition tick_sweep :: "audit_config \<Rightarrow> 'b audit_env \<Rightarrow> (audit, unit) io" where
  "tick_sweep cfg A =
     (case ae_getViolationBlock A (ac_finalityConfirmations cfg) of Inl _ \<Rightarrow> sret ()
      | Inr pinnedBlock \<Rightarrow>
        sbind (refreshDerivedOperators cfg A False (Some (fst pinnedBlock))) (\<lambda>_.
        sbind (if ac_roleDerive cfg then sbind (derivedSetIsFresh cfg A) (\<lambda>_. sret ()) else sret ()) (\<lambda>_.
        sbind (sgets (effectiveWatchlist cfg)) (\<lambda>operators.
        sbind (smodify (refresh_node_ids cfg A operators)) (\<lambda>_.
        sweep cfg A pinnedBlock operators)))))"

definition audit_tick :: "audit_config \<Rightarrow> 'b audit_env \<Rightarrow> (audit, unit) io" where
  "audit_tick cfg A st =
     (if au_tickInFlight st then (Inr (), st)
      else case sbind (smodify (\<lambda>st. st\<lparr>au_tickInFlight := True\<rparr>)) (\<lambda>_.
             sbind (audit_clock A) (\<lambda>now.
             sbind (smodify (\<lambda>st. st\<lparr>au_lastTickAt := Some now\<rparr>)) (\<lambda>_.
             sbind (pruneDedupState cfg A) (\<lambda>_. tick_sweep cfg A)))) st of
           (r, st') \<Rightarrow> (r, st'\<lparr>au_tickInFlight := False\<rparr>))"

section \<open>Construction and bootstrap\<close>

record audit_settings =
  auditEnabled :: "bool option"
  auditCooldownMs :: "int option"
  auditWatchlist :: "string list option"
  auditChainId :: "int option"
  auditRegistryAddress :: "string option"
  auditSuperPaymasterAddress :: "string option"
  auditDvtValidatorAddress :: "string option"
  auditBlsAggregatorAddress :: "string option"
  auditBlsAggregatorAddressFromEnv :: "bool option"
  auditGtokenStakingAddress :: "string option"
  auditExecuteSlash :: "bool option"
  auditDryRun :: "bool option"
  auditFinalityConfirmations :: "int option"
  auditSlashLookbackBlocks :: "int option"
  auditRoleDerive :: "bool option"
  auditRoleIds :: "string list option"
  auditRoleFromBlock :: "int option"
  auditRoleLogChunk :: "int option"
  auditRoleRefreshMs :: "int option"
  auditRoleUseGetter :: "bool option"
  auditRoleMaxStaleMs :: "int option"
  auditOfflineEnabled :: "bool option"

definition or_else :: "'a option \<Rightarrow> 'a \<Rightarrow> 'a" where
  "or_else x d = (case x of None \<Rightarrow> d | Some v \<Rightarrow> v)"

definition ingest_watchlist :: "'b ethers \<Rightarrow> string list \<Rightarrow> string list" where
  "ingest_watchlist E entries = List.map_filter (getAddress E) (filter (\<lambda>a. a \<noteq> []) (map trim entries))"

definition AuditService_config :: "'b ethers \<Rightarrow> audit_settings \<Rightarrow> bool \<Rightarrow> audit_config" where
  "AuditService_config E s gossip =
     \<lparr>ac_cooldownMs = or_else (auditCooldownMs s) 3600000,
      ac_watchlist = ingest_watchlist E (or_else (auditWatchlist s) []),
      ac_chainId = or_else (auditChainId s) 11155111,
      ac_registryAddress = or_else (auditRegistryAddress s) [],
      ac_superPaymasterAddress = or_else (auditSuperPaymasterAddress s) [],
      ac_dvtValidatorAddress = or_else (auditDvtValidatorAddress s) [],
      ac_blsAggregatorAddress = or_else (auditBlsAggregatorAddress s) [],
      ac_blsAggregatorAddressFromEnv = (auditBlsAggregatorAddressFromEnv s = Some True),
      ac_gtokenStakingAddress = or_else (auditGtokenStakingAddress s) [],
      ac_executeSlash = (auditExecuteSlash s = Some True),
      ac_dryRun = (auditDryRun s = Some True),
      ac_finalityConfirmations = or_else (auditFinalityConfirmations s) 12,
      ac_slashLookbackBlocks = or_else (auditSlashLookbackBlocks s) 50000,
      ac_roleDerive = (auditRoleDerive s = Some True),
      ac_roleIds = map (ethers_id E) (or_else (auditRoleIds s) []),
      ac_roleFromBlock = or_else (auditRoleFromBlock s) 0,
      ac_roleLogChunk = or_else (auditRoleLogChunk s) 10000,
      ac_roleRefreshMs = or_else (auditRoleRefreshMs s) 300000,
      ac_roleUseGetter = (auditRoleUseGetter s = Some True),
      ac_roleMaxStaleMs = or_else (auditRoleMaxStaleMs s) 900000,
      ac_offlineEnabled = (auditOfflineEnabled s = Some True),
      ac_gossip = gossip\<rparr>"

definition AuditService_new :: "audit_settings \<Rightarrow> archive \<Rightarrow> audit" where
  "AuditService_new s arch =
     \<lparr>au_enabled = (auditEnabled s = Some True), au_offlineNodeIdCache = [], au_derivedOperators = [], au_lastRoleRefreshAt = None,
      au_lastRoleAttemptAt = None, au_roleDeriveSucceeded = False, au_lastTickAt = None, au_tickInFlight = False,
      au_proposedStableKeys = [], au_lastProposalAt = [], au_slashedCoarseKeys = [], au_coSignRetryKeys = [], au_pendingProposalIds = [],
      au_recentDetections = [], au_metrics = \<lparr>am_detections = 0, am_slashesExecuted = 0, am_dryRunPassed = 0, am_coSignAborts = 0,
        am_overSlashSkips = 0, am_errors = 0\<rparr>, au_archive = arch, au_relevantNodeIds = [], au_txs = [], au_clockReads = 0\<rparr>"

definition has_code :: "'b audit_env \<Rightarrow> string \<Rightarrow> bool" where
  "has_code A addr = (case ae_getCode A addr of Inl _ \<Rightarrow> False | Inr code \<Rightarrow> code \<noteq> [] \<and> code \<noteq> ''0x'')"

text \<open>The fail-closed checks of the bootstrap, in its order.\<close>

definition bootstrap_ok :: "audit_config \<Rightarrow> 'b audit_env \<Rightarrow> bool" where
  "bootstrap_ok cfg A \<longleftrightarrow>
     ac_registryAddress cfg \<noteq> [] \<and> ac_superPaymasterAddress cfg \<noteq> [] \<and> ac_dvtValidatorAddress cfg \<noteq> []
     \<and> (ac_offlineEnabled cfg \<longrightarrow> ac_blsAggregatorAddress cfg \<noteq> [])
     \<and> ac_chainId cfg > 0
     \<and> (case ae_getChainId A of Inl _ \<Rightarrow> False
        | Inr providerChainId \<Rightarrow> checkAggregatorChainPolicy
            \<lparr>cp_expectedChainId = ac_chainId cfg, cp_providerChainId = providerChainId,
             cp_aggregatorFromEnv = ac_blsAggregatorAddressFromEnv cfg, cp_aggregatorRequired = ac_offlineEnabled cfg\<rparr> = PolicyOk)
     \<and> list_all (has_code A) ([ac_registryAddress cfg, ac_superPaymasterAddress cfg, ac_dvtValidatorAddress cfg]
         @ (if ac_offlineEnabled cfg \<and> ac_blsAggregatorAddress cfg \<noteq> [] then [ac_blsAggregatorAddress cfg] else [])
         @ (if ac_gtokenStakingAddress cfg \<noteq> [] then [ac_gtokenStakingAddress cfg] else []))
     \<and> (ac_offlineEnabled cfg \<and> ac_blsAggregatorAddress cfg \<noteq> [] \<longrightarrow> is_ok (ae_probeBlsAggregator A (ac_blsAggregatorAddress cfg)))
     \<and> \<not> (ac_roleDerive cfg \<and> ac_roleIds cfg \<noteq> [] \<and> \<not> ac_roleUseGetter cfg \<and> ac_roleFromBlock cfg = 0)"

text \<open>The result says whether the timers are started.\<close>

definition audit_onApplicationBootstrap :: "audit_config \<Rightarrow> 'b audit_env \<Rightarrow> (audit, bool) io" where
  "audit_onApplicationBootstrap cfg A =
     sbind (sgets au_enabled) (\<lambda>enabled. if \<not> enabled then sret False
     else if ac_watchlist cfg = [] \<and> \<not> ac_roleDerive cfg then sret False
     else if \<not> bootstrap_ok cfg A then sbind (smodify (\<lambda>st. st\<lparr>au_enabled := False\<rparr>)) (\<lambda>_. sret False)
     else sbind (if ac_roleDerive cfg \<and> ac_roleIds cfg \<noteq> [] then refreshDerivedOperators cfg A True None else sret ()) (\<lambda>_. sret True))"

definition computeJitterMs :: "rat \<Rightarrow> int \<Rightarrow> int" where
  "computeJitterMs random intervalMs = \<lfloor>random * of_int intervalMs\<rfloor>"

end
