(* ===== verification/Audit_Safety.thy ===== *)
theory Audit_Safety
  imports Audit_Service
begin

text \<open>
  What the audit service may write on chain. \<open>txs\<close> is the log of the contract writes; the lemmas follow the service
  from the bookkeeping, which writes nothing, over the three steps of the orchestration to a whole violation and a whole
  tick. \<open>slash_protocol\<close> is the abstract contract of one violation: the sequences of writes it may cause and what each needs.
\<close>

section \<open>Bookkeeping writes nothing\<close>

definition txs :: "audit \<Rightarrow> audit_tx list" where
  "txs st = map fst (au_txs st)"

definition wrote :: "(audit_tx \<times> slash_proof option option) list \<Rightarrow> audit \<Rightarrow> bool" where
  "wrote L st \<longleftrightarrow> au_txs st = L"

lemma wrote_smodify [frame_rules]:
  "(\<And>s. au_txs (g s) = au_txs s) \<Longrightarrow> stable (wrote L) (smodify g)"
  by (simp add: stable_def wrote_def)

lemma wrote_primitive [frame_rules]:
  "stable (wrote L) (audit_clock A)" "stable (wrote L) (in_archive m)"
  "total_io (audit_clock A)" "total_io m \<Longrightarrow> total_io (in_archive m)"
  by (auto simp: stable_def wrote_def audit_clock_def in_archive_def total_io_def split: prod.splits) (metis fst_conv)

lemma wrote_bookkeeping [frame_rules]:
  "stable (wrote L) (bump_metric f)" "stable (wrote L) (recordStableKey A k)" "stable (wrote L) (markCoarseSlashed k)"
  "stable (wrote L) (recordCoarseSlashed k)" "stable (wrote L) (clearCoarseSlashed cfg oper rule)"
  "stable (wrote L) (persistStep p)" "stable (wrote L) (pruneDedupState cfg A)"
  unfolding bump_metric_def recordStableKey_def markCoarseSlashed_def recordCoarseSlashed_def clearCoarseSlashed_def
    persistStep_def pruneDedupState_def Let_def
  by (intro frame_rules; simp)+

lemma total_bookkeeping [frame_rules]:
  "total_io (bump_metric f)" "total_io (recordStableKey A k)" "total_io (markCoarseSlashed k)"
  "total_io (recordCoarseSlashed k)" "total_io (clearCoarseSlashed cfg oper rule)"
  "total_io (persistStep p)" "total_io (pruneDedupState cfg A)"
  unfolding bump_metric_def recordStableKey_def markCoarseSlashed_def recordCoarseSlashed_def clearCoarseSlashed_def
    persistStep_def pruneDedupState_def Let_def
  by (intro frame_rules)+

lemma wrote_roles [frame_rules]:
  "stable (wrote L) (derivedSetIsFresh cfg A)" "stable (wrote L) (confirmSlashableAtBlock cfg A oper b)"
  "stable (wrote L) (doRefreshDerivedOperators cfg A now pin)" "stable (wrote L) (refreshDerivedOperators cfg A force pin)"
proof -
  show fresh: "stable (wrote L) (derivedSetIsFresh cfg A)"
    unfolding derivedSetIsFresh_def by (intro frame_rules)
  show "stable (wrote L) (confirmSlashableAtBlock cfg A oper b)"
    unfolding confirmSlashableAtBlock_def by (intro frame_rules fresh)
  show refresh: "stable (wrote L) (doRefreshDerivedOperators cfg A now pin)" for now
    unfolding doRefreshDerivedOperators_def by (intro frame_rules; simp)
  show "stable (wrote L) (refreshDerivedOperators cfg A force pin)"
    unfolding refreshDerivedOperators_def by (intro frame_rules refresh; simp)
qed

lemma total_roles [frame_rules]:
  "total_io (derivedSetIsFresh cfg A)" "total_io (confirmSlashableAtBlock cfg A oper b)"
  "total_io (doRefreshDerivedOperators cfg A now pin)" "total_io (refreshDerivedOperators cfg A force pin)"
proof -
  show fresh: "total_io (derivedSetIsFresh cfg A)"
    unfolding derivedSetIsFresh_def by (intro frame_rules)
  show "total_io (confirmSlashableAtBlock cfg A oper b)"
    unfolding confirmSlashableAtBlock_def by (intro frame_rules fresh)
  show refresh: "total_io (doRefreshDerivedOperators cfg A now pin)" for now
    unfolding doRefreshDerivedOperators_def by (intro frame_rules)
  show "total_io (refreshDerivedOperators cfg A force pin)"
    unfolding refreshDerivedOperators_def by (intro frame_rules refresh)
qed

lemma wrote_violation [frame_rules]:
  "stable (wrote L) (assessSlashState cfg A key oper level)" "stable (wrote L) (dedup_skip cfg k key h archived)"
  "stable (wrote L) (after_coordinate cfg k key resume res proof)"
  unfolding assessSlashState_def dedup_skip_def after_coordinate_def Let_def
  by (intro frame_rules; simp)+

lemma total_violation [frame_rules]:
  "total_io (assessSlashState cfg A key oper level)" "total_io (dedup_skip cfg k key h archived)"
  "total_io (after_coordinate cfg k key resume res proof)"
  unfolding assessSlashState_def dedup_skip_def after_coordinate_def archive_has_def Let_def
  by (intro frame_rules)+

section \<open>The two-step protocol\<close>

text \<open>The arguments of the orchestration of a violation, and its three writes.\<close>

definition attempt_args :: "violation \<Rightarrow> string \<Rightarrow> coord_args" where
  "attempt_args v proofHash = \<lparr>ca_operator = vi_operator v, ca_slashLevel = vi_slashLevel v, ca_reason = vi_reason v,
     ca_epoch = vi_violationBlock v, ca_evidenceHash = proofHash, ca_rule = vi_rule v\<rparr>"

definition queue_tx :: "audit_config \<Rightarrow> coord_args \<Rightarrow> audit_tx" where
  "queue_tx cfg a = TxQueue (ca_operator a) (ca_slashLevel a) (ca_epoch a) (ca_evidenceHash a) (ac_dryRun cfg)"

definition propose_tx :: "audit_config \<Rightarrow> coord_args \<Rightarrow> audit_tx" where
  "propose_tx cfg a = TxPropose (ca_operator a) (ca_slashLevel a) (ca_evidenceHash a) (ac_dryRun cfg)"

definition execute_tx :: "audit_config \<Rightarrow> coord_args \<Rightarrow> int \<Rightarrow> audit_tx" where
  "execute_tx cfg a proposalId = TxExecute proposalId (ca_epoch a) (ca_evidenceHash a) (ac_dryRun cfg)"

text \<open>A quorum co-signed the preimage of a step and its proof encodes.\<close>

definition quorum_for :: "audit_config \<Rightarrow> 'b audit_env \<Rightarrow> coord_args \<Rightarrow> string \<Rightarrow> string option \<Rightarrow> string result \<Rightarrow> bool" where
  "quorum_for cfg A a step proposalId preimage \<longleftrightarrow> (\<exists>h mask sigG2. preimage = Inr h
     \<and> ae_coSign A (cosign_request cfg a step proposalId h) = Inr (mask, sigG2) \<and> is_ok (encodeProof (ae_ethers A) mask sigG2))"

definition queue_quorum :: "audit_config \<Rightarrow> 'b audit_env \<Rightarrow> coord_args \<Rightarrow> bool" where
  "queue_quorum cfg A a \<longleftrightarrow> quorum_for cfg A a ''queue'' None
     (buildQueueMessageHash (ae_ethers A) (audit_blsDomain cfg) (ca_operator a) (ca_slashLevel a) (ca_epoch a))"

definition execute_quorum :: "audit_config \<Rightarrow> 'b audit_env \<Rightarrow> coord_args \<Rightarrow> int \<Rightarrow> bool" where
  "execute_quorum cfg A a p \<longleftrightarrow> quorum_for cfg A a ''execute'' (Some (int_to_string p))
     (buildExecuteMessageHash (ae_ethers A) (audit_blsDomain cfg) p (ca_operator a) (ca_slashLevel a) (ca_epoch a) (ca_evidenceHash a))"

definition queue_confirmed :: "audit_config \<Rightarrow> 'b audit_env \<Rightarrow> coord_args \<Rightarrow> bool" where
  "queue_confirmed cfg A a \<longleftrightarrow> (\<exists>encoded. is_ok (ae_queueSlashWithProof A (ac_dvtValidatorAddress cfg) (ca_operator a)
     (ca_slashLevel a) (ca_epoch a) encoded (ac_dryRun cfg)))"

definition filed :: "audit_config \<Rightarrow> 'b audit_env \<Rightarrow> coord_args \<Rightarrow> int \<Rightarrow> bool" where
  "filed cfg A a p \<longleftrightarrow> (\<exists>tx. ae_createProposalWithEvidence A (ac_dvtValidatorAddress cfg) (ca_operator a) (ca_slashLevel a)
     (ca_reason a) (ca_evidenceHash a) (ac_dryRun cfg) = Inr (tx, Some p))"

definition may_slash :: "audit_config \<Rightarrow> 'b audit_env \<Rightarrow> coord_args \<Rightarrow> bool" where
  "may_slash cfg A a \<longleftrightarrow> ac_executeSlash cfg \<and> ca_rule a \<noteq> RULE_OFFLINE
     \<and> (ca_operator a \<in> set (ac_watchlist cfg) \<or> any_role cfg A (ca_operator a) (ca_epoch a) (ac_roleIds cfg))"

definition chain_state :: "audit_config \<Rightarrow> 'b audit_env \<Rightarrow> string \<Rightarrow> int \<Rightarrow> slash_state" where
  "chain_state cfg A operator slashLevel =
     (case scan_targets cfg A operator slashLevel (filter (\<lambda>a. a \<noteq> []) [ac_blsAggregatorAddress cfg, ac_superPaymasterAddress cfg]) False of
        None \<Rightarrow> Executed
      | Some indeterminate \<Rightarrow>
          if ae_isSlashPending A (ac_superPaymasterAddress cfg) operator (ac_slashLookbackBlocks cfg) = Inr (Some True) then Pending
          else if indeterminate then Blocked else Clear)"

text \<open>The sequences of writes, oldest first, one orchestration may cause; \<open>resume\<close> is whether it resumes a pending slash.\<close>

inductive slash_protocol :: "audit_config \<Rightarrow> 'b audit_env \<Rightarrow> coord_args \<Rightarrow> bool \<Rightarrow> audit_tx list \<Rightarrow> bool"
  for cfg A a where
  idle: "slash_protocol cfg A a resume []"
| file_only: "\<not> (ac_executeSlash cfg \<and> ca_rule a \<noteq> RULE_OFFLINE \<and> ca_operator a \<in> set (ac_watchlist cfg)) \<Longrightarrow>
    slash_protocol cfg A a resume [propose_tx cfg a]"
| queued: "may_slash cfg A a \<Longrightarrow> queue_quorum cfg A a \<Longrightarrow> slash_protocol cfg A a False [queue_tx cfg a]"
| proposed: "may_slash cfg A a \<Longrightarrow> queue_quorum cfg A a \<Longrightarrow> queue_confirmed cfg A a \<Longrightarrow>
    slash_protocol cfg A a False [queue_tx cfg a, propose_tx cfg a]"
| executed: "may_slash cfg A a \<Longrightarrow> queue_quorum cfg A a \<Longrightarrow> queue_confirmed cfg A a \<Longrightarrow> filed cfg A a p \<Longrightarrow>
    execute_quorum cfg A a p \<Longrightarrow> slash_protocol cfg A a False [queue_tx cfg a, propose_tx cfg a, execute_tx cfg a p]"
| resume_proposed: "may_slash cfg A a \<Longrightarrow> slash_protocol cfg A a True [propose_tx cfg a]"
| resume_executed: "may_slash cfg A a \<Longrightarrow> filed cfg A a p \<Longrightarrow> execute_quorum cfg A a p \<Longrightarrow>
    slash_protocol cfg A a True [propose_tx cfg a, execute_tx cfg a p]"
| resume_reused: "may_slash cfg A a \<Longrightarrow> execute_quorum cfg A a p \<Longrightarrow> slash_protocol cfg A a True [execute_tx cfg a p]"

inductive_cases slash_protocol_cases: "slash_protocol cfg A a resume new"

section \<open>The three steps\<close>

lemma txs_log [simp]:
  "txs (st\<lparr>au_txs := x # L\<rparr>) = fst x # map fst L" "log_tx t ev st = (Inr (), st\<lparr>au_txs := (t, ar_files (au_archive st) ev) # au_txs st\<rparr>)"
  by (simp_all add: txs_def log_tx_def)

lemma txs_quiet:
  assumes "\<And>L. stable (wrote L) m" "m st = (r, st')"
  shows "au_txs st' = au_txs st" "txs st' = txs st"
  using stableD [OF assms(1) _ assms(2), of "au_txs st"] by (simp_all add: wrote_def txs_def)

lemma persist_effect: "\<exists>st'. persistStep p st = (Inr (), st') \<and> txs st' = txs st"
  using total_ioD [OF total_bookkeeping(6), of p st] txs_quiet(2) [OF wrote_bookkeeping(6), of p st] by fastforce

lemma queue_step_effect:
  assumes "queue_step cfg A a proof st = (r, st')"
  shows "\<exists>q h p. r = Inr (q, h, p) \<and> (txs st' = txs st \<and> q = None \<or>
    txs st' = queue_tx cfg a # txs st \<and> queue_quorum cfg A a \<and> (q \<noteq> None \<longrightarrow> queue_confirmed cfg A a))"
proof (cases "buildQueueMessageHash (ae_ethers A) (audit_blsDomain cfg) (ca_operator a) (ca_slashLevel a) (ca_epoch a)")
  case (Inr h)
  show ?thesis
  proof (cases "\<exists>mask sig encoded. ae_coSign A (cosign_request cfg a ''queue'' None h) = Inr (mask, sig) \<and> encodeProof (ae_ethers A) mask sig = Inr encoded")
    case True
    then obtain mask sig encoded where c: "ae_coSign A (cosign_request cfg a ''queue'' None h) = Inr (mask, sig)"
      "encodeProof (ae_ethers A) mask sig = Inr encoded" by blast
    then have quorum: "queue_quorum cfg A a" using Inr by (auto simp: queue_quorum_def quorum_for_def)
    let ?st = "st\<lparr>au_txs := (queue_tx cfg a, ar_files (au_archive st) (ca_evidenceHash a)) # au_txs st\<rparr>"
    show ?thesis
    proof (cases "ae_queueSlashWithProof A (ac_dvtValidatorAddress cfg) (ca_operator a) (ca_slashLevel a) (ca_epoch a) encoded (ac_dryRun cfg)")
      case (Inl e)
      then show ?thesis using assms Inr c quorum
        by (auto simp: queue_step_def scatch_def sbind_def queue_tx_def txs_def split: prod.splits)
    next
      case (Inr tx)
      then have conf: "queue_confirmed cfg A a" unfolding queue_confirmed_def by (metis is_ok_simps(2))
      obtain t where t: "persistStep (proof\<lparr>sp_queueTx := Some tx, sp_queueMessageHash := Some h\<rparr>) ?st = (Inr (), t)" "txs t = txs ?st"
        using persist_effect by blast
      then show ?thesis using assms Inr c quorum conf \<open>buildQueueMessageHash _ _ _ _ _ = Inr h\<close>
        by (auto simp: queue_step_def scatch_def sbind_def queue_tx_def txs_def Let_def)
    qed
  qed (use assms Inr in \<open>auto simp: queue_step_def scatch_def sbind_def split: sum.splits prod.splits\<close>)
qed (use assms in \<open>auto simp: queue_step_def\<close>)

lemma propose_step_effect:
  assumes "propose_step cfg A a armed proof st = (r, st')"
  shows "\<exists>tx pid p. r = Inr (tx, pid, p) \<and> txs st' = propose_tx cfg a # txs st \<and> (\<forall>i. pid = Some i \<longrightarrow> filed cfg A a i)"
proof -
  let ?call = "ae_createProposalWithEvidence A (ac_dvtValidatorAddress cfg) (ca_operator a) (ca_slashLevel a) (ca_reason a) (ca_evidenceHash a) (ac_dryRun cfg)"
  let ?st = "st\<lparr>au_txs := (propose_tx cfg a, ar_files (au_archive st) (ca_evidenceHash a)) # au_txs st\<rparr>"
  show ?thesis
  proof (cases ?call)
    case (Inl e)
    then show ?thesis using assms by (auto simp: propose_step_def scatch_def sbind_def propose_tx_def txs_def)
  next
    case (Inr x)
    obtain tx pid where x: "x = (tx, pid)" by fastforce
    obtain t where t: "persistStep (proof\<lparr>sp_proposalId := Some (int_to_string (the pid))\<rparr>) ?st = (Inr (), t)" "txs t = txs ?st"
      using persist_effect by blast
    show ?thesis using assms Inr x t
      by (auto simp: propose_step_def scatch_def sbind_def propose_tx_def txs_def Let_def filed_def split: option.splits if_splits)
  qed
qed

lemma execute_step_effect:
  assumes "execute_step cfg A a p proof st = (r, st')"
  shows "\<exists>tx m s q. r = Inr (tx, m, s, q) \<and> (txs st' = txs st \<and> tx = None \<or> txs st' = execute_tx cfg a p # txs st \<and> execute_quorum cfg A a p)"
proof (cases "execute_quorum cfg A a p")
  case True
  then obtain h mask sig encoded where c: "buildExecuteMessageHash (ae_ethers A) (audit_blsDomain cfg) p (ca_operator a) (ca_slashLevel a) (ca_epoch a) (ca_evidenceHash a) = Inr h"
    "ae_coSign A (cosign_request cfg a ''execute'' (Some (int_to_string p)) h) = Inr (mask, sig)" "encodeProof (ae_ethers A) mask sig = Inr encoded"
    by (auto simp: execute_quorum_def quorum_for_def is_ok_iff)
  let ?st = "st\<lparr>au_txs := (execute_tx cfg a p, ar_files (au_archive st) (ca_evidenceHash a)) # au_txs st\<rparr>"
  show ?thesis
  proof (cases "ae_executeSlashWithProof A (ac_dvtValidatorAddress cfg) p (ca_epoch a) encoded (ac_dryRun cfg)")
    case (Inl e)
    then show ?thesis using assms c True by (auto simp: execute_step_def scatch_def sbind_def execute_tx_def txs_def)
  next
    case (Inr tx)
    obtain t where "persistStep (proof\<lparr>sp_executeTx := Some tx, sp_signerMask := ae_toBeHex A mask, sp_sigG2 := sig,
        sp_messageHash := h, sp_intendedExecuteMessageHash := None\<rparr>) ?st = (Inr (), t)" "txs t = txs ?st"
      using persist_effect by blast
    then show ?thesis using assms c True Inr by (auto simp: execute_step_def scatch_def sbind_def execute_tx_def txs_def Let_def)
  qed
next
  case False
  then show ?thesis using assms
    by (auto simp: execute_step_def scatch_def sbind_def execute_quorum_def quorum_for_def is_ok_iff split: sum.splits prod.splits)
qed

section \<open>The orchestration follows the protocol\<close>

lemma confirm_effect:
  assumes "confirmSlashableAtBlock cfg A oper b st = (r, st')"
  shows "\<exists>ok. r = Inr ok \<and> txs st' = txs st \<and> (ok \<longrightarrow> oper \<in> set (ac_watchlist cfg) \<or> any_role cfg A oper b (ac_roleIds cfg))
    \<and> (oper \<in> set (ac_watchlist cfg) \<longrightarrow> ok)"
proof -
  have "txs st' = txs st" by (rule txs_quiet(2) [OF wrote_roles(2) assms])
  moreover obtain ok where "r = Inr ok" using total_ioD [OF total_roles(2), of cfg A oper b st] assms by auto
  ultimately show ?thesis using assms
    by (auto simp: confirmSlashableAtBlock_def sbind_def split: if_splits prod.splits sum.splits)
qed

lemma armed_effect:
  assumes "(if \<not> ac_executeSlash cfg \<or> ca_rule a = RULE_OFFLINE then sret False
            else confirmSlashableAtBlock cfg A (ca_operator a) (ca_epoch a)) st = (r, st')"
  shows "\<exists>armed. r = Inr armed \<and> txs st' = txs st \<and> (if armed then may_slash cfg A a
    else \<not> (ac_executeSlash cfg \<and> ca_rule a \<noteq> RULE_OFFLINE \<and> ca_operator a \<in> set (ac_watchlist cfg)))"
  using assms by (auto split: if_splits dest!: confirm_effect simp: may_slash_def)

lemma ex_rev: "(\<exists>new. L = rev new \<and> P new) \<longleftrightarrow> P (rev L)"
  by (metis rev_rev_ident)

lemma coordinate_effect:
  assumes "coordinateQuorumCoSign cfg A a proof resume rid st = (r, st')" "rid \<noteq> None \<longrightarrow> resume"
  shows "\<exists>res p new. r = Inr (res, p) \<and> txs st' = rev new @ txs st \<and> slash_protocol cfg A a resume new"
proof -
  let ?m1 = "if \<not> ac_executeSlash cfg \<or> ca_rule a = RULE_OFFLINE then sret False else confirmSlashableAtBlock cfg A (ca_operator a) (ca_epoch a)"
  obtain r1 s1 where 1: "?m1 st = (r1, s1)" by fastforce
  from armed_effect [OF 1] obtain armed where r1: "r1 = Inr armed" "txs s1 = txs st"
    and arm: "if armed then may_slash cfg A a else \<not> (ac_executeSlash cfg \<and> ca_rule a \<noteq> RULE_OFFLINE \<and> ca_operator a \<in> set (ac_watchlist cfg))"
    by blast
  let ?m2 = "if armed \<and> \<not> resume then queue_step cfg A a proof else sret (None, None, proof)"
  obtain r2 s2 where 2: "?m2 s1 = (r2, s2)" by fastforce
  then obtain q h p where r2: "r2 = Inr (q, h, p)" "armed \<and> \<not> resume \<and> txs s2 = queue_tx cfg a # txs s1 \<and> queue_quorum cfg A a \<and> (q \<noteq> None \<longrightarrow> queue_confirmed cfg A a)
      \<or> q = None \<and> txs s2 = txs s1"
    by (cases "armed \<and> \<not> resume") (auto dest!: queue_step_effect)
  let ?m3 = "if rid \<noteq> None then sret (None, rid, p) else if \<not> armed \<or> q \<noteq> None \<or> resume then propose_step cfg A a armed p else sret (None, None, p)"
  obtain r3 s3 where 3: "?m3 s2 = (r3, s3)" by fastforce
  then obtain tx pid p2 where r3: "r3 = Inr (tx, pid, p2)"
    "rid = None \<and> (\<not> armed \<or> q \<noteq> None \<or> resume) \<and> txs s3 = propose_tx cfg a # txs s2 \<and> (\<forall>i. pid = Some i \<longrightarrow> filed cfg A a i)
      \<or> txs s3 = txs s2 \<and> pid = rid"
    by (cases "rid \<noteq> None"; cases "\<not> armed \<or> q \<noteq> None \<or> resume") (auto dest!: propose_step_effect)
  let ?m4 = "case pid of Some p \<Rightarrow> if armed \<and> (q \<noteq> None \<or> resume) then execute_step cfg A a p p2 else sret (None, ''0x'', ''0x'', p2)
    | None \<Rightarrow> sret (None, ''0x'', ''0x'', p2)"
  obtain r4 s4 where 4: "?m4 s3 = (r4, s4)" by fastforce
  then obtain t m s z where r4: "r4 = Inr (t, m, s, z)"
    "armed \<and> (q \<noteq> None \<or> resume) \<and> (\<exists>i. pid = Some i \<and> txs s4 = execute_tx cfg a i # txs s3 \<and> execute_quorum cfg A a i) \<or> txs s4 = txs s3"
    by (cases pid; cases "armed \<and> (q \<noteq> None \<or> resume)") (auto dest!: execute_step_effect)
  have run: "r = Inr (\<lparr>cq_proposalTx = tx, cq_proposalId = pid, cq_queueTx = q, cq_executeTx = t, cq_queueMessageHash = h, cq_signerMask = m, cq_sigG2 = s,
      cq_coSignAborted = ((armed \<and> \<not> resume \<and> q = None) \<or> (armed \<and> \<not> ac_dryRun cfg \<and> t = None))\<rparr>, z)" "st' = s4"
    using assms(1) 1 2 3 4 r1 r2(1) r3(1) r4(1)
    by (simp_all add: coordinateQuorumCoSign_def Let_def sbind_def split del: if_split)
  have "\<exists>new. txs s4 = rev new @ txs st \<and> slash_protocol cfg A a resume new"
    using arm r1(2) r2(2) r3(2) r4(2) assms(2)
    by (cases armed; cases resume) (auto intro: slash_protocol.intros simp: ex_rev)
  with run show ?thesis by blast
qed

section \<open>A whole violation\<close>

definition slash_tx :: "audit_tx \<Rightarrow> bool" where
  "slash_tx t = (case t of TxPropose _ _ _ _ \<Rightarrow> False | _ \<Rightarrow> True)"

text \<open>An executed slash of an operator and rule that the service knows of: the mark in memory, or the journal of a disk that works.\<close>

definition journaled :: "string \<Rightarrow> archive \<Rightarrow> bool" where
  "journaled key a \<longleftrightarrow> key \<in> ar_slashed a \<and> ar_faults a = []"

definition known :: "string \<Rightarrow> audit \<Rightarrow> bool" where
  "known key st \<longleftrightarrow> key \<in> set (au_slashedCoarseKeys st) \<or> journaled key (au_archive st)"

lemma known_smodify [frame_rules]:
  "(\<And>s. au_slashedCoarseKeys (g s) = au_slashedCoarseKeys s \<and> au_archive (g s) = au_archive s) \<Longrightarrow> stable (known key) (smodify g)"
  by (simp add: stable_def known_def)

lemma journaled_archive [frame_rules]:
  "stable (journaled key) (archive_put p)" "stable (journaled key) (archive_has h)" "stable (journaled key) (archive_get h)"
  by (auto simp: stable_def journaled_def archive_put_def archive_has_def archive_get_def scatch_def sbind_def ar_fault_def split: list.splits)

lemma known_primitive [frame_rules]:
  "stable (known key) (audit_clock A)" "stable (journaled key) m \<Longrightarrow> stable (known key) (in_archive m)"
  by (auto simp: stable_def known_def audit_clock_def in_archive_def split: prod.splits)

lemma known_bookkeeping [frame_rules]:
  "stable (known key) (bump_metric f)" "stable (known key) (recordStableKey A k)" "stable (known key) (persistStep p)"
  "stable (known key) (dedup_skip cfg k key' h archived)"
  unfolding bump_metric_def recordStableKey_def persistStep_def dedup_skip_def Let_def by (intro frame_rules; simp)+

text \<open>Nothing was written yet, and a slash known at the start (\<open>b\<close>) still is.\<close>

definition fresh :: "(audit_tx \<times> slash_proof option option) list \<Rightarrow> string \<Rightarrow> bool \<Rightarrow> audit \<Rightarrow> bool" where
  "fresh L key b st \<longleftrightarrow> wrote L st \<and> (b \<longrightarrow> known key st)"

lemma fresh_stable: "stable (wrote L) m \<Longrightarrow> stable (known key) m \<Longrightarrow> stable (fresh L key b) m"
  by (simp add: stable_def fresh_def)

lemma fresh_run: "fresh L key b st \<Longrightarrow> m st = (r, st') \<Longrightarrow> stable (wrote L) m \<Longrightarrow> stable (known key) m \<Longrightarrow> fresh L key b st'"
  by (meson fresh_stable stableD)

lemma fresh_self: "fresh (au_txs st) key (known key st) st"
  by (simp add: fresh_def wrote_def)

text \<open>The contract of one violation: the writes follow the protocol, and a slash write needs an operator and rule not known to be slashed whose
  slash state on chain was read as clear, or as pending when the orchestration resumes.\<close>

definition protocol_holds :: "audit_config \<Rightarrow> 'b audit_env \<Rightarrow> violation \<Rightarrow> audit_tx list \<Rightarrow> bool \<Rightarrow> audit_tx list \<Rightarrow> bool" where
  "protocol_holds cfg A v before b after \<longleftrightarrow>
     (\<exists>new resume. after = rev new @ before
        \<and> slash_protocol cfg A (attempt_args v (computeProofHash (ae_ethers A) (vi_identity v))) resume new
        \<and> (list_ex slash_tx new \<longrightarrow> \<not> b
             \<and> chain_state cfg A (vi_operator v) (vi_slashLevel v) = (if resume then Pending else Clear)))"

lemma protocol_idle: "protocol_holds cfg A v L b L"
  unfolding protocol_holds_def by (rule exI [of _ "[]"]) (auto intro: slash_protocol.idle)

lemma assess_known: "known key st \<Longrightarrow> fst (assessSlashState cfg A key oper level st) = Inr Executed"
  unfolding known_def journaled_def assessSlashState_def
  by (cases "key \<in> set (au_slashedCoarseKeys st)")
    (simp_all add: sbind_def scatch_def in_archive_def archive_hasSlashed_def ar_fault_def markCoarseSlashed_def)

lemma assess_value: "\<exists>x. fst (assessSlashState cfg A key oper level st) = Inr x \<and> (x = Executed \<or> x = chain_state cfg A oper level)"
proof -
  obtain x st' where x: "assessSlashState cfg A key oper level st = (Inr x, st')" using total_ioD [OF total_violation(1)] by blast
  then have "x = Executed \<or> x = chain_state cfg A oper level" unfolding assessSlashState_def chain_state_def
    by (auto simp: sbind_def split: if_splits option.splits prod.splits sum.splits)
  with x show ?thesis by simp
qed

lemma assess_triple:
  "io_triple (fresh L key b) (assessSlashState cfg A key oper level)
     (\<lambda>x s. wrote L s \<and> (x = Executed \<or> x = chain_state cfg A oper level \<and> \<not> b)) R"
proof (rule io_tripleI)
  fix st r st' assume f: "fresh L key b st" and run: "assessSlashState cfg A key oper level st = (Inr r, st')"
  have "wrote L st'" using stableD [OF wrote_violation(1) _ run] f by (simp add: fresh_def)
  then show "wrote L st' \<and> (r = Executed \<or> r = chain_state cfg A oper level \<and> \<not> b)"
    using assess_known [of key st cfg A oper level] assess_value [of cfg A key oper level st] f run by (auto simp: fresh_def)
next
  fix st e st' assume "assessSlashState cfg A key oper level st = (Inl e, st')"
  then show "R st'" using assess_value [of cfg A key oper level st] by simp
qed

lemma not_slash_tx [simp]: "\<not> slash_tx (propose_tx cfg a)" "slash_tx (queue_tx cfg a)" "slash_tx (execute_tx cfg a p)"
  by (simp_all add: slash_tx_def propose_tx_def queue_tx_def execute_tx_def)

lemma unarmed_writes_no_slash:
  "slash_protocol cfg A a resume new \<Longrightarrow> \<not> may_slash cfg A a \<Longrightarrow> \<not> list_ex slash_tx new"
  by (induction rule: slash_protocol.induct) auto

lemma quiet_any: "(\<And>L. stable (wrote L) m) \<Longrightarrow> stable (\<lambda>s. P (au_txs s)) m"
  unfolding stable_def wrote_def by metis

lemma io_gets: "io_triple P (sgets f) (\<lambda>v s. P s \<and> v = f s) R"
  by (simp add: io_triple_def)

lemma io_stable_bind: "stable P m \<Longrightarrow> (\<And>v. io_triple P (f v) Q R) \<Longrightarrow> (\<And>s. P s \<Longrightarrow> R s) \<Longrightarrow> io_triple P (sbind m f) Q R"
  by (rule io_sbind [where Q = "\<lambda>_. P"], rule io_conseq [OF triple_stable [of P m]]) simp_all

lemma io_weaken: "stable P m \<Longrightarrow> (\<And>s. P s \<Longrightarrow> Q s) \<Longrightarrow> io_triple P m (\<lambda>_. Q) Q"
  by (rule io_conseq [OF triple_stable [of P m]]) simp_all

text \<open>What the guard of an attempt establishes about the state it reports.\<close>

definition guarded :: "audit_config \<Rightarrow> 'b audit_env \<Rightarrow> violation \<Rightarrow> bool \<Rightarrow> slash_state \<Rightarrow> bool" where
  "guarded cfg A v b x \<longleftrightarrow> (ac_executeSlash cfg \<longrightarrow> x = Executed
     \<or> x = chain_state cfg A (vi_operator v) (vi_slashLevel v) \<and> \<not> b)"

lemma coordinate_triple:
  assumes "guarded cfg A v b x" "x = Clear \<or> x = Pending" "rid \<noteq> None \<longrightarrow> x = Pending"
  shows "io_triple (wrote L) (coordinateQuorumCoSign cfg A (attempt_args v (computeProofHash (ae_ethers A) (vi_identity v))) proof (x = Pending) rid)
    (\<lambda>_ s. protocol_holds cfg A v (map fst L) b (map fst (au_txs s))) (\<lambda>s. protocol_holds cfg A v (map fst L) b (map fst (au_txs s)))"
proof -
  let ?a = "attempt_args v (computeProofHash (ae_ethers A) (vi_identity v))"
  have "protocol_holds cfg A v (map fst L) b (txs st')"
    if w: "wrote L st" and run: "coordinateQuorumCoSign cfg A ?a proof (x = Pending) rid st = (r, st')" for st r st'
  proof -
    obtain new where new: "txs st' = rev new @ txs st" "slash_protocol cfg A ?a (x = Pending) new"
      using coordinate_effect [OF run] assms(3) by blast
    have "list_ex slash_tx new \<Longrightarrow> ac_executeSlash cfg" using unarmed_writes_no_slash [OF new(2)] by (auto simp: may_slash_def)
    with new w assms(1,2) show ?thesis
      unfolding protocol_holds_def guarded_def wrote_def txs_def by (intro exI [of _ new] exI [of _ "x = Pending"]) auto
  qed
  then show ?thesis unfolding txs_def by (intro io_tripleI) blast+
qed

lemma attempt_triple:
  "io_triple (fresh L (coarse_key_of cfg v) b) (slash_attempt cfg A v (computeProofHash (ae_ethers A) (vi_identity v)) stableKey (coarse_key_of cfg v) carried proof)
    (\<lambda>_ s. protocol_holds cfg A v (map fst L) b (map fst (au_txs s))) (\<lambda>s. protocol_holds cfg A v (map fst L) b (map fst (au_txs s)))"
proof -
  let ?ok = "\<lambda>s. protocol_holds cfg A v (map fst L) b (map fst (au_txs s))"
  let ?key = "coarse_key_of cfg v"
  have idle: "\<And>s. wrote L s \<Longrightarrow> ?ok s" by (simp add: wrote_def protocol_idle)
  have start: "\<And>s. fresh L (coarse_key_of cfg v) b s \<Longrightarrow> wrote L s" by (simp add: fresh_def)
  have cooldown: "stable (fresh L (coarse_key_of cfg v) b) (case l of None \<Rightarrow> sret False | Some t \<Rightarrow> sbind (audit_clock A) (\<lambda>now. sret (now - t < ac_cooldownMs cfg)))" for l
    by (intro fresh_stable frame_rules)
  have guard: "io_triple (fresh L (coarse_key_of cfg v) b) (if ac_executeSlash cfg \<and> (\<not> cooling \<or> fl) then assessSlashState cfg A ?key (vi_operator v) (vi_slashLevel v) else sret Clear)
      (\<lambda>x s. wrote L s \<and> (cooling \<or> guarded cfg A v b x)) (wrote L)" for cooling fl
    by (rule io_if, rule io_conseq [OF assess_triple [where R = "wrote L"]]) (auto simp: guarded_def start intro!: io_sret)
  have after: "io_triple ?ok (sbind (after_coordinate cfg stableKey ?key c res p) (\<lambda>q. sret (res, q))) (\<lambda>_. ?ok) ?ok" for c res p
    by (rule io_stable_bind [OF quiet_any [OF wrote_violation(3), where P = "\<lambda>l. protocol_holds cfg A v (map fst L) b (map fst l)"]] io_sret)+
  have go: "io_triple (wrote L)
      (sbind (if x = Pending \<and> has_text c then slift (rbind (js_BigInt (the c)) (\<lambda>p. Inr (Some p))) else sret None) (\<lambda>rid.
       sbind (coordinateQuorumCoSign cfg A (attempt_args v (computeProofHash (ae_ethers A) (vi_identity v))) proof (x = Pending) rid) (\<lambda>(res, p).
       sbind (after_coordinate cfg stableKey ?key (x = Pending) res p) (\<lambda>q. sret (res, q))))) (\<lambda>_. ?ok) ?ok"
    if x: "guarded cfg A v b x" "x = Clear \<or> x = Pending" for x c
  proof (rule io_sbind)
    show "io_triple (wrote L) (if x = Pending \<and> has_text c then slift (rbind (js_BigInt (the c)) (\<lambda>p. Inr (Some p))) else sret None)
        (\<lambda>rid s. wrote L s \<and> (rid \<noteq> None \<longrightarrow> x = Pending)) ?ok"
      by (rule io_tripleI) (auto simp: idle split: if_splits)
    show "io_triple (\<lambda>s. wrote L s \<and> (rid \<noteq> None \<longrightarrow> x = Pending))
       (sbind (coordinateQuorumCoSign cfg A (attempt_args v (computeProofHash (ae_ethers A) (vi_identity v))) proof (x = Pending) rid) (\<lambda>(res, p).
        sbind (after_coordinate cfg stableKey ?key (x = Pending) res p) (\<lambda>q. sret (res, q)))) (\<lambda>_. ?ok) ?ok" for rid
    proof (cases "rid \<noteq> None \<longrightarrow> x = Pending")
      case True
      show ?thesis
        by (rule io_pre [OF io_sbind [OF coordinate_triple [OF x True]]]) (auto intro: after split: prod.splits)
    qed (simp add: io_triple_def)
  qed
  have act: "io_triple (wrote L)
      (if cooling then sbind (audit_clock A) (\<lambda>_. sret (no_result, proof))
       else if x = Executed \<or> x = Blocked then sbind (bump_metric f) (\<lambda>_. sret (no_result, proof))
       else sbind (audit_clock A) (\<lambda>now. sbind (smodify (g now)) (\<lambda>_. sbind (sgets c) (\<lambda>carried.
         sbind (if x = Pending \<and> has_text carried then slift (rbind (js_BigInt (the carried)) (\<lambda>p. Inr (Some p))) else sret None) (\<lambda>rid.
         sbind (coordinateQuorumCoSign cfg A (attempt_args v (computeProofHash (ae_ethers A) (vi_identity v))) proof (x = Pending) rid) (\<lambda>(res, p).
         sbind (after_coordinate cfg stableKey ?key (x = Pending) res p) (\<lambda>q. sret (res, q)))))))) (\<lambda>_. ?ok) ?ok"
    if x: "cooling \<or> guarded cfg A v b x" and g: "\<And>now s. au_txs (g now s) = au_txs s" for cooling x f g c
  proof (intro io_if)
    have "x = Clear \<or> x = Pending" if "\<not> (x = Executed \<or> x = Blocked)" using that by (cases x) auto
    then show "\<not> cooling \<Longrightarrow> \<not> (x = Executed \<or> x = Blocked) \<Longrightarrow> io_triple (wrote L) (sbind (audit_clock A) (\<lambda>now. sbind (smodify (g now)) (\<lambda>_. sbind (sgets c) (\<lambda>carried.
         sbind (if x = Pending \<and> has_text carried then slift (rbind (js_BigInt (the carried)) (\<lambda>p. Inr (Some p))) else sret None) (\<lambda>rid.
         sbind (coordinateQuorumCoSign cfg A (attempt_args v (computeProofHash (ae_ethers A) (vi_identity v))) proof (x = Pending) rid) (\<lambda>(res, p).
         sbind (after_coordinate cfg stableKey ?key (x = Pending) res p) (\<lambda>q. sret (res, q)))))))) (\<lambda>_. ?ok) ?ok"
      using x by (intro io_stable_bind frame_rules go idle) (simp_all add: g)
  qed (intro io_weaken frame_rules idle; assumption)+
  show ?thesis
    unfolding slash_attempt_def Let_def attempt_args_def [symmetric]
    apply (rule io_stable_bind [OF fresh_stable [OF stable_rules(2) stable_rules(2)]])
     apply (rule io_stable_bind [OF cooldown])
      apply (rule io_sbind [OF io_conseq [OF guard]])
         apply assumption
        apply assumption
       apply (erule idle)
      subgoal for st cooling x
      proof (cases "cooling \<or> guarded cfg A v b x")
        case True
        show ?thesis by (rule io_pre [OF act [OF True]]) simp_all
      qed (simp add: io_triple_def)
     by (auto intro: idle start)
qed

lemma recorded_archive: "recordStableKey A k st = (r, st') \<Longrightarrow> r = Inr () \<and> au_archive st' = au_archive st"
  by (auto simp: recordStableKey_def sbind_def audit_clock_def Let_def)

lemma put_effect:
  "in_archive (archive_put p) st = (Inr u, st') \<Longrightarrow> ar_files (au_archive st') (sp_proofHash p) = Some (Some p)"
  by (auto simp: in_archive_def archive_put_def sbind_def ar_fault_def split: prod.splits sum.splits list.splits if_splits)

text \<open>Before the attempt nothing is written or marked, and the proof of the attempt is on disk; after it nothing either.\<close>

lemma open_frame: "stable (wrote L) (open_violation cfg A v h)" "stable (known key) (open_violation cfg A v h)"
  unfolding open_violation_def Let_def by (intro frame_rules)+

lemma close_frame: "stable (wrote L) (close_violation cfg A v h res p)" "stable (known key) (close_violation cfg A v h res p)"
  unfolding close_violation_def Let_def by (intro frame_rules; simp)+

lemma open_effect:
  assumes "open_violation cfg A v h st = (Inr (Some (p, rid)), st')"
  shows "ar_files (au_archive st') h = Some (Some p)" "\<exists>archived t. p = initial_proof cfg A v h archived t"
proof -
  have hash: "sp_proofHash (initial_proof cfg A v h archived t) = h" for archived t by (simp add: initial_proof_def Let_def)
  show "\<exists>archived t. p = initial_proof cfg A v h archived t" "ar_files (au_archive st') h = Some (Some p)"
    using assms unfolding open_violation_def Let_def sbind_def
    by (fastforce split: sum.splits prod.splits if_splits dest: recorded_archive put_effect simp: hash)+
qed

lemma close_effect: "close_violation cfg A v h res p st = (Inr (Some d), st') \<Longrightarrow> ad_executeTx d = cq_executeTx res"
  unfolding close_violation_def Let_def sbind_def by (auto simp: bump_metric_def split: sum.splits prod.splits)

lemma handle_cases:
  assumes "handleViolation cfg A v st = (r, st')"
  obtains (skipped) "fresh (au_txs st) key (known key st) st'" "\<And>d. r \<noteq> Inr (Some d)"
  | (attempted) st1 st2 r2 rid p where
    "open_violation cfg A v (computeProofHash (ae_ethers A) (vi_identity v)) st = (Inr (Some (p, rid)), st1)"
    "fresh (au_txs st) key (known key st) st1"
    "slash_attempt cfg A v (computeProofHash (ae_ethers A) (vi_identity v)) (stable_key cfg v) (coarse_key_of cfg v) rid p st1 = (r2, st2)"
    "fresh (au_txs st2) key (known key st2) st'"
    "\<And>d. r = Inr (Some d) \<Longrightarrow> \<exists>res p'. r2 = Inr (res, p') \<and> ad_executeTx d = cq_executeTx res"
proof -
  let ?h = "computeProofHash (ae_ethers A) (vi_identity v)"
  obtain r1 st1 where 1: "open_violation cfg A v ?h st = (r1, st1)" by fastforce
  note f1 = fresh_run [OF fresh_self 1 open_frame]
  show thesis
  proof (cases "\<exists>p rid. r1 = Inr (Some (p, rid))")
    case False
    then show thesis using assms 1 f1 skipped
      by (auto simp: handleViolation_def Let_def sbind_def split: sum.splits option.splits)
  next
    case True
    then obtain p rid where r1: "r1 = Inr (Some (p, rid))" by blast
    obtain r2 st2 where 2: "slash_attempt cfg A v ?h (stable_key cfg v) (coarse_key_of cfg v) rid p st1 = (r2, st2)" by fastforce
    show thesis
    proof (rule attempted [OF 1 [unfolded r1] f1 2])
      show "fresh (au_txs st2) key (known key st2) st'"
        using assms 1 2 r1 fresh_self fresh_run [OF fresh_self _ close_frame]
        by (auto simp: handleViolation_def Let_def sbind_def split: sum.splits)
      show "r = Inr (Some d) \<Longrightarrow> \<exists>res p'. r2 = Inr (res, p') \<and> ad_executeTx d = cq_executeTx res" for d
        using assms 1 2 r1 close_effect
        by (fastforce simp: handleViolation_def Let_def sbind_def split: sum.splits)
    qed
  qed
qed

lemma slash_protocol_of_violation:
  "\<exists>new resume. txs (snd (handleViolation cfg A v st)) = rev new @ txs st
     \<and> slash_protocol cfg A (attempt_args v (computeProofHash (ae_ethers A) (vi_identity v))) resume new
     \<and> (if list_ex slash_tx new then \<not> known (coarse_key_of cfg v) st
          \<and> chain_state cfg A (vi_operator v) (vi_slashLevel v) = (if resume then Pending else Clear) else True)"
proof -
  obtain r st' where run: "handleViolation cfg A v st = (r, st')" by fastforce
  have "protocol_holds cfg A v (txs st) (known (coarse_key_of cfg v) st) (txs st')"
    using run
  proof (cases rule: handle_cases [where key = "coarse_key_of cfg v"])
    case skipped
    then show ?thesis by (simp add: fresh_def wrote_def txs_def protocol_idle)
  next
    case (attempted st1 st2 r2 rid p)
    have "protocol_holds cfg A v (map fst (au_txs st)) (known (coarse_key_of cfg v) st) (map fst (au_txs (snd (slash_attempt cfg A v
        (computeProofHash (ae_ethers A) (vi_identity v)) (stable_key cfg v) (coarse_key_of cfg v) rid p st1))))"
      by (rule io_post_state [OF attempt_triple attempted(2)])
    then show ?thesis using attempted(4) unfolding attempted(3) by (simp add: fresh_def wrote_def txs_def)
  qed
  then obtain new resume where "txs st' = rev new @ txs st"
    "slash_protocol cfg A (attempt_args v (computeProofHash (ae_ethers A) (vi_identity v))) resume new"
    "list_ex slash_tx new \<longrightarrow> \<not> known (coarse_key_of cfg v) st
       \<and> chain_state cfg A (vi_operator v) (vi_slashLevel v) = (if resume then Pending else Clear)"
    unfolding protocol_holds_def by blast
  then show ?thesis by (intro exI [of _ new] exI [of _ resume]) (simp add: run)
qed

text \<open>C4: the two-step slash protocol. Whatever the chain, the peers and the disk do, the contract writes one violation causes follow
  the protocol of \<open>slash_protocol\<close>: a proposal alone when the rule or the operator is not armed; a queue write only for an
  armed rule and an operator that is listed or holds an audited role at the evidence block, with a quorum signature over
  the queue preimage; a proposal after it only when the queue write was confirmed; an execute write only after the proposal,
  under the id the chain returned, with a quorum signature over the execute preimage bound to that id and to the
  evidence hash; and an execute write without a queue write only on the resume path. A queue or execute write
  happens only when neither the memory nor the working journal knows of an executed slash of the operator and rule, and the chain read clear (pending on the resume path), so never
  when a slash was found or the scan could not be completed.\<close>

theorem slash_follows_two_step_protocol:
  "\<exists>new resume. txs (snd (handleViolation cfg A v st)) = rev new @ txs st
     \<and> slash_protocol cfg A (attempt_args v (computeProofHash (ae_ethers A) (vi_identity v))) resume new
     \<and> (if list_ex slash_tx new then \<not> known (coarse_key_of cfg v) st
          \<and> chain_state cfg A (vi_operator v) (vi_slashLevel v) = (if resume then Pending else Clear) else True)"
  by (rule slash_protocol_of_violation)

section \<open>An executed slash is remembered\<close>

lemma mark_effect:
  assumes "markCoarseSlashed key st = (r, st')" "key \<notin> set (au_slashedCoarseKeys st)"
  shows "r = Inr () \<and> key \<in> set (au_slashedCoarseKeys st') \<and> au_archive st' = au_archive st"
  using assms by (cases "au_slashedCoarseKeys st") (auto simp: markCoarseSlashed_def set_add_def Let_def MAX_DEDUP_ENTRIES_def)

lemma record_effect:
  assumes "recordCoarseSlashed key st = (r, st')" "key \<notin> set (au_slashedCoarseKeys st)"
  shows "key \<in> set (au_slashedCoarseKeys st')" "ar_faults (au_archive st) = [] \<Longrightarrow> journaled key (au_archive st')"
  using assms mark_effect [of key st]
  by (auto simp: recordCoarseSlashed_def sbind_def scatch_def in_archive_def archive_recordSlashed_def ar_fault_def journaled_def
      split: prod.splits sum.splits list.splits)

text \<open>A state in which the key is not marked and, if the disk of the start state works (\<open>w\<close>), it still does.\<close>

definition open_state :: "string \<Rightarrow> bool \<Rightarrow> audit \<Rightarrow> bool" where
  "open_state key w st \<longleftrightarrow> key \<notin> set (au_slashedCoarseKeys st) \<and> (w \<longrightarrow> ar_faults (au_archive st) = [])"

definition remembered :: "string \<Rightarrow> bool \<Rightarrow> audit \<Rightarrow> bool" where
  "remembered key w st \<longleftrightarrow> key \<in> set (au_slashedCoarseKeys st) \<and> (w \<longrightarrow> journaled key (au_archive st))"

lemma open_smodify [frame_rules]:
  "(\<And>s. au_slashedCoarseKeys (g s) = au_slashedCoarseKeys s \<and> au_archive (g s) = au_archive s) \<Longrightarrow> stable (open_state key w) (smodify g)"
  "(\<And>s. au_slashedCoarseKeys (g s) = au_slashedCoarseKeys s \<and> au_archive (g s) = au_archive s) \<Longrightarrow> stable (remembered key w) (smodify g)"
  by (simp_all add: stable_def open_state_def remembered_def)

lemma faultless_archive [frame_rules]:
  "stable (\<lambda>a. ar_faults a = []) (archive_put p)" "stable (\<lambda>a. ar_faults a = []) (archive_has h)" "stable (\<lambda>a. ar_faults a = []) (archive_get h)"
  "stable (\<lambda>a. ar_faults a = []) (archive_hasSlashed k)"
  by (auto simp: stable_def archive_put_def archive_has_def archive_get_def archive_hasSlashed_def scatch_def sbind_def ar_fault_def split: list.splits)

lemma open_primitive [frame_rules]:
  "stable (open_state key w) (audit_clock A)" "stable (\<lambda>a. ar_faults a = []) m \<Longrightarrow> stable (open_state key w) (in_archive m)"
  "stable (journaled key) m' \<Longrightarrow> stable (remembered key w) (in_archive m')"
  by (auto simp: stable_def open_state_def remembered_def audit_clock_def in_archive_def split: prod.splits)

lemma open_bookkeeping [frame_rules]:
  "stable (open_state key w) (bump_metric f)" "stable (open_state key w) (persistStep p)" "stable (open_state key w) (log_tx t h)"
  "stable (remembered key w) (bump_metric f)"
  unfolding bump_metric_def persistStep_def log_tx_def by (intro frame_rules; simp)+

lemma open_coordinate [frame_rules]: "stable (open_state key w) (coordinateQuorumCoSign cfg A a p resume rid)"
  unfolding coordinateQuorumCoSign_def confirmSlashableAtBlock_def derivedSetIsFresh_def queue_step_def propose_step_def execute_step_def Let_def
  by (intro frame_rules)

lemma close_remembers: "stable (remembered key w) (close_violation cfg A v h res p)"
  unfolding close_violation_def Let_def by (intro frame_rules; simp)


definition slash_landed :: "coord_result \<Rightarrow> bool" where
  "slash_landed res \<longleftrightarrow> cq_executeTx res \<noteq> None \<and> cq_executeTx res \<noteq> Some DRY_RUN_TX_SENTINEL"

definition working :: "bool \<Rightarrow> audit \<Rightarrow> bool" where
  "working w st \<longleftrightarrow> (w \<longrightarrow> ar_faults (au_archive st) = [])"

lemma working_smodify [frame_rules]: "(\<And>s. au_archive (g s) = au_archive s) \<Longrightarrow> stable (working w) (smodify g)"
  by (simp add: stable_def working_def)

lemma working_primitive [frame_rules]:
  "stable (working w) (audit_clock A)" "stable (\<lambda>a. ar_faults a = []) m \<Longrightarrow> stable (working w) (in_archive m)"
  by (auto simp: stable_def working_def audit_clock_def in_archive_def split: prod.splits)

lemma open_working [frame_rules]: "stable (working w) (open_violation cfg A v h)"
  unfolding open_violation_def dedup_skip_def recordStableKey_def Let_def by (intro frame_rules; simp)

lemma io_true: "io_triple P m (\<lambda>_ _. True) (\<lambda>_. True)"
  by (auto simp: io_triple_def split: prod.splits sum.splits)

lemma record_triple: "io_triple (open_state key w) (recordCoarseSlashed key) (\<lambda>_. remembered key w) (\<lambda>_. True)"
  by (rule io_tripleI) (auto simp: open_state_def remembered_def dest: record_effect)

lemma after_remembers:
  "io_triple (open_state key w) (after_coordinate cfg sk key resume res p) (\<lambda>_ s. slash_landed res \<longrightarrow> remembered key w s) (\<lambda>_. True)"
proof (cases "slash_landed res")
  case True
  then obtain tx where tx: "cq_executeTx res = Some tx" "tx \<noteq> DRY_RUN_TX_SENTINEL" by (auto simp: slash_landed_def)
  have fin: "io_triple (remembered key w) (sbind (bump_metric f) (\<lambda>_. sret q)) (\<lambda>_. remembered key w) (\<lambda>_. True)" for f q
    by (rule io_conseq [OF triple_stable [of "remembered key w"]]) (intro frame_rules, simp_all)
  show ?thesis using tx
    unfolding after_coordinate_def Let_def
    by (auto intro!: io_stable_bind frame_rules io_sbind [OF record_triple] fin simp: True)
qed (simp add: io_true)

lemma coordinate_unarmed:
  assumes "coordinateQuorumCoSign cfg A a p resume rid st = (Inr (res, q), st')" "\<not> ac_executeSlash cfg"
  shows "\<not> slash_landed res"
  using assms unfolding coordinateQuorumCoSign_def Let_def sbind_def slash_landed_def
  by (auto split: sum.splits prod.splits if_splits option.splits)

lemma assess_open:
  assumes "assessSlashState cfg A key oper level st = (Inr x, st')" "working w st" "x \<noteq> Executed"
  shows "open_state key w st'"
  using assms unfolding assessSlashState_def working_def open_state_def
  by (auto simp: sbind_def scatch_def in_archive_def archive_hasSlashed_def ar_fault_def split: if_splits option.splits prod.splits sum.splits list.splits)

lemma attempt_remembers:
  "io_triple (working w) (slash_attempt cfg A v h sk key rid p)
     (\<lambda>(res, _) s. slash_landed res \<longrightarrow> remembered key w s) (\<lambda>_. True)"
proof -
  let ?Q = "\<lambda>(res, _) s. slash_landed res \<longrightarrow> remembered key w s"
  have idle: "io_triple P (sbind m (\<lambda>_. sret (no_result, p))) ?Q (\<lambda>_. True)" for P m
    by (rule io_sbind [OF io_true]) (auto simp: io_triple_def no_result_def slash_landed_def)
  have guard: "io_triple (working w) (if ac_executeSlash cfg \<and> (\<not> cooling \<or> fl) then assessSlashState cfg A key oper level else sret Clear)
      (\<lambda>x s. ac_executeSlash cfg \<longrightarrow> cooling \<or> x = Executed \<or> open_state key w s) (\<lambda>_. True)" for cooling fl oper level
    by (rule io_tripleI) (auto dest: assess_open split: if_splits)
  have fin: "io_triple (if ac_executeSlash cfg then open_state key w else (\<lambda>_. True))
      (sbind m (\<lambda>rid. sbind (coordinateQuorumCoSign cfg A a p resume rid) (\<lambda>(res, q).
       sbind (after_coordinate cfg sk key resume res q) (\<lambda>q'. sret (res, q'))))) ?Q (\<lambda>_. True)"
    if m: "stable (open_state key w) m" for m :: "(audit, int option) io" and a resume
  proof (cases "ac_executeSlash cfg")
    case True
    have after: "io_triple (open_state key w) (sbind (after_coordinate cfg sk key resume res q) (\<lambda>q'. sret (res, q'))) ?Q (\<lambda>_. True)" for res q
      by (rule io_sbind [OF after_remembers]) (simp add: io_triple_def)
    show ?thesis using True by (auto intro!: io_stable_bind [OF m] io_stable_bind [OF open_coordinate] after split: prod.splits)
  next
    case False
    have "io_triple (\<lambda>_. True) (coordinateQuorumCoSign cfg A a p resume rid) (\<lambda>(res, _) _. \<not> slash_landed res) (\<lambda>_. True)" for rid
      by (intro io_tripleI) (auto dest: coordinate_unarmed [OF _ False])
    note c = this
    have "io_triple (\<lambda>_. \<not> slash_landed res) (sbind (after_coordinate cfg sk key resume res q) (\<lambda>q'. sret (res, q'))) ?Q (\<lambda>_. True)" for res q
      by (rule io_sbind [where Q = "\<lambda>_ _. \<not> slash_landed res"]) (auto simp: io_triple_def split: prod.splits sum.splits)
    note after = this
    have "io_triple (\<lambda>_. True) (sbind (coordinateQuorumCoSign cfg A a p resume rid) (\<lambda>(res, q).
       sbind (after_coordinate cfg sk key resume res q) (\<lambda>q'. sret (res, q')))) ?Q (\<lambda>_. True)" for rid
      by (rule io_sbind [OF c]) (use after in \<open>auto split: prod.split\<close>)
    with False show ?thesis by (simp add: io_sbind [OF io_true])
  qed
  have go: "io_triple (\<lambda>s. ac_executeSlash cfg \<longrightarrow> cooling \<or> x = Executed \<or> open_state key w s)
      (if cooling then sbind (audit_clock A) (\<lambda>_. sret (no_result, p))
       else if x = Executed \<or> x = Blocked then sbind (bump_metric f) (\<lambda>_. sret (no_result, p))
       else sbind (audit_clock A) (\<lambda>now. sbind (smodify (g now)) (\<lambda>_. sbind (sgets c) (\<lambda>carried. sbind (m carried) (\<lambda>rid.
         sbind (coordinateQuorumCoSign cfg A a p (x = Pending) rid) (\<lambda>(res, q).
         sbind (after_coordinate cfg sk key (x = Pending) res q) (\<lambda>q'. sret (res, q')))))))) ?Q (\<lambda>_. True)"
    if g: "\<And>now s. au_slashedCoarseKeys (g now s) = au_slashedCoarseKeys s \<and> au_archive (g now s) = au_archive s"
      and m: "\<And>c. stable (open_state key w) (m c)" for cooling x f g c m a
  proof (intro io_if idle)
    let ?P = "if ac_executeSlash cfg then open_state key w else (\<lambda>_. True)"
    assume n: "\<not> cooling" "\<not> (x = Executed \<or> x = Blocked)"
    have st: "stable ?P (audit_clock A)" "\<And>now. stable ?P (smodify (g now))" "stable ?P (sgets c)"
      using g by (auto simp: stable_def open_state_def audit_clock_def)
    show "io_triple (\<lambda>s. ac_executeSlash cfg \<longrightarrow> cooling \<or> x = Executed \<or> open_state key w s)
       (sbind (audit_clock A) (\<lambda>now. sbind (smodify (g now)) (\<lambda>_. sbind (sgets c) (\<lambda>carried. sbind (m carried) (\<lambda>rid.
         sbind (coordinateQuorumCoSign cfg A a p (x = Pending) rid) (\<lambda>(res, q).
         sbind (after_coordinate cfg sk key (x = Pending) res q) (\<lambda>q'. sret (res, q')))))))) ?Q (\<lambda>_. True)"
      by (rule io_pre [of ?P], rule io_stable_bind [OF st(1)], rule io_stable_bind [OF st(2)], rule io_stable_bind [OF st(3)], rule fin [OF m])
        (use n in auto)
  qed
  show ?thesis
    unfolding slash_attempt_def Let_def
    apply (rule io_stable_bind [OF stable_rules(2)])
     apply (rule io_stable_bind [where P = "working w"])
       apply (intro frame_rules)
      apply (rule io_sbind [OF guard])
      apply (rule go)
       apply simp
      apply (intro frame_rules)
     by simp_all
qed


lemma handle_remembers:
  assumes "handleViolation cfg A v st = (Inr (Some d), st')" "ad_executeTx d \<noteq> None" "ad_executeTx d \<noteq> Some DRY_RUN_TX_SENTINEL"
  shows "remembered (coarse_key_of cfg v) (ar_faults (au_archive st) = []) st'"
proof -
  let ?h = "computeProofHash (ae_ethers A) (vi_identity v)" and ?k = "coarse_key_of cfg v" and ?w = "ar_faults (au_archive st) = []"
  obtain r1 st1 where 1: "open_violation cfg A v ?h st = (r1, st1)" by fastforce
  have w1: "working ?w st1" by (rule stableD [OF open_working _ 1]) (simp add: working_def)
  from assms(1) 1 obtain p rid where r1: "r1 = Inr (Some (p, rid))"
    by (auto simp: handleViolation_def Let_def sbind_def split: sum.splits option.splits)
  obtain r2 st2 where 2: "slash_attempt cfg A v ?h (stable_key cfg v) ?k rid p st1 = (r2, st2)" by fastforce
  from assms(1) 1 r1 2 obtain res q where r2: "r2 = Inr (res, q)" and 3: "close_violation cfg A v ?h res q st2 = (Inr (Some d), st')"
    by (auto simp: handleViolation_def Let_def sbind_def split: sum.splits)
  have "slash_landed res" using close_effect [OF 3] assms(2,3) by (simp add: slash_landed_def)
  then have "remembered ?k ?w st2" using io_tripleD(1) [OF attempt_remembers w1 2 [unfolded r2]] by simp
  then show ?thesis using stableD [OF close_remembers _ 3] by blast
qed

lemma known_never_slashed:
  assumes "known (coarse_key_of cfg v) st"
  shows "\<exists>new. txs (snd (handleViolation cfg A v st)) = new @ txs st \<and> \<not> list_ex slash_tx new"
proof -
  obtain new resume where "txs (snd (handleViolation cfg A v st)) = rev new @ txs st"
    "if list_ex slash_tx new then \<not> known (coarse_key_of cfg v) st
       \<and> chain_state cfg A (vi_operator v) (vi_slashLevel v) = (if resume then Pending else Clear) else True"
    using slash_protocol_of_violation [of cfg A v st] by blast
  with assms show ?thesis by (intro exI [of _ "rev new"]) (auto simp: list_ex_iff split: if_splits)
qed

section \<open>Runs of the service\<close>

text \<open>The life of the process after a slash: ticks, further violations, bootstraps, and restarts on the same archive, each with its own settings and its own chain.\<close>

datatype 'b audit_event =
    AuTick audit_config "'b audit_env"
  | AuViolation audit_config "'b audit_env" violation
  | AuBootstrap audit_config "'b audit_env"
  | AuRestart audit_settings

fun audit_event_step :: "'b audit_event \<Rightarrow> audit \<Rightarrow> audit" where
  "audit_event_step (AuTick cfg A) st = snd (audit_tick cfg A st)"
| "audit_event_step (AuViolation cfg A v) st = snd (handleViolation cfg A v st)"
| "audit_event_step (AuBootstrap cfg A) st = snd (audit_onApplicationBootstrap cfg A st)"
| "audit_event_step (AuRestart s) st = AuditService_new s (au_archive st)"

text \<open>The bounded memory of executed slashes: an event marks at most one operator and rule per violation, a tick one per operator.\<close>

fun has_memory :: "'b audit_event \<Rightarrow> audit \<Rightarrow> bool" where
  "has_memory (AuTick cfg A) st = (length (au_slashedCoarseKeys st) + length (effectiveWatchlist cfg (snd (audit_tick cfg A st))) \<le> MAX_DEDUP_ENTRIES)"
| "has_memory (AuViolation cfg A v) st = (length (au_slashedCoarseKeys st) < MAX_DEDUP_ENTRIES)"
| "has_memory (AuBootstrap cfg A) st = True"
| "has_memory (AuRestart s) st = False"

fun stays_in_memory :: "'b audit_event list \<Rightarrow> audit \<Rightarrow> bool" where
  "stays_in_memory [] st = True"
| "stays_in_memory (ev # evs) st = (has_memory ev st \<and> stays_in_memory evs (audit_event_step ev st))"

text \<open>The key of an offline entry is that of no other rule.\<close>

lemma offline_key:
  assumes "coarse_key_of cfg v = coarseKey cfg' oper RULE_OFFLINE" "CHR ''|'' \<notin> set (vi_rule v)"
  shows "vi_rule v = RULE_OFFLINE"
proof -
  have suffix: "rev (takeWhile (\<lambda>c. c \<noteq> CHR ''|'') (rev (coarseKey c o' r))) = r" if "CHR ''|'' \<notin> set r" for c o' r
  proof -
    have "takeWhile (\<lambda>x. x \<noteq> CHR ''|'') (rev r @ ''|'' @ xs) = rev r" for xs
      using that by (subst takeWhile_append2) auto
    then show ?thesis by (simp add: coarseKey_def)
  qed
  have "CHR ''|'' \<notin> set RULE_OFFLINE" by (simp add: RULE_OFFLINE_def)
  then show ?thesis using suffix [OF assms(2)] suffix [of RULE_OFFLINE] assms(1) unfolding coarse_key_of_def by metis
qed

lemma coordinate_offline:
  assumes "coordinateQuorumCoSign cfg A a p resume rid st = (Inr (res, q), st')" "ca_rule a = RULE_OFFLINE"
  shows "\<not> slash_landed res"
  using assms unfolding coordinateQuorumCoSign_def Let_def sbind_def slash_landed_def
  by (auto split: sum.splits prod.splits if_splits option.splits)

lemma attempt_offline:
  assumes "vi_rule v = RULE_OFFLINE"
  shows "io_triple (\<lambda>_. True) (slash_attempt cfg A v h sk key rid p) (\<lambda>(res, _) _. \<not> slash_landed res) (\<lambda>_. True)"
proof -
  let ?Q = "\<lambda>(res, _) _. \<not> slash_landed res"
  have idle: "io_triple P (sret (no_result, q)) ?Q (\<lambda>_. True)" for P and q :: slash_proof
    by (simp add: io_triple_def no_result_def slash_landed_def)
  have "io_triple (\<lambda>_. True) (coordinateQuorumCoSign cfg A a p resume rid) ?Q (\<lambda>_. True)" if "ca_rule a = RULE_OFFLINE" for a resume rid
    by (intro io_tripleI) (auto dest: coordinate_offline [OF _ that])
  moreover have "io_triple (\<lambda>_. \<not> slash_landed res) (sbind (after_coordinate cfg sk key resume res q) (\<lambda>q'. sret (res, q'))) ?Q (\<lambda>_. True)" for resume res q
    by (rule io_sbind [where Q = "\<lambda>_ _. \<not> slash_landed res"]) (auto simp: io_triple_def split: prod.splits sum.splits)
  ultimately have go: "io_triple (\<lambda>_. True) (sbind (coordinateQuorumCoSign cfg A a p resume rid) (\<lambda>(res, q).
       sbind (after_coordinate cfg sk key resume res q) (\<lambda>q'. sret (res, q')))) ?Q (\<lambda>_. True)" if "ca_rule a = RULE_OFFLINE" for a resume rid
    using that by (intro io_sbind [where Q = "\<lambda>(res, _) _. \<not> slash_landed res"]) (auto split: prod.split)
  show ?thesis unfolding slash_attempt_def Let_def
    by (intro io_sbind [OF io_true] io_if idle go) (simp add: assms)
qed

lemma executed_rule:
  assumes "handleViolation cfg A v st = (Inr (Some d), st')" "ad_executeTx d \<noteq> None" "ad_executeTx d \<noteq> Some DRY_RUN_TX_SENTINEL"
  shows "vi_rule v \<noteq> RULE_OFFLINE"
proof
  assume off: "vi_rule v = RULE_OFFLINE"
  from assms(1) show False
  proof (cases rule: handle_cases [where key = "coarse_key_of cfg v"])
    case (attempted st1 st2 r2 rid p)
    then obtain res q where r2: "r2 = Inr (res, q)" "ad_executeTx d = cq_executeTx res" by blast
    have "\<not> slash_landed res" using io_tripleD(1) [OF attempt_offline [OF off] _ attempted(3) [unfolded r2(1)]] by simp
    with r2(2) assms(2,3) show False by (simp add: slash_landed_def)
  qed blast
qed

subsection \<open>What a violation leaves alone\<close>

text \<open>A predicate on the state that the clock, the counters, the dedup windows and the log do not enter, and that the reads and writes of proofs keep: a violation keeps it as soon as the marks of its own key do.\<close>

locale violation_frame =
  fixes P :: "audit \<Rightarrow> bool"
  assumes fields: "P (s\<lparr>au_clockReads := reads\<rparr>) = P s" "P (s\<lparr>au_metrics := metrics\<rparr>) = P s" "P (s\<lparr>au_proposedStableKeys := proposed\<rparr>) = P s" "P (s\<lparr>au_lastProposalAt := attempts\<rparr>) = P s"
      "P (s\<lparr>au_coSignRetryKeys := retries\<rparr>) = P s" "P (s\<lparr>au_pendingProposalIds := ids\<rparr>) = P s" "P (s\<lparr>au_recentDetections := recent\<rparr>) = P s" "P (s\<lparr>au_txs := L\<rparr>) = P s"
    and archive: "stable P (in_archive (archive_put p))" "stable P (in_archive (archive_has h))" "stable P (in_archive (archive_get h))" "stable P (in_archive (archive_hasSlashed k))"
begin

lemma steps: "stable P (audit_clock A)" "stable P (bump_metric f)" "stable P (recordStableKey A i)" "stable P (persistStep p)" "stable P (log_tx t h)"
proof -
  show clock: "stable P (audit_clock A)" by (simp add: stable_def audit_clock_def fields)
  show "stable P (bump_metric f)" "stable P (log_tx t h)" by (simp_all add: stable_def bump_metric_def log_tx_def fields)
  show "stable P (recordStableKey A i)" unfolding recordStableKey_def Let_def by (intro frame_rules clock) (simp add: fields)
  show "stable P (persistStep p)" unfolding persistStep_def by (intro frame_rules archive)
qed

lemma coordinate: "stable P (coordinateQuorumCoSign cfg A a p resume rid)"
proof -
  have "stable P (confirmSlashableAtBlock cfg A oper b)" for oper b
    unfolding confirmSlashableAtBlock_def derivedSetIsFresh_def by (intro frame_rules steps)
  moreover have "stable P (queue_step cfg A a p)" "stable P (propose_step cfg A a b p)" "stable P (execute_step cfg A a i p)" for b p i
    unfolding queue_step_def propose_step_def execute_step_def Let_def by (intro frame_rules steps)+
  ultimately show ?thesis unfolding coordinateQuorumCoSign_def Let_def by (intro frame_rules)
qed

lemma violation:
  assumes "stable P (markCoarseSlashed (coarse_key_of cfg v))" "stable P (in_archive (archive_recordSlashed (coarse_key_of cfg v)))"
  shows "stable P (handleViolation cfg A v)"
proof -
  have "stable P (recordCoarseSlashed (coarse_key_of cfg v))" unfolding recordCoarseSlashed_def by (intro frame_rules assms)
  then show ?thesis
    unfolding handleViolation_def open_violation_def slash_attempt_def close_violation_def after_coordinate_def dedup_skip_def assessSlashState_def Let_def
    by (intro frame_rules steps coordinate archive assms; simp add: fields)
qed

end

subsection \<open>The journal\<close>

definition durable :: "string \<Rightarrow> audit \<Rightarrow> bool" where
  "durable key st \<longleftrightarrow> journaled key (au_archive st)"

lemma durable_smodify [frame_rules]: "(\<And>s. au_archive (g s) = au_archive s) \<Longrightarrow> stable (durable key) (smodify g)"
  by (simp add: stable_def durable_def)

lemma journaled_slashed [frame_rules]:
  "stable (journaled key) (archive_hasSlashed k)" "stable (journaled key) (archive_recordSlashed k)" "k \<noteq> key \<Longrightarrow> stable (journaled key) (archive_removeSlashed k)"
  by (auto simp: stable_def journaled_def archive_hasSlashed_def archive_recordSlashed_def archive_removeSlashed_def scatch_def sbind_def ar_fault_def split: list.splits)

lemma durable_archive [frame_rules]: "stable (journaled key) m \<Longrightarrow> stable (durable key) (in_archive m)"
  by (auto simp: stable_def durable_def in_archive_def split: prod.splits)

interpretation jr: violation_frame "durable key" for key
  by unfold_locales (simp_all add: durable_def durable_archive frame_rules)

lemma durable_violation [frame_rules]: "stable (durable key) (handleViolation cfg A v)"
  by (rule jr.violation [OF _ durable_archive [OF journaled_slashed(2)]]) (simp add: markCoarseSlashed_def durable_def stable_def Let_def)

lemma durable_roles [frame_rules]: "stable (durable key) (derivedSetIsFresh cfg A)" "stable (durable key) (refreshDerivedOperators cfg A force pin)"
  unfolding derivedSetIsFresh_def refreshDerivedOperators_def doRefreshDerivedOperators_def by (intro frame_rules jr.steps; simp)+

lemma durable_tick:
  assumes "\<And>oper. coarseKey cfg oper RULE_OFFLINE \<noteq> key"
  shows "stable (durable key) (audit_tick cfg A)"
proof -
  have oper: "stable (durable key) (auditOfflineForOperator cfg A operator pinned nid)" for operator pinned nid
    unfolding auditOfflineForOperator_def clearCoarseSlashed_def Let_def by (intro frame_rules jr.steps assms; simp)
  have sweep: "stable (durable key) (sweep cfg A pinned operators)" for pinned operators
    by (induction operators) (simp_all add: frame_rules jr.steps oper stable_rules [unfolded sret_def])
  have "stable (durable key) (tick_sweep cfg A)" unfolding tick_sweep_def
    by (intro frame_rules sweep; simp add: refresh_node_ids_def Let_def)
  then have "stable (durable key) (sbind (smodify (\<lambda>st. st\<lparr>au_tickInFlight := True\<rparr>)) (\<lambda>_. sbind (audit_clock A) (\<lambda>now.
     sbind (smodify (\<lambda>st. st\<lparr>au_lastTickAt := Some now\<rparr>)) (\<lambda>_. sbind (pruneDedupState cfg A) (\<lambda>_. tick_sweep cfg A)))))"
    unfolding pruneDedupState_def by (intro frame_rules jr.steps; simp)
  then show ?thesis unfolding audit_tick_def stable_def by (auto simp: durable_def split: prod.splits)
qed

lemma durable_event:
  assumes "durable key st" "\<And>cfg oper. coarseKey cfg oper RULE_OFFLINE \<noteq> key"
  shows "durable key (audit_event_step ev st)"
proof (cases ev)
  case (AuBootstrap cfg A)
  have "stable (durable key) (audit_onApplicationBootstrap cfg A)" unfolding audit_onApplicationBootstrap_def by (intro frame_rules; simp)
  with assms(1) AuBootstrap show ?thesis by (simp add: stable_def)
next
  case (AuRestart s)
  with assms(1) show ?thesis by (simp add: durable_def AuditService_new_def)
next
  case (AuTick cfg A)
  then show ?thesis using durable_tick [OF assms(2), of cfg A] assms(1) by (simp add: stable_def)
next
  case (AuViolation cfg A v)
  then show ?thesis using durable_violation [of key cfg A v] assms(1) by (simp add: stable_def)
qed

subsection \<open>The memory\<close>

definition marked :: "string \<Rightarrow> nat \<Rightarrow> audit \<Rightarrow> bool" where
  "marked key n st \<longleftrightarrow> key \<in> set (au_slashedCoarseKeys st) \<and> length (au_slashedCoarseKeys st) \<le> n"

text \<open>The same while the key \<open>k\<close> may be added.\<close>

definition marking :: "string \<Rightarrow> string \<Rightarrow> nat \<Rightarrow> audit \<Rightarrow> bool" where
  "marking key k n st \<longleftrightarrow> key \<in> set (au_slashedCoarseKeys st) \<and> length (au_slashedCoarseKeys st) \<le> n + (if k \<in> set (au_slashedCoarseKeys st) then 1 else 0)"

lemma marked_marking: "marked key n st \<Longrightarrow> marking key k n st" "marking key k n st \<Longrightarrow> marked key (Suc n) st"
  by (auto simp: marked_def marking_def split: if_splits)

lemma marked_smodify [frame_rules]: "(\<And>s. au_slashedCoarseKeys (g s) = au_slashedCoarseKeys s) \<Longrightarrow> stable (marked key n) (smodify g)"
  by (simp add: stable_def marked_def)

lemma marked_clock [frame_rules]: "stable (marked key n) (audit_clock A)" "stable (marking key k n) (in_archive m)"
  by (auto simp: stable_def marked_def marking_def audit_clock_def in_archive_def split: prod.splits)

interpretation mr: violation_frame "marking key k n" for key k n
  by unfold_locales (simp_all add: marking_def frame_rules)

lemma marking_clear: "k \<noteq> key \<Longrightarrow> k = coarseKey cfg oper rule \<Longrightarrow> stable (marking key k n) (clearCoarseSlashed cfg oper rule)"
proof -
  assume k: "k \<noteq> key" "k = coarseKey cfg oper rule"
  have "length (filter (\<lambda>x. x \<noteq> k) ks) < length ks" if "k \<in> set ks" for ks :: "string list" using that length_filter_less by fastforce
  then have "length (filter (\<lambda>x. x \<noteq> k) ks) \<le> n" if "length ks \<le> n + (if k \<in> set ks then 1 else 0)" for ks :: "string list"
    using that le_trans [OF length_filter_le [of "\<lambda>x. x \<noteq> k" ks]] by (cases "k \<in> set ks") fastforce+
  then show ?thesis using k unfolding clearCoarseSlashed_def Let_def
    by (intro frame_rules) (auto simp: stable_def marking_def set_delete_def)
qed

lemma marking_violation: "n < MAX_DEDUP_ENTRIES \<Longrightarrow> coarse_key_of cfg v = k \<Longrightarrow> stable (marking key k n) (handleViolation cfg A v)"
  by (rule mr.violation) (auto simp: stable_def marking_def markCoarseSlashed_def set_add_def in_archive_def Let_def split: prod.split)

lemma marking_operator:
  assumes "n < MAX_DEDUP_ENTRIES" "coarseKey cfg operator RULE_OFFLINE \<noteq> key"
  shows "stable (marking key (coarseKey cfg operator RULE_OFFLINE) n) (auditOfflineForOperator cfg A operator pinned nid)"
  unfolding auditOfflineForOperator_def Let_def
  by (intro frame_rules mr.steps marking_clear marking_violation assms) (simp_all add: coarse_key_of_def offline_violation_def)

lemma marked_sweep:
  assumes "marked key n st" "n + length operators \<le> MAX_DEDUP_ENTRIES" "\<And>oper. coarseKey cfg oper RULE_OFFLINE \<noteq> key"
  shows "marked key (n + length operators) (snd (sweep cfg A pinned operators st))"
  using assms(1,2)
proof (induction operators arbitrary: st n)
  case (Cons operator rest)
  let ?k = "coarseKey cfg operator RULE_OFFLINE"
  let ?m = "if ac_offlineEnabled cfg then sbind (sgets (\<lambda>st. map_of (au_offlineNodeIdCache st) operator)) (\<lambda>nid.
      scatch (auditOfflineForOperator cfg A operator pinned nid) (\<lambda>_. bump_metric (\<lambda>m. m\<lparr>am_errors := am_errors m + 1\<rparr>))) else sret ()"
  have "stable (marking key ?k n) ?m" using Cons.prems(2) assms(3) by (intro frame_rules mr.steps marking_operator) simp_all
  then have "marked key (Suc n) (snd (?m st))" using marked_marking(1) [of key n st ?k] marked_marking(2) Cons.prems(1) unfolding stable_def by blast
  moreover have "total_io ?m" by (intro frame_rules)
  then obtain st1 where "?m st = (Inr (), st1)" using total_ioD by fastforce
  ultimately show ?case using Cons.IH [of "Suc n" st1] Cons.prems(2) by (simp add: sbind_def)
qed simp

definition derived :: "string list \<Rightarrow> audit \<Rightarrow> bool" where
  "derived D st \<longleftrightarrow> au_derivedOperators st = D"

interpretation dr: violation_frame "derived D" for D
  by unfold_locales (auto simp: derived_def stable_def in_archive_def split: prod.split)

lemma derived_sweep: "stable (derived D) (sweep cfg A pinned operators)"
proof (induction operators)
  case (Cons operator rest)
  have marks: "stable (derived D) (smodify g)" if "\<And>s. au_derivedOperators (g s) = au_derivedOperators s" for g using that by (simp add: stable_def derived_def)
  have arch: "stable (derived D) (in_archive m)" for m :: "(archive, unit) io" by (auto simp: derived_def stable_def in_archive_def split: prod.split)
  have "stable (derived D) (handleViolation cfg A v)" for v by (rule dr.violation [OF _ arch]) (simp add: markCoarseSlashed_def marks Let_def)
  then have "stable (derived D) (auditOfflineForOperator cfg A operator pinned nid)" for nid
    unfolding auditOfflineForOperator_def clearCoarseSlashed_def Let_def by (intro frame_rules dr.steps marks arch; simp)
  with Cons show ?case by (simp add: frame_rules dr.steps)
qed (simp add: stable_def)

lemma marked_tick:
  assumes "marked key n st" "n + length (effectiveWatchlist cfg (snd (audit_tick cfg A st))) \<le> MAX_DEDUP_ENTRIES" "\<And>oper. coarseKey cfg oper RULE_OFFLINE \<noteq> key"
  shows "key \<in> set (au_slashedCoarseKeys (snd (audit_tick cfg A st)))"
proof (cases "au_tickInFlight st \<or> (\<exists>e. ae_getViolationBlock A (ac_finalityConfirmations cfg) = Inl e)")
  case True
  then show ?thesis using assms(1)
    by (auto simp: audit_tick_def tick_sweep_def pruneDedupState_def audit_clock_def sbind_def marked_def)
next
  case False
  then obtain pinned where idle: "\<not> au_tickInFlight st" and pinned: "ae_getViolationBlock A (ac_finalityConfirmations cfg) = Inr pinned"
    by (cases "ae_getViolationBlock A (ac_finalityConfirmations cfg)") auto
  let ?m = "sbind (smodify (\<lambda>st. st\<lparr>au_tickInFlight := True\<rparr>)) (\<lambda>_. sbind (audit_clock A) (\<lambda>now.
     sbind (smodify (\<lambda>st. st\<lparr>au_lastTickAt := Some now\<rparr>)) (\<lambda>_. sbind (pruneDedupState cfg A) (\<lambda>_.
     sbind (refreshDerivedOperators cfg A False (Some (fst pinned))) (\<lambda>_.
     if ac_roleDerive cfg then sbind (derivedSetIsFresh cfg A) (\<lambda>_. sret ()) else sret ())))))"
  have "stable (marked key n) ?m" unfolding pruneDedupState_def refreshDerivedOperators_def doRefreshDerivedOperators_def derivedSetIsFresh_def by (intro frame_rules; simp)
  moreover have "total_io ?m" by (intro frame_rules)
  ultimately obtain s where s: "?m st = (Inr (), s)" "marked key n s" using total_ioD [of ?m st] stableD [of "marked key n" ?m st] assms(1) by auto
  let ?ops = "effectiveWatchlist cfg s" and ?s = "refresh_node_ids cfg A (effectiveWatchlist cfg s) s"
  have tick: "snd (audit_tick cfg A st) = (snd (sweep cfg A pinned ?ops ?s))\<lparr>au_tickInFlight := False\<rparr>"
    using s(1) idle by (auto simp: audit_tick_def tick_sweep_def pinned sbind_def split: prod.splits sum.splits if_splits)
  have "derived (au_derivedOperators s) ?s" by (simp add: derived_def refresh_node_ids_def Let_def)
  then have "au_derivedOperators (snd (sweep cfg A pinned ?ops ?s)) = au_derivedOperators s"
    using derived_sweep unfolding stable_def derived_def by blast
  moreover have "effectiveWatchlist cfg (t\<lparr>au_tickInFlight := False\<rparr>) = effectiveWatchlist cfg s" if "au_derivedOperators t = au_derivedOperators s" for t
    using that by (simp add: effectiveWatchlist_def)
  ultimately have "effectiveWatchlist cfg (snd (audit_tick cfg A st)) = ?ops" unfolding tick by blast
  moreover have "marked key n ?s" using s(2) by (simp add: marked_def refresh_node_ids_def Let_def)
  ultimately show ?thesis using marked_sweep [of key n ?s ?ops cfg A pinned] assms(2,3) by (simp add: tick marked_def)
qed

lemma memory_event:
  assumes "key \<in> set (au_slashedCoarseKeys st)" "has_memory ev st" "\<And>cfg oper. coarseKey cfg oper RULE_OFFLINE \<noteq> key"
  shows "key \<in> set (au_slashedCoarseKeys (audit_event_step ev st))"
proof (cases ev)
  case (AuTick cfg A)
  then show ?thesis using marked_tick [of key "length (au_slashedCoarseKeys st)" st cfg A] assms by (simp add: marked_def)
next
  case (AuViolation cfg A v)
  then have "stable (marking key (coarse_key_of cfg v) (length (au_slashedCoarseKeys st))) (handleViolation cfg A v)" using assms(2) by (intro marking_violation) simp_all
  then show ?thesis using assms(1) AuViolation by (auto simp: stable_def marking_def)
next
  case (AuBootstrap cfg A)
  have "stable (marked key n) (audit_onApplicationBootstrap cfg A)" for n
    unfolding audit_onApplicationBootstrap_def refreshDerivedOperators_def doRefreshDerivedOperators_def by (intro frame_rules; simp)
  then show ?thesis using assms(1) AuBootstrap by (auto simp: stable_def marked_def)
qed (use assms(2) in simp)

lemma known_after_run:
  assumes "\<And>cfg oper. coarseKey cfg oper RULE_OFFLINE \<noteq> key"
    and "durable key st \<or> key \<in> set (au_slashedCoarseKeys st) \<and> stays_in_memory evs st"
  shows "known key (fold audit_event_step evs st)"
  using assms(2)
proof (induction evs arbitrary: st)
  case (Cons ev evs)
  then show ?case using durable_event [OF _ assms(1), of st ev] memory_event [OF _ _ assms(1), of st ev] by auto
qed (auto simp: known_def durable_def)


text \<open>An armed node whose quorum answers and whose transactions land.\<close>

definition demo_audit_config :: audit_config where
  "demo_audit_config = (AuditService_config sample_ethers
     \<lparr>auditEnabled = Some True, auditCooldownMs = None, auditWatchlist = None, auditChainId = Some 1, auditRegistryAddress = Some demo_registry,
      auditSuperPaymasterAddress = Some demo_registry, auditDvtValidatorAddress = Some demo_registry, auditBlsAggregatorAddress = Some demo_registry,
      auditBlsAggregatorAddressFromEnv = Some True, auditGtokenStakingAddress = None, auditExecuteSlash = Some True, auditDryRun = None,
      auditFinalityConfirmations = None, auditSlashLookbackBlocks = None, auditRoleDerive = None, auditRoleIds = None, auditRoleFromBlock = None,
      auditRoleLogChunk = None, auditRoleRefreshMs = None, auditRoleUseGetter = None, auditRoleMaxStaleMs = None, auditOfflineEnabled = Some True\<rparr>
     True)\<lparr>ac_watchlist := [demo_signer]\<rparr>"

definition demo_archive :: archive where
  "demo_archive = \<lparr>ar_files = (\<lambda>_. None), ar_slashed = {}, ar_faults = []\<rparr>"

definition demo_settings :: audit_settings where
  "demo_settings = \<lparr>auditEnabled = Some True, auditCooldownMs = None, auditWatchlist = None, auditChainId = None, auditRegistryAddress = None,
      auditSuperPaymasterAddress = None, auditDvtValidatorAddress = None, auditBlsAggregatorAddress = None,
      auditBlsAggregatorAddressFromEnv = None, auditGtokenStakingAddress = None, auditExecuteSlash = None, auditDryRun = None,
      auditFinalityConfirmations = None, auditSlashLookbackBlocks = None, auditRoleDerive = None, auditRoleIds = None, auditRoleFromBlock = None,
      auditRoleLogChunk = None, auditRoleRefreshMs = None, auditRoleUseGetter = None, auditRoleMaxStaleMs = None, auditOfflineEnabled = None\<rparr>"

definition demo_audit :: audit where
  "demo_audit = AuditService_new demo_settings demo_archive"

definition demo_audit_env :: "abi_value list audit_env" where
  "demo_audit_env = \<lparr>ae_ethers = sample_ethers, ae_clock = (\<lambda>n. 0), ae_getChainId = Inr 1, ae_getCode = (\<lambda>_. Inr ''0x60''),
     ae_probeBlsAggregator = (\<lambda>_. Inr ()), ae_getViolationBlock = (\<lambda>_. Inr (7, ''0xbb'')), ae_getRegisteredOperators = (\<lambda>_ _ _ _ _ _. Inr []),
     ae_hasRole = (\<lambda>_ _ _ _. Inr False), ae_getOperatorNodeId = (\<lambda>_ _. Inr (Some ''n1'')), ae_getLastSeen = (\<lambda>_. Some 0),
     ae_getBlockTimestamp = (\<lambda>_. Inr 1000), ae_getWalletAddress = None, ae_getRecentSlashExecuted = (\<lambda>_ _ _ _. Inr (Some False)),
     ae_isSlashPending = (\<lambda>_ _ _. Inr (Some False)), ae_coSign = (\<lambda>_. Inr (7, ''0xab'')),
     ae_queueSlashWithProof = (\<lambda>_ _ _ _ _ _. Inr ''0x01''), ae_createProposalWithEvidence = (\<lambda>_ _ _ _ _ _. Inr (''0x02'', Some 42)),
     ae_executeSlashWithProof = (\<lambda>_ _ _ _ _. Inr ''0x03''), ae_toBeHex = (\<lambda>_. ''0x07'')\<rparr>"

definition demo_violation :: violation where
  "demo_violation = \<lparr>vi_operator = demo_signer, vi_slashLevel = 1, vi_reason = ''r'', vi_rule = ''credit'', vi_violationBlock = 7,
     vi_violationBlockHash = ''0xbb'', vi_observedAt = 0, vi_identity = demo_identity, vi_observed = ''o'', vi_threshold = ''t'', vi_dedupSubject = None\<rparr>"

lemma demo_messages:
  "\<exists>h. buildQueueMessageHash sample_ethers (audit_blsDomain demo_audit_config) oper level epoch = Inr h"
  "\<exists>h. buildExecuteMessageHash sample_ethers (audit_blsDomain demo_audit_config) p oper level epoch ev = Inr h"
  by (simp_all add: buildQueueMessageHash_def buildExecuteMessageHash_def queueSlashMessageHash_def executeSlashMessageHash_def domainSeparator_def
      keccak_encode_def audit_blsDomain_def demo_audit_config_def AuditService_config_def address_of_def or_else_def)

lemmas audit_run_simps = handleViolation_def open_violation_def close_violation_def slash_attempt_def after_coordinate_def dedup_skip_def
  coordinateQuorumCoSign_def confirmSlashableAtBlock_def queue_step_def propose_step_def execute_step_def persistStep_def assessSlashState_def
  recordStableKey_def recordCoarseSlashed_def markCoarseSlashed_def bump_metric_def audit_clock_def in_archive_def log_tx_def
  archive_put_def archive_get_def archive_has_def archive_hasSlashed_def archive_recordSlashed_def ar_fault_def final_proof_def
  sbind_def scatch_def Let_def

lemma demo_run: "\<exists>d st'. handleViolation demo_audit_config demo_audit_env demo_violation demo_audit = (Inr (Some d), st') \<and> ad_executeTx d = Some ''0x03''"
proof -
  let ?h = "computeProofHash sample_ethers demo_identity"
  obtain hq where hq: "buildQueueMessageHash sample_ethers (audit_blsDomain demo_audit_config) demo_signer 1 7 = Inr hq" using demo_messages(1) by blast
  obtain hx where hx: "buildExecuteMessageHash sample_ethers (audit_blsDomain demo_audit_config) 42 demo_signer 1 7 ?h = Inr hx" using demo_messages(2) by blast
  have cfg: "ac_executeSlash demo_audit_config" "\<not> ac_dryRun demo_audit_config" "ac_watchlist demo_audit_config = [demo_signer]"
    by (simp_all add: demo_audit_config_def AuditService_config_def)
  show ?thesis
    by (simp add: audit_run_simps demo_audit_env_def demo_violation_def demo_audit_def demo_archive_def AuditService_new_def cfg hq hx
        encodeProof_def RULE_OFFLINE_def DRY_RUN_TX_SENTINEL_def has_text_def no_result_def coarse_key_of_def initial_proof_def)
qed



section \<open>Evidence first\<close>

text \<open>Before the first write the evidence file holds \<open>p\<close>; afterwards the oldest new entry of the log carries it.\<close>

definition first_write :: "(audit_tx \<times> slash_proof option option) list \<Rightarrow> slash_proof \<Rightarrow> audit \<Rightarrow> bool" where
  "first_write L p st \<longleftrightarrow> (\<exists>new. au_txs st = new @ L \<and> new \<noteq> [] \<and> snd (last new) = Some (Some p))"

definition evidence_ready :: "(audit_tx \<times> slash_proof option option) list \<Rightarrow> string \<Rightarrow> slash_proof \<Rightarrow> audit \<Rightarrow> bool" where
  "evidence_ready L h p st \<longleftrightarrow> wrote L st \<and> ar_files (au_archive st) h = Some (Some p) \<or> first_write L p st"

lemma first_smodify [frame_rules]: "(\<And>s. au_txs (g s) = au_txs s) \<Longrightarrow> stable (first_write L p) (smodify g)"
  by (simp add: stable_def first_write_def)

lemma first_primitive [frame_rules]:
  "stable (first_write L p) (audit_clock A)" "stable (first_write L p) (in_archive m)" "stable (first_write L p) (log_tx t k)"
  by (auto simp: stable_def first_write_def audit_clock_def in_archive_def log_tx_def split: prod.splits)

lemma first_bookkeeping [frame_rules]: "stable (first_write L p) (persistStep q)" "stable (first_write L p) (bump_metric f)"
  unfolding persistStep_def bump_metric_def by (intro frame_rules; simp)+

lemma evidence_smodify [frame_rules]:
  "(\<And>s. au_txs (g s) = au_txs s \<and> au_archive (g s) = au_archive s) \<Longrightarrow> stable (evidence_ready L h p) (smodify g)"
  by (simp add: stable_def evidence_ready_def first_write_def wrote_def)

lemma log_first: "evidence_ready L h p st \<Longrightarrow> first_write L p (snd (log_tx t h st))"
  unfolding evidence_ready_def
proof (elim disjE conjE)
  assume "wrote L st" "ar_files (au_archive st) h = Some (Some p)"
  then show ?thesis unfolding first_write_def by (intro exI [of _ "[(t, Some (Some p))]"]) (simp add: wrote_def)
next
  assume "first_write L p st"
  then show ?thesis using first_primitive(3) [of L p t h] by (simp add: stable_def)
qed

lemma evidence_log [frame_rules]: "(\<And>v. stable (first_write L p) (f v)) \<Longrightarrow> stable (evidence_ready L h p) (sbind (log_tx t h) f)"
  using log_first [of L h p _ t] by (auto simp: stable_def sbind_def evidence_ready_def)

lemma evidence_archive [frame_rules]:
  "stable (evidence_ready L h p) (in_archive (archive_hasSlashed k))" "stable (evidence_ready L h p) (in_archive (archive_recordSlashed k))"
  by (auto simp: stable_def evidence_ready_def first_write_def wrote_def in_archive_def archive_hasSlashed_def archive_recordSlashed_def
      scatch_def sbind_def ar_fault_def split: list.splits)

lemma evidence_clock [frame_rules]: "stable (evidence_ready L h p) (audit_clock A)" "stable (evidence_ready L h p) (bump_metric f)"
  unfolding bump_metric_def by (simp_all add: stable_def evidence_ready_def first_write_def wrote_def audit_clock_def)

lemma evidence_steps [frame_rules]:
  assumes "ca_evidenceHash a = h"
  shows "stable (evidence_ready L h p) (queue_step cfg A a q)" "stable (evidence_ready L h p) (propose_step cfg A a armed q)"
    "stable (evidence_ready L h p) (execute_step cfg A a i q)"
  unfolding queue_step_def propose_step_def execute_step_def assms Let_def by (intro frame_rules)+

lemma evidence_attempt: "stable (evidence_ready L h p) (slash_attempt cfg A v h sk key rid q)"
  unfolding slash_attempt_def coordinateQuorumCoSign_def confirmSlashableAtBlock_def derivedSetIsFresh_def assessSlashState_def after_coordinate_def
    recordCoarseSlashed_def markCoarseSlashed_def Let_def
  by (intro frame_rules; simp)

text \<open>C22: evidence first. The first contract write a violation causes is asked for at a moment when the archive holds a readable proof of
  exactly that violation under its content address: same operator, level, block, rule and block hash; this holds whatever later
  fails, so no slash or proposal is ever on chain without its evidence having been durable before.\<close>

theorem evidence_is_archived_first:
  "\<exists>new. au_txs (snd (handleViolation cfg A v st)) = new @ au_txs st \<and>
     (if new = [] then True else \<exists>p. snd (last new) = Some (Some p) \<and> sp_proofHash p = computeProofHash (ae_ethers A) (vi_identity v)
        \<and> sp_operator p = vi_operator v \<and> sp_slashLevel p = vi_slashLevel v \<and> sp_epoch p = vi_violationBlock v
        \<and> ev_rule (sp_evidence p) = vi_rule v \<and> ev_violationBlockHash (sp_evidence p) = vi_violationBlockHash v)"
proof -
  obtain r st' where run: "handleViolation cfg A v st = (r, st')" by fastforce
  then have "\<exists>new. au_txs st' = new @ au_txs st \<and> (new \<noteq> [] \<longrightarrow> (\<exists>archived t. snd (last new) =
      Some (Some (initial_proof cfg A v (computeProofHash (ae_ethers A) (vi_identity v)) archived t))))"
  proof (cases rule: handle_cases [where key = "coarse_key_of cfg v"])
    case skipped
    then show ?thesis by (simp add: fresh_def wrote_def)
  next
    case (attempted st1 st2 r2 rid p)
    have "evidence_ready (au_txs st) (computeProofHash (ae_ethers A) (vi_identity v)) p st1"
      using attempted(2) open_effect(1) [OF attempted(1)] by (simp add: evidence_ready_def fresh_def)
    then have "evidence_ready (au_txs st) (computeProofHash (ae_ethers A) (vi_identity v)) p st2" by (rule stableD [OF evidence_attempt _ attempted(3)])
    then show ?thesis using open_effect(2) [OF attempted(1)] attempted(4) by (fastforce simp: evidence_ready_def first_write_def fresh_def wrote_def)
  qed
  then obtain new where "au_txs st' = new @ au_txs st" "new \<noteq> [] \<longrightarrow> (\<exists>archived t. snd (last new) =
      Some (Some (initial_proof cfg A v (computeProofHash (ae_ethers A) (vi_identity v)) archived t)))" by blast
  then show ?thesis by (intro exI [of _ new]) (auto simp: run initial_proof_def Let_def)
qed


section \<open>The tick\<close>

lemma unarmed_protocol: "slash_protocol cfg A a resume new \<Longrightarrow> \<not> may_slash cfg A a \<Longrightarrow> new = [] \<or> new = [propose_tx cfg a]"
  by (induction rule: slash_protocol.induct) auto

text \<open>The cache of node ids is only touched by the tick itself.\<close>

definition cached :: "(string \<times> string) list \<Rightarrow> audit \<Rightarrow> bool" where
  "cached C st \<longleftrightarrow> au_offlineNodeIdCache st = C"

lemma cached_smodify [frame_rules]: "(\<And>s. au_offlineNodeIdCache (g s) = au_offlineNodeIdCache s) \<Longrightarrow> stable (cached C) (smodify g)"
  by (simp add: stable_def cached_def)

lemma cached_primitive [frame_rules]: "stable (cached C) (audit_clock A)" "stable (cached C) (in_archive m)"
  by (auto simp: stable_def cached_def audit_clock_def in_archive_def split: prod.splits)

lemma cached_bookkeeping [frame_rules]:
  "stable (cached C) (bump_metric f)" "stable (cached C) (recordStableKey A k)" "stable (cached C) (markCoarseSlashed k)"
  "stable (cached C) (recordCoarseSlashed k)" "stable (cached C) (clearCoarseSlashed cfg oper rule)"
  "stable (cached C) (persistStep p)" "stable (cached C) (pruneDedupState cfg A)" "stable (cached C) (log_tx t h)"
  unfolding bump_metric_def recordStableKey_def markCoarseSlashed_def recordCoarseSlashed_def clearCoarseSlashed_def
    persistStep_def pruneDedupState_def log_tx_def Let_def
  by (intro frame_rules; simp)+

lemma cached_roles [frame_rules]:
  "stable (cached C) (derivedSetIsFresh cfg A)" "stable (cached C) (refreshDerivedOperators cfg A force pin)"
proof -
  show fresh: "stable (cached C) (derivedSetIsFresh cfg A)"
    unfolding derivedSetIsFresh_def by (intro frame_rules)
  show "stable (cached C) (refreshDerivedOperators cfg A force pin)"
    unfolding refreshDerivedOperators_def doRefreshDerivedOperators_def by (intro frame_rules; simp)
qed

interpretation cr: violation_frame "cached C" for C
  by unfold_locales (simp_all add: cached_def frame_rules)

lemma cached_violation [frame_rules]: "stable (cached C) (handleViolation cfg A v)"
  by (intro cr.violation frame_rules)

text \<open>The proposal of the offline rule: its evidence hash is the content address of the offline identity, which no observation of this
  node enters, and the last heartbeat of the operator's node is older than the threshold before the evidence block. \<open>R\<close> says which node is whose.\<close>

definition offline_filing :: "(string \<Rightarrow> string \<Rightarrow> bool) \<Rightarrow> audit_config \<Rightarrow> 'b audit_env \<Rightarrow> audit_tx \<Rightarrow> bool" where
  "offline_filing R cfg A t \<longleftrightarrow> (\<exists>operator nodeId block hash lastSeen blockTs.
     t = TxPropose operator SLASH_LEVEL_OFFLINE (computeProofHash (ae_ethers A) (offline_identity cfg (ae_ethers A) operator block)) (ac_dryRun cfg)
     \<and> ae_getViolationBlock A (ac_finalityConfirmations cfg) = Inr (block, hash)
     \<and> R operator nodeId \<and> ae_getLastSeen A nodeId = Some lastSeen \<and> ae_getBlockTimestamp A block = Inr blockTs \<and> lastSeen < blockTs * 1000 - OFFLINE_THRESHOLD_MS)"

definition filings :: "(string \<Rightarrow> string \<Rightarrow> bool) \<Rightarrow> audit_config \<Rightarrow> 'b audit_env \<Rightarrow> audit_tx list \<Rightarrow> audit \<Rightarrow> bool" where
  "filings R cfg A L st \<longleftrightarrow> (\<exists>new. txs st = new @ L \<and> list_all (offline_filing R cfg A) new)
     \<and> (\<forall>oper n. map_of (au_offlineNodeIdCache st) oper = Some n \<longrightarrow> R oper n)"

lemma quiet_filings: "(\<And>L. stable (wrote L) m) \<Longrightarrow> (\<And>C. stable (cached C) m) \<Longrightarrow> stable (filings R cfg A L') m"
  unfolding stable_def wrote_def cached_def filings_def txs_def by metis

lemma offline_handled:
  assumes "ae_getViolationBlock A (ac_finalityConfirmations cfg) = Inr (block, hash)" "ae_getLastSeen A nodeId = Some lastSeen"
    "ae_getBlockTimestamp A block = Inr ts" "lastSeen < ts * 1000 - OFFLINE_THRESHOLD_MS" "R operator nodeId"
  shows "stable (filings R cfg A L) (handleViolation cfg A (offline_violation cfg (ae_ethers A) operator nodeId block hash ms now))"
  unfolding stable_def
proof (intro allI impI)
  fix st assume "filings R cfg A L st"
  then obtain old where old: "txs st = old @ L" "list_all (offline_filing R cfg A) old"
    and cache: "\<forall>oper n. map_of (au_offlineNodeIdCache st) oper = Some n \<longrightarrow> R oper n" by (auto simp: filings_def)
  let ?v = "offline_violation cfg (ae_ethers A) operator nodeId block hash ms now"
  let ?a = "attempt_args ?v (computeProofHash (ae_ethers A) (vi_identity ?v))"
  obtain new resume where new: "txs (snd (handleViolation cfg A ?v st)) = rev new @ txs st" "slash_protocol cfg A ?a resume new"
    using slash_protocol_of_violation [of cfg A ?v st] by blast
  have "\<not> may_slash cfg A ?a" by (simp add: may_slash_def attempt_args_def offline_violation_def)
  moreover have "offline_filing R cfg A (propose_tx cfg ?a)"
    unfolding offline_filing_def propose_tx_def using assms
    by (intro exI [of _ operator] exI [of _ nodeId]) (auto simp: attempt_args_def offline_violation_def)
  ultimately have "list_all (offline_filing R cfg A) new" using unarmed_protocol [OF new(2)] by auto
  moreover have "au_offlineNodeIdCache (snd (handleViolation cfg A ?v st)) = au_offlineNodeIdCache st"
    using cached_violation [of "au_offlineNodeIdCache st" cfg A ?v] by (simp add: stable_def cached_def)
  ultimately show "filings R cfg A L (snd (handleViolation cfg A ?v st))" using new(1) old cache
    by (auto simp: filings_def intro!: exI [of _ "rev new @ old"])
qed

lemma stable_sbind_slift: "(\<And>v. r = Inr v \<Longrightarrow> stable P (f v)) \<Longrightarrow> stable P (sbind (slift r) f)"
  by (cases r) (simp_all add: stable_def sbind_def)

lemma stable_sbind_sgets: "(\<And>s. P s \<Longrightarrow> stable P (f (g s))) \<Longrightarrow> stable P (sbind (sgets g) f)"
  by (simp add: stable_def sbind_def)

lemma operator_filings:
  assumes "ae_getViolationBlock A (ac_finalityConfirmations cfg) = Inr pinned" "\<And>n. nid = Some n \<Longrightarrow> R operator n"
    and ids: "\<And>n. ae_getOperatorNodeId A (ac_blsAggregatorAddress cfg) operator = Inr (Some n) \<Longrightarrow> R operator n"
  shows "stable (filings R cfg A L) (auditOfflineForOperator cfg A operator pinned nid)"
proof -
  have v: "stable (filings R cfg A L) (sbind (handleViolation cfg A (offline_violation cfg (ae_ethers A) operator nodeId (fst pinned) (snd pinned) ms now)) (\<lambda>_. sret ()))"
    if "ae_getLastSeen A nodeId = Some lastSeen" "ae_getBlockTimestamp A (fst pinned) = Inr ts" "\<not> lastSeen \<ge> ts * 1000 - OFFLINE_THRESHOLD_MS" "R operator nodeId"
    for nodeId lastSeen ts ms now
    using that assms(1) by (intro frame_rules offline_handled [where lastSeen = lastSeen and ts = ts]) auto
  have quiet: "stable (filings R cfg A L) (audit_clock A)" "stable (filings R cfg A L) (clearCoarseSlashed cfg operator RULE_OFFLINE)"
    by (intro quiet_filings frame_rules)+
  have tail: "stable (filings R cfg A L) (sbind (audit_clock A) (\<lambda>now. if now < ts * 1000 then sbind (audit_clock A) (\<lambda>_. sret ()) else
      if lastSeen \<ge> ts * 1000 - OFFLINE_THRESHOLD_MS then clearCoarseSlashed cfg operator RULE_OFFLINE
      else sbind (audit_clock A) (\<lambda>observedAt. sbind (handleViolation cfg A (offline_violation cfg (ae_ethers A) operator nodeId (fst pinned) (snd pinned)
             (ts * 1000 - lastSeen) observedAt)) (\<lambda>_. sret ()))))"
    if "ae_getLastSeen A nodeId = Some lastSeen" "ae_getBlockTimestamp A (fst pinned) = Inr ts" "R operator nodeId" for nodeId lastSeen ts
    using v [OF that(1,2) _ that(3)] by (cases "lastSeen \<ge> ts * 1000 - OFFLINE_THRESHOLD_MS") (simp_all add: frame_rules quiet)
  have inner: "stable (filings R cfg A L) (case ae_getLastSeen A n of None \<Rightarrow> sret () | Some lastSeen \<Rightarrow>
      (case ae_getBlockTimestamp A (fst pinned) of Inl _ \<Rightarrow> sret () | Inr ts \<Rightarrow>
      sbind (audit_clock A) (\<lambda>now. if now < ts * 1000 then sbind (audit_clock A) (\<lambda>_. sret ()) else
      if lastSeen \<ge> ts * 1000 - OFFLINE_THRESHOLD_MS then clearCoarseSlashed cfg operator RULE_OFFLINE
      else sbind (audit_clock A) (\<lambda>observedAt. sbind (handleViolation cfg A (offline_violation cfg (ae_ethers A) operator n (fst pinned) (snd pinned)
             (ts * 1000 - lastSeen) observedAt)) (\<lambda>_. sret ())))))" if "R operator n" for n
    using that by (cases "ae_getLastSeen A n"; cases "ae_getBlockTimestamp A (fst pinned)") (simp_all add: stable_rules tail del: if_split)
  have found: "stable (filings R cfg A L) (sbind (case nid of None \<Rightarrow> slift (ae_getOperatorNodeId A (ac_blsAggregatorAddress cfg) operator) | Some n \<Rightarrow> sret (Some n)) f)"
    if some: "\<And>n. R operator n \<Longrightarrow> stable (filings R cfg A L) (f (Some n))" and none: "stable (filings R cfg A L) (f None)" for f :: "string option \<Rightarrow> (audit, unit) io"
  proof (cases nid)
    case None
    have "stable (filings R cfg A L) (f x)" if "ae_getOperatorNodeId A (ac_blsAggregatorAddress cfg) operator = Inr x" for x
      using that ids none some by (cases x) auto
    then show ?thesis by (simp add: None stable_sbind_slift)
  next
    case (Some n)
    then show ?thesis using some assms(2) by (simp add: sbind_def sret_def)
  qed
  show ?thesis
    unfolding auditOfflineForOperator_def Let_def
  proof (rule stable_if [OF stable_rules(1) found], goal_cases)
    case (1 n)
    then show ?case by (simp only: option.sel) (intro stable_if stable_rules inner)
  next
    case 2
    then show ?case by (simp add: has_text_def stable_rules)
  qed
qed

lemma sweep_filings:
  assumes "ae_getViolationBlock A (ac_finalityConfirmations cfg) = Inr pinned"
    and ids: "\<And>oper n. ae_getOperatorNodeId A (ac_blsAggregatorAddress cfg) oper = Inr (Some n) \<Longrightarrow> R oper n"
  shows "stable (filings R cfg A L) (sweep cfg A pinned operators)" "total_io (sweep cfg A pinned operators)"
proof (induction operators)
  case (Cons operator rest)
  have m: "stable (filings R cfg A L) (bump_metric f)" for f by (intro quiet_filings frame_rules)
  have look: "stable (filings R cfg A L) (sbind (sgets (\<lambda>st. map_of (au_offlineNodeIdCache st) operator)) (\<lambda>nid.
      scatch (auditOfflineForOperator cfg A operator pinned nid) (\<lambda>_. bump_metric f)))" for f
    by (intro stable_sbind_sgets stable_scatch m operator_filings [OF assms(1) _ ids]) (auto simp: filings_def)
  case 1
  show ?case using Cons(1) look by (simp add: frame_rules)
  case 2
  show ?case using Cons by (simp add: frame_rules)
qed (simp_all add: frame_rules)

lemma resolved_ids:
  assumes "\<And>oper n. ae_getOperatorNodeId A (ac_blsAggregatorAddress cfg) oper = Inr (Some n) \<Longrightarrow> R oper n"
  shows "(\<And>oper n. map_of cache oper = Some n \<Longrightarrow> R oper n) \<Longrightarrow> map_of (resolve_node_ids cfg A operators cache) oper = Some n \<Longrightarrow> R oper n"
proof (induction operators arbitrary: cache)
  case (Cons operator rest)
  let ?next = "case ae_getOperatorNodeId A (ac_blsAggregatorAddress cfg) operator of Inl _ \<Rightarrow> cache
      | Inr nid \<Rightarrow> if has_text nid then AList.update operator (the nid) cache else AList.delete operator cache"
  have "R o' m" if "map_of ?next o' = Some m" for o' m
    using that Cons.prems(1) assms by (auto simp: has_text_def update_conv delete_conv restrict_map_def split: sum.splits if_splits)
  then show ?case using Cons.IH [of ?next] Cons.prems(2) by simp
qed simp

lemma tick_frame:
  assumes ids: "\<And>oper n. ae_getOperatorNodeId A (ac_blsAggregatorAddress cfg) oper = Inr (Some n) \<Longrightarrow> R oper n"
  shows "stable (filings R cfg A L) (tick_sweep cfg A)" "total_io (tick_sweep cfg A)"
proof -
  have q: "stable (filings R cfg A L) (refreshDerivedOperators cfg A b n)" "stable (filings R cfg A L) (derivedSetIsFresh cfg A)"
    for b n by (intro quiet_filings frame_rules)+
  have refresh: "stable (filings R cfg A L) (smodify (refresh_node_ids cfg A operators))" for operators
    unfolding stable_def
  proof (intro allI impI)
    fix st assume f: "filings R cfg A L st"
    then have "map_of (filter (\<lambda>(oper, _). oper \<in> set operators) (au_offlineNodeIdCache st)) oper = Some n \<Longrightarrow> R oper n" for oper n
      by (simp add: filings_def map_of_filter_key split: if_splits)
    then show "filings R cfg A L (snd (smodify (refresh_node_ids cfg A operators) st))"
      using f resolved_ids [of A cfg R "filter (\<lambda>(oper, _). oper \<in> set operators) (au_offlineNodeIdCache st)" operators, OF ids]
      by (auto simp: filings_def refresh_node_ids_def txs_def Let_def)
  qed
  show "stable (filings R cfg A L) (tick_sweep cfg A)"
    unfolding tick_sweep_def by (cases "ae_getViolationBlock A (ac_finalityConfirmations cfg)") (simp_all add: frame_rules q refresh sweep_filings ids)
  show "total_io (tick_sweep cfg A)"
    unfolding tick_sweep_def by (cases "ae_getViolationBlock A (ac_finalityConfirmations cfg)") (simp_all add: frame_rules sweep_filings(2) [where R = R, OF _ ids])
qed

text \<open>The node of an operator: the chain's answer in this tick, or what an earlier tick cached.\<close>

definition node_of :: "audit_config \<Rightarrow> 'b audit_env \<Rightarrow> audit \<Rightarrow> string \<Rightarrow> string \<Rightarrow> bool" where
  "node_of cfg A st oper n \<longleftrightarrow> ae_getOperatorNodeId A (ac_blsAggregatorAddress cfg) oper = Inr (Some n) \<or> map_of (au_offlineNodeIdCache st) oper = Some n"

lemma tick_filings:
  "fst (audit_tick cfg A st) = Inr () \<and>
   (if au_tickInFlight st then snd (audit_tick cfg A st) = st else \<not> au_tickInFlight (snd (audit_tick cfg A st))) \<and>
   (\<exists>new. txs (snd (audit_tick cfg A st)) = new @ txs st \<and> list_all (offline_filing (node_of cfg A st) cfg A) new)"
proof (cases "au_tickInFlight st")
  case True
  then show ?thesis by (simp add: audit_tick_def)
next
  case False
  let ?m = "sbind (smodify (\<lambda>st. st\<lparr>au_tickInFlight := True\<rparr>)) (\<lambda>_. sbind (audit_clock A) (\<lambda>now.
     sbind (smodify (\<lambda>st. st\<lparr>au_lastTickAt := Some now\<rparr>)) (\<lambda>_. sbind (pruneDedupState cfg A) (\<lambda>_. tick_sweep cfg A))))"
  have frame: "stable (filings (node_of cfg A st) cfg A (txs st)) (tick_sweep cfg A)" "total_io (tick_sweep cfg A)"
    by (rule tick_frame, simp add: node_of_def)+
  have q: "stable (filings (node_of cfg A st) cfg A (txs st)) (smodify (\<lambda>st. st\<lparr>au_tickInFlight := True\<rparr>))" "stable (filings (node_of cfg A st) cfg A (txs st)) (audit_clock A)"
    "stable (filings (node_of cfg A st) cfg A (txs st)) (smodify (\<lambda>st. st\<lparr>au_lastTickAt := Some now\<rparr>))" "stable (filings (node_of cfg A st) cfg A (txs st)) (pruneDedupState cfg A)" for now
    by (intro quiet_filings frame_rules; simp)+
  have "stable (filings (node_of cfg A st) cfg A (txs st)) ?m" by (simp add: frame_rules q frame)
  moreover have "filings (node_of cfg A st) cfg A (txs st) st" by (simp add: filings_def node_of_def)
  ultimately have f: "filings (node_of cfg A st) cfg A (txs st) (snd (?m st))" by (simp add: stable_def)
  have "total_io ?m" by (simp add: frame_rules frame)
  then obtain st' where run: "?m st = (Inr (), st')" using total_ioD by fastforce
  have tick: "audit_tick cfg A st = (Inr (), st'\<lparr>au_tickInFlight := False\<rparr>)" using run False by (simp add: audit_tick_def)
  show ?thesis using f False by (simp add: tick run filings_def txs_def)
qed

text \<open>C15: the tick. Whatever the chain, the gossip ledger, the disk and the peers do, a tick of the audit never throws, leaves the single-flight
  flag clear for the next one (a tick that finds another one in flight changes nothing), and every contract write
  it causes is a proposal of the offline rule at the finalized block of that tick: no tick ever queues or executes a slash, each
  proposal concerns an operator whose node, as the chain names it now or named it when it was cached, sent its last heartbeat more than the threshold before the
  block's own timestamp, and its evidence hash is the same on every node that files it.\<close>

theorem audit_tick_files_only_offline_nodes:
  "fst (audit_tick cfg A st) = Inr () \<and>
   (if au_tickInFlight st then snd (audit_tick cfg A st) = st else \<not> au_tickInFlight (snd (audit_tick cfg A st))) \<and>
   (\<exists>new. txs (snd (audit_tick cfg A st)) = new @ txs st \<and> list_all (offline_filing (node_of cfg A st) cfg A) new)"
  by (rule tick_filings)

section \<open>A torn archive file\<close>

text \<open>A failed archive write loses the violation. On a node that only files proposals, when the disk refuses the write of the proof after
  the file was opened, the violation throws without a contract write; but the truncated file is there, so the next attempt at the same
  violation takes it for archived evidence and skips: no proof is readable and no proposal is ever filed for it, although the disk
  works again.\<close>

theorem failed_archive_write_drops_violation:
  assumes "\<not> ac_executeSlash cfg" "stable_key cfg v \<notin> set (au_coSignRetryKeys st)" "stable_key cfg v \<notin> fst ` set (au_proposedStableKeys st)"
    and "ar_files (au_archive st) (computeProofHash (ae_ethers A) (vi_identity v)) = None" "ar_faults (au_archive st) = [False, False, True]"
    and "ae_ethers A' = ae_ethers A"
  shows "\<exists>st'. handleViolation cfg A v st = (Inl IoError, st') \<and> au_txs st' = au_txs st \<and> handleViolation cfg A' v st' = (Inr None, st')
    \<and> fst (archive_get (computeProofHash (ae_ethers A) (vi_identity v)) (au_archive st')) = Inr None"
proof -
  let ?h = "computeProofHash (ae_ethers A) (vi_identity v)"
  have hash: "sp_proofHash (initial_proof cfg A v ?h None t) = ?h" for t by (simp add: initial_proof_def Let_def)
  let ?st = "st\<lparr>au_clockReads := Suc (au_clockReads st), au_archive := au_archive st\<lparr>ar_faults := [], ar_files := (ar_files (au_archive st))(?h \<mapsto> None)\<rparr>\<rparr>"
  have "handleViolation cfg A v st = (Inl IoError, ?st)"
    using assms by (simp add: handleViolation_def open_violation_def dedup_skip_def archive_has_def archive_put_def ar_fault_def in_archive_def
        audit_clock_def sbind_def scatch_def Let_def hash)
  moreover have "handleViolation cfg A' v ?st = (Inr None, ?st)"
    using assms by (simp add: handleViolation_def open_violation_def dedup_skip_def archive_has_def ar_fault_def in_archive_def sbind_def scatch_def Let_def)
  ultimately show ?thesis by (intro exI [of _ ?st]) (simp add: archive_get_def scatch_def sbind_def ar_fault_def)
qed

theorem failed_archive_write_drops_violation_witness:
  "\<exists>st'. handleViolation (demo_audit_config\<lparr>ac_executeSlash := False\<rparr>) demo_audit_env demo_violation
      (demo_audit\<lparr>au_archive := demo_archive\<lparr>ar_faults := [False, False, True]\<rparr>\<rparr>) = (Inl IoError, st')
    \<and> handleViolation (demo_audit_config\<lparr>ac_executeSlash := False\<rparr>) demo_audit_env demo_violation st' = (Inr None, st')"
  using failed_archive_write_drops_violation [of "demo_audit_config\<lparr>ac_executeSlash := False\<rparr>" demo_violation
      "demo_audit\<lparr>au_archive := demo_archive\<lparr>ar_faults := [False, False, True]\<rparr>\<rparr>" demo_audit_env demo_audit_env]
  by (auto simp: demo_audit_def demo_archive_def AuditService_new_def)

end
