(* ===== verification/Confirmation.thy ===== *)
theory Confirmation
  imports Policy_Gate
begin

text \<open>
  \<^verbatim>\<open>src/modules/confirmation/confirmation.service.ts\<close> and \<^verbatim>\<open>src/modules/notification/notification.service.ts\<close>: the
  out-of-band approval of high-value operations and the channels it is sent over.

  \<open>confirmation\<close> is the map of pending approvals. Its entries are objects that a method keeps across an \<^verbatim>\<open>await\<close>, so each has
  an identity (\<open>pd_ref\<close>, fresh from \<open>cf_next\<close>); \<open>cf_checks\<close> holds the passkey requests that wait for the KMS.
  A method is split at its \<^verbatim>\<open>await\<close>: the parts are atomic and may interleave. A Telegram request is the parameter
  \<open>http\<close>; what was asked for is logged. The decoding of the WebAuthn client data, a base64url-encoded JSON text, and the base64url
  encoding of a hash are parameters, and so is the KMS. Message texts are data of the type \<open>notice\<close>.
\<close>

section \<open>Notification\<close>

record contact =
  telegramChatId :: "string option"
  email :: "string option"
  nostrPubkey :: "string option"

datatype notice = ConfirmRequest string string string | LargeSpend string int string

record notify_settings =
  notifyEnabled :: "bool option"
  notifyThresholdWei :: "string option"
  telegramBotToken :: "string option"
  notifyContacts :: "(string \<times> contact) list option"

record notify_config =
  nc_enabled :: bool
  nc_thresholdWei :: int
  nc_channels :: "string list"
  nc_contacts :: "string \<rightharpoonup> contact"

type_synonym http = "string \<Rightarrow> string \<Rightarrow> notice \<Rightarrow> unit result"
type_synonym outbox = "(string \<times> notice) list"

text \<open>\<open>notifyContacts\<close> is the parsed contacts file, \<open>None\<close> when it is missing or unreadable.\<close>

fun load_contacts :: "(string \<times> contact) list \<Rightarrow> (string \<rightharpoonup> contact) \<Rightarrow> (string \<rightharpoonup> contact)" where
  "load_contacts [] m = m"
| "load_contacts ((acct, c) # rest) m = load_contacts rest (m(lower acct \<mapsto> c))"

definition NotificationService_new :: "notify_settings \<Rightarrow> notify_config result" where
  "NotificationService_new s =
     rbind (js_BigInt (case notifyThresholdWei s of None \<Rightarrow> ''0'' | Some t \<Rightarrow> t)) (\<lambda>threshold.
     Inr \<lparr>nc_enabled = (notifyEnabled s = Some True), nc_thresholdWei = threshold,
          nc_channels = (case telegramBotToken s of None \<Rightarrow> [] | Some t \<Rightarrow> if t = [] then [] else [t]),
          nc_contacts = load_contacts (case notifyContacts s of None \<Rightarrow> [] | Some cs \<Rightarrow> cs) Map.empty\<rparr>)"

definition TelegramChannel_send :: "http \<Rightarrow> string \<Rightarrow> contact \<Rightarrow> notice \<Rightarrow> (outbox, unit) io" where
  "TelegramChannel_send post token contact message =
     (case telegramChatId contact of None \<Rightarrow> sret ()
      | Some chat \<Rightarrow> if chat = [] then sret () else
          sbind (smodify (\<lambda>out. (chat, message) # out)) (\<lambda>_. slift (post token chat message)))"

definition hasContact :: "notify_config \<Rightarrow> string \<Rightarrow> bool" where
  "hasContact nc account \<longleftrightarrow> nc_contacts nc (lower account) \<noteq> None"

text \<open>\<^verbatim>\<open>Promise.allSettled\<close> over the channels: all are tried; the result is whether one of them did not throw.\<close>

fun send_all :: "http \<Rightarrow> contact \<Rightarrow> notice \<Rightarrow> string list \<Rightarrow> (outbox, bool) io" where
  "send_all post contact message [] = sret False"
| "send_all post contact message (ch # chs) =
     sbind (scatch (sbind (TelegramChannel_send post ch contact message) (\<lambda>_. sret True)) (\<lambda>_. sret False)) (\<lambda>ok.
     sbind (send_all post contact message chs) (\<lambda>rest. sret (ok \<or> rest)))"

definition sendToAccount :: "notify_config \<Rightarrow> http \<Rightarrow> string \<Rightarrow> notice \<Rightarrow> (outbox, bool) io" where
  "sendToAccount nc post account message =
     (case nc_contacts nc (lower account) of None \<Rightarrow> sret False
      | Some contact \<Rightarrow> if nc_channels nc = [] then sret False else send_all post contact message (nc_channels nc))"

text \<open>Both services read the native value of an operation with the same method.\<close>

definition nativeValue :: "'b ethers \<Rightarrow> policy_abi \<Rightarrow> packed_user_op \<Rightarrow> int" where
  "nativeValue E A userOp =
     (let cd = uo_callData userOp in
      if take 10 cd \<noteq> EXECUTE_SELECTOR E then 0
      else case decode_address_uint256_bytes A (''0x'' @ drop 10 cd) of Inl _ \<Rightarrow> 0 | Inr (_, value, _) \<Rightarrow> value)"

definition plan :: "'b ethers \<Rightarrow> policy_abi \<Rightarrow> notify_config \<Rightarrow> packed_user_op \<Rightarrow> string \<Rightarrow> (contact \<times> notice) option" where
  "plan E A nc userOp userOpHash =
     (if \<not> nc_enabled nc then None
      else let amount = nativeValue E A userOp in
      if amount < nc_thresholdWei nc then None
      else case nc_contacts nc (lower (uo_sender userOp)) of None \<Rightarrow> None
      | Some contact \<Rightarrow> Some (contact, LargeSpend (uo_sender userOp) amount userOpHash))"

fun notify_channels :: "http \<Rightarrow> contact \<Rightarrow> notice \<Rightarrow> string list \<Rightarrow> (outbox, unit) io" where
  "notify_channels post contact message [] = sret ()"
| "notify_channels post contact message (ch # chs) =
     sbind (scatch (TelegramChannel_send post ch contact message) (\<lambda>_. sret ())) (\<lambda>_. notify_channels post contact message chs)"

definition notifyLargeSpend :: "'b ethers \<Rightarrow> policy_abi \<Rightarrow> notify_config \<Rightarrow> http \<Rightarrow> packed_user_op \<Rightarrow> string \<Rightarrow> (outbox, unit) io" where
  "notifyLargeSpend E A nc post userOp userOpHash =
     (case plan E A nc userOp userOpHash of None \<Rightarrow> sret ()
      | Some (contact, message) \<Rightarrow> notify_channels post contact message (nc_channels nc))"

section \<open>Confirmation\<close>

datatype gate_result = NotRequired | Confirmed | PendingConfirm | Undeliverable
datatype confirmation_status = StPending | StApproved | StExpired | StNotFound

record pending =
  pd_token :: string
  pd_confirmed :: bool
  pd_expiry :: int
  pd_account :: string
  pd_ref :: nat

record confirm_settings =
  confirmEnabled :: "bool option"
  confirmThresholdWei :: "string option"
  confirmTtlMs :: "int option"
  kmsBaseUrl :: "string option"
  kmsApiKey :: "string option"

record confirm_config =
  cc_enabled :: bool
  cc_thresholdWei :: int
  cc_ttlMs :: int
  cc_kmsBaseUrl :: string
  cc_kmsApiKey :: string

record confirmation =
  cf_pending :: "string \<rightharpoonup> pending"
  cf_next :: nat
  cf_checks :: "(string \<times> nat) list"
  cf_posts :: outbox

text \<open>\<^verbatim>\<open>s.replace(/\\/$/, "")\<close>\<close>

definition strip_slash :: "string \<Rightarrow> string" where
  "strip_slash s = (if s \<noteq> [] \<and> last s = CHR ''/'' then butlast s else s)"

definition ConfirmationService_config :: "confirm_settings \<Rightarrow> confirm_config result" where
  "ConfirmationService_config s =
     rbind (js_BigInt (case confirmThresholdWei s of None \<Rightarrow> ''0'' | Some t \<Rightarrow> t)) (\<lambda>threshold.
     Inr \<lparr>cc_enabled = (confirmEnabled s = Some True), cc_thresholdWei = threshold,
          cc_ttlMs = (case confirmTtlMs s of None \<Rightarrow> 600000 | Some t \<Rightarrow> t),
          cc_kmsBaseUrl = strip_slash (case kmsBaseUrl s of None \<Rightarrow> [] | Some u \<Rightarrow> u),
          cc_kmsApiKey = (case kmsApiKey s of None \<Rightarrow> [] | Some k \<Rightarrow> k)\<rparr>)"

definition ConfirmationService_new :: confirmation where
  "ConfirmationService_new = \<lparr>cf_pending = Map.empty, cf_next = 0, cf_checks = [], cf_posts = []\<rparr>"

text \<open>The gate up to its \<^verbatim>\<open>await\<close>: its result, or the message to deliver. \<open>random\<close> is the hex text of the 16 random bytes.\<close>

datatype gate_step = GateDone gate_result | GateDeliver notice

definition gate_start :: "'b ethers \<Rightarrow> policy_abi \<Rightarrow> notify_config \<Rightarrow> confirm_config \<Rightarrow> int \<Rightarrow> string \<Rightarrow> packed_user_op \<Rightarrow> string \<Rightarrow>
    confirmation \<Rightarrow> gate_step \<times> confirmation" where
  "gate_start E A nc cc now random userOp userOpHash st =
     (if \<not> cc_enabled cc then (GateDone NotRequired, st)
      else if nativeValue E A userOp < cc_thresholdWei cc then (GateDone NotRequired, st)
      else
      let st1 = (case cf_pending st userOpHash of None \<Rightarrow> st
            | Some p \<Rightarrow> if pd_expiry p \<le> now then st\<lparr>cf_pending := (cf_pending st)(userOpHash := None)\<rparr> else st) in
      case cf_pending st1 userOpHash of
        Some p \<Rightarrow> if pd_confirmed p then (GateDone Confirmed, st1\<lparr>cf_pending := (cf_pending st1)(userOpHash := None)\<rparr>)
                  else (GateDone PendingConfirm, st1)
      | None \<Rightarrow>
          if \<not> hasContact nc (uo_sender userOp) then (GateDone Undeliverable, st1)
          else let token = ''0x'' @ random in
            (GateDeliver (ConfirmRequest (uo_sender userOp) userOpHash token),
             st1\<lparr>cf_pending := (cf_pending st1)(userOpHash \<mapsto> \<lparr>pd_token = token, pd_confirmed = False, pd_expiry = now + cc_ttlMs cc,
                   pd_account = uo_sender userOp, pd_ref = cf_next st1\<rparr>), cf_next := Suc (cf_next st1)\<rparr>))"

definition gate_finish :: "string \<Rightarrow> bool \<Rightarrow> confirmation \<Rightarrow> gate_result \<times> confirmation" where
  "gate_finish userOpHash delivered st =
     (if \<not> delivered then (Undeliverable, st\<lparr>cf_pending := (cf_pending st)(userOpHash := None)\<rparr>) else (PendingConfirm, st))"

text \<open>The whole gate when nothing else runs while the message is sent.\<close>

definition gate :: "'b ethers \<Rightarrow> policy_abi \<Rightarrow> notify_config \<Rightarrow> confirm_config \<Rightarrow> http \<Rightarrow> int \<Rightarrow> string \<Rightarrow> packed_user_op \<Rightarrow> string \<Rightarrow>
    (confirmation, gate_result) io" where
  "gate E A nc cc post now random userOp userOpHash st =
     (case gate_start E A nc cc now random userOp userOpHash st of
        (GateDone r, st1) \<Rightarrow> (Inr r, st1)
      | (GateDeliver message, st1) \<Rightarrow>
          (case sendToAccount nc post (uo_sender userOp) message (cf_posts st1) of
             (Inl e, out) \<Rightarrow> (Inl e, st1\<lparr>cf_posts := out\<rparr>)
           | (Inr delivered, out) \<Rightarrow> (case gate_finish userOpHash delivered (st1\<lparr>cf_posts := out\<rparr>) of (r, st2) \<Rightarrow> (Inr r, st2))))"

definition getStatus :: "int \<Rightarrow> string \<Rightarrow> confirmation \<Rightarrow> confirmation_status \<times> int option" where
  "getStatus now userOpHash st =
     (case cf_pending st userOpHash of None \<Rightarrow> (StNotFound, None)
      | Some p \<Rightarrow> if pd_expiry p \<le> now then (StExpired, Some (pd_expiry p))
          else (if pd_confirmed p then StApproved else StPending, Some (pd_expiry p)))"

definition confirm :: "int \<Rightarrow> string \<Rightarrow> string \<Rightarrow> confirmation \<Rightarrow> bool \<times> confirmation" where
  "confirm now userOpHash token st =
     (case cf_pending st userOpHash of None \<Rightarrow> (False, st)
      | Some p \<Rightarrow> if pd_expiry p \<le> now \<or> pd_token p \<noteq> token then (False, st)
          else (True, st\<lparr>cf_pending := (cf_pending st)(userOpHash \<mapsto> p\<lparr>pd_confirmed := True\<rparr>)\<rparr>))"

text \<open>A passkey assertion: its client data, \<open>None\<close> when the field is no string. \<open>client_data\<close> parses it into the type and challenge fields.\<close>

record webauthn =
  wa_client_data :: "string \<Rightarrow> (string option \<times> string option) result"
  wa_base64url_of_hex :: "string \<Rightarrow> string"
  wa_kms_verify :: "string \<Rightarrow> string \<Rightarrow> string \<Rightarrow> string option \<Rightarrow> bool result"

definition assertionBindsTo :: "webauthn \<Rightarrow> string option \<Rightarrow> string \<Rightarrow> bool" where
  "assertionBindsTo W passkey userOpHash =
     (case passkey of None \<Rightarrow> False
      | Some cdj \<Rightarrow> (case wa_client_data W cdj of Inl _ \<Rightarrow> False
        | Inr (ty, challenge) \<Rightarrow> ty = Some ''webauthn.get''
            \<and> challenge = Some (wa_base64url_of_hex W (if take 2 userOpHash = ''0x'' then drop 2 userOpHash else userOpHash))))"

definition realKmsVerify :: "webauthn \<Rightarrow> confirm_config \<Rightarrow> string \<Rightarrow> string \<Rightarrow> string option \<Rightarrow> bool result" where
  "realKmsVerify W cc account userOpHash passkey =
     (if cc_kmsBaseUrl cc = [] then Inr False else wa_kms_verify W (cc_kmsBaseUrl cc) account userOpHash passkey)"

text \<open>The request up to the KMS call: the entry it keeps, when the checks pass.\<close>

definition passkey_start :: "webauthn \<Rightarrow> int \<Rightarrow> string \<Rightarrow> string option \<Rightarrow> confirmation \<Rightarrow> pending option" where
  "passkey_start W now userOpHash passkey st =
     (case cf_pending st userOpHash of None \<Rightarrow> None
      | Some p \<Rightarrow> if pd_expiry p \<le> now \<or> \<not> assertionBindsTo W passkey userOpHash then None else Some p)"

definition passkey_finish :: "string \<Rightarrow> nat \<Rightarrow> bool \<Rightarrow> confirmation \<Rightarrow> bool \<times> confirmation" where
  "passkey_finish userOpHash ref verified st =
     (if \<not> verified then (False, st)
      else (True, case cf_pending st userOpHash of None \<Rightarrow> st
        | Some p \<Rightarrow> if pd_ref p = ref then st\<lparr>cf_pending := (cf_pending st)(userOpHash \<mapsto> p\<lparr>pd_confirmed := True\<rparr>)\<rparr> else st))"

definition confirmWithPasskey :: "webauthn \<Rightarrow> confirm_config \<Rightarrow> int \<Rightarrow> string \<Rightarrow> string option \<Rightarrow> confirmation \<Rightarrow> bool \<times> confirmation" where
  "confirmWithPasskey W cc now userOpHash passkey st =
     (case passkey_start W now userOpHash passkey st of None \<Rightarrow> (False, st)
      | Some p \<Rightarrow> passkey_finish userOpHash (pd_ref p)
          (realKmsVerify W cc (lower (pd_account p)) userOpHash passkey = Inr True) st)"

section \<open>Runs\<close>

text \<open>The atomic parts of the methods as events; the log of their outcomes is kept newest first. A KMS answer is only processed for a
  request that is waiting for it.\<close>

datatype confirm_event =
    EvGate packed_user_op string int string
  | EvDelivered string bool
  | EvConfirm string string int
  | EvPasskey string "string option" int
  | EvVerified string nat bool

datatype confirm_output =
    OIssued notice
  | OGate string gate_result
  | OConfirm string string bool
  | OPasskey string bool
  | OQuiet

definition confirm_step :: "'b ethers \<Rightarrow> policy_abi \<Rightarrow> notify_config \<Rightarrow> confirm_config \<Rightarrow> webauthn \<Rightarrow> confirm_event \<Rightarrow> confirmation \<Rightarrow>
    confirm_output \<times> confirmation" where
  "confirm_step E A nc cc W ev st =
     (case ev of
        EvGate userOp h now random \<Rightarrow>
          (case gate_start E A nc cc now random userOp h st of
             (GateDone r, st') \<Rightarrow> (OGate h r, st') | (GateDeliver message, st') \<Rightarrow> (OIssued message, st'))
      | EvDelivered h ok \<Rightarrow> (case gate_finish h ok st of (r, st') \<Rightarrow> (OGate h r, st'))
      | EvConfirm h token now \<Rightarrow> (case confirm now h token st of (ok, st') \<Rightarrow> (OConfirm h token ok, st'))
      | EvPasskey h passkey now \<Rightarrow>
          (case passkey_start W now h passkey st of None \<Rightarrow> (OPasskey h False, st)
           | Some p \<Rightarrow> (OQuiet, st\<lparr>cf_checks := (h, pd_ref p) # cf_checks st\<rparr>))
      | EvVerified h ref ok \<Rightarrow>
          if (h, ref) \<in> set (cf_checks st)
          then (case passkey_finish h ref ok st of (r, st') \<Rightarrow> (OPasskey h r, st'\<lparr>cf_checks := remove1 (h, ref) (cf_checks st')\<rparr>))
          else (OQuiet, st))"

fun confirm_run :: "'b ethers \<Rightarrow> policy_abi \<Rightarrow> notify_config \<Rightarrow> confirm_config \<Rightarrow> webauthn \<Rightarrow> confirm_event list \<Rightarrow>
    confirm_output list \<times> confirmation \<Rightarrow> confirm_output list \<times> confirmation" where
  "confirm_run E A nc cc W [] s = s"
| "confirm_run E A nc cc W (ev # evs) (outs, st) =
     (case confirm_step E A nc cc W ev st of (x, st') \<Rightarrow> confirm_run E A nc cc W evs (x # outs, st'))"

definition approval :: "string \<Rightarrow> confirm_output \<Rightarrow> bool" where
  "approval h x = (case x of OConfirm h' _ ok \<Rightarrow> h' = h \<and> ok | OPasskey h' ok \<Rightarrow> h' = h \<and> ok | _ \<Rightarrow> False)"

definition approvals :: "string \<Rightarrow> confirm_output list \<Rightarrow> nat" where
  "approvals h outs = length (filter (approval h) outs)"

definition releases :: "string \<Rightarrow> confirm_output list \<Rightarrow> nat" where
  "releases h outs = length (filter (\<lambda>x. x = OGate h Confirmed) outs)"

definition issued :: "string \<Rightarrow> string \<Rightarrow> confirm_output list \<Rightarrow> bool" where
  "issued h token outs = list_ex (\<lambda>x. case x of OIssued (ConfirmRequest _ h' token') \<Rightarrow> h' = h \<and> token' = token | _ \<Rightarrow> False) outs"

text \<open>What every outcome needs of the ones before it: a token that is accepted was issued for that operation, and a release has an
  approval of its own.\<close>

definition justified :: "confirm_output \<Rightarrow> confirm_output list \<Rightarrow> bool" where
  "justified x past =
     (case x of
        OConfirm h token ok \<Rightarrow> ok \<longrightarrow> issued h token past
      | OGate h r \<Rightarrow> r = Confirmed \<longrightarrow> releases h past < approvals h past
      | _ \<Rightarrow> True)"

fun authentic :: "confirm_output list \<Rightarrow> bool" where
  "authentic [] = True"
| "authentic (x # past) = (justified x past \<and> authentic past)"

definition confirm_inv :: "confirm_output list \<Rightarrow> confirmation \<Rightarrow> bool" where
  "confirm_inv outs st \<longleftrightarrow> authentic outs \<and> (\<forall>h. releases h outs \<le> approvals h outs)
     \<and> (\<forall>h p. cf_pending st h = Some p \<longrightarrow> issued h (pd_token p) outs
          \<and> (pd_confirmed p \<longrightarrow> releases h outs < approvals h outs))"

lemma approvals_Cons: "approvals h (x # outs) = (if approval h x then Suc (approvals h outs) else approvals h outs)"
  and releases_Cons: "releases h (x # outs) = (if x = OGate h Confirmed then Suc (releases h outs) else releases h outs)"
  and issued_Cons: "issued h t (x # outs) \<longleftrightarrow> (\<exists>account. x = OIssued (ConfirmRequest account h t)) \<or> issued h t outs"
  by (auto simp: approvals_def releases_def issued_def split: confirm_output.splits notice.splits)

lemmas confirm_log = approvals_Cons releases_Cons issued_Cons approval_def justified_def Suc_le_eq

lemma gate_start_inv:
  assumes "confirm_inv outs st" "gate_start E A nc cc now random userOp h st = (g, st')"
  shows "confirm_inv ((case g of GateDone r \<Rightarrow> OGate h r | GateDeliver m \<Rightarrow> OIssued m) # outs) st'"
  using assms unfolding confirm_inv_def gate_start_def Let_def
  by (auto simp: confirm_log split: if_splits option.splits)

lemma step_inv:
  assumes "confirm_inv outs st" "confirm_step E A nc cc W ev st = (x, st')"
  shows "confirm_inv (x # outs) st'"
proof (cases ev)
  case (EvGate userOp h now random)
  obtain g t where g: "gate_start E A nc cc now random userOp h st = (g, t)" by fastforce
  show ?thesis using gate_start_inv [OF assms(1) g] assms(2) EvGate g by (auto simp: confirm_step_def split: gate_step.splits)
next
  case (EvDelivered h ok)
  then show ?thesis using assms by (auto simp: confirm_inv_def confirm_step_def gate_finish_def confirm_log split: if_splits)
next
  case (EvConfirm h token now)
  then show ?thesis using assms
    by (auto simp: confirm_inv_def confirm_step_def confirm_def confirm_log le_Suc_eq less_Suc_eq_le split: option.splits if_splits)
next
  case (EvPasskey h passkey now)
  then show ?thesis using assms by (auto simp: confirm_inv_def confirm_step_def passkey_start_def confirm_log split: option.splits if_splits)
next
  case (EvVerified h ref ok)
  then show ?thesis using assms
    by (auto simp: confirm_inv_def confirm_step_def passkey_finish_def confirm_log le_Suc_eq less_Suc_eq_le split: option.splits if_splits)
qed

lemma run_inv: "confirm_inv outs st \<Longrightarrow> confirm_run E A nc cc W evs (outs, st) = (outs', st') \<Longrightarrow> confirm_inv outs' st'"
  by (induction evs arbitrary: outs st) (auto dest: step_inv split: prod.splits)

text \<open>C9: approvals are single-use and unforgeable. In every interleaving of gate requests, message deliveries, token approvals, passkey
  requests and KMS answers, a token is accepted only if the node issued exactly that token for exactly that operation before, and each
  time a high-value operation is released it uses up an approval of its own: releases of an operation never exceed its approvals,
  at any moment of the run.\<close>

theorem approvals_are_single_use:
  "authentic (fst (confirm_run E A nc cc W evs ([], ConfirmationService_new)))"
proof -
  have "confirm_inv [] ConfirmationService_new" by (simp add: confirm_inv_def ConfirmationService_new_def releases_def)
  then show ?thesis using run_inv [of "[]" ConfirmationService_new] by (metis confirm_inv_def prod.collapse)
qed

section \<open>Two gaps\<close>

text \<open>A batch escapes the confirmation. With a positive threshold the gate never asks for an approval of a call to
  \<^verbatim>\<open>executeBatch\<close>, although the policy layer decodes the same native transfer from it that \<^verbatim>\<open>execute\<close> would make, whatever its
  value.\<close>

theorem batch_escapes_confirmation:
  assumes "uo_callData op = EXECUTE_BATCH_SELECTOR E @ args" "length (EXECUTE_BATCH_SELECTOR E) = 10" "take 2 (EXECUTE_BATCH_SELECTOR E) = ''0x''"
    "EXECUTE_BATCH_SELECTOR E \<noteq> EXECUTE_SELECTOR E" "decode_arrays A (''0x'' @ args) = Inr ([to], [value], [func])" "cc_thresholdWei cc > 0"
  shows "decodeCalls E A (uo_callData op) = Inr [decoded to value func] \<and> gate E A nc cc post now random op h st = (Inr NotRequired, st)"
  using assms by (auto simp: decodeCalls_def gate_def gate_start_def nativeValue_def Let_def)

theorem batch_escapes_confirmation_witness:
  "let A = policy_demo_abi ([demo_signer], [1000000000000000000], [''0x'']);
       cc = \<lparr>cc_enabled = True, cc_thresholdWei = 1, cc_ttlMs = 600000, cc_kmsBaseUrl = [], cc_kmsApiKey = []\<rparr>;
       nc = \<lparr>nc_enabled = True, nc_thresholdWei = 1, nc_channels = [], nc_contacts = Map.empty\<rparr>
   in decodeCalls policy_demo_ethers A (uo_callData policy_demo_op) = Inr [decoded demo_signer 1000000000000000000 ''0x'']
      \<and> gate policy_demo_ethers A nc cc (\<lambda>_ _ _. Inr ()) 0 [] policy_demo_op ''0xaa'' ConfirmationService_new
         = (Inr NotRequired, ConfirmationService_new)"
  unfolding Let_def
  by (rule batch_escapes_confirmation [where args = "''00''"])
     (simp_all add: policy_demo_op_def policy_demo_selectors policy_demo_abi_def)

text \<open>A contact without a Telegram id counts as reached although no message leaves the node.\<close>

lemma unsent_message_counts_as_delivered:
  assumes "nc_contacts nc (lower account) = Some c" "telegramChatId c = None" "nc_channels nc = [token]"
  shows "sendToAccount nc post account message out = (Inr True, out)"
  using assms by (simp add: sendToAccount_def TelegramChannel_send_def sbind_def scatch_def)

end
