(* ===== verification/Bls_Encoding.thy ===== *)
theory Bls_Encoding
  imports Ethers
begin

text \<open>
  \<^verbatim>\<open>src/utils/bls.util.ts\<close> and the encoders of \<^verbatim>\<open>src/modules/bls/bls.service.ts\<close>: curve points in the EIP-2537 layout, in which
  every coordinate takes 64 bytes, 16 of them padding. The points themselves are values of the BLS library; the encoders read
  their affine coordinates, field elements below \<open>2 ^ 381\<close>. The lemmas relate the digit-string detour of the code
  (\<^verbatim>\<open>toString(16).padStart(96, "0")\<close>, then pairs of digits) to big-endian bytes.
\<close>

section \<open>Points\<close>

record g2_point =
  g2_x0 :: nat
  g2_x1 :: nat
  g2_y0 :: nat
  g2_y1 :: nat
  g2_hex :: string

record g1_point =
  g1_x :: nat
  g1_y :: nat
  g1_hex :: string

section \<open>Encoders\<close>

definition hex_char :: "nat \<Rightarrow> char" where
  "hex_char n = ''0123456789abcdef'' ! n"

fun to_hex :: "nat \<Rightarrow> string" where
  "to_hex n = (if n < 16 then [hex_char n] else to_hex (n div 16) @ [hex_char (n mod 16)])"

declare to_hex.simps [simp del]

definition padStart :: "nat \<Rightarrow> string \<Rightarrow> string" where
  "padStart k s = replicate (k - length s) CHR ''0'' @ s"

text \<open>The loop of \<^verbatim>\<open>hexToBytes\<close> on a text of hex digits; an odd last digit falls outside the array and is dropped.\<close>

fun hexToBytes :: "string \<Rightarrow> nat list" where
  "hexToBytes (a # b # rest) = (case (hex_val a, hex_val b) of (Some x, Some y) \<Rightarrow> 16 * x + y | _ \<Rightarrow> 0) # hexToBytes rest"
| "hexToBytes _ = []"

text \<open>\<^verbatim>\<open>result.set(bytes, offset)\<close> where the bytes fit.\<close>

definition u8_set :: "nat \<Rightarrow> nat list \<Rightarrow> nat list \<Rightarrow> nat list" where
  "u8_set offset bytes buf = take offset buf @ bytes @ drop (offset + length bytes) buf"

definition coordinate :: "nat \<Rightarrow> nat list" where
  "coordinate n = hexToBytes (padStart 96 (to_hex n))"

definition encodeG2Point :: "g2_point \<Rightarrow> nat list" where
  "encodeG2Point p =
     u8_set 208 (coordinate (g2_y1 p)) (u8_set 144 (coordinate (g2_y0 p))
       (u8_set 80 (coordinate (g2_x1 p)) (u8_set 16 (coordinate (g2_x0 p)) (replicate 256 0))))"

definition encodeG1Point :: "g1_point \<Rightarrow> nat list" where
  "encodeG1Point p = u8_set 80 (coordinate (g1_y p)) (u8_set 16 (coordinate (g1_x p)) (replicate 128 0))"

definition bytes_hex :: "nat list \<Rightarrow> string" where
  "bytes_hex bs = concat (map (\<lambda>b. [hex_char (b div 16), hex_char (b mod 16)]) bs)"

definition encodeToEIP2537 :: "g2_point \<Rightarrow> string" where
  "encodeToEIP2537 p = ''0x'' @ bytes_hex (encodeG2Point p)"

definition encodePublicKeyToEIP2537 :: "g1_point \<Rightarrow> string" where
  "encodePublicKeyToEIP2537 p = ''0x'' @ bytes_hex (encodeG1Point p)"

text \<open>\<^verbatim>\<open>Buffer.from(s, "hex")\<close> stops at the first pair that is not hex.\<close>

fun buffer_hex :: "string \<Rightarrow> nat list" where
  "buffer_hex (a # b # rest) = (case (hex_val a, hex_val b) of (Some x, Some y) \<Rightarrow> (16 * x + y) # buffer_hex rest | _ \<Rightarrow> [])"
| "buffer_hex _ = []"

section \<open>Big-endian bytes\<close>

fun be_bytes :: "nat \<Rightarrow> nat \<Rightarrow> nat list" where
  "be_bytes 0 n = []"
| "be_bytes (Suc k) n = be_bytes k (n div 256) @ [n mod 256]"

definition be_value :: "nat list \<Rightarrow> nat" where
  "be_value bs = foldl (\<lambda>acc b. acc * 256 + b) 0 bs"

lemma length_be_bytes [simp]: "length (be_bytes k n) = k"
  by (induction k arbitrary: n) auto

lemma be_bytes_range: "b \<in> set (be_bytes k n) \<Longrightarrow> b < 256"
  by (induction k arbitrary: n) auto

lemma be_value_bytes: "n < 256 ^ k \<Longrightarrow> be_value (be_bytes k n) = n"
proof (induction k arbitrary: n)
  case (Suc k)
  then have "n div 256 < 256 ^ k" by (simp add: less_mult_imp_div_less mult.commute)
  from Suc.IH [OF this] show ?case by (simp add: be_value_def)
qed (simp add: be_value_def)

section \<open>Hex digits\<close>

lemma hex_val_char [simp]: "n < 16 \<Longrightarrow> hex_val (hex_char n) = Some n"
proof -
  have "\<forall>n < 16. hex_val (hex_char n) = Some n" by code_simp
  then show "n < 16 \<Longrightarrow> ?thesis" by blast
qed

text \<open>A number in exactly \<open>k\<close> hex digits.\<close>

fun hex_digits :: "nat \<Rightarrow> nat \<Rightarrow> string" where
  "hex_digits 0 n = []"
| "hex_digits (Suc k) n = hex_digits k (n div 16) @ [hex_char (n mod 16)]"

lemma hex_digits_zero: "hex_digits k 0 = replicate k CHR ''0''"
  by (induction k) (simp_all add: hex_char_def flip: replicate_append_same)

lemma to_hex_Nil [simp]: "to_hex n \<noteq> []"
  by (subst to_hex.simps) simp

lemma padStart_to_hex: "n < 16 ^ Suc k \<Longrightarrow> length (to_hex n) \<le> Suc k \<and> padStart (Suc k) (to_hex n) = hex_digits (Suc k) n"
proof (induction k arbitrary: n)
  case 0
  then show ?case by (subst (1 2) to_hex.simps) (simp add: padStart_def)
next
  case (Suc k)
  show ?case
  proof (cases "n < 16")
    case True
    then show ?thesis by (subst (1 2) to_hex.simps) (simp add: padStart_def hex_digits_zero replicate_append_same [symmetric])
  next
    case False
    have "n div 16 < 16 ^ Suc k" using Suc.prems by (simp add: less_mult_imp_div_less mult.commute)
    from Suc.IH [OF this] False show ?thesis by (subst (1 2) to_hex.simps) (simp add: padStart_def)
  qed
qed

lemma hexToBytes_append: "even (length xs) \<Longrightarrow> hexToBytes (xs @ ys) = hexToBytes xs @ hexToBytes ys"
  by (induction xs rule: hexToBytes.induct) auto

lemma length_hex_digits [simp]: "length (hex_digits k n) = k"
  by (induction k arbitrary: n) auto

lemma digits_bytes: "hexToBytes (hex_digits (2 * k) n) = be_bytes k n"
proof (induction k arbitrary: n)
  case (Suc k)
  have "16 * (n div 16 mod 16) + n mod 16 = n mod 256" using mod_mult2_eq [of n 16 16] by simp
  then show ?case by (simp add: hexToBytes_append Suc.IH div_mult2_eq [symmetric])
qed simp

lemma coordinate_bytes: "n < 256 ^ 48 \<Longrightarrow> coordinate n = be_bytes 48 n"
  using padStart_to_hex [of n 95] digits_bytes [of 48 n] by (simp add: coordinate_def)

lemma bytes_hex_back: "\<forall>b \<in> set bs. b < 256 \<Longrightarrow> hexToBytes (bytes_hex bs) = bs"
  by (induction bs) (auto simp: bytes_hex_def less_mult_imp_div_less)

lemma length_bytes_hex [simp]: "length (bytes_hex bs) = 2 * length bs"
  by (induction bs) (auto simp: bytes_hex_def)

lemma bytes_hex_digits: "\<forall>b \<in> set bs. b < 256 \<Longrightarrow> list_all (\<lambda>c. hex_val c \<noteq> None) (bytes_hex bs)"
  by (induction bs) (auto simp: bytes_hex_def less_mult_imp_div_less)

lemma pair_value: "16 * x + y = 16 * x' + y' \<Longrightarrow> x < 16 \<Longrightarrow> y < 16 \<Longrightarrow> x' < 16 \<Longrightarrow> y' < (16 :: nat) \<Longrightarrow> x = x' \<and> y = y'"
proof -
  have "(16 * a + b) div 16 = a" "(16 * a + b) mod 16 = b" if "b < 16" for a b :: nat using that by simp_all
  then show "16 * x + y = 16 * x' + y' \<Longrightarrow> x < 16 \<Longrightarrow> y < 16 \<Longrightarrow> x' < 16 \<Longrightarrow> y' < 16 \<Longrightarrow> ?thesis" by metis
qed

lemma buffer_hex_eq:
  "buffer_hex a = buffer_hex b \<Longrightarrow> length a = length b \<Longrightarrow> even (length a) \<Longrightarrow> list_all (\<lambda>c. hex_val c \<noteq> None) a \<Longrightarrow> lower a = lower b"
proof (induction a arbitrary: b rule: buffer_hex.induct)
  case (1 x y rest)
  from 1(3) obtain x' y' rest' where b: "b = x' # y' # rest'" by (metis length_Suc_conv)
  from 1(5) obtain m n where mn: "hex_val x = Some m" "hex_val y = Some n" by auto
  with 1(2) b obtain m' n' where mn': "hex_val x' = Some m'" "hex_val y' = Some n'" "16 * m + n = 16 * m' + n'" "buffer_hex rest = buffer_hex rest'"
    by (auto split: option.splits)
  have "m = m' \<and> n = n'" using pair_value [OF mn'(3)] hex_val_less mn mn' by blast
  then have "lower_char x = lower_char x'" "lower_char y = lower_char y'" using hex_val_inj_lower mn mn' by blast+
  moreover have "lower rest = lower rest'" using 1(1) [OF refl mn mn'(4)] 1(3-5) b by simp
  ultimately show ?case by (simp add: b lower_def)
qed (auto simp: lower_def)

lemma buffer_hex_bytes: "\<forall>b \<in> set bs. b < 256 \<Longrightarrow> buffer_hex (bytes_hex bs) = bs"
  by (induction bs) (auto simp: bytes_hex_def less_mult_imp_div_less)

section \<open>The layout\<close>

definition g2_valid :: "g2_point \<Rightarrow> bool" where
  "g2_valid p \<longleftrightarrow> g2_x0 p < 2 ^ 381 \<and> g2_x1 p < 2 ^ 381 \<and> g2_y0 p < 2 ^ 381 \<and> g2_y1 p < 2 ^ 381"

definition g1_valid :: "g1_point \<Rightarrow> bool" where
  "g1_valid p \<longleftrightarrow> g1_x p < 2 ^ 381 \<and> g1_y p < 2 ^ 381"

lemma field_element: "n < 2 ^ 381 \<Longrightarrow> (n :: nat) < 256 ^ 48"
  by simp

lemma encodeG2_layout:
  assumes "g2_valid p"
  shows "encodeG2Point p = replicate 16 0 @ be_bytes 48 (g2_x0 p) @ replicate 16 0 @ be_bytes 48 (g2_x1 p)
     @ replicate 16 0 @ be_bytes 48 (g2_y0 p) @ replicate 16 0 @ be_bytes 48 (g2_y1 p)"
  using assms by (simp add: encodeG2Point_def u8_set_def g2_valid_def field_element coordinate_bytes)

lemma encodeG1_layout:
  assumes "g1_valid p"
  shows "encodeG1Point p = replicate 16 0 @ be_bytes 48 (g1_x p) @ replicate 16 0 @ be_bytes 48 (g1_y p)"
  using assms by (simp add: encodeG1Point_def u8_set_def g1_valid_def field_element coordinate_bytes)

lemma encodeG2_bytes: "g2_valid p \<Longrightarrow> \<forall>b \<in> set (encodeG2Point p). b < 256"
  and encodeG1_bytes: "g1_valid k \<Longrightarrow> \<forall>b \<in> set (encodeG1Point k). b < 256"
  by (auto simp: encodeG2_layout encodeG1_layout dest: be_bytes_range)

text \<open>EIP-2537 round trip. The text the node returns for a signature is \<^verbatim>\<open>0x\<close> and 512 digits, and reading the 48 bytes after
  each 16 bytes of padding as a big-endian number gives back the four coordinates; a public key likewise takes 256 digits and gives
  back its two coordinates.\<close>

theorem eip2537_roundtrip:
  assumes "g2_valid p" "g1_valid k"
  shows "length (encodeToEIP2537 p) = 514 \<and> length (encodePublicKeyToEIP2537 k) = 258
    \<and> map (\<lambda>i. be_value (take 48 (drop (64 * i + 16) (hexToBytes (drop 2 (encodeToEIP2537 p)))))) [0, 1, 2, 3]
        = [g2_x0 p, g2_x1 p, g2_y0 p, g2_y1 p]
    \<and> map (\<lambda>i. be_value (take 48 (drop (64 * i + 16) (hexToBytes (drop 2 (encodePublicKeyToEIP2537 k)))))) [0, 1] = [g1_x k, g1_y k]"
proof -
  have reread: "hexToBytes (bytes_hex (encodeG2Point p)) = encodeG2Point p" "hexToBytes (bytes_hex (encodeG1Point k)) = encodeG1Point k"
    using encodeG2_bytes [OF assms(1)] encodeG1_bytes [OF assms(2)] by (simp_all add: bytes_hex_back)
  have val: "be_value (be_bytes 48 n) = n" if "n < 2 ^ 381" for n using field_element [OF that] by (rule be_value_bytes)
  show ?thesis
    using assms reread val encodeG2_layout [OF assms(1)] encodeG1_layout [OF assms(2)]
    by (simp add: encodeToEIP2537_def encodePublicKeyToEIP2537_def g2_valid_def g1_valid_def)
qed

theorem eip2537_roundtrip_witness:
  "let p = \<lparr>g2_x0 = 1, g2_x1 = 258, g2_y0 = 3, g2_y1 = 2 ^ 380, g2_hex = ''0xcc''\<rparr>; k = \<lparr>g1_x = 5, g1_y = 2 ^ 380, g1_hex = ''0xdd''\<rparr>
   in length (encodeToEIP2537 p) = 514 \<and> length (encodePublicKeyToEIP2537 k) = 258
    \<and> map (\<lambda>i. be_value (take 48 (drop (64 * i + 16) (hexToBytes (drop 2 (encodeToEIP2537 p)))))) [0, 1, 2, 3] = [1, 258, 3, 2 ^ 380]
    \<and> map (\<lambda>i. be_value (take 48 (drop (64 * i + 16) (hexToBytes (drop 2 (encodePublicKeyToEIP2537 k)))))) [0, 1] = [5, 2 ^ 380]"
  using eip2537_roundtrip [of "\<lparr>g2_x0 = 1, g2_x1 = 258, g2_y0 = 3, g2_y1 = 2 ^ 380, g2_hex = ''0xcc''\<rparr>"
      "\<lparr>g1_x = 5, g1_y = 2 ^ 380, g1_hex = ''0xdd''\<rparr>"]
  unfolding Let_def by (simp only: g2_valid_def g1_valid_def g2_point.simps g1_point.simps) simp

end
