(* ===== verification/Cosign_Gate.thy ===== *)
theory Cosign_Gate
  imports Confirmation Bls_Encoding
begin

text \<open>
  The co-signing endpoint: \<^verbatim>\<open>signature.service.ts\<close> and its controller, \<^verbatim>\<open>bls.service.ts\<close> (owner authorization and the choice of
  the signer), \<^verbatim>\<open>signer.service.ts\<close>, \<^verbatim>\<open>local-key.signer.ts\<close>, the two contract reads of \<^verbatim>\<open>blockchain.service.ts\<close> they rest on,
  and \<^verbatim>\<open>throttle.guard.ts\<close>.

  The request is unchecked JSON: a field is \<open>None\<close> when it is absent (the sender also when it is no string); the fields besides sender and call data
  are handed to the EntryPoint as they are. Contracts, BLS library and remote signer are the parameter \<open>sign_env\<close>, with the clock
  readings and random bytes of the request. The state holds the pending confirmations and, newest first, every hash handed to a
  signer (\<open>cn_signed\<close>). Logging is left out.
\<close>

section \<open>Data\<close>

record sign_op =
  su_sender :: "string option"
  su_nonce :: "string option"
  su_initCode :: "string option"
  su_callData :: "string option"
  su_accountGasLimits :: "string option"
  su_preVerificationGas :: "string option"
  su_gasFees :: "string option"
  su_paymasterAndData :: "string option"
  su_signature :: "string option"

record node_key_pair =
  nk_nodeId :: string
  nk_privateKey :: "string option"
  nk_publicKey :: string

record signature_result =
  sr_nodeId :: string
  sr_signature :: string
  sr_signatureCompact :: string
  sr_publicKey :: string
  sr_message :: string

datatype sign_reply = Signed signature_result | PendingOp string "int option"

record rust_signer =
  ru_url :: string
  ru_required :: bool
  ru_token :: "string option"

record sign_config =
  sc_policy :: policy_config
  sc_notify :: notify_config
  sc_confirm :: confirm_config
  sc_rustSignerUrl :: "string option"
  sc_rustSignerRequired :: "bool option"
  sc_rustSignerToken :: "string option"
  sc_signerBackend :: "string option"
  sc_provider :: bool
  sc_entryPoint :: "string option"

record ('b, 'p) sign_env =
  sv_ethers :: "'b ethers"
  sv_abi :: policy_abi
  sv_getUserOpHash :: "string \<Rightarrow> sign_op \<Rightarrow> string result"
  sv_isValidOwnerAuth :: "string \<Rightarrow> string \<Rightarrow> string \<Rightarrow> string result"
  sv_checkPolicy :: check_policy
  sv_http :: http
  sv_now :: int
  sv_statusNow :: int
  sv_random :: string
  sv_rust :: "string \<Rightarrow> string option \<Rightarrow> string \<Rightarrow> string \<Rightarrow> (string \<times> string \<times> string) result"
  sv_hashToCurve :: "string \<Rightarrow> 'p result"
  sv_getPublicKey :: "nat list \<Rightarrow> string result"
  sv_sign :: "'p \<Rightarrow> nat list \<Rightarrow> g2_point result"

record cosign_node =
  cn_node :: "node_key_pair option"
  cn_conf :: confirmation
  cn_signed :: "string list"

definition OWNER_AUTH_MAGIC :: string where "OWNER_AUTH_MAGIC = ''0xa0cf00cf''"

section \<open>Contract reads\<close>

definition getUserOpHash :: "sign_config \<Rightarrow> ('b, 'p) sign_env \<Rightarrow> sign_op \<Rightarrow> string result" where
  "getUserOpHash cfg V userOp =
     rbind (guard_throw (\<not> sc_provider cfg) (External ''Blockchain provider not configured'')) (\<lambda>_.
     case sc_entryPoint cfg of
       None \<Rightarrow> Inl (External ''EntryPoint address not configured'')
     | Some ep \<Rightarrow> if ep = [] then Inl (External ''EntryPoint address not configured'') else sv_getUserOpHash V ep userOp)"

definition isValidOwnerAuth :: "sign_config \<Rightarrow> ('b, 'p) sign_env \<Rightarrow> string \<Rightarrow> string \<Rightarrow> string \<Rightarrow> bool result" where
  "isValidOwnerAuth cfg V account userOpHash ownerAuth =
     rbind (guard_throw (\<not> sc_provider cfg) (External ''Blockchain provider not configured'')) (\<lambda>_.
     case sv_isValidOwnerAuth V account userOpHash ownerAuth of Inl _ \<Rightarrow> Inr False | Inr r \<Rightarrow> Inr (r = OWNER_AUTH_MAGIC))"

section \<open>Signers\<close>

definition LocalKeySigner :: "string option \<Rightarrow> nat list result" where
  "LocalKeySigner privateKeyHex =
     (case privateKeyHex of None \<Rightarrow> Inl (External ''TypeError'')
      | Some k \<Rightarrow> let h = (if take 2 k = ''0x'' then drop 2 k else k) in
          if length h = 64 \<and> list_all (\<lambda>c. hex_val c \<noteq> None) h then Inr (hexToBytes h) else Inl BadPrivateKey)"

definition forNode :: "sign_config \<Rightarrow> node_key_pair \<Rightarrow> nat list result" where
  "forNode cfg node =
     (let backend = (case sc_signerBackend cfg of None \<Rightarrow> ''local'' | Some b \<Rightarrow> if b = [] then ''local'' else b) in
      if backend = ''local'' then LocalKeySigner (nk_privateKey node) else Inl UnknownBackend)"

section \<open>BLS service\<close>

definition missing_field :: "sign_op \<Rightarrow> bool" where
  "missing_field op \<longleftrightarrow> None \<in> set [su_nonce op, su_initCode op, su_callData op, su_accountGasLimits op, su_preVerificationGas op,
     su_gasFees op, su_paymasterAndData op]"

definition authorizeAndDeriveHash :: "sign_config \<Rightarrow> ('b, 'p) sign_env \<Rightarrow> sign_op \<Rightarrow> string option \<Rightarrow> string result" where
  "authorizeAndDeriveHash cfg V userOp ownerAuth =
     rbind (case su_sender userOp of None \<Rightarrow> Inl OwnerAuthRequired
            | Some s \<Rightarrow> (case getAddress (sv_ethers V) s of None \<Rightarrow> Inl OwnerAuthRequired
              | Some a \<Rightarrow> if missing_field userOp then Inl OwnerAuthRequired else Inr a)) (\<lambda>account.
     case getUserOpHash cfg V userOp of Inl _ \<Rightarrow> Inl OwnerAuthRequired
     | Inr userOpHash \<Rightarrow>
       (case ownerAuth of None \<Rightarrow> Inl OwnerAuthRequired
        | Some auth \<Rightarrow> if auth = [] then Inl OwnerAuthRequired else
          (case isValidOwnerAuth cfg V account userOpHash auth of Inl _ \<Rightarrow> Inl OwnerAuthRequired
           | Inr isValid \<Rightarrow> if \<not> isValid then Inl OwnerAuthRequired else Inr userOpHash)))"

definition getRustSignerConfig :: "sign_config \<Rightarrow> rust_signer option" where
  "getRustSignerConfig cfg =
     (case sc_rustSignerUrl cfg of None \<Rightarrow> None
      | Some url \<Rightarrow> if url = [] then None
          else Some \<lparr>ru_url = url, ru_required = (sc_rustSignerRequired cfg = Some True), ru_token = sc_rustSignerToken cfg\<rparr>)"

definition hand_to_signer :: "string \<Rightarrow> (cosign_node, unit) io" where
  "hand_to_signer h = smodify (\<lambda>st. st\<lparr>cn_signed := h # cn_signed st\<rparr>)"

text \<open>\<open>sv_rust\<close> is the HTTP request with its status check; it returns signature, compact signature and public key.\<close>

definition signViaRust :: "('b, 'p) sign_env \<Rightarrow> rust_signer \<Rightarrow> string \<Rightarrow> node_key_pair \<Rightarrow> (cosign_node, signature_result) io" where
  "signViaRust V rust userOpHash node =
     sbind (hand_to_signer userOpHash) (\<lambda>_.
     sbind (slift (sv_rust V (ru_url rust) (ru_token rust) userOpHash (nk_nodeId node))) (\<lambda>(sig, compact, pk).
     sret \<lparr>sr_nodeId = nk_nodeId node, sr_signature = sig, sr_signatureCompact = compact, sr_publicKey = pk, sr_message = userOpHash\<rparr>))"

definition signViaNode :: "sign_config \<Rightarrow> ('b, 'p) sign_env \<Rightarrow> string \<Rightarrow> node_key_pair \<Rightarrow> (cosign_node, signature_result) io" where
  "signViaNode cfg V userOpHash node =
     sbind (slift (sv_hashToCurve V userOpHash)) (\<lambda>messagePoint.
     sbind (slift (forNode cfg node)) (\<lambda>sk.
     sbind (slift (sv_getPublicKey V sk)) (\<lambda>publicKey.
     sbind (hand_to_signer userOpHash) (\<lambda>_.
     sbind (slift (sv_sign V messagePoint sk)) (\<lambda>signature.
     sret \<lparr>sr_nodeId = nk_nodeId node, sr_signature = encodeToEIP2537 signature, sr_signatureCompact = g2_hex signature,
           sr_publicKey = publicKey, sr_message = userOpHash\<rparr>)))))"

definition bls_signDerivedHash :: "sign_config \<Rightarrow> ('b, 'p) sign_env \<Rightarrow> string \<Rightarrow> node_key_pair \<Rightarrow> (cosign_node, signature_result) io" where
  "bls_signDerivedHash cfg V userOpHash node =
     (case getRustSignerConfig cfg of None \<Rightarrow> signViaNode cfg V userOpHash node
      | Some rust \<Rightarrow> scatch (signViaRust V rust userOpHash node)
          (\<lambda>e. if ru_required rust then sthrow e else signViaNode cfg V userOpHash node))"

text \<open>The shortcut for callers without a gate of their own; the signature service does not use it.\<close>

definition bls_signMessage :: "sign_config \<Rightarrow> ('b, 'p) sign_env \<Rightarrow> sign_op \<Rightarrow> string option \<Rightarrow> node_key_pair \<Rightarrow> (cosign_node, signature_result) io" where
  "bls_signMessage cfg V userOp ownerAuth node =
     sbind (slift (authorizeAndDeriveHash cfg V userOp ownerAuth)) (\<lambda>userOpHash. bls_signDerivedHash cfg V userOpHash node)"

datatype signing_key = KeyLocal string | KeyLocalFallback string | KeyRemote | KeyNone

definition resolveSigningPublicKey :: "sign_config \<Rightarrow> ('b, 'p) sign_env \<Rightarrow> node_key_pair \<Rightarrow> signing_key result" where
  "resolveSigningPublicKey cfg V node =
     (let has_key = (nk_privateKey node \<noteq> None \<and> nk_privateKey node \<noteq> Some []);
          derive = rbind (forNode cfg node) (sv_getPublicKey V)
      in case getRustSignerConfig cfg of
        None \<Rightarrow> if \<not> has_key then Inr KeyNone else rbind derive (\<lambda>k. Inr (KeyLocal k))
      | Some rust \<Rightarrow> if \<not> ru_required rust \<and> has_key then rbind derive (\<lambda>k. Inr (KeyLocalFallback k)) else Inr KeyRemote)"

section \<open>Signature service\<close>

definition in_conf :: "(confirmation, 'a) io \<Rightarrow> (cosign_node, 'a) io" where
  "in_conf m st = (case m (cn_conf st) of (r, c) \<Rightarrow> (r, st\<lparr>cn_conf := c\<rparr>))"

definition in_outbox :: "(outbox, 'a) io \<Rightarrow> (confirmation, 'a) io" where
  "in_outbox m c = (case m (cf_posts c) of (r, out) \<Rightarrow> (r, c\<lparr>cf_posts := out\<rparr>))"

definition getNodeForSigning :: "cosign_node \<Rightarrow> node_key_pair result" where
  "getNodeForSigning st = of_option NodeNotInitialized (cn_node st)"

definition packed :: "sign_op \<Rightarrow> packed_user_op" where
  "packed op = \<lparr>uo_sender = the (su_sender op), uo_callData = the (su_callData op)\<rparr>"

definition signMessage :: "sign_config \<Rightarrow> ('b, 'p) sign_env \<Rightarrow> sign_op \<Rightarrow> string option \<Rightarrow> (cosign_node, sign_reply) io" where
  "signMessage cfg V userOp ownerAuth =
     sbind (sgets getNodeForSigning) (\<lambda>n. sbind (slift n) (\<lambda>node.
     sbind (slift (authorizeAndDeriveHash cfg V userOp ownerAuth)) (\<lambda>userOpHash.
     case evaluate (sv_ethers V) (sv_abi V) (sv_checkPolicy V) (sc_policy cfg) (packed userOp) of
       Refused _ \<Rightarrow> sthrow PolicyRejected
     | Allowed \<Rightarrow>
       sbind (in_conf (gate (sv_ethers V) (sv_abi V) (sc_notify cfg) (sc_confirm cfg) (sv_http V) (sv_now V) (sv_random V) (packed userOp) userOpHash)) (\<lambda>g.
       case g of
         Undeliverable \<Rightarrow> sthrow ConfirmUndeliverable
       | PendingConfirm \<Rightarrow> sbind (sgets (\<lambda>st. snd (getStatus (sv_statusNow V) userOpHash (cn_conf st)))) (\<lambda>expiresAt.
           sret (PendingOp userOpHash expiresAt))
       | _ \<Rightarrow> sbind (bls_signDerivedHash cfg V userOpHash node) (\<lambda>result.
           sbind (in_conf (in_outbox (notifyLargeSpend (sv_ethers V) (sv_abi V) (sc_notify cfg) (sv_http V) (packed userOp) userOpHash))) (\<lambda>_.
           sret (Signed result)))))))"

text \<open>The controller: the signature field defaults to \<^verbatim>\<open>0x\<close>; an approval comes with a passkey or else with a token.\<close>

definition controller_signMessage :: "sign_config \<Rightarrow> ('b, 'p) sign_env \<Rightarrow> sign_op \<Rightarrow> string option \<Rightarrow> (cosign_node, sign_reply) io" where
  "controller_signMessage cfg V userOp ownerAuth =
     signMessage cfg V (userOp\<lparr>su_signature := Some (case su_signature userOp of None \<Rightarrow> ''0x'' | Some s \<Rightarrow> s)\<rparr>) ownerAuth"

record confirm_body =
  cb_userOpHash :: "string option"
  cb_token :: "string option"
  cb_passkey :: "string option option"

definition controller_confirm :: "webauthn \<Rightarrow> confirm_config \<Rightarrow> int \<Rightarrow> confirm_body \<Rightarrow> confirmation \<Rightarrow> bool \<times> confirmation" where
  "controller_confirm W cc now body st =
     (case cb_userOpHash body of None \<Rightarrow> (False, st)
      | Some h \<Rightarrow> (case cb_passkey body of Some passkey \<Rightarrow> confirmWithPasskey W cc now h passkey st
        | None \<Rightarrow> (case cb_token body of None \<Rightarrow> (False, st) | Some token \<Rightarrow> confirm now h token st)))"

text \<open>Aggregation of signatures from outside; \<open>from_hex\<close> parses a compressed signature, \<open>aggregate\<close> adds the points.\<close>

definition strip_0x :: "string \<Rightarrow> string" where
  "strip_0x s = (if take 2 s = ''0x'' then drop 2 s else s)"

definition parse_signature :: "(string \<Rightarrow> g2_point result) \<Rightarrow> string \<Rightarrow> g2_point result" where
  "parse_signature from_hex sigHex = (if length (strip_0x sigHex) = 512 then Inl BadRequest else from_hex (strip_0x sigHex))"

definition aggregateExternalSignatures :: "(string \<Rightarrow> g2_point result) \<Rightarrow> (g2_point list \<Rightarrow> g2_point result) \<Rightarrow> string list \<Rightarrow>
    (string \<times> string) result" where
  "aggregateExternalSignatures from_hex aggregate signatureStrings =
     (if length signatureStrings < 1 then Inl BadRequest
      else rbind (rmap (parse_signature from_hex) signatureStrings) (\<lambda>signatures.
           rbind (aggregate signatures) (\<lambda>agg. Inr (encodeToEIP2537 agg, g2_hex agg))))"

text \<open>Verification of an aggregate: parsing, addition of the keys (\<^verbatim>\<open>reduce\<close> without a start value throws on an empty list),
  hash to the curve and pairing check; every exception makes it invalid.\<close>

record ('k, 'p) bls_verifier =
  bv_sig_from_hex :: "string \<Rightarrow> g2_point result"
  bv_key_from_hex :: "string \<Rightarrow> 'k result"
  bv_key_add :: "'k \<Rightarrow> 'k \<Rightarrow> 'k"
  bv_hashToCurve :: "string \<Rightarrow> 'p result"
  bv_verify :: "g2_point \<Rightarrow> 'p \<Rightarrow> 'k \<Rightarrow> bool result"

definition reduce :: "('k \<Rightarrow> 'k \<Rightarrow> 'k) \<Rightarrow> 'k list \<Rightarrow> 'k result" where
  "reduce add ks = (case ks of [] \<Rightarrow> Inl (External ''TypeError'') | k # rest \<Rightarrow> Inr (foldl add k rest))"

definition verify_body :: "('k, 'p) bls_verifier \<Rightarrow> string \<Rightarrow> string list \<Rightarrow> string \<Rightarrow> bool result" where
  "verify_body B signatureHex publicKeyHexes message =
     rbind (bv_sig_from_hex B (strip_0x (strip_0x signatureHex))) (\<lambda>signature.
     rbind (rmap (\<lambda>k. bv_key_from_hex B (strip_0x k)) publicKeyHexes) (\<lambda>publicKeys.
     rbind (reduce (bv_key_add B) publicKeys) (\<lambda>aggregatedPubKey.
     rbind (bv_hashToCurve B message) (\<lambda>messagePoint.
     bv_verify B signature messagePoint aggregatedPubKey))))"

definition verifyAggregatedSignature :: "('k, 'p) bls_verifier \<Rightarrow> string \<Rightarrow> string list \<Rightarrow> string \<Rightarrow> bool" where
  "verifyAggregatedSignature B signatureHex publicKeyHexes message =
     (case verify_body B signatureHex publicKeyHexes message of Inl _ \<Rightarrow> False | Inr valid \<Rightarrow> valid)"

section \<open>Rate limit\<close>

record throttle_config =
  tc_enabled :: bool
  tc_windowMs :: int
  tc_max :: int

definition ThrottleGuard_new :: "bool option \<Rightarrow> int option \<Rightarrow> int option \<Rightarrow> throttle_config" where
  "ThrottleGuard_new rateLimitEnabled rateLimitWindowMs rateLimitMax =
     \<lparr>tc_enabled = (rateLimitEnabled = Some True), tc_windowMs = (case rateLimitWindowMs of None \<Rightarrow> 60000 | Some w \<Rightarrow> w),
      tc_max = (case rateLimitMax of None \<Rightarrow> 30 | Some m \<Rightarrow> m)\<rparr>"

definition client_ip :: "string option \<Rightarrow> string option \<Rightarrow> string" where
  "client_ip req_ip remoteAddress =
     (case filter (\<lambda>a. a \<noteq> []) (List.map_filter id [req_ip, remoteAddress]) of [] \<Rightarrow> ''unknown'' | a # _ \<Rightarrow> a)"

type_synonym throttle_hits = "(string \<times> int list) list"

definition canActivate :: "throttle_config \<Rightarrow> string \<Rightarrow> int \<Rightarrow> (throttle_hits, bool) io" where
  "canActivate tc ip now hits =
     (if \<not> tc_enabled tc then (Inr True, hits)
      else let recent = filter (\<lambda>t. now - t < tc_windowMs tc) (case map_of hits ip of None \<Rightarrow> [] | Some ts \<Rightarrow> ts) in
      if int (length recent) \<ge> tc_max tc then (Inl TooManyRequests, hits)
      else let hits1 = AList.update ip (recent @ [now]) hits in
        (Inr True, if length hits1 > 10000 then filter (\<lambda>(k, ts). \<not> list_all (\<lambda>t. now - t \<ge> tc_windowMs tc) ts) hits1 else hits1))"

section \<open>Authorization\<close>

lemma authorized:
  "authorizeAndDeriveHash cfg V op ownerAuth = Inr h \<longleftrightarrow>
     (\<exists>s account ep auth. su_sender op = Some s \<and> getAddress (sv_ethers V) s = Some account \<and> \<not> missing_field op
        \<and> sc_provider cfg \<and> sc_entryPoint cfg = Some ep \<and> ep \<noteq> [] \<and> sv_getUserOpHash V ep op = Inr h
        \<and> ownerAuth = Some auth \<and> auth \<noteq> [] \<and> sv_isValidOwnerAuth V account h auth = Inr OWNER_AUTH_MAGIC)"
  by (auto simp: authorizeAndDeriveHash_def getUserOpHash_def isValidOwnerAuth_def guard_throw_def split: option.splits sum.splits if_splits)

section \<open>The format of a signature\<close>

text \<open>the returned signature is well-formed text. It is \<^verbatim>\<open>0x\<close> followed by 512 hex digits for every signature point, which is the one
  format the aggregation endpoint refuses: a request that contains a returned signature fails, wherever it stands in the list.\<close>

theorem returned_signature_format:
  assumes "g2_valid p"
  shows "is_hex_string (encodeToEIP2537 p) \<and> length (encodeToEIP2537 p) = 514
    \<and> \<not> is_ok (aggregateExternalSignatures from_hex aggregate (before @ encodeToEIP2537 p # after))"
proof -
  have len: "length (bytes_hex (encodeG2Point p)) = 512" using encodeG2_layout [OF assms] by simp
  then have "bytes_hex (encodeG2Point p) \<noteq> []" by (cases "bytes_hex (encodeG2Point p)") simp_all
  moreover have "parse_signature from_hex (encodeToEIP2537 p) = Inl BadRequest"
    using len by (simp add: parse_signature_def strip_0x_def encodeToEIP2537_def)
  then have "\<not> is_ok (rmap (parse_signature from_hex) (before @ encodeToEIP2537 p # after))"
    by (induction before) (auto simp: rbind_def split: sum.splits)
  ultimately show ?thesis using len bytes_hex_digits [OF encodeG2_bytes [OF assms]]
    by (auto simp: aggregateExternalSignatures_def encodeToEIP2537_def is_hex_string_def rbind_def split: sum.splits)
qed

theorem returned_signature_format_witness:
  "let p = \<lparr>g2_x0 = 1, g2_x1 = 258, g2_y0 = 3, g2_y1 = 4, g2_hex = ''0xcc''\<rparr> in
   is_hex_string (encodeToEIP2537 p) \<and> length (encodeToEIP2537 p) = 514
    \<and> \<not> is_ok (aggregateExternalSignatures (\<lambda>_. Inr p) (\<lambda>ps. Inr (hd ps)) ([''0xcc''] @ encodeToEIP2537 p # [''0xcc'']))"
  unfolding Let_def by (rule returned_signature_format) (simp add: g2_valid_def)

lemma no_keys_never_verify: "\<not> verifyAggregatedSignature B sig [] message"
  by (auto simp: verifyAggregatedSignature_def verify_body_def reduce_def split: sum.splits)

section \<open>Grants\<close>

text \<open>What the account owner, the node's policy and the user approved together.\<close>

definition needs_approval :: "sign_config \<Rightarrow> ('b, 'p) sign_env \<Rightarrow> sign_op \<Rightarrow> bool" where
  "needs_approval cfg V op \<longleftrightarrow> cc_enabled (sc_confirm cfg) \<and> nativeValue (sv_ethers V) (sv_abi V) (packed op) \<ge> cc_thresholdWei (sc_confirm cfg)"

definition approved_entry :: "int \<Rightarrow> string \<Rightarrow> confirmation \<Rightarrow> bool" where
  "approved_entry now h c = (case cf_pending c h of None \<Rightarrow> False | Some p \<Rightarrow> pd_confirmed p \<and> now < pd_expiry p)"

lemma gate_passes:
  assumes "gate (sv_ethers V) (sv_abi V) nc (sc_confirm cfg) post now rnd (packed op) h c = (Inr g, c')" "g = NotRequired \<or> g = Confirmed"
  shows "if needs_approval cfg V op then approved_entry now h c \<and> cf_pending c' = (cf_pending c)(h := None) else c' = c"
  using assms unfolding gate_def gate_start_def gate_finish_def needs_approval_def approved_entry_def Let_def
  by (auto split: if_splits option.splits sum.splits prod.splits)

section \<open>What is handed to a signer\<close>

definition handed :: "string list \<Rightarrow> cosign_node \<Rightarrow> bool" where
  "handed L st \<longleftrightarrow> cn_signed st = L"

lemma handed_in_conf [frame_rules]: "stable (handed L) (in_conf m)"
  by (auto simp: stable_def handed_def in_conf_def split: prod.splits)

lemma sign_hands_over:
  assumes "bls_signDerivedHash cfg V h node st = (r, st')"
  shows "\<exists>new. cn_signed st' = new @ cn_signed st \<and> set new \<subseteq> {h} \<and> (is_ok r \<longrightarrow> new \<noteq> [])"
proof -
  have node: "\<exists>new. cn_signed st' = new @ cn_signed st \<and> set new \<subseteq> {h} \<and> (is_ok r \<longrightarrow> new \<noteq> [])"
    if "signViaNode cfg V h node st = (r, st')" for r st st'
    using that by (fastforce simp: signViaNode_def sbind_def hand_to_signer_def split: sum.splits prod.splits)
  have rust: "\<exists>new. cn_signed st' = new @ cn_signed st \<and> set new = {h}"
    if "signViaRust V ru h node st = (r, st')" for ru r st st'
    using that by (fastforce simp: signViaRust_def sbind_def hand_to_signer_def split: sum.splits prod.splits)
  show ?thesis
  proof (cases "getRustSignerConfig cfg")
    case None
    then show ?thesis using assms node by (simp add: bls_signDerivedHash_def)
  next
    case (Some ru)
    obtain r1 s1 where 1: "signViaRust V ru h node st = (r1, s1)" by fastforce
    obtain n1 where n1: "cn_signed s1 = n1 @ cn_signed st" "set n1 = {h}" using rust [OF 1] by blast
    have ne: "n1 \<noteq> []" using n1(2) by (cases n1) simp_all
    show ?thesis
    proof (cases "(\<exists>v. r1 = Inr v) \<or> ru_required ru")
      case True
      then have "st' = s1" using assms Some 1 by (auto simp: bls_signDerivedHash_def scatch_def split: sum.splits)
      then show ?thesis using n1(1) ne equalityD1 [OF n1(2)] by (intro exI [of _ n1]) blast
    next
      case False
      then have 2: "signViaNode cfg V h node s1 = (r, st')" using assms Some 1 by (auto simp: bls_signDerivedHash_def scatch_def split: sum.splits)
      obtain n2 where "cn_signed st' = n2 @ cn_signed s1" "set n2 \<subseteq> {h}" using node [OF 2] by blast
      then show ?thesis using n1(1) ne equalityD1 [OF n1(2)] by (intro exI [of _ "n2 @ n1"]) simp
    qed
  qed
qed

text \<open>What one request may hand over, and what that needs.\<close>

definition cosign_granted :: "sign_config \<Rightarrow> ('b, 'p) sign_env \<Rightarrow> sign_op \<Rightarrow> string option \<Rightarrow> confirmation \<Rightarrow> string \<Rightarrow> bool" where
  "cosign_granted cfg V op ownerAuth c h \<longleftrightarrow> authorizeAndDeriveHash cfg V op ownerAuth = Inr h
     \<and> evaluate (sv_ethers V) (sv_abi V) (sv_checkPolicy V) (sc_policy cfg) (packed op) = Allowed
     \<and> (if needs_approval cfg V op then approved_entry (sv_now V) h c else True)"

text \<open>The body of the request once the gate let it pass.\<close>

lemma signed_message:
  "bls_signDerivedHash cfg V h node st = (Inr res, st') \<Longrightarrow> sr_message res = h"
  by (auto simp: bls_signDerivedHash_def scatch_def signViaRust_def signViaNode_def sbind_def split: sum.splits prod.splits option.splits if_splits)

lemma sign_request_effect:
  assumes run: "signMessage cfg V op ownerAuth st = (r, st')"
  shows "\<exists>new. cn_signed st' = new @ cn_signed st
    \<and> (new = [] \<or> (\<exists>h. set new = {h} \<and> cosign_granted cfg V op ownerAuth (cn_conf st) h))
    \<and> (case r of Inr (Signed res) \<Rightarrow> set new = {sr_message res} | _ \<Rightarrow> True)"
proof -
  let ?gate = "gate (sv_ethers V) (sv_abi V) (sc_notify cfg) (sc_confirm cfg) (sv_http V) (sv_now V) (sv_random V) (packed op)"
  note unfold = signMessage_def sbind_def getNodeForSigning_def
  have quiet: ?thesis if "cn_signed st' = cn_signed st" "\<And>res. r \<noteq> Inr (Signed res)"
    using that by (auto split: sum.splits sign_reply.splits)
  show ?thesis
  proof (cases "\<exists>node h. cn_node st = Some node \<and> authorizeAndDeriveHash cfg V op ownerAuth = Inr h
      \<and> evaluate (sv_ethers V) (sv_abi V) (sv_checkPolicy V) (sc_policy cfg) (packed op) = Allowed")
    case False
    then show ?thesis using run by (intro quiet) (auto simp: unfold of_option_def split: option.splits sum.splits policy_decision.splits)
  next
    case True
    then obtain node h where ok: "cn_node st = Some node" "authorizeAndDeriveHash cfg V op ownerAuth = Inr h"
      "evaluate (sv_ethers V) (sv_abi V) (sv_checkPolicy V) (sc_policy cfg) (packed op) = Allowed" by blast
    obtain rg c where g: "?gate h (cn_conf st) = (rg, c)" by fastforce
    show ?thesis
    proof (cases "rg = Inr NotRequired \<or> rg = Inr Confirmed")
      case False
      then show ?thesis using run ok g
        by (intro quiet) (auto simp: unfold in_conf_def split: sum.splits gate_result.splits)
    next
      case True
      then obtain gr where gr: "rg = Inr gr" "gr = NotRequired \<or> gr = Confirmed" by blast
      have granted: "cosign_granted cfg V op ownerAuth (cn_conf st) h"
        using gate_passes [OF g [unfolded gr(1)] gr(2)] ok by (auto simp: cosign_granted_def split: if_splits)
      obtain rs s1 where s1: "bls_signDerivedHash cfg V h node (st\<lparr>cn_conf := c\<rparr>) = (rs, s1)" by fastforce
      obtain new where new: "cn_signed s1 = new @ cn_signed st" "set new \<subseteq> {h}" "is_ok rs \<longrightarrow> new \<noteq> []" using sign_hands_over [OF s1] by auto
      have handed: "cn_signed st' = cn_signed s1" using run ok g gr s1
        by (auto simp: unfold in_conf_def split: sum.splits prod.splits)
      have signed: "rs = Inr res \<and> sr_message res = h" if "r = Inr (Signed res)" for res
        using run ok g gr s1 that
        by (auto simp: unfold in_conf_def split: sum.splits prod.splits dest: signed_message)
      have one: "new = [] \<or> set new = {h}" using new(2) by (cases new) auto
      have "case r of Inr (Signed res) \<Rightarrow> set new = {sr_message res} | _ \<Rightarrow> True"
      proof (cases "\<exists>res. r = Inr (Signed res)")
        case True
        then obtain res where "r = Inr (Signed res)" by blast
        moreover from signed [OF this] have "set new = {sr_message res}" using new(3) one by (simp add: is_ok_iff)
        ultimately show ?thesis by simp
      qed (auto split: sum.split sign_reply.split)
      moreover have "cn_signed st' = new @ cn_signed st" using handed new(1) by simp
      moreover have "new = [] \<or> (\<exists>h. set new = {h} \<and> cosign_granted cfg V op ownerAuth (cn_conf st) h)" using one granted by blast
      ultimately show ?thesis by blast
    qed
  qed
qed

text \<open>C2: no signature without every gate. Whatever the request, the contracts, the peers and the channels do, a signing request hands a hash to a BLS
  signer only if it is the hash the EntryPoint derives from that very operation, the account it names (its sender, a valid
  address) confirmed the owner's authorization over that hash with the magic value, the node's policy allows the operation,
  and, when the operation needs an out-of-band approval, an approved and unexpired entry for that hash exists; a returned signature is
  over that hash.\<close>

theorem cosign_requires_every_gate:
  "\<exists>new. cn_signed (snd (signMessage cfg V op ownerAuth st)) = new @ cn_signed st
     \<and> (new = [] \<or> (\<exists>h s account ep auth. set new = {h} \<and> su_sender op = Some s \<and> getAddress (sv_ethers V) s = Some account
          \<and> sc_entryPoint cfg = Some ep \<and> sv_getUserOpHash V ep op = Inr h
          \<and> ownerAuth = Some auth \<and> sv_isValidOwnerAuth V account h auth = Inr OWNER_AUTH_MAGIC
          \<and> evaluate (sv_ethers V) (sv_abi V) (sv_checkPolicy V) (sc_policy cfg) (packed op) = Allowed
          \<and> (if needs_approval cfg V op then approved_entry (sv_now V) h (cn_conf st) else True)))
     \<and> (case fst (signMessage cfg V op ownerAuth st) of Inr (Signed res) \<Rightarrow> set new = {sr_message res} | _ \<Rightarrow> True)"
proof -
  obtain r st' where run: "signMessage cfg V op ownerAuth st = (r, st')" by fastforce
  from sign_request_effect [OF run] obtain new where new: "cn_signed st' = new @ cn_signed st"
    "new = [] \<or> (\<exists>h. set new = {h} \<and> cosign_granted cfg V op ownerAuth (cn_conf st) h)"
    "case r of Inr (Signed res) \<Rightarrow> set new = {sr_message res} | _ \<Rightarrow> True" by blast
  have "new = [] \<or> (\<exists>h s account ep auth. set new = {h} \<and> su_sender op = Some s \<and> getAddress (sv_ethers V) s = Some account
          \<and> sc_entryPoint cfg = Some ep \<and> sv_getUserOpHash V ep op = Inr h
          \<and> ownerAuth = Some auth \<and> sv_isValidOwnerAuth V account h auth = Inr OWNER_AUTH_MAGIC
          \<and> evaluate (sv_ethers V) (sv_abi V) (sv_checkPolicy V) (sc_policy cfg) (packed op) = Allowed
          \<and> (if needs_approval cfg V op then approved_entry (sv_now V) h (cn_conf st) else True))"
    using new(2) unfolding cosign_granted_def authorized by blast
  with new(1,3) show ?thesis unfolding run by auto
qed

section \<open>An approved operation is signed\<close>

text \<open>A request that is authorized and in policy, on a node whose signer works.\<close>

definition cosign_ready :: "sign_config \<Rightarrow> ('b, 'p) sign_env \<Rightarrow> sign_op \<Rightarrow> string option \<Rightarrow> string \<Rightarrow> cosign_node \<Rightarrow> bool" where
  "cosign_ready cfg V op ownerAuth h st \<longleftrightarrow> authorizeAndDeriveHash cfg V op ownerAuth = Inr h
     \<and> evaluate (sv_ethers V) (sv_abi V) (sv_checkPolicy V) (sc_policy cfg) (packed op) = Allowed
     \<and> (case cn_node st of None \<Rightarrow> False | Some node \<Rightarrow> is_ok (fst (bls_signDerivedHash cfg V h node st)))"

lemma sign_outcome_conf: "fst (bls_signDerivedHash cfg V h node (st\<lparr>cn_conf := c\<rparr>)) = fst (bls_signDerivedHash cfg V h node st)"
  by (auto simp: bls_signDerivedHash_def signViaNode_def signViaRust_def sbind_def scatch_def hand_to_signer_def split: option.splits sum.splits)

lemma ready_conf: "cosign_ready cfg V op ownerAuth h (st\<lparr>cn_conf := c\<rparr>) = cosign_ready cfg V op ownerAuth h st"
  by (simp add: cosign_ready_def sign_outcome_conf split: option.split)

lemma total_notify: "total_io (notify_channels post c m chs)"
proof (induction chs)
  case Nil
  show ?case by (simp add: total_io_def)
next
  case (Cons ch chs)
  then show ?case by (simp add: frame_rules)
qed

lemma notify_returns: "\<exists>out'. notifyLargeSpend E A nc post op h out = (Inr (), out')"
proof -
  have "total_io (notifyLargeSpend E A nc post op h)"
    unfolding notifyLargeSpend_def by (simp add: frame_rules total_notify split: option.split prod.split)
  from total_ioD [OF this] show ?thesis by simp
qed

lemma released_is_signed:
  assumes "cosign_ready cfg V op ownerAuth h st"
    and "gate (sv_ethers V) (sv_abi V) (sc_notify cfg) (sc_confirm cfg) (sv_http V) (sv_now V) (sv_random V) (packed op) h (cn_conf st) = (Inr g, c)"
    and "g = NotRequired \<or> g = Confirmed"
  shows "\<exists>res. fst (signMessage cfg V op ownerAuth st) = Inr (Signed res) \<and> sr_message res = h"
proof -
  obtain node where node: "cn_node st = Some node" "is_ok (fst (bls_signDerivedHash cfg V h node st))"
    using assms(1) by (auto simp: cosign_ready_def split: option.splits)
  then obtain res s1 where s1: "bls_signDerivedHash cfg V h node (st\<lparr>cn_conf := c\<rparr>) = (Inr res, s1)"
    using sign_outcome_conf [where st = st and c = c] by (metis is_ok_iff prod.collapse)
  obtain out where "notifyLargeSpend (sv_ethers V) (sv_abi V) (sc_notify cfg) (sv_http V) (packed op) h (cf_posts (cn_conf s1)) = (Inr (), out)"
    using notify_returns by blast
  then have "fst (signMessage cfg V op ownerAuth st) = Inr (Signed res)"
    using assms node s1 by (auto simp: signMessage_def sbind_def getNodeForSigning_def cosign_ready_def in_conf_def in_outbox_def)
  with signed_message [OF s1] show ?thesis by blast
qed

text \<open>C29: an approved operation is signed. For a high-value operation that is authorized and in policy and whose message was
  delivered, the first request answers pending; the token of that message, presented before the expiry, is accepted; and the next
  request before the expiry returns the signature over the operation's hash.\<close>

theorem approved_operation_is_signed:
  assumes "cosign_ready cfg V op ownerAuth h st" "cosign_ready cfg V' op ownerAuth h st"
    and "needs_approval cfg V op" "needs_approval cfg V' op" "cf_pending (cn_conf st) h = None"
    and "hasContact (sc_notify cfg) (uo_sender (packed op))"
    and "fst (sendToAccount (sc_notify cfg) (sv_http V) (uo_sender (packed op)) (ConfirmRequest (uo_sender (packed op)) h (''0x'' @ sv_random V)) (cf_posts (cn_conf st)))
          = Inr True"
    and "t < sv_now V + cc_ttlMs (sc_confirm cfg)" "sv_now V' < sv_now V + cc_ttlMs (sc_confirm cfg)"
  shows "\<exists>e st1 c2. signMessage cfg V op ownerAuth st = (Inr (PendingOp h e), st1)
    \<and> confirm t h (''0x'' @ sv_random V) (cn_conf st1) = (True, c2)
    \<and> (\<exists>res. fst (signMessage cfg V' op ownerAuth (st1\<lparr>cn_conf := c2\<rparr>)) = Inr (Signed res) \<and> sr_message res = h)"
proof -
  let ?c = "cn_conf st" and ?tok = "''0x'' @ sv_random V"
  let ?p = "\<lparr>pd_token = ?tok, pd_confirmed = False, pd_expiry = sv_now V + cc_ttlMs (sc_confirm cfg), pd_account = uo_sender (packed op), pd_ref = cf_next ?c\<rparr>"
  obtain out where out: "sendToAccount (sc_notify cfg) (sv_http V) (uo_sender (packed op)) (ConfirmRequest (uo_sender (packed op)) h ?tok) (cf_posts ?c) = (Inr True, out)"
    using assms(7) by (metis prod.collapse)
  let ?c1 = "?c\<lparr>cf_pending := (cf_pending ?c)(h \<mapsto> ?p), cf_next := Suc (cf_next ?c), cf_posts := out\<rparr>"
  have g1: "gate (sv_ethers V) (sv_abi V) (sc_notify cfg) (sc_confirm cfg) (sv_http V) (sv_now V) (sv_random V) (packed op) h ?c = (Inr PendingConfirm, ?c1)"
    using assms(3,5,6) out by (simp add: gate_def gate_start_def gate_finish_def needs_approval_def Let_def)
  obtain node where node: "cn_node st = Some node" using assms(1) by (auto simp: cosign_ready_def split: option.splits)
  have run: "signMessage cfg V op ownerAuth st = (Inr (PendingOp h (snd (getStatus (sv_statusNow V) h ?c1))), st\<lparr>cn_conf := ?c1\<rparr>)"
    using assms(1) node g1 by (simp add: signMessage_def sbind_def getNodeForSigning_def cosign_ready_def in_conf_def)
  let ?c2 = "?c1\<lparr>cf_pending := (cf_pending ?c1)(h \<mapsto> ?p\<lparr>pd_confirmed := True\<rparr>)\<rparr>"
  have conf: "confirm t h ?tok ?c1 = (True, ?c2)" using assms(8) by (simp add: confirm_def)
  have g2: "gate (sv_ethers V') (sv_abi V') (sc_notify cfg) (sc_confirm cfg) (sv_http V') (sv_now V') (sv_random V') (packed op) h ?c2
      = (Inr Confirmed, ?c2\<lparr>cf_pending := (cf_pending ?c2)(h := None)\<rparr>)"
    using assms(4,9) by (simp add: gate_def gate_start_def needs_approval_def Let_def)
  have "cosign_ready cfg V' op ownerAuth h (st\<lparr>cn_conf := ?c2\<rparr>)"
    using assms(2) by (simp only: ready_conf)
  from released_is_signed [OF this] g2
  have "\<exists>res. fst (signMessage cfg V' op ownerAuth (st\<lparr>cn_conf := ?c2\<rparr>)) = Inr (Signed res) \<and> sr_message res = h" by simp
  with run conf show ?thesis by simp
qed

text \<open>A node with a local key, one contact and an approval threshold of 1 wei; the operation sends 1 ether.\<close>

definition demo_sign_config :: sign_config where
  "demo_sign_config = \<lparr>sc_policy = (policy_demo_config None [])\<lparr>po_enabled := False\<rparr>,
     sc_notify = \<lparr>nc_enabled = True, nc_thresholdWei = 1, nc_channels = [''bot''],
       nc_contacts = [lower demo_signer \<mapsto> \<lparr>telegramChatId = Some ''7'', email = None, nostrPubkey = None\<rparr>]\<rparr>,
     sc_confirm = \<lparr>cc_enabled = True, cc_thresholdWei = 1, cc_ttlMs = 600000, cc_kmsBaseUrl = [], cc_kmsApiKey = []\<rparr>,
     sc_rustSignerUrl = None, sc_rustSignerRequired = None, sc_rustSignerToken = None, sc_signerBackend = None,
     sc_provider = True, sc_entryPoint = Some ''0xe9''\<rparr>"

definition demo_sign_env :: "int \<Rightarrow> (abi_value list, nat) sign_env" where
  "demo_sign_env now = \<lparr>sv_ethers = policy_demo_ethers,
     sv_abi = (policy_demo_abi ([], [], []))\<lparr>decode_address_uint256_bytes := (\<lambda>_. Inr (demo_registry, 1000000000000000000, ''0x''))\<rparr>,
     sv_getUserOpHash = (\<lambda>_ _. Inr ''0xaa''), sv_isValidOwnerAuth = (\<lambda>_ _ _. Inr OWNER_AUTH_MAGIC), sv_checkPolicy = policy_demo_check,
     sv_http = (\<lambda>_ _ _. Inr ()), sv_now = now, sv_statusNow = now, sv_random = ''5eed'', sv_rust = (\<lambda>_ _ _ _. Inl IoError),
     sv_hashToCurve = (\<lambda>_. Inr 1), sv_getPublicKey = (\<lambda>_. Inr ''0xbb''),
     sv_sign = (\<lambda>_ _. Inr \<lparr>g2_x0 = 1, g2_x1 = 2, g2_y0 = 3, g2_y1 = 4, g2_hex = ''0xcc''\<rparr>)\<rparr>"

definition demo_sign_op :: sign_op where
  "demo_sign_op = \<lparr>su_sender = Some demo_signer, su_nonce = Some ''0x0'', su_initCode = Some ''0x'', su_callData = Some ''0xb61d27f600'',
     su_accountGasLimits = Some ''0x'', su_preVerificationGas = Some ''0x0'', su_gasFees = Some ''0x'', su_paymasterAndData = Some ''0x'',
     su_signature = Some ''0x''\<rparr>"

definition demo_cosign_node :: cosign_node where
  "demo_cosign_node = \<lparr>cn_node = Some \<lparr>nk_nodeId = ''0x01'', nk_privateKey = Some (replicate 64 CHR ''1''), nk_publicKey = ''0xbb''\<rparr>,
     cn_conf = ConfirmationService_new, cn_signed = []\<rparr>"

lemma demo_sign_local: "is_ok (LocalKeySigner (Some (replicate 64 CHR ''1'')))"
  by (simp add: LocalKeySigner_def hex_val_def numeral_eq_Suc)

lemma demo_sign_ready: "cosign_ready demo_sign_config (demo_sign_env now) demo_sign_op (Some ''0x99'') ''0xaa'' demo_cosign_node"
proof -
  obtain sk where "LocalKeySigner (Some (replicate 64 CHR ''1'')) = Inr sk" using demo_sign_local by (auto simp: is_ok_iff)
  then have "is_ok (fst (bls_signDerivedHash demo_sign_config (demo_sign_env now) ''0xaa'' \<lparr>nk_nodeId = ''0x01'',
      nk_privateKey = Some (replicate 64 CHR ''1''), nk_publicKey = ''0xbb''\<rparr> demo_cosign_node))"
    by (simp add: bls_signDerivedHash_def getRustSignerConfig_def signViaNode_def forNode_def demo_sign_config_def demo_sign_env_def
        sbind_def hand_to_signer_def is_ok_iff)
  moreover have "authorizeAndDeriveHash demo_sign_config (demo_sign_env now) demo_sign_op (Some ''0x99'') = Inr ''0xaa''"
    by (auto simp: authorized demo_sign_config_def demo_sign_env_def demo_sign_op_def missing_field_def policy_demo_ethers_def)
  moreover have "evaluate policy_demo_ethers A chk (sc_policy demo_sign_config) op = Allowed" for A chk op
    by (simp add: evaluate_def demo_sign_config_def)
  ultimately show ?thesis by (simp add: cosign_ready_def demo_sign_env_def demo_cosign_node_def)
qed

theorem approved_operation_is_signed_witness:
  "\<exists>e st1 c2. signMessage demo_sign_config (demo_sign_env 1000) demo_sign_op (Some ''0x99'') demo_cosign_node = (Inr (PendingOp ''0xaa'' e), st1)
    \<and> confirm 2000 ''0xaa'' (''0x'' @ ''5eed'') (cn_conf st1) = (True, c2)
    \<and> (\<exists>res. fst (signMessage demo_sign_config (demo_sign_env 3000) demo_sign_op (Some ''0x99'') (st1\<lparr>cn_conf := c2\<rparr>)) = Inr (Signed res)
         \<and> sr_message res = ''0xaa'')"
proof -
  have needs: "needs_approval demo_sign_config (demo_sign_env now) demo_sign_op" for now
    by (simp add: needs_approval_def nativeValue_def packed_def demo_sign_config_def demo_sign_env_def demo_sign_op_def policy_demo_selectors)
  have contact: "nc_contacts (sc_notify demo_sign_config) (lower (uo_sender (packed demo_sign_op)))
      = Some \<lparr>telegramChatId = Some ''7'', email = None, nostrPubkey = None\<rparr>" "nc_channels (sc_notify demo_sign_config) = [''bot'']"
    "cc_ttlMs (sc_confirm demo_sign_config) = 600000"
    by (simp_all add: demo_sign_config_def packed_def demo_sign_op_def)
  have env: "sv_random (demo_sign_env now) = ''5eed''" "sv_now (demo_sign_env now) = now" "sv_http (demo_sign_env now) = (\<lambda>_ _ _. Inr ())" for now
    by (simp_all add: demo_sign_env_def)
  have sent: "fst (sendToAccount (sc_notify demo_sign_config) (sv_http (demo_sign_env 1000)) (uo_sender (packed demo_sign_op)) m out) = Inr True" for m out
    by (simp add: sendToAccount_def contact env TelegramChannel_send_def sbind_def scatch_def)
  show ?thesis
    using approved_operation_is_signed [OF demo_sign_ready demo_sign_ready needs needs _ _ sent, of 2000 3000]
    by (simp add: contact env hasContact_def demo_cosign_node_def ConfirmationService_new_def)
qed

section \<open>The rate limit is a sliding window\<close>

fun throttle_run :: "throttle_config \<Rightarrow> (string \<times> int) list \<Rightarrow> (string \<times> int) list \<Rightarrow> throttle_hits \<Rightarrow> (string \<times> int) list" where
  "throttle_run tc [] accepted hits = accepted"
| "throttle_run tc ((ip, now) # reqs) accepted hits =
     (case canActivate tc ip now hits of
        (Inl _, hits') \<Rightarrow> throttle_run tc reqs accepted hits' | (Inr _, hits') \<Rightarrow> throttle_run tc reqs ((ip, now) # accepted) hits')"

definition in_window :: "throttle_config \<Rightarrow> string \<Rightarrow> int \<Rightarrow> (string \<times> int) list \<Rightarrow> nat" where
  "in_window tc ip t accepted = length (filter (\<lambda>(i, t'). i = ip \<and> t - t' < tc_windowMs tc \<and> t' \<le> t) accepted)"

definition hits_of :: "throttle_hits \<Rightarrow> string \<Rightarrow> int list" where
  "hits_of hits ip = (case map_of hits ip of None \<Rightarrow> [] | Some ts \<Rightarrow> ts)"

text \<open>From now on, the stored times within the window are the accepted ones.\<close>

definition throttle_inv :: "throttle_config \<Rightarrow> int \<Rightarrow> (string \<times> int) list \<Rightarrow> throttle_hits \<Rightarrow> bool" where
  "throttle_inv tc now accepted hits \<longleftrightarrow> distinct (map fst hits) \<and> (\<forall>(i, t) \<in> set accepted. t \<le> now)
     \<and> (\<forall>ip T. now \<le> T \<longrightarrow> length (filter (\<lambda>t. T - t < tc_windowMs tc) (hits_of hits ip)) = in_window tc ip T accepted)
     \<and> (\<forall>ip T. int (in_window tc ip T accepted) \<le> max 0 (tc_max tc))"

lemma map_of_filter_keys:
  assumes "distinct (map fst xs)"
  shows "map_of (filter P xs) k = (case map_of xs k of None \<Rightarrow> None | Some v \<Rightarrow> if P (k, v) then Some v else None)"
  using assms by (induction xs) (auto simp: map_of_eq_None_iff image_iff split: option.splits)

lemma cleanup_hits:
  assumes "distinct (map fst hits)" "now \<le> T"
  shows "filter (\<lambda>t. T - t < w) (hits_of (filter (\<lambda>(k, ts). \<not> list_all (\<lambda>t. now - t \<ge> w) ts) hits) ip) = filter (\<lambda>t. T - t < w) (hits_of hits ip)"
  using assms by (auto simp: hits_of_def map_of_filter_keys list_all_iff split: option.splits intro!: filter_False [symmetric])

lemma hits_update: "hits_of (AList.update ip ts hits) ip' = (if ip' = ip then ts else hits_of hits ip')"
  by (simp add: hits_of_def update_conv)

lemma filter_later: "now \<le> T \<Longrightarrow> filter (\<lambda>t. T - t < w) (filter (\<lambda>t. now - t < (w::int)) ts) = filter (\<lambda>t. T - t < w) ts"
  by (induction ts) auto

lemma in_window_Cons: "in_window tc ip T ((i, t) # acc) = (if i = ip \<and> T - t < tc_windowMs tc \<and> t \<le> T then Suc (in_window tc ip T acc) else in_window tc ip T acc)"
  by (simp add: in_window_def)

lemma in_window_mono: "\<forall>(i, t) \<in> set acc. t \<le> now \<Longrightarrow> now \<le> T \<Longrightarrow> in_window tc ip T acc \<le> in_window tc ip now acc"
proof (induction acc)
  case (Cons p acc)
  then show ?case by (cases p) (auto simp: in_window_Cons)
qed (simp add: in_window_def)

lemma accept_inv:
  assumes inv: "throttle_inv tc past accepted hits" and "past \<le> now" "tc_enabled tc" and run: "canActivate tc ip now hits = (Inr ok, hits')"
  shows "throttle_inv tc now ((ip, now) # accepted) hits'"
proof -
  let ?r = "filter (\<lambda>t. now - t < tc_windowMs tc) (hits_of hits ip)"
  let ?h = "AList.update ip (?r @ [now]) hits"
  have old: "\<And>i t. (i, t) \<in> set accepted \<Longrightarrow> t \<le> now" using inv assms(2) by (fastforce simp: throttle_inv_def)
  have dist: "distinct (map fst ?h)" using inv distinct_update by (auto simp: throttle_inv_def)
  have cnt: "length (filter (\<lambda>t. T - t < tc_windowMs tc) (hits_of hits i)) = in_window tc i T accepted" if "now \<le> T" for i T
    using inv assms(2) that by (auto simp: throttle_inv_def)
  have room: "int (length ?r) < tc_max tc" and h': "hits' = (if length ?h > 10000 then filter (\<lambda>(k, ts). \<not> list_all (\<lambda>t. now - t \<ge> tc_windowMs tc) ts) ?h else ?h)"
    using run assms(3) unfolding canActivate_def Let_def hits_of_def by (auto split: if_splits)
  have stored: "length (filter (\<lambda>t. T - t < tc_windowMs tc) (hits_of hits' i)) = in_window tc i T ((ip, now) # accepted)" if "now \<le> T" for i T
    using cnt [OF that] that cleanup_hits [OF dist that] filter_later [OF that] unfolding h'
    by (auto simp: hits_update in_window_Cons)
  have bound: "int (in_window tc i T ((ip, now) # accepted)) \<le> max 0 (tc_max tc)" for i T
  proof (cases "i = ip \<and> now \<le> T")
    case True
    have "in_window tc i T accepted \<le> in_window tc i now accepted" using in_window_mono [of accepted now T tc i] old True by fast
    then show ?thesis using cnt [of now ip] room True by (auto simp: in_window_Cons)
  next
    case False
    then show ?thesis using inv by (auto simp: throttle_inv_def in_window_Cons)
  qed
  show ?thesis unfolding throttle_inv_def using dist old stored bound h' by (auto intro: distinct_map_filter)
qed

lemma reject_inv:
  assumes "throttle_inv tc past accepted hits" "past \<le> now" "canActivate tc ip now hits = (Inl e, hits')"
  shows "throttle_inv tc now accepted hits'"
  using assms by (fastforce simp: throttle_inv_def canActivate_def Let_def split: if_splits)

lemma throttle_run_inv:
  assumes "throttle_inv tc past accepted hits" "tc_enabled tc" "sorted_wrt (\<le>) (past # map snd reqs)"
  shows "int (in_window tc ip T (throttle_run tc reqs accepted hits)) \<le> max 0 (tc_max tc)"
  using assms
proof (induction reqs arbitrary: past accepted hits)
  case Nil
  then show ?case by (simp add: throttle_inv_def)
next
  case (Cons req reqs)
  obtain i now where req: "req = (i, now)" by fastforce
  obtain r hits' where run: "canActivate tc i now hits = (r, hits')" by fastforce
  have le: "past \<le> now" and rest: "sorted_wrt (\<le>) (now # map snd reqs)" using Cons.prems(3) req by auto
  show ?case
  proof (cases r)
    case (Inl e)
    show ?thesis using Cons.IH [OF reject_inv [OF Cons.prems(1) le run [unfolded Inl]] Cons.prems(2) rest] by (simp add: req run Inl)
  next
    case (Inr ok)
    show ?thesis using Cons.IH [OF accept_inv [OF Cons.prems(1) le Cons.prems(2) run [unfolded Inr]] Cons.prems(2) rest] by (simp add: req run Inr)
  qed
qed

text \<open>C30: the rate limit. Over any sequence of requests in time order the guard accepts from one address at most the configured number of
  requests in every interval of the window length, wherever it starts, also after the clean-up of idle addresses.\<close>

theorem throttle_bounds_every_window:
  assumes "tc_enabled tc" "sorted (map snd reqs)"
  shows "int (in_window tc ip T (throttle_run tc reqs [] [])) \<le> max 0 (tc_max tc)"
proof (cases reqs)
  case Nil
  then show ?thesis by (simp add: in_window_def)
next
  case (Cons req rest)
  have "throttle_inv tc (snd req) [] []" by (simp add: throttle_inv_def hits_of_def in_window_def)
  from throttle_run_inv [OF this assms(1), of reqs] assms(2) show ?thesis by (simp add: Cons)
qed

theorem throttle_bounds_every_window_witness:
  "int (in_window \<lparr>tc_enabled = True, tc_windowMs = 60000, tc_max = 2\<rparr> ''a'' 30
     (throttle_run \<lparr>tc_enabled = True, tc_windowMs = 60000, tc_max = 2\<rparr> [(''a'', 10), (''a'', 20), (''b'', 20), (''a'', 30)] [] [])) \<le> 2"
  using throttle_bounds_every_window [where tc = "\<lparr>tc_enabled = True, tc_windowMs = 60000, tc_max = 2\<rparr>"
      and reqs = "[(''a'', 10), (''a'', 20), (''b'', 20), (''a'', 30)]" and ip = "''a''" and T = 30] by simp

end
