(* ===== verification/X402_Facilitator.thy ===== *)
theory X402_Facilitator
  imports Relay
begin

text \<open>
  \<^verbatim>\<open>src/modules/x402-facilitator/\<close>: the payment facilitator service with its constants and controller.

  The request is JSON whose nested fields nobody has checked (\<open>js_value\<close>); an absent field is \<open>None\<close>. The environment
  \<open>x402_env\<close> holds the clock reading, the typed-data functions of \<^verbatim>\<open>ethers\<close>, the account and facilitator contracts and the RPC node.
  A rejection carries the guard that fired (\<open>x402_reason\<close>) in place of its text; an exception that leaves a method is an
  \<open>error\<close>. Wallet, contract and provider are set together by the bootstrap, so one flag stands for them. \<open>xs_sent\<close> logs the contract
  call of every submission the service asks for, newest first; submissions are serialised by \<^verbatim>\<open>submitChain\<close>, so a settlement runs as one step.
\<close>

section \<open>JSON values\<close>

datatype js_value = JvNull | JvBool bool | JvNum jsnum | JvStr string | JvArr "js_value list" | JvObj "(string \<times> js_value) list"

definition jget :: "js_value option \<Rightarrow> string \<Rightarrow> js_value option" where
  "jget v k = (case v of Some (JvObj fs) \<Rightarrow> map_of fs k | _ \<Rightarrow> None)"

definition jtruthy :: "js_value option \<Rightarrow> bool" where
  "jtruthy v = (case v of None \<Rightarrow> False | Some JvNull \<Rightarrow> False | Some (JvBool b) \<Rightarrow> b
     | Some (JvNum n) \<Rightarrow> n \<noteq> JNaN \<and> n \<noteq> js_of_int 0 | Some (JvStr s) \<Rightarrow> s \<noteq> [] | _ \<Rightarrow> True)"

definition jnullish :: "js_value option \<Rightarrow> js_value option \<Rightarrow> js_value option" where
  "jnullish a b = (if a = None \<or> a = Some JvNull then b else a)"

text \<open>\<^verbatim>\<open>String(v)\<close> throws on an object with a field named \<^verbatim>\<open>toString\<close>, which is then no function.\<close>

fun string_throws :: "js_value \<Rightarrow> bool" where
  "string_throws (JvObj fs) = (map_of fs ''toString'' \<noteq> None)"
| "string_throws (JvArr vs) = list_ex string_throws vs"
| "string_throws _ = False"

text \<open>\<^verbatim>\<open>BigInt(v)\<close>. An array is converted through its text: that of its only element, where a number is written in digits below \<open>10 ^ 21\<close>;
  the text of a longer array has a comma in it.\<close>

fun array_BigInt :: "js_value list \<Rightarrow> int result" where
  "array_BigInt [] = Inr 0"
| "array_BigInt [JvNull] = Inr 0"
| "array_BigInt [JvStr s] = js_BigInt s"
| "array_BigInt [JvNum n] = (if js_isInteger n \<and> \<bar>js_to_int n\<bar> < 10 ^ 21 then Inr (js_to_int n) else Inl BadBigInt)"
| "array_BigInt [JvArr vs] = array_BigInt vs"
| "array_BigInt _ = Inl BadBigInt"

fun value_BigInt :: "js_value \<Rightarrow> int result" where
  "value_BigInt (JvBool b) = Inr (if b then 1 else 0)"
| "value_BigInt (JvNum n) = (if js_isInteger n then Inr (js_to_int n) else Inl BadBigInt)"
| "value_BigInt (JvStr s) = js_BigInt s"
| "value_BigInt (JvArr vs) = array_BigInt vs"
| "value_BigInt _ = Inl BadBigInt"

section \<open>Constants\<close>

definition SUPPORTED_SETTLEMENT_SCHEMES :: "string list" where
  "SUPPORTED_SETTLEMENT_SCHEMES = [''direct'', ''eip-3009'']"

definition isSupportedSettlementScheme :: "string \<Rightarrow> bool" where
  "isSupportedSettlementScheme scheme \<longleftrightarrow> List.member SUPPORTED_SETTLEMENT_SCHEMES scheme"

definition ERC1271_MAGIC_VALUE :: string where "ERC1271_MAGIC_VALUE = ''0x1626ba7e''"

record typed_domain =
  td_name :: string
  td_version :: string
  td_chainId :: int
  td_verifyingContract :: string

definition getX402FacilitatorDomain :: "int \<Rightarrow> string \<Rightarrow> typed_domain" where
  "getX402FacilitatorDomain chainId facilitatorAddress =
     \<lparr>td_name = ''X402Facilitator'', td_version = ''1'', td_chainId = chainId, td_verifyingContract = facilitatorAddress\<rparr>"

definition getEip3009TokenDomain :: "string \<Rightarrow> string \<Rightarrow> int \<Rightarrow> string \<Rightarrow> typed_domain" where
  "getEip3009TokenDomain tokenName tokenVersion chainId tokenAddress =
     \<lparr>td_name = tokenName, td_version = tokenVersion, td_chainId = chainId, td_verifyingContract = tokenAddress\<rparr>"

text \<open>The two kinds of typed data with their fields in order: from, to, asset, amount, maximal fee, end of validity, nonce; and from,
  to, value, begin and end of validity, nonce.\<close>

datatype typed_message =
    X402PaymentAuthorization string string string int int int string
  | ReceiveWithAuthorization string string int int int string

definition computeX402NonceKey :: "'b ethers \<Rightarrow> string \<Rightarrow> string \<Rightarrow> string \<Rightarrow> string result" where
  "computeX402NonceKey E asset from nonce = keccak_encode E [AbiAddress asset, AbiAddress from, AbiBytes32 nonce]"

definition computeEip3009Nonce :: "'b ethers \<Rightarrow> string \<Rightarrow> int \<Rightarrow> string \<Rightarrow> string result" where
  "computeEip3009Nonce E to maxFee salt = keccak_encode E [AbiAddress to, AbiUint256 maxFee, AbiBytes32 salt]"

definition toNetworkId :: "int \<Rightarrow> string" where
  "toNetworkId chainId = ''eip155:'' @ int_to_string chainId"

definition X402_facilitatorContract :: string where
  "X402_facilitatorContract = ''0xfe1DB01e1d6622e722B92ed5993af61325DB92aF''"

section \<open>Service\<close>

record normalized_payment =
  np_scheme :: string
  np_from :: string
  np_to :: string
  np_asset :: string
  np_amount :: int
  np_maxFee :: int
  np_validAfter :: int
  np_validBefore :: int
  np_nonce :: string
  np_salt :: string
  np_signature :: string
  np_tokenName :: string
  np_tokenVersion :: string

record facilitator_request =
  fr_x402Version :: "js_value option"
  fr_paymentPayload :: "js_value option"
  fr_paymentRequirements :: "js_value option"

datatype x402_reason =
    NotEnabled | MissingEnvelope | BadVersion | MissingAuthorization | BadPricingScheme | WrongNetwork | BadFrom | BadTo | BadAsset
  | BadNonce | BadSignatureFormat | BadAmount | BadValidBefore | BadValidAfter | BadMaxFee | BadSalt | BadScheme
  | NonceUsed | NonceCheckFailed | ZeroAmount | NotYetValid | PaymentExpired | InvalidSignature | SettlementReverted | SettlementFailed

type_synonym 'a verdict = "(x402_reason + 'a) result"

definition accept :: "'a \<Rightarrow> 'a verdict" where "accept v = Inr (Inr v)"
definition reject :: "x402_reason \<Rightarrow> 'a verdict" where "reject r = Inr (Inl r)"

definition vbind :: "'a verdict \<Rightarrow> ('a \<Rightarrow> 'b verdict) \<Rightarrow> 'b verdict" where
  "vbind m f = (case m of Inl e \<Rightarrow> Inl e | Inr (Inl r) \<Rightarrow> Inr (Inl r) | Inr (Inr v) \<Rightarrow> f v)"

record x402_settings =
  x402FacilitatorEnabled :: "bool option"
  x402OperatorPk :: "string option"
  x402RpcUrl :: "string option"
  x402EthRpcUrl :: "string option"
  x402ChainId :: "int option"
  x402FacilitatorContract :: "string option"
  x402SupportedAssets :: "string list option"
  x402FeeBPS :: "int option"

record x402_config =
  xc_enabledByConfig :: bool
  xc_operatorPk :: string
  xc_rpcUrl :: string
  xc_chainId :: int
  xc_facilitatorContract :: string
  xc_supportedAssets :: "string list"
  xc_feeBPS :: int

datatype settle_call =
    SettleX402PaymentDirect string string string int int int string string
  | SettleX402Payment string string string int int int int string string

record x402_state =
  xs_enabled :: bool
  xs_sent :: "settle_call list"

record 'b x402_env =
  xe_ethers :: "'b ethers"
  xe_now :: int
  xe_verifyTypedData :: "typed_domain \<Rightarrow> typed_message \<Rightarrow> string \<Rightarrow> string result"
  xe_typedDataHash :: "typed_domain \<Rightarrow> typed_message \<Rightarrow> string result"
  xe_isValidSignature :: "string \<Rightarrow> string \<Rightarrow> string \<Rightarrow> string result"
  xe_settlementNonces :: "string \<Rightarrow> bool result"
  xe_feeData :: "(int option \<times> int option) result"
  xe_submit :: "settle_call \<Rightarrow> int \<times> int \<Rightarrow> string result"
  xe_wait :: "string \<Rightarrow> int option result"

definition X402FacilitatorService_new :: "x402_settings \<Rightarrow> x402_config" where
  "X402FacilitatorService_new s =
     \<lparr>xc_enabledByConfig = (x402FacilitatorEnabled s = Some True), xc_operatorPk = nullish (x402OperatorPk s) [],
      xc_rpcUrl = nullish (x402RpcUrl s) (nullish (x402EthRpcUrl s) []), xc_chainId = nullish (x402ChainId s) SEPOLIA_chainId,
      xc_facilitatorContract = nullish (x402FacilitatorContract s) X402_facilitatorContract,
      xc_supportedAssets = map lower (nullish (x402SupportedAssets s) []), xc_feeBPS = nullish (x402FeeBPS s) 200\<rparr>"

definition isAddress :: "'b ethers \<Rightarrow> string \<Rightarrow> bool" where
  "isAddress E s \<longleftrightarrow> getAddress E s \<noteq> None"

definition x402_onApplicationBootstrap :: "x402_config \<Rightarrow> 'b ethers \<Rightarrow> x402_state \<Rightarrow> x402_state" where
  "x402_onApplicationBootstrap cfg E st =
     (if \<not> xc_enabledByConfig cfg then st
      else if \<not> is_key_format (xc_operatorPk cfg) then st
      else if xc_rpcUrl cfg = [] then st
      else if \<not> isAddress E (xc_facilitatorContract cfg) then st
      else st\<lparr>xs_enabled := True\<rparr>)"

definition resolveScheme :: "x402_config \<Rightarrow> string \<Rightarrow> js_value option \<Rightarrow> string" where
  "resolveScheme cfg asset extraSettlement =
     (let derived = (if List.member (xc_supportedAssets cfg) (lower asset) then ''direct'' else ''eip-3009'') in
      case extraSettlement of Some (JvStr s) \<Rightarrow> if length s > 0 then s else derived | _ \<Rightarrow> derived)"

subsection \<open>Normalisation\<close>

text \<open>A check whose rejection prints the value.\<close>

definition check_value :: "js_value option \<Rightarrow> js_value \<Rightarrow> x402_reason \<Rightarrow> unit verdict" where
  "check_value v expected r =
     (case v of None \<Rightarrow> accept ()
      | Some x \<Rightarrow> if x = expected then accept () else if string_throws x then Inl (External ''TypeError'') else reject r)"

definition want_string :: "js_value option \<Rightarrow> (string \<Rightarrow> bool) \<Rightarrow> x402_reason \<Rightarrow> string verdict" where
  "want_string v P r = (case v of Some (JvStr s) \<Rightarrow> if P s then accept s else reject r | _ \<Rightarrow> reject r)"

definition is_digits :: "string \<Rightarrow> bool" where
  "is_digits s \<longleftrightarrow> s \<noteq> [] \<and> list_all (\<lambda>c. digit_val c \<noteq> None) s"

definition isHexString :: "string \<Rightarrow> bool" where
  "isHexString s \<longleftrightarrow> take 2 s = ''0x'' \<and> list_all (\<lambda>c. hex_val c \<noteq> None) (drop 2 s)"

definition text_or :: "js_value option \<Rightarrow> string \<Rightarrow> string" where
  "text_or v d = (case v of Some (JvStr s) \<Rightarrow> s | _ \<Rightarrow> d)"

definition lift_result :: "'a result \<Rightarrow> 'a verdict" where
  "lift_result r = (case r of Inl e \<Rightarrow> Inl e | Inr v \<Rightarrow> accept v)"

definition normalize_fee :: "js_value option \<Rightarrow> int \<Rightarrow> int verdict" where
  "normalize_fee maxFeeRaw amount =
     (case maxFeeRaw of None \<Rightarrow> accept amount
      | Some v \<Rightarrow> (case value_BigInt v of Inl _ \<Rightarrow> reject BadMaxFee | Inr n \<Rightarrow> accept n))"

definition normalize_salt :: "js_value option \<Rightarrow> string \<Rightarrow> string verdict" where
  "normalize_salt saltRaw nonce = (case saltRaw of None \<Rightarrow> accept nonce | _ \<Rightarrow> want_string saltRaw is_key_format BadSalt)"

definition normalize_fields :: "x402_config \<Rightarrow> 'b ethers \<Rightarrow> js_value option \<Rightarrow> js_value option \<Rightarrow> js_value option \<Rightarrow> js_value option \<Rightarrow>
    normalized_payment verdict" where
  "normalize_fields cfg E pr inner auth extra =
     vbind (want_string (jget auth ''from'') (isAddress E) BadFrom) (\<lambda>from.
     vbind (want_string (jnullish (jget pr ''payTo'') (jget auth ''to'')) (isAddress E) BadTo) (\<lambda>to.
     vbind (want_string (jget pr ''asset'') (isAddress E) BadAsset) (\<lambda>asset.
     vbind (want_string (jget auth ''nonce'') is_key_format BadNonce) (\<lambda>nonce.
     vbind (want_string (jget inner ''signature'') (\<lambda>s. isHexString s \<and> length s \<ge> 4) BadSignatureFormat) (\<lambda>signature.
     vbind (want_string (jnullish (jget pr ''amount'') (jget auth ''value'')) is_digits BadAmount) (\<lambda>amountStr.
     vbind (want_string (jget auth ''validBefore'') is_digits BadValidBefore) (\<lambda>validBeforeStr.
     vbind (want_string (jnullish (jget auth ''validAfter'') (Some (JvStr ''0''))) is_digits BadValidAfter) (\<lambda>validAfterStr.
     vbind (lift_result (js_BigInt amountStr)) (\<lambda>amount.
     vbind (normalize_fee (jget extra ''maxFee'') amount) (\<lambda>maxFee.
     vbind (normalize_salt (jget extra ''salt'') nonce) (\<lambda>salt.
     let scheme = resolveScheme cfg asset (jget extra ''settlement'') in
     if \<not> isSupportedSettlementScheme scheme then reject BadScheme
     else
       vbind (lift_result (of_option InvalidAddress (getAddress E from))) (\<lambda>from'.
       vbind (lift_result (of_option InvalidAddress (getAddress E to))) (\<lambda>to'.
       vbind (lift_result (of_option InvalidAddress (getAddress E asset))) (\<lambda>asset'.
       vbind (lift_result (js_BigInt validAfterStr)) (\<lambda>validAfter.
       vbind (lift_result (js_BigInt validBeforeStr)) (\<lambda>validBefore.
       accept \<lparr>np_scheme = scheme, np_from = from', np_to = to', np_asset = asset', np_amount = amount, np_maxFee = maxFee,
         np_validAfter = validAfter, np_validBefore = validBefore, np_nonce = nonce, np_salt = salt, np_signature = signature,
         np_tokenName = text_or (jget extra ''name'') ''USDC'', np_tokenVersion = text_or (jget extra ''version'') ''2''\<rparr>))))))))))))))))"

definition normalize_request :: "x402_config \<Rightarrow> 'b ethers \<Rightarrow> facilitator_request \<Rightarrow> normalized_payment verdict" where
  "normalize_request cfg E dto =
     (let pp = fr_paymentPayload dto; pr = fr_paymentRequirements dto in
      if \<not> jtruthy pp \<or> \<not> jtruthy pr then reject MissingEnvelope
      else
        vbind (check_value (fr_x402Version dto) (JvNum (js_of_int 2)) BadVersion) (\<lambda>_.
        vbind (check_value (jget pp ''x402Version'') (JvNum (js_of_int 2)) BadVersion) (\<lambda>_.
        let inner = jget pp ''payload''; auth = jget inner ''authorization'' in
        if \<not> jtruthy inner \<or> \<not> jtruthy auth then reject MissingAuthorization
        else
          vbind (check_value (jget pr ''scheme'') (JvStr ''exact'') BadPricingScheme) (\<lambda>_.
          vbind (check_value (jget pr ''network'') (JvStr (toNetworkId (xc_chainId cfg))) WrongNetwork) (\<lambda>_.
          normalize_fields cfg E pr inner auth (jget pr ''extra''))))))"

subsection \<open>Verification\<close>

definition effectiveNonce :: "'b ethers \<Rightarrow> normalized_payment \<Rightarrow> string result" where
  "effectiveNonce E p = (if np_scheme p = ''direct'' then Inr (np_nonce p) else computeEip3009Nonce E (np_to p) (np_maxFee p) (np_salt p))"

definition recoverOrErc1271 :: "'b x402_env \<Rightarrow> bool \<Rightarrow> typed_domain \<Rightarrow> typed_message \<Rightarrow> string \<Rightarrow> string \<Rightarrow> x402_reason + string" where
  "recoverOrErc1271 X provider domain value signature expected =
     (let recovered = (case xe_verifyTypedData X domain value signature of Inl _ \<Rightarrow> False | Inr r \<Rightarrow> lower r = lower expected);
          contract = (case rbind (xe_typedDataHash X domain value) (\<lambda>digest. xe_isValidSignature X expected digest signature) of
             Inl _ \<Rightarrow> False | Inr magic \<Rightarrow> magic = ERC1271_MAGIC_VALUE)
      in if recovered then Inr expected else if provider \<and> contract then Inr expected else Inl InvalidSignature)"

definition verifySignatureOffChain :: "x402_config \<Rightarrow> 'b x402_env \<Rightarrow> bool \<Rightarrow> normalized_payment \<Rightarrow> string verdict" where
  "verifySignatureOffChain cfg X provider p =
     (let nowSec = xe_now X div 1000 in
      if np_amount p = 0 then reject ZeroAmount
      else if np_scheme p = ''direct'' then
        (if nowSec > np_validBefore p then reject PaymentExpired
         else Inr (recoverOrErc1271 X provider (getX402FacilitatorDomain (xc_chainId cfg) (xc_facilitatorContract cfg))
           (X402PaymentAuthorization (np_from p) (np_to p) (np_asset p) (np_amount p) (np_maxFee p) (np_validBefore p) (np_nonce p))
           (np_signature p) (np_from p)))
      else if np_validAfter p > 0 \<and> nowSec < np_validAfter p then reject NotYetValid
      else if nowSec \<ge> np_validBefore p then reject PaymentExpired
      else rbind (effectiveNonce (xe_ethers X) p) (\<lambda>nonce.
        Inr (recoverOrErc1271 X provider (getEip3009TokenDomain (np_tokenName p) (np_tokenVersion p) (xc_chainId cfg) (np_asset p))
          (ReceiveWithAuthorization (np_from p) (xc_facilitatorContract cfg) (np_amount p) (np_validAfter p) (np_validBefore p) nonce)
          (np_signature p) (np_from p))))"

definition nonce_used :: "'b x402_env \<Rightarrow> normalized_payment \<Rightarrow> string \<Rightarrow> bool result" where
  "nonce_used X p eff =
     rbind (computeX402NonceKey (xe_ethers X) (np_asset p) (np_from p) eff) (\<lambda>key.
     rbind (xe_settlementNonces X key) (\<lambda>keyUsed.
     rbind (xe_settlementNonces X eff) (\<lambda>legacyUsed.
     Inr (keyUsed \<or> legacyUsed))))"

definition x402_verify :: "x402_config \<Rightarrow> 'b x402_env \<Rightarrow> x402_state \<Rightarrow> facilitator_request \<Rightarrow> string verdict" where
  "x402_verify cfg X st dto =
     (if \<not> xs_enabled st then reject NotEnabled
      else vbind (normalize_request cfg (xe_ethers X) dto) (\<lambda>p.
        rbind (effectiveNonce (xe_ethers X) p) (\<lambda>eff.
        case nonce_used X p eff of Inl _ \<Rightarrow> reject NonceCheckFailed
        | Inr used \<Rightarrow> if used then reject NonceUsed else verifySignatureOffChain cfg X (xs_enabled st) p)))"

subsection \<open>Settlement\<close>

definition buildSettleCall :: "normalized_payment \<Rightarrow> settle_call" where
  "buildSettleCall p =
     (if np_scheme p = ''direct''
      then SettleX402PaymentDirect (np_from p) (np_to p) (np_asset p) (np_amount p) (np_maxFee p) (np_validBefore p) (np_nonce p) (np_signature p)
      else SettleX402Payment (np_from p) (np_to p) (np_asset p) (np_amount p) (np_maxFee p) (np_validAfter p) (np_validBefore p) (np_salt p)
        (np_signature p))"

definition sendSettle :: "'b x402_env \<Rightarrow> normalized_payment \<Rightarrow> x402_state \<Rightarrow> (x402_reason + string \<times> string) \<times> x402_state" where
  "sendSettle X p st =
     (case bumpedFees (xe_feeData X) 15 1500000000 of Inl _ \<Rightarrow> (Inl SettlementFailed, st)
      | Inr fees \<Rightarrow>
        (let call = buildSettleCall p; st' = st\<lparr>xs_sent := call # xs_sent st\<rparr> in
         case xe_submit X call fees of Inl _ \<Rightarrow> (Inl SettlementFailed, st')
         | Inr hash \<Rightarrow>
           (case xe_wait X hash of Inl _ \<Rightarrow> (Inl SettlementFailed, st')
            | Inr status \<Rightarrow> if status = Some 1 then (Inr (hash, np_from p), st') else (Inl SettlementReverted, st'))))"

definition x402_settle :: "x402_config \<Rightarrow> 'b x402_env \<Rightarrow> facilitator_request \<Rightarrow> (x402_state, x402_reason + string \<times> string) io" where
  "x402_settle cfg X dto st =
     (if \<not> xs_enabled st then (Inr (Inl NotEnabled), st)
      else case normalize_request cfg (xe_ethers X) dto of
        Inl e \<Rightarrow> (Inl e, st)
      | Inr (Inl r) \<Rightarrow> (Inr (Inl r), st)
      | Inr (Inr p) \<Rightarrow> apfst Inr (sendSettle X p st))"

text \<open>The controller: 503 while disabled, otherwise 200 with the verdict; an exception answers 500.\<close>

definition controller_verify :: "x402_config \<Rightarrow> 'b x402_env \<Rightarrow> x402_state \<Rightarrow> facilitator_request \<Rightarrow> int \<times> string option" where
  "controller_verify cfg X st dto =
     (if \<not> xs_enabled st then (503, None)
      else case x402_verify cfg X st dto of Inl _ \<Rightarrow> (500, None) | Inr (Inl _) \<Rightarrow> (200, None) | Inr (Inr payer) \<Rightarrow> (200, Some payer))"

definition controller_settle :: "x402_config \<Rightarrow> 'b x402_env \<Rightarrow> facilitator_request \<Rightarrow> x402_state \<Rightarrow> (int \<times> string option) \<times> x402_state" where
  "controller_settle cfg X dto st =
     (if \<not> xs_enabled st then ((503, None), st)
      else case x402_settle cfg X dto st of (Inl _, st') \<Rightarrow> ((500, None), st') | (Inr (Inl _), st') \<Rightarrow> ((200, None), st')
        | (Inr (Inr (hash, _)), st') \<Rightarrow> ((200, Some hash), st'))"

section \<open>Accepted payments\<close>

lemma vbind_accept: "vbind m f = Inr (Inr w) \<longleftrightarrow> (\<exists>v. m = Inr (Inr v) \<and> f v = Inr (Inr w))"
  by (auto simp: vbind_def split: sum.splits)

lemma want_string_accept: "want_string v P r = Inr (Inr s) \<longleftrightarrow> v = Some (JvStr s) \<and> P s"
  by (auto simp: want_string_def accept_def reject_def split: option.splits js_value.splits)

lemma lift_result_accept: "lift_result r = Inr (Inr v) \<longleftrightarrow> r = Inr v"
  by (auto simp: lift_result_def accept_def split: sum.splits)

lemma accept_reject [simp]: "accept v = Inr (Inr w) \<longleftrightarrow> v = w" "reject r \<noteq> Inr (Inr w)"
  by (auto simp: accept_def reject_def)

lemma normalize_salt_accept: "normalize_salt v n = Inr (Inr s) \<Longrightarrow> is_key_format n \<Longrightarrow> is_key_format s"
  by (auto simp: normalize_salt_def want_string_accept split: option.splits)

lemmas accept_simps = vbind_accept want_string_accept lift_result_accept

lemma digits_BigInt:
  assumes "is_digits s"
  shows "\<exists>n \<ge> 0. js_BigInt s = Inr n"
proof -
  have d: "c \<in> set s \<Longrightarrow> digit_val c \<noteq> None" for c using assms by (auto simp: is_digits_def list_all_iff)
  then have trimmed: "trim s = s" using digit_not_ws by (intro trim_no_ws) blast
  have total: "\<exists>n. parse_acc digit_val 10 acc xs = Some n" if "list_all (\<lambda>c. digit_val c \<noteq> None) xs" for acc xs
    using that by (induction xs arbitrary: acc) auto
  then obtain n where n: "parse_nat digit_val 10 s = Some n" using assms by (auto simp: is_digits_def parse_nat_def)
  have hd: "s \<noteq> []" "digit_val (hd s) \<noteq> None" using assms d by (auto simp: is_digits_def)
  have pre: "take 2 s \<noteq> [CHR ''0'', c]" if "digit_val c = None" for c
    using d that by (metis in_set_takeD list.set_intros)
  show ?thesis using trimmed hd n pre
    by (auto simp: js_BigInt_def Let_def of_option_def)
qed

text \<open>What the rest of the service relies on.\<close>

definition payment_wf :: "'b ethers \<Rightarrow> normalized_payment \<Rightarrow> bool" where
  "payment_wf E p \<longleftrightarrow> isSupportedSettlementScheme (np_scheme p)
     \<and> list_all (\<lambda>a. getAddress E a = Some a) [np_from p, np_to p, np_asset p]
     \<and> np_amount p \<ge> 0 \<and> np_validAfter p \<ge> 0 \<and> np_validBefore p \<ge> 0
     \<and> is_key_format (np_nonce p) \<and> is_key_format (np_salt p) \<and> isHexString (np_signature p)"

lemma normalize_accept_fields:
  "normalize_request cfg E dto = Inr (Inr p) \<Longrightarrow> \<exists>pr inner auth extra. normalize_fields cfg E pr inner auth extra = Inr (Inr p)"
  unfolding normalize_request_def Let_def by (auto simp: vbind_accept split: if_splits)

lemma accepted_wf:
  assumes "getAddress_ok E" "normalize_request cfg E dto = Inr (Inr p)"
  shows "payment_wf E p"
proof -
  obtain pr inner auth extra where f: "normalize_fields cfg E pr inner auth extra = Inr (Inr p)"
    using normalize_accept_fields [OF assms(2)] by blast
  have addr: "getAddress E a = Some b \<Longrightarrow> getAddress E b = Some b" for a b using assms(1) by (simp add: getAddress_ok_def)
  have pos: "0 \<le> n" if "js_BigInt s = Inr n" "is_digits s" for s n using digits_BigInt [OF that(2)] that(1) by auto
  show ?thesis using f unfolding normalize_fields_def
    by (auto simp: accept_simps Let_def payment_wf_def of_option_def dest: addr pos normalize_salt_accept split: if_splits option.splits)
qed

section \<open>What the payer signed and what is settled\<close>

text \<open>The typed data a payment is verified against.\<close>

definition signed_data :: "x402_config \<Rightarrow> 'b ethers \<Rightarrow> normalized_payment \<Rightarrow> (typed_domain \<times> typed_message) result" where
  "signed_data cfg E p = rbind (effectiveNonce E p) (\<lambda>nonce. Inr
     (if np_scheme p = ''direct''
      then (getX402FacilitatorDomain (xc_chainId cfg) (xc_facilitatorContract cfg),
        X402PaymentAuthorization (np_from p) (np_to p) (np_asset p) (np_amount p) (np_maxFee p) (np_validBefore p) nonce)
      else (getEip3009TokenDomain (np_tokenName p) (np_tokenVersion p) (xc_chainId cfg) (np_asset p),
        ReceiveWithAuthorization (np_from p) (xc_facilitatorContract cfg) (np_amount p) (np_validAfter p) (np_validBefore p) nonce)))"

text \<open>How the contracts rebuild the typed data from the arguments of the call, as the constants file documents it: the facilitator under its own domain, the token of an EIP-3009 payment under the token's.
  The call does not carry the token's name and version; they are the token contract's own, \<open>token asset\<close>.\<close>

definition contract_data :: "x402_config \<Rightarrow> 'b ethers \<Rightarrow> (string \<Rightarrow> string \<times> string) \<Rightarrow> settle_call \<Rightarrow> (typed_domain \<times> typed_message) result" where
  "contract_data cfg E token call =
     (case call of
        SettleX402PaymentDirect from to asset amount maxFee validBefore nonce _ \<Rightarrow>
          Inr (\<lparr>td_name = ''X402Facilitator'', td_version = ''1'', td_chainId = xc_chainId cfg, td_verifyingContract = xc_facilitatorContract cfg\<rparr>,
               X402PaymentAuthorization from to asset amount maxFee validBefore nonce)
      | SettleX402Payment from to asset amount maxFee validAfter validBefore salt _ \<Rightarrow>
          rbind (computeEip3009Nonce E to maxFee salt) (\<lambda>nonce.
          Inr (\<lparr>td_name = fst (token asset), td_version = snd (token asset), td_chainId = xc_chainId cfg, td_verifyingContract = asset\<rparr>,
               ReceiveWithAuthorization from (xc_facilitatorContract cfg) amount validAfter validBefore nonce)))"

text \<open>The request names the token as the token does; a direct payment is not signed under the token's domain.\<close>

definition names_token :: "(string \<Rightarrow> string \<times> string) \<Rightarrow> normalized_payment \<Rightarrow> bool" where
  "names_token token p \<longleftrightarrow> np_scheme p = ''direct'' \<or> token (np_asset p) = (np_tokenName p, np_tokenVersion p)"

definition call_signature :: "settle_call \<Rightarrow> string" where
  "call_signature call = (case call of SettleX402PaymentDirect _ _ _ _ _ _ _ s \<Rightarrow> s | SettleX402Payment _ _ _ _ _ _ _ _ s \<Rightarrow> s)"

text \<open>A signature counts when it recovers to the payer or the payer's contract confirms it.\<close>

definition signed_by :: "'b x402_env \<Rightarrow> string \<Rightarrow> typed_domain \<times> typed_message \<Rightarrow> string \<Rightarrow> bool" where
  "signed_by X payer data sig = (case data of (domain, message) \<Rightarrow>
     (\<exists>r. xe_verifyTypedData X domain message sig = Inr r \<and> lower r = lower payer)
     \<or> (\<exists>digest. xe_typedDataHash X domain message = Inr digest \<and> xe_isValidSignature X payer digest sig = Inr ERC1271_MAGIC_VALUE))"

lemma recover_signed:
  "recoverOrErc1271 X provider domain message sig payer = Inr q \<Longrightarrow> q = payer \<and> signed_by X payer (domain, message) sig"
  by (auto simp: recoverOrErc1271_def signed_by_def Let_def split: if_splits sum.splits)

lemma signed_data_contract:
  assumes "signed_data cfg E p = Inr data"
  shows "contract_data cfg E token (buildSettleCall p) = Inr data \<longleftrightarrow> names_token token p"
  using assms by (cases "token (np_asset p)")
    (auto simp: signed_data_def contract_data_def buildSettleCall_def effectiveNonce_def getX402FacilitatorDomain_def getEip3009TokenDomain_def names_token_def)

lemma verify_signature_sound:
  assumes "verifySignatureOffChain cfg X provider p = Inr (Inr payer)" "effectiveNonce (xe_ethers X) p = Inr eff"
  shows "payer = np_from p \<and> np_amount p \<noteq> 0 \<and> xe_now X div 1000 \<le> np_validBefore p
    \<and> (\<exists>data. signed_data cfg (xe_ethers X) p = Inr data \<and> signed_by X payer data (np_signature p))"
  using assms unfolding verifySignatureOffChain_def Let_def signed_data_def
  by (auto simp: effectiveNonce_def dest!: recover_signed split: if_splits)

lemma verify_accept:
  assumes "x402_verify cfg X st dto = Inr (Inr payer)"
  shows "\<exists>p eff. xs_enabled st \<and> normalize_request cfg (xe_ethers X) dto = Inr (Inr p) \<and> effectiveNonce (xe_ethers X) p = Inr eff
    \<and> nonce_used X p eff = Inr False \<and> verifySignatureOffChain cfg X (xs_enabled st) p = Inr (Inr payer)"
proof -
  have on: "xs_enabled st" using assms by (auto simp: x402_verify_def split: if_splits)
  with assms obtain p eff where p: "normalize_request cfg (xe_ethers X) dto = Inr (Inr p)" "effectiveNonce (xe_ethers X) p = Inr eff"
    and rest: "(case nonce_used X p eff of Inl _ \<Rightarrow> reject NonceCheckFailed
        | Inr used \<Rightarrow> if used then reject NonceUsed else verifySignatureOffChain cfg X (xs_enabled st) p) = Inr (Inr payer)"
    unfolding x402_verify_def by (auto simp only: vbind_accept rbind_eq_Inr not_True_eq_False if_False)
  from rest have "nonce_used X p eff = Inr False \<and> verifySignatureOffChain cfg X (xs_enabled st) p = Inr (Inr payer)"
    by (cases "nonce_used X p eff") (simp_all split: if_splits)
  with on p show ?thesis by blast
qed

lemma settle_sends:
  assumes "xs_enabled st" "normalize_request cfg (xe_ethers X) dto = Inr (Inr p)"
  shows "\<exists>v. fst (x402_settle cfg X dto st) = Inr v"
    and "xs_sent (snd (x402_settle cfg X dto st)) = (if is_ok (bumpedFees (xe_feeData X) 15 1500000000) then buildSettleCall p # xs_sent st else xs_sent st)"
  using assms by (auto simp: x402_settle_def sendSettle_def Let_def split: sum.splits)

text \<open>C16: what is verified is what is settled. When verification accepts a request, the payer signed the typed data of the payment, its amount is not zero, it has not expired and neither replay slot of its effective nonce is used;
  settling the same request never throws and asks for one call, with the verified signature, once the fees are known; and from the arguments of that call the contracts rebuild exactly the signed data
  for every direct payment, and for an EIP-3009 payment if and only if the request gives the name and version that the token contract has (verification takes them from the request).\<close>

theorem verified_payment_settles_as_signed:
  assumes "x402_verify cfg X st dto = Inr (Inr payer)"
  shows "\<exists>p data eff. normalize_request cfg (xe_ethers X) dto = Inr (Inr p) \<and> payer = np_from p \<and> np_amount p \<noteq> 0
    \<and> xe_now X div 1000 \<le> np_validBefore p \<and> effectiveNonce (xe_ethers X) p = Inr eff \<and> nonce_used X p eff = Inr False
    \<and> (contract_data cfg (xe_ethers X) token (buildSettleCall p) = Inr data \<longleftrightarrow> names_token token p)
    \<and> signed_by X payer data (call_signature (buildSettleCall p))
    \<and> is_ok (fst (x402_settle cfg X dto st))
    \<and> xs_sent (snd (x402_settle cfg X dto st)) = (if is_ok (bumpedFees (xe_feeData X) 15 1500000000) then buildSettleCall p # xs_sent st else xs_sent st)"
proof -
  from assms obtain p eff where p: "xs_enabled st" "normalize_request cfg (xe_ethers X) dto = Inr (Inr p)" "effectiveNonce (xe_ethers X) p = Inr eff"
    and used: "nonce_used X p eff = Inr False" and sig: "verifySignatureOffChain cfg X (xs_enabled st) p = Inr (Inr payer)"
    using verify_accept by blast
  from verify_signature_sound [OF sig p(3)] obtain data where d: "payer = np_from p" "np_amount p \<noteq> 0" "xe_now X div 1000 \<le> np_validBefore p"
    "signed_data cfg (xe_ethers X) p = Inr data" "signed_by X payer data (np_signature p)" by blast
  have "call_signature (buildSettleCall p) = np_signature p" by (simp add: call_signature_def buildSettleCall_def)
  then have sig: "signed_by X payer data (call_signature (buildSettleCall p))" using d(5) by simp
  have "is_ok (fst (x402_settle cfg X dto st))" using settle_sends(1) [OF p(1,2)] by (simp add: is_ok_iff)
  note all = p(2) d(1-3) p(3) used signed_data_contract [OF d(4)] sig this settle_sends(2) [OF p(1,2)]
  show ?thesis by (intro exI [of _ p] exI [of _ data] exI [of _ eff] conjI) (fact all)+
qed

text \<open>The terms of a settlement: payer, recipient, asset, amount, fee cap and end of validity.\<close>

definition call_terms :: "settle_call \<Rightarrow> string \<times> string \<times> string \<times> int \<times> int \<times> int" where
  "call_terms call = (case call of
     SettleX402PaymentDirect from to asset amount maxFee validBefore _ _ \<Rightarrow> (from, to, asset, amount, maxFee, validBefore)
   | SettleX402Payment from to asset amount maxFee _ validBefore _ _ \<Rightarrow> (from, to, asset, amount, maxFee, validBefore))"

lemma eip3009_nonce_inj:
  assumes "ethers_ok E" "computeEip3009Nonce E t f s = Inr n" "computeEip3009Nonce E t' f' s' = Inr n"
  shows "canon E t = canon E t' \<and> f = f' \<and> lower s = lower s'"
  using keccak_encode_inj [OF assms(1) assms(2,3) [unfolded computeEip3009Nonce_def]] by simp

text \<open>C28: one signature, one settlement. Two accepted payments that were signed over the same typed data settle on the same terms: the same payer,
  recipient, asset, amount, fee cap and expiry. For the EIP-3009 scheme, whose message names neither recipient nor fee cap, this rests on the
  nonce, which is the hash of both and the salt.\<close>

theorem signature_fixes_settlement_terms:
  assumes "ethers_ok E" "normalize_request cfg E dto = Inr (Inr p)" "normalize_request cfg E dto' = Inr (Inr q)"
    and "signed_data cfg E p = Inr data" "signed_data cfg E q = Inr data"
  shows "call_terms (buildSettleCall p) = call_terms (buildSettleCall q)"
proof -
  have wf: "getAddress E (np_to p) = Some (np_to p)" "getAddress E (np_to q) = Some (np_to q)"
    using accepted_wf [OF _ assms(2)] accepted_wf [OF _ assms(3)] assms(1) by (simp_all add: payment_wf_def ethers_ok_def)
  have "np_to p = np_to q \<and> np_maxFee p = np_maxFee q"
    if "computeEip3009Nonce E (np_to p) (np_maxFee p) (np_salt p) = Inr n" "computeEip3009Nonce E (np_to q) (np_maxFee q) (np_salt q) = Inr n" for n
    using eip3009_nonce_inj [OF assms(1) that] wf by (simp add: canon_def)
  then show ?thesis using assms(4,5)
    by (auto simp: signed_data_def effectiveNonce_def call_terms_def buildSettleCall_def getEip3009TokenDomain_def split: if_splits)
qed

section \<open>A fee the coder refuses\<close>

text \<open>The ABI coder of \<^verbatim>\<open>ethers\<close> throws on a \<^verbatim>\<open>uint256\<close> argument that is negative or does not fit 256 bits.\<close>

definition uint256_checked :: "'b ethers \<Rightarrow> bool" where
  "uint256_checked E \<longleftrightarrow> (\<forall>vs n. AbiUint256 n \<in> set vs \<longrightarrow> n < 0 \<or> n \<ge> 2 ^ 256 \<longrightarrow> abi_encode E vs = None)"

text \<open>verification throws on a bad fee cap. Normalisation accepts any integer as the fee cap; with the EIP-3009 scheme a negative one, or one beyond
  256 bits, makes the derivation of the nonce throw outside every handler, so verification, which promises never to throw, answers 500
  instead of a verdict, whatever the chain and the signature say.\<close>

theorem verify_throws_on_bad_fee:
  assumes "uint256_checked (xe_ethers X)" "xs_enabled st" "normalize_request cfg (xe_ethers X) dto = Inr (Inr p)" "np_scheme p = ''eip-3009''"
    and "np_maxFee p < 0 \<or> np_maxFee p \<ge> 2 ^ 256"
  shows "x402_verify cfg X st dto = Inl AbiEncodeFailed \<and> controller_verify cfg X st dto = (500, None)"
proof -
  have "abi_encode (xe_ethers X) [AbiAddress (np_to p), AbiUint256 (np_maxFee p), AbiBytes32 (np_salt p)] = None"
    using assms(1,5) unfolding uint256_checked_def by (elim allE impE) auto
  then have "effectiveNonce (xe_ethers X) p = Inl AbiEncodeFailed"
    using assms(4) by (simp add: effectiveNonce_def computeEip3009Nonce_def keccak_encode_def of_option_def)
  then have "x402_verify cfg X st dto = Inl AbiEncodeFailed" using assms(2,3) by (simp add: x402_verify_def vbind_def)
  then show ?thesis using assms(2) by (simp add: controller_verify_def)
qed

section \<open>Verified settlements are well-typed\<close>

definition uint256 :: "int \<Rightarrow> bool" where
  "uint256 n \<longleftrightarrow> 0 \<le> n \<and> n < 2 ^ 256"

fun message_uints :: "typed_message \<Rightarrow> int list" where
  "message_uints (X402PaymentAuthorization _ _ _ amount maxFee validBefore _) = [amount, maxFee, validBefore]"
| "message_uints (ReceiveWithAuthorization _ _ val validAfter validBefore _) = [val, validAfter, validBefore]"

text \<open>The typed-data encoder of \<^verbatim>\<open>ethers\<close> throws on a \<^verbatim>\<open>uint256\<close> member that is negative or does not fit 256 bits.\<close>

definition typed_data_checked :: "'b x402_env \<Rightarrow> bool" where
  "typed_data_checked X \<longleftrightarrow> (\<forall>domain m sig. \<not> list_all uint256 (message_uints m) \<longrightarrow>
     \<not> is_ok (xe_verifyTypedData X domain m sig) \<and> \<not> is_ok (xe_typedDataHash X domain m))"

text \<open>The arguments have the types of the contract's two functions; the signature is a hex string of any length.\<close>

fun call_typed :: "'b ethers \<Rightarrow> settle_call \<Rightarrow> bool" where
  "call_typed E (SettleX402PaymentDirect from to asset amount maxFee validBefore nonce sig) \<longleftrightarrow>
     list_all (\<lambda>a. getAddress E a = Some a) [from, to, asset] \<and> list_all uint256 [amount, maxFee, validBefore] \<and> is_key_format nonce \<and> isHexString sig"
| "call_typed E (SettleX402Payment from to asset amount maxFee validAfter validBefore salt sig) \<longleftrightarrow>
     list_all (\<lambda>a. getAddress E a = Some a) [from, to, asset] \<and> list_all uint256 [amount, maxFee, validAfter, validBefore] \<and> is_key_format salt \<and> isHexString sig"

lemma signed_uints:
  assumes "typed_data_checked X" "signed_by X payer (domain, m) sig"
  shows "list_all uint256 (message_uints m)"
proof -
  have "is_ok (xe_verifyTypedData X domain m sig) \<or> is_ok (xe_typedDataHash X domain m)" using assms(2) by (auto simp: signed_by_def is_ok_iff)
  then show ?thesis using assms(1) unfolding typed_data_checked_def by blast
qed

lemma nonce_uint:
  assumes "uint256_checked E" "computeEip3009Nonce E to maxFee salt = Inr n"
  shows "uint256 maxFee"
proof (rule ccontr)
  assume "\<not> uint256 maxFee"
  then have "abi_encode E [AbiAddress to, AbiUint256 maxFee, AbiBytes32 salt] = None"
    using assms(1) unfolding uint256_checked_def uint256_def by (elim allE impE) auto
  with assms(2) show False by (simp add: computeEip3009Nonce_def keccak_encode_def of_option_def)
qed

text \<open>C33: verified settlements are well-typed. Whatever JSON is posted, a request that verification accepts settles with a call whose arguments have the types of the contract function: checksummed payer, recipient and asset,
  amount, fee cap and validity times within 256 bits, a 32-byte nonce or salt and a hex signature. Normalisation alone does not bound the numbers; the bounds come from the coders that verification runs them through.\<close>

theorem verified_settlement_is_well_typed:
  assumes "getAddress_ok (xe_ethers X)" "uint256_checked (xe_ethers X)" "typed_data_checked X" "x402_verify cfg X st dto = Inr (Inr payer)"
  shows "\<exists>p. normalize_request cfg (xe_ethers X) dto = Inr (Inr p) \<and> isSupportedSettlementScheme (np_scheme p) \<and> 0 < np_amount p \<and> call_typed (xe_ethers X) (buildSettleCall p)"
proof -
  from verify_accept [OF assms(4)] obtain p eff where p: "normalize_request cfg (xe_ethers X) dto = Inr (Inr p)" "effectiveNonce (xe_ethers X) p = Inr eff"
    and sig: "verifySignatureOffChain cfg X (xs_enabled st) p = Inr (Inr payer)" by blast
  have wf: "payment_wf (xe_ethers X) p" by (rule accepted_wf [OF assms(1) p(1)])
  from verify_signature_sound [OF sig p(2)] obtain domain m where d: "np_amount p \<noteq> 0" "signed_data cfg (xe_ethers X) p = Inr (domain, m)"
    "signed_by X payer (domain, m) (np_signature p)" by (metis surj_pair)
  have "list_all uint256 (message_uints m)" by (rule signed_uints [OF assms(3) d(3)])
  moreover have "np_scheme p \<noteq> ''direct'' \<Longrightarrow> uint256 (np_maxFee p)" using p(2) nonce_uint [OF assms(2)] by (auto simp: effectiveNonce_def)
  ultimately have "call_typed (xe_ethers X) (buildSettleCall p)" using wf d(2)
    by (auto simp: buildSettleCall_def payment_wf_def signed_data_def split: if_splits)
  then show ?thesis using p(1) wf d(1) by (auto simp: payment_wf_def)
qed

section \<open>Examples\<close>

definition demo_nonce :: string where "demo_nonce = ''0x'' @ replicate 64 CHR ''1''"

definition demo_x402_request :: "string \<Rightarrow> facilitator_request" where
  "demo_x402_request maxFee =
     \<lparr>fr_x402Version = Some (JvNum (js_of_int 2)),
      fr_paymentPayload = Some (JvObj [(''x402Version'', JvNum (js_of_int 2)), (''payload'', JvObj [(''signature'', JvStr ''0xabcd''),
        (''authorization'', JvObj [(''from'', JvStr demo_signer), (''to'', JvStr demo_registry), (''value'', JvStr ''5''),
          (''validAfter'', JvStr ''0''), (''validBefore'', JvStr ''2000''), (''nonce'', JvStr demo_nonce)])])]),
      fr_paymentRequirements = Some (JvObj [(''scheme'', JvStr ''exact''), (''network'', JvStr (toNetworkId SEPOLIA_chainId)),
        (''asset'', JvStr demo_registry), (''amount'', JvStr ''5''), (''payTo'', JvStr demo_registry),
        (''extra'', JvObj [(''maxFee'', JvStr maxFee)])])\<rparr>"

definition demo_payment :: "int \<Rightarrow> normalized_payment" where
  "demo_payment maxFee = \<lparr>np_scheme = ''eip-3009'', np_from = demo_signer, np_to = demo_registry, np_asset = demo_registry, np_amount = 5,
     np_maxFee = maxFee, np_validAfter = 0, np_validBefore = 2000, np_nonce = demo_nonce, np_salt = demo_nonce, np_signature = ''0xabcd'',
     np_tokenName = ''USDC'', np_tokenVersion = ''2''\<rparr>"

definition demo_x402_config :: x402_config where
  "demo_x402_config = \<lparr>xc_enabledByConfig = True, xc_operatorPk = demo_nonce, xc_rpcUrl = ''http://rpc'', xc_chainId = SEPOLIA_chainId,
     xc_facilitatorContract = demo_registry, xc_supportedAssets = [], xc_feeBPS = 200\<rparr>"

definition demo_x402_env :: "'b ethers \<Rightarrow> 'b x402_env" where
  "demo_x402_env E = \<lparr>xe_ethers = E, xe_now = 1000000, xe_verifyTypedData = (\<lambda>_ _ _. Inr demo_signer), xe_typedDataHash = (\<lambda>_ _. Inr ''0x01''),
     xe_isValidSignature = (\<lambda>_ _ _. Inl IoError), xe_settlementNonces = (\<lambda>_. Inr False), xe_feeData = Inr (None, None),
     xe_submit = (\<lambda>_ _. Inr ''0xhash''), xe_wait = (\<lambda>_. Inr (Some 1))\<rparr>"

definition strict_ethers :: "abi_value list ethers" where
  "strict_ethers = sample_ethers\<lparr>abi_encode := (\<lambda>vs.
     if list_all (\<lambda>v. case v of AbiUint256 n \<Rightarrow> 0 \<le> n \<and> n < 2 ^ 256 | _ \<Rightarrow> True) vs then Some (map sample_norm vs) else None)\<rparr>"

lemma demo_nonce_format [simp]: "is_key_format demo_nonce"
  by code_simp

lemma demo_numbers: "js_BigInt ''5'' = Inr 5" "js_BigInt ''0'' = Inr 0" "js_BigInt ''2000'' = Inr 2000" "js_BigInt ''-1'' = Inr (- 1)"
  "is_digits ''5''" "is_digits ''0''" "is_digits ''2000''" "isHexString ''0xabcd''"
  by code_simp+

lemma demo_normalize:
  assumes "getAddress E = sample_getAddress" "js_BigInt maxFee = Inr f"
  shows "normalize_request demo_x402_config E (demo_x402_request maxFee) = Inr (Inr (demo_payment f))"
proof -
  have scheme: "resolveScheme demo_x402_config a None = ''eip-3009''" "isSupportedSettlementScheme ''eip-3009''" for a
    by (simp_all add: resolveScheme_def demo_x402_config_def isSupportedSettlementScheme_def SUPPORTED_SETTLEMENT_SCHEMES_def)
  have "normalize_fields demo_x402_config E (fr_paymentRequirements (demo_x402_request maxFee))
      (jget (fr_paymentPayload (demo_x402_request maxFee)) ''payload'')
      (jget (jget (fr_paymentPayload (demo_x402_request maxFee)) ''payload'') ''authorization'')
      (jget (fr_paymentRequirements (demo_x402_request maxFee)) ''extra'') = Inr (Inr (demo_payment f))"
    using assms unfolding normalize_fields_def demo_x402_request_def
    by (simp add: jget_def jnullish_def want_string_def isAddress_def demo_numbers vbind_def accept_def lift_result_def normalize_fee_def
        normalize_salt_def scheme Let_def of_option_def text_or_def demo_payment_def)
  then show ?thesis unfolding normalize_request_def
    by (simp add: demo_x402_request_def Let_def jtruthy_def check_value_def jget_def vbind_def accept_def demo_x402_config_def)
qed

theorem signature_fixes_settlement_terms_witness:
  "call_terms (buildSettleCall (demo_payment 5)) = call_terms (buildSettleCall (demo_payment 5))
   \<and> is_ok (signed_data demo_x402_config sample_ethers (demo_payment 5))"
proof -
  obtain d where d: "signed_data demo_x402_config sample_ethers (demo_payment 5) = Inr d"
    by (auto simp: signed_data_def effectiveNonce_def demo_payment_def computeEip3009Nonce_def keccak_encode_def of_option_def)
  have n: "normalize_request demo_x402_config sample_ethers (demo_x402_request ''5'') = Inr (Inr (demo_payment 5))"
    using demo_normalize [of sample_ethers "''5''" 5] by (simp add: demo_numbers)
  show ?thesis using signature_fixes_settlement_terms [OF sample_ethers_ok n n d d] d by (simp add: is_ok_iff)
qed

lemma demo_verify: "x402_verify demo_x402_config (demo_x402_env sample_ethers) \<lparr>xs_enabled = True, xs_sent = []\<rparr> (demo_x402_request ''5'') = Inr (Inr demo_signer)"
  using demo_normalize [of sample_ethers "''5''" 5]
  by (simp add: demo_numbers x402_verify_def demo_x402_env_def vbind_def effectiveNonce_def demo_payment_def computeEip3009Nonce_def keccak_encode_def
      of_option_def nonce_used_def computeX402NonceKey_def verifySignatureOffChain_def Let_def recoverOrErc1271_def)

theorem verified_payment_settles_as_signed_witness:
  "\<exists>p data eff. normalize_request demo_x402_config sample_ethers (demo_x402_request ''5'') = Inr (Inr p) \<and> demo_signer = np_from p \<and> np_amount p \<noteq> 0
    \<and> signed_by (demo_x402_env sample_ethers) demo_signer data (call_signature (buildSettleCall p))
    \<and> contract_data demo_x402_config sample_ethers (\<lambda>_. (''USDC'', ''2'')) (buildSettleCall p) = Inr data
    \<and> nonce_used (demo_x402_env sample_ethers) p eff = Inr False"
proof -
  obtain p data eff where p: "normalize_request demo_x402_config (xe_ethers (demo_x402_env sample_ethers)) (demo_x402_request ''5'') = Inr (Inr p)" "demo_signer = np_from p" "np_amount p \<noteq> 0"
    "contract_data demo_x402_config (xe_ethers (demo_x402_env sample_ethers)) (\<lambda>_. (''USDC'', ''2'')) (buildSettleCall p) = Inr data \<longleftrightarrow> names_token (\<lambda>_. (''USDC'', ''2'')) p"
    "signed_by (demo_x402_env sample_ethers) demo_signer data (call_signature (buildSettleCall p))" "nonce_used (demo_x402_env sample_ethers) p eff = Inr False"
    using verified_payment_settles_as_signed [OF demo_verify, of "\<lambda>_. (''USDC'', ''2'')"] by blast
  have "p = demo_payment 5" using p(1) demo_normalize [of sample_ethers "''5''" 5] by (simp add: demo_numbers demo_x402_env_def)
  then have "names_token (\<lambda>_. (''USDC'', ''2'')) p" by (simp add: names_token_def demo_payment_def)
  with p show ?thesis by (intro exI [of _ p] exI [of _ data] exI [of _ eff]) (simp add: demo_x402_env_def)
qed

definition checked_x402_env :: "abi_value list x402_env" where
  "checked_x402_env = (demo_x402_env strict_ethers)\<lparr>xe_verifyTypedData := (\<lambda>_ m _. if list_all uint256 (message_uints m) then Inr demo_signer else Inl AbiEncodeFailed),
     xe_typedDataHash := (\<lambda>_ m. if list_all uint256 (message_uints m) then Inr ''0x01'' else Inl AbiEncodeFailed)\<rparr>"

theorem verified_settlement_is_well_typed_witness:
  "\<exists>p. normalize_request demo_x402_config (xe_ethers checked_x402_env) (demo_x402_request ''5'') = Inr (Inr p) \<and> isSupportedSettlementScheme (np_scheme p) \<and> 0 < np_amount p
     \<and> call_typed (xe_ethers checked_x402_env) (buildSettleCall p)"
proof (rule verified_settlement_is_well_typed)
  show "getAddress_ok (xe_ethers checked_x402_env)" using sample_ethers_ok by (simp add: ethers_ok_def getAddress_ok_def checked_x402_env_def demo_x402_env_def strict_ethers_def)
  show "uint256_checked (xe_ethers checked_x402_env)" by (auto simp: uint256_checked_def checked_x402_env_def strict_ethers_def demo_x402_env_def list_all_iff split: abi_value.splits)
  show "typed_data_checked checked_x402_env" by (simp add: typed_data_checked_def checked_x402_env_def)
  have n: "normalize_request demo_x402_config strict_ethers (demo_x402_request ''5'') = Inr (Inr (demo_payment 5))"
    by (intro demo_normalize demo_numbers) (simp add: strict_ethers_def)
  have enc: "abi_encode strict_ethers [AbiAddress a, AbiUint256 5, AbiBytes32 h] = Some (map sample_norm [AbiAddress a, AbiUint256 5, AbiBytes32 h])"
    "abi_encode strict_ethers [AbiAddress a, AbiAddress b, AbiBytes32 h] = Some (map sample_norm [AbiAddress a, AbiAddress b, AbiBytes32 h])" for a b h
    by (simp_all add: strict_ethers_def)
  show "x402_verify demo_x402_config checked_x402_env \<lparr>xs_enabled = True, xs_sent = []\<rparr> (demo_x402_request ''5'') = Inr (Inr demo_signer)"
    using n enc by (simp add: x402_verify_def checked_x402_env_def demo_x402_env_def vbind_def effectiveNonce_def demo_payment_def computeEip3009Nonce_def keccak_encode_def
        of_option_def nonce_used_def computeX402NonceKey_def verifySignatureOffChain_def Let_def recoverOrErc1271_def uint256_def)
qed

theorem verify_throws_on_bad_fee_witness:
  "x402_verify demo_x402_config (demo_x402_env strict_ethers) \<lparr>xs_enabled = True, xs_sent = []\<rparr> (demo_x402_request ''-1'') = Inl AbiEncodeFailed
   \<and> controller_verify demo_x402_config (demo_x402_env strict_ethers) \<lparr>xs_enabled = True, xs_sent = []\<rparr> (demo_x402_request ''-1'') = (500, None)"
proof -
  have checked: "uint256_checked (xe_ethers (demo_x402_env strict_ethers))"
    by (auto simp: uint256_checked_def strict_ethers_def demo_x402_env_def list_all_iff split: abi_value.splits)
  have n: "normalize_request demo_x402_config (xe_ethers (demo_x402_env strict_ethers)) (demo_x402_request ''-1'') = Inr (Inr (demo_payment (- 1)))"
    by (simp only: demo_x402_env_def x402_env.simps) (intro demo_normalize demo_numbers, simp add: strict_ethers_def)
  show ?thesis by (rule verify_throws_on_bad_fee [OF checked _ n]) (simp_all add: demo_payment_def)
qed

end
