(* ===== verification/X402_Auth.thy ===== *)
theory X402_Auth
  imports X402_Facilitator Bls_Encoding
begin

text \<open>
  \<^verbatim>\<open>src/modules/x402-facilitator/x402-auth.guard.ts\<close>: the stateless HMAC guard in front of settlement. HMAC-SHA256 is a parameter
  (\<open>hmac secret message\<close>, the hex digest) with collision freedom as its named hypothesis. \<^verbatim>\<open>Number(s)\<close> is modelled on the whole grammar of numeric
  strings, with exact values in place of doubles. The body is the raw text of the request, or its reserialisation when the server keeps no raw
  body.
\<close>

section \<open>Number of a string\<close>

definition js_exponent :: "string \<Rightarrow> int option" where
  "js_exponent s =
     (case s of [] \<Rightarrow> Some 0
      | _ # ds \<Rightarrow> if take 1 ds = ''-'' then map_option (\<lambda>n. - int n) (parse_nat digit_val 10 (drop 1 ds))
          else map_option int (parse_nat digit_val 10 (if take 1 ds = ''+'' then drop 1 ds else ds)))"

definition js_mantissa :: "string \<Rightarrow> rat option" where
  "js_mantissa s = (let whole = takeWhile (\<lambda>c. c \<noteq> CHR ''.'') s; frac = drop 1 (dropWhile (\<lambda>c. c \<noteq> CHR ''.'') s) in
     map_option (\<lambda>n. of_nat n / 10 ^ length frac) (parse_nat digit_val 10 (whole @ frac)))"

definition js_decimal :: "string \<Rightarrow> rat option" where
  "js_decimal s = (let no_exp = (\<lambda>c. c \<noteq> CHR ''e'' \<and> c \<noteq> CHR ''E'') in
     case (js_mantissa (takeWhile no_exp s), js_exponent (dropWhile no_exp s)) of
       (Some m, Some e) \<Rightarrow> Some (if e \<ge> 0 then m * 10 ^ nat e else m / 10 ^ nat (- e)) | _ \<Rightarrow> None)"

definition js_radix :: "(char \<Rightarrow> nat option) \<Rightarrow> nat \<Rightarrow> string \<Rightarrow> jsnum" where
  "js_radix dv b s = (case parse_nat dv b (drop 2 s) of None \<Rightarrow> JNaN | Some n \<Rightarrow> JFin (of_nat n))"

definition js_Number :: "string \<Rightarrow> jsnum" where
  "js_Number s0 = (let s = trim s0; neg = (take 1 s = ''-''); body = (if take 1 s = ''-'' \<or> take 1 s = ''+'' then drop 1 s else s) in
     if s = [] then JFin 0
     else if take 2 s = ''0x'' \<or> take 2 s = ''0X'' then js_radix hex_val 16 s
     else if take 2 s = ''0o'' \<or> take 2 s = ''0O'' then js_radix (digit_below 8) 8 s
     else if take 2 s = ''0b'' \<or> take 2 s = ''0B'' then js_radix (digit_below 2) 2 s
     else if body = ''Infinity'' then (if neg then JNegInf else JPosInf)
     else case js_decimal body of None \<Rightarrow> JNaN | Some q \<Rightarrow> JFin (if neg then - q else q))"

section \<open>The guard\<close>

record auth_config =
  ag_enabled :: bool
  ag_secret :: string
  ag_ttlMs :: int

record auth_request =
  hr_timestamp :: "string option"
  hr_auth :: "string option"
  hr_rawBody :: "string option"
  hr_reserialised :: string

definition X402AuthGuard_new :: "bool option \<Rightarrow> string option \<Rightarrow> int option \<Rightarrow> auth_config" where
  "X402AuthGuard_new x402AuthEnabled x402AuthSecret x402AuthTtlMs =
     \<lparr>ag_enabled = (x402AuthEnabled = Some True), ag_secret = nullish x402AuthSecret [], ag_ttlMs = nullish x402AuthTtlMs 300000\<rparr>"

text \<open>\<^verbatim>\<open>timingSafeEqual\<close> throws on buffers of different length, which the caller turns into false.\<close>

definition safeEqualHex :: "string \<Rightarrow> string \<Rightarrow> bool" where
  "safeEqualHex a b \<longleftrightarrow> length a = length b \<and> buffer_hex a = buffer_hex b"

definition auth_canActivate :: "(string \<Rightarrow> string \<Rightarrow> string) \<Rightarrow> auth_config \<Rightarrow> int \<Rightarrow> auth_request \<Rightarrow> bool result" where
  "auth_canActivate hmac ag now req =
     (if \<not> ag_enabled ag then Inr True
      else if ag_secret ag = [] then Inl (HttpStatus 503)
      else case (nullish (hr_timestamp req) [], nullish (hr_auth req) []) of (ts, auth) \<Rightarrow>
        if ts = [] \<or> auth = [] then Inl (HttpStatus 401)
        else case js_Number ts of
          JFin tsNum \<Rightarrow>
            if \<bar>of_int now - tsNum\<bar> > of_int (ag_ttlMs ag) then Inl (HttpStatus 401)
            else
              let rawBody = nullish (hr_rawBody req) (hr_reserialised req);
                  expected = hmac (ag_secret ag) (ts @ ''.'' @ rawBody)
              in if \<not> safeEqualHex expected auth then Inl (HttpStatus 403) else Inr True
        | _ \<Rightarrow> Inl (HttpStatus 401))"

definition computeHeaders :: "(string \<Rightarrow> string \<Rightarrow> string) \<Rightarrow> string \<Rightarrow> int \<Rightarrow> string \<Rightarrow> string \<times> string" where
  "computeHeaders hmac secret timestampMs rawBody =
     (let ts = int_to_string timestampMs in (ts, hmac secret (ts @ ''.'' @ rawBody)))"

text \<open>The endpoint behind its guard.\<close>

definition guarded_settle :: "(string \<Rightarrow> string \<Rightarrow> string) \<Rightarrow> auth_config \<Rightarrow> int \<Rightarrow> auth_request \<Rightarrow> x402_config \<Rightarrow> 'b x402_env \<Rightarrow>
    facilitator_request \<Rightarrow> x402_state \<Rightarrow> (int \<times> string option) \<times> x402_state" where
  "guarded_settle hmac ag now req cfg X dto st =
     (case auth_canActivate hmac ag now req of Inl (HttpStatus c) \<Rightarrow> ((c, None), st) | Inl _ \<Rightarrow> ((500, None), st)
      | Inr _ \<Rightarrow> controller_settle cfg X dto st)"

section \<open>Numeric strings\<close>

lemma parse_nat_chars: "parse_nat dv b s = Some n \<Longrightarrow> c \<in> set s \<Longrightarrow> dv c \<noteq> None"
proof -
  have "parse_acc dv b acc s = Some n \<Longrightarrow> c \<in> set s \<Longrightarrow> dv c \<noteq> None" for acc
    by (induction s arbitrary: acc) (auto split: option.splits)
  then show "parse_nat dv b s = Some n \<Longrightarrow> c \<in> set s \<Longrightarrow> dv c \<noteq> None" by (auto simp: parse_nat_def split: if_splits)
qed

lemma no_digit [simp]: "digit_val CHR ''{'' = None" "hex_val CHR ''{'' = None" "digit_below n CHR ''{'' = None" "\<not> is_ws CHR ''{''"
  "digit_val CHR ''.'' = None" "digit_val CHR ''e'' = None" "digit_val CHR ''E'' = None" "digit_val CHR ''I'' = None"
  by (simp_all add: digit_val_def hex_val_def digit_below_def is_ws_def)

lemma set_split: "x \<in> set s \<Longrightarrow> x \<in> set (takeWhile P s) \<or> x \<in> set (dropWhile P s)"
  by (metis Un_iff set_append takeWhile_dropWhile_id)

lemma trim_keeps: "c \<in> set s \<Longrightarrow> \<not> is_ws c \<Longrightarrow> c \<in> set (trim s)"
proof -
  have "c \<in> set xs \<Longrightarrow> \<not> is_ws c \<Longrightarrow> c \<in> set (dropWhile is_ws xs)" for xs by (induction xs) auto
  then show "c \<in> set s \<Longrightarrow> \<not> is_ws c \<Longrightarrow> c \<in> set (trim s)" by (simp add: trim_def)
qed

lemma drop1_keeps: "c \<in> set s \<Longrightarrow> take 1 s = [d] \<Longrightarrow> c \<noteq> d \<Longrightarrow> c \<in> set (drop 1 s)"
  by (cases s) auto

lemma mantissa_chars: "js_mantissa s = Some q \<Longrightarrow> CHR ''{'' \<notin> set s"
proof
  assume m: "js_mantissa s = Some q" and c: "CHR ''{'' \<in> set s"
  let ?P = "\<lambda>c. c \<noteq> CHR ''.''"
  from m obtain n where n: "parse_nat digit_val 10 (takeWhile ?P s @ drop 1 (dropWhile ?P s)) = Some n" by (auto simp: js_mantissa_def Let_def)
  have "CHR ''{'' \<in> set (drop 1 (dropWhile ?P s))" if "CHR ''{'' \<in> set (dropWhile ?P s)"
  proof (rule drop1_keeps [OF that])
    show "take 1 (dropWhile ?P s) = ''.''" using that hd_dropWhile [of ?P s] by (cases "dropWhile ?P s") auto
  qed simp
  then have "CHR ''{'' \<in> set (takeWhile ?P s @ drop 1 (dropWhile ?P s))" using set_split [OF c, of ?P] by auto
  from parse_nat_chars [OF n this] show False by simp
qed

lemma exponent_chars: "js_exponent s = Some e \<Longrightarrow> s \<noteq> [] \<longrightarrow> hd s \<noteq> CHR ''{'' \<Longrightarrow> CHR ''{'' \<notin> set s"
proof
  assume e: "js_exponent s = Some e" and h: "s \<noteq> [] \<longrightarrow> hd s \<noteq> CHR ''{''" and c: "CHR ''{'' \<in> set s"
  then obtain x ds where s: "s = x # ds" "CHR ''{'' \<in> set ds" by (cases s) auto
  have sub: "CHR ''{'' \<in> set (drop 1 ds)" if "take 1 ds = ''-'' \<or> take 1 ds = ''+''" using that drop1_keeps [OF s(2)] by auto
  from e s(1) obtain t n where "parse_nat digit_val 10 t = Some n" "t = (if take 1 ds = ''-'' \<or> take 1 ds = ''+'' then drop 1 ds else ds)"
    by (fastforce simp: js_exponent_def split: if_splits)
  with parse_nat_chars [of digit_val 10 t n "CHR ''{''"] sub s(2) show False by (auto split: if_splits)
qed

lemma decimal_chars: "js_decimal s = Some q \<Longrightarrow> CHR ''{'' \<notin> set s"
proof
  assume d: "js_decimal s = Some q" and c: "CHR ''{'' \<in> set s"
  let ?P = "\<lambda>c. c \<noteq> CHR ''e'' \<and> c \<noteq> CHR ''E''"
  from d obtain m e where "js_mantissa (takeWhile ?P s) = Some m" "js_exponent (dropWhile ?P s) = Some e"
    by (auto simp: js_decimal_def Let_def split: option.splits)
  moreover have "dropWhile ?P s \<noteq> [] \<longrightarrow> hd (dropWhile ?P s) \<noteq> CHR ''{''"
  proof
    assume "dropWhile ?P s \<noteq> []"
    from hd_dropWhile [OF this] show "hd (dropWhile ?P s) \<noteq> CHR ''{''" by auto
  qed
  ultimately show False using mantissa_chars exponent_chars set_split [OF c, of ?P] by blast
qed

lemma Number_chars:
  assumes "js_Number s = JFin q"
  shows "CHR ''{'' \<notin> set s"
proof
  assume "CHR ''{'' \<in> set s"
  then have c: "CHR ''{'' \<in> set (trim s)" by (rule trim_keeps) simp
  have radix: "js_radix dv b t = JFin q \<Longrightarrow> CHR ''{'' \<in> set (drop 2 t) \<Longrightarrow> dv CHR ''{'' \<noteq> None" for dv b t
    by (auto simp: js_radix_def dest: parse_nat_chars split: option.splits)
  have two: "CHR ''{'' \<in> set (drop 2 t)" if "CHR ''{'' \<in> set t" "take 2 t = [x, y]" "x \<noteq> CHR ''{''" "y \<noteq> CHR ''{''" for t x y
  proof -
    have "set t = set (take 2 t) \<union> set (drop 2 t)" by (metis append_take_drop_id set_append)
    with that show ?thesis by auto
  qed
  let ?body = "if take 1 (trim s) = ''-'' \<or> take 1 (trim s) = ''+'' then drop 1 (trim s) else trim s"
  have "CHR ''{'' \<in> set ?body" using c drop1_keeps [OF c] by auto
  then show False using assms c two radix decimal_chars unfolding js_Number_def Let_def
    by (fastforce split: if_splits option.splits)
qed

lemma decimal_digits: "js_decimal (dec_digits n) = Some (of_nat n)"
proof -
  let ?P = "\<lambda>c. c \<noteq> CHR ''e'' \<and> c \<noteq> CHR ''E''" and ?Q = "\<lambda>c. c \<noteq> CHR ''.''"
  have d: "c \<in> set (dec_digits n) \<Longrightarrow> digit_val c \<noteq> None" for c by (rule dec_digits_digit_val)
  have whole: "takeWhile P (dec_digits n) = dec_digits n" "dropWhile P (dec_digits n) = []" if "\<And>c. \<not> P c \<Longrightarrow> digit_val c = None" for P
  proof -
    have "P c" if c: "c \<in> set (dec_digits n)" for c
    proof (rule ccontr)
      assume "\<not> P c"
      then have "digit_val c = None" by (rule \<open>\<And>c. \<not> P c \<Longrightarrow> digit_val c = None\<close>)
      with d [OF c] show False by simp
    qed
    then show "takeWhile P (dec_digits n) = dec_digits n" "dropWhile P (dec_digits n) = []"
      by (simp_all add: takeWhile_eq_all_conv dropWhile_eq_Nil_conv)
  qed
  have e: "takeWhile ?P (dec_digits n) = dec_digits n" "dropWhile ?P (dec_digits n) = []" by (rule whole; force)+
  have p: "takeWhile ?Q (dec_digits n) = dec_digits n" "dropWhile ?Q (dec_digits n) = []" by (rule whole; force)+
  have "js_mantissa (dec_digits n) = Some (of_nat n)" unfolding js_mantissa_def Let_def p by simp
  then show ?thesis unfolding js_decimal_def Let_def e by (simp add: js_exponent_def)
qed

lemma Number_toString: "js_Number (int_to_string t) = JFin (of_int t)"
proof (cases "t < 0")
  case True
  have "drop 1 (CHR ''-'' # dec_digits (nat (- t))) \<noteq> ''Infinity''" using dec_digits_no_prefix(2) [of "CHR ''I''" "nat (- t)"] by auto
  then show ?thesis using True decimal_digits [of "nat (- t)"] by (simp add: js_Number_def Let_def int_to_string_def)
next
  case False
  let ?d = "dec_digits (nat t)"
  have hd: "take 1 ?d \<noteq> [c]" if "digit_val c = None" for c
    using dec_digits_no_prefix(2) [OF that, of "nat t"] by (cases ?d) auto
  have "?d \<noteq> ''Infinity''" using dec_digits_no_prefix(2) [of "CHR ''I''" "nat t"] by auto
  then show ?thesis using False decimal_digits [of "nat t"] hd dec_digits_no_prefix(1) [of _ "nat t"]
    by (simp add: js_Number_def Let_def int_to_string_def)
qed

section \<open>Digests\<close>

text \<open>HMAC-SHA256 as a collision-free function into non-empty lower-case hex texts of even length.\<close>

definition hmac_ok :: "(string \<Rightarrow> string \<Rightarrow> string) \<Rightarrow> bool" where
  "hmac_ok hmac \<longleftrightarrow> (\<forall>k m m'. hmac k m = hmac k m' \<longrightarrow> m = m')
     \<and> (\<forall>k m. hmac k m \<noteq> [] \<and> even (length (hmac k m)) \<and> lower (hmac k m) = hmac k m \<and> list_all (\<lambda>c. hex_val c \<noteq> None) (hmac k m))"

lemma safe_equal_digest:
  assumes "hmac_ok hmac"
  shows "safeEqualHex (hmac k m) (hmac k m') \<longleftrightarrow> m = m'"
proof
  assume "safeEqualHex (hmac k m) (hmac k m')"
  then have "lower (hmac k m) = lower (hmac k m')" using assms by (intro buffer_hex_eq) (auto simp: safeEqualHex_def hmac_ok_def)
  then have "hmac k m = hmac k m'" using assms by (metis hmac_ok_def)
  then show "m = m'" using assms by (auto simp: hmac_ok_def)
qed (simp add: safeEqualHex_def)

lemma signed_text_splits:
  assumes "ts @ ''.'' @ CHR ''{'' # body = ts' @ ''.'' @ CHR ''{'' # body'" "CHR ''{'' \<notin> set ts" "CHR ''{'' \<notin> set ts'"
  shows "ts = ts' \<and> body = body'"
proof -
  have tk: "takeWhile (\<lambda>c. c \<noteq> CHR ''{'') (xs @ ''.'' @ CHR ''{'' # ys) = xs @ ''.''" if "CHR ''{'' \<notin> set xs" for xs ys
    using that by (induction xs) auto
  have "ts @ ''.'' = ts' @ ''.''" using tk [OF assms(2)] tk [OF assms(3)] assms(1) by metis
  then show ?thesis using assms(1) by simp
qed

text \<open>C27: the guard admits exactly what the client signed. For a request whose body is a JSON object and that carries the digest a client computed for
  the time \<open>t\<close> and the object \<open>content\<close>, the enabled guard lets it pass if and only if its timestamp header is that time, its body is that
  very text, and the time is within the allowed distance of the server's clock. So neither the body nor the time can be changed, and no
  text can be moved between the two although they are joined by a dot that both may contain.\<close>

theorem auth_guard_exact:
  assumes "hmac_ok hmac" "ag_enabled ag" "ag_secret ag \<noteq> []"
    and "hr_auth req = Some (snd (computeHeaders hmac (ag_secret ag) t (CHR ''{'' # content)))"
    and "hr_timestamp req = Some ts" "hr_rawBody req = Some (CHR ''{'' # body)"
  shows "auth_canActivate hmac ag now req = Inr True \<longleftrightarrow> ts = int_to_string t \<and> body = content \<and> \<bar>now - t\<bar> \<le> ag_ttlMs ag"
proof -
  let ?got = "ts @ ''.'' @ CHR ''{'' # body" and ?orig = "int_to_string t @ ''.'' @ CHR ''{'' # content"
  have auth: "hr_auth req = Some (hmac (ag_secret ag) ?orig)" using assms(4) by (simp add: computeHeaders_def Let_def)
  have ne: "hmac k m \<noteq> []" for k m using assms(1) by (simp add: hmac_ok_def)
  have t: "int_to_string t \<noteq> []" by (simp add: int_to_string_def)
  have bound: "\<not> \<bar>rat_of_int now - rat_of_int t\<bar> > rat_of_int (ag_ttlMs ag) \<longleftrightarrow> \<bar>now - t\<bar> \<le> ag_ttlMs ag"
    by (metis not_less of_int_abs of_int_diff of_int_less_iff)
  note unfold = auth_canActivate_def nullish_def assms(2,3,5,6) auth ne Let_def safe_equal_digest [OF assms(1)]
  show ?thesis
  proof
    assume run: "auth_canActivate hmac ag now req = Inr True"
    then obtain q where q: "js_Number ts = JFin q" "?got = ?orig" by (auto simp: unfold split: jsnum.splits if_splits)
    have "ts = int_to_string t \<and> body = content"
      using signed_text_splits [OF q(2) Number_chars [OF q(1)] Number_chars [OF Number_toString]] .
    then show "ts = int_to_string t \<and> body = content \<and> \<bar>now - t\<bar> \<le> ag_ttlMs ag"
      using run t bound by (simp add: unfold Number_toString split: if_splits)
  next
    assume "ts = int_to_string t \<and> body = content \<and> \<bar>now - t\<bar> \<le> ag_ttlMs ag"
    then show "auth_canActivate hmac ag now req = Inr True" using t bound by (simp add: unfold Number_toString)
  qed
qed

definition sample_hmac :: "string \<Rightarrow> string \<Rightarrow> string" where
  "sample_hmac k m = bytes_hex (1 # map of_char (k @ m))"

lemma sample_hmac_ok: "hmac_ok sample_hmac"
proof -
  have range: "\<forall>b \<in> set (1 # map of_char (k @ m)). b < (256 :: nat)" for k m :: string by auto
  have inj: "m = m'" if "sample_hmac k m = sample_hmac k m'" for k m m'
  proof -
    have "map (of_char :: char \<Rightarrow> nat) m = map of_char m'"
      using that bytes_hex_back [OF range [of k m]] bytes_hex_back [OF range [of k m']] by (simp add: sample_hmac_def)
    then show ?thesis by (rule list.inj_map_strong [rotated]) simp
  qed
  have "\<forall>n < 16. lower_char (hex_char n) = hex_char n" by code_simp
  then have low: "lower (bytes_hex bs) = bytes_hex bs" if "\<forall>b \<in> set bs. b < 256" for bs
    using that by (induction bs) (auto simp: bytes_hex_def lower_def less_mult_imp_div_less)
  have "bytes_hex (1 # bs) \<noteq> []" for bs by (simp add: bytes_hex_def)
  then show ?thesis unfolding hmac_ok_def
    using inj low [OF range] bytes_hex_digits [OF range] by (auto simp: sample_hmac_def)
qed

theorem auth_guard_exact_witness:
  "auth_canActivate sample_hmac \<lparr>ag_enabled = True, ag_secret = ''k'', ag_ttlMs = 300000\<rparr> 1500
     \<lparr>hr_timestamp = Some (int_to_string 1000), hr_auth = Some (snd (computeHeaders sample_hmac ''k'' 1000 ''{}'')), hr_rawBody = Some ''{}'',
      hr_reserialised = []\<rparr> = Inr True"
  using auth_guard_exact [OF sample_hmac_ok, of "\<lparr>ag_enabled = True, ag_secret = ''k'', ag_ttlMs = 300000\<rparr>"
      "\<lparr>hr_timestamp = Some (int_to_string 1000), hr_auth = Some (snd (computeHeaders sample_hmac ''k'' 1000 ''{}'')), hr_rawBody = Some ''{}'',
      hr_reserialised = []\<rparr>" 1000 "''}''" "int_to_string 1000" "''}''" 1500]
  by simp

end
