(* ===== verification/Keystore.thy ===== *)
theory Keystore
  imports Bls_Encoding
begin

text \<open>
  \<^verbatim>\<open>src/utils/keystore.util.ts\<close>: the EIP-2335 keystore of the node's BLS secret. The platform's crypto functions and its Unicode
  normalisation are the parameter \<open>crypto\<close>; a character stands for its code point. Salt, initialisation vector and identifier, random unless a test
  sets them, are arguments of the encryption.
\<close>

section \<open>Definitions\<close>

datatype kdf_function = Scrypt | Pbkdf2

record kdf_params =
  kp_dklen :: "int option"
  kp_n :: int
  kp_r :: int
  kp_p :: int
  kp_c :: int
  kp_salt :: string

record keystore =
  ks_kdf :: kdf_function
  ks_params :: kdf_params
  ks_checksum :: string
  ks_iv :: string
  ks_message :: string
  ks_pubkey :: "string option"
  ks_uuid :: string
  ks_version :: int
  ks_description :: "string option"

record crypto =
  cy_nfkd :: "string \<Rightarrow> string"
  cy_utf8 :: "string \<Rightarrow> nat list"
  cy_scrypt :: "nat list \<Rightarrow> nat list \<Rightarrow> int \<Rightarrow> int \<Rightarrow> int \<Rightarrow> int \<Rightarrow> nat list result"
  cy_pbkdf2 :: "nat list \<Rightarrow> nat list \<Rightarrow> int \<Rightarrow> int \<Rightarrow> nat list result"
  cy_sha256 :: "nat list \<Rightarrow> string"
  cy_encipher :: "nat list \<Rightarrow> nat list \<Rightarrow> nat list \<Rightarrow> nat list result"
  cy_decipher :: "nat list \<Rightarrow> nat list \<Rightarrow> nat list \<Rightarrow> nat list result"

definition control_code :: "char \<Rightarrow> bool" where
  "control_code ch \<longleftrightarrow> (let c = of_char ch :: nat in c \<le> 31 \<or> (127 \<le> c \<and> c \<le> 159))"

definition normalizePassword :: "crypto \<Rightarrow> string \<Rightarrow> nat list" where
  "normalizePassword Y pw = cy_utf8 Y (filter (\<lambda>ch. \<not> control_code ch) (cy_nfkd Y pw))"

definition deriveKey :: "crypto \<Rightarrow> kdf_function \<Rightarrow> kdf_params \<Rightarrow> nat list \<Rightarrow> nat list \<Rightarrow> nat list result" where
  "deriveKey Y kdf p password salt =
     (let dklen = (case kp_dklen p of None \<Rightarrow> 32 | Some d \<Rightarrow> d) in
      if kdf = Scrypt then cy_scrypt Y password salt dklen (kp_n p) (kp_r p) (kp_p p) else cy_pbkdf2 Y password salt (kp_c p) dklen)"

text \<open>\<^verbatim>\<open>sha256(dk[16:32] || cipher.message)\<close>\<close>

definition checksum :: "crypto \<Rightarrow> nat list \<Rightarrow> nat list \<Rightarrow> string" where
  "checksum Y dk cipherMsg = cy_sha256 Y (take 16 (drop 16 dk) @ cipherMsg)"

definition decryptKeystore :: "crypto \<Rightarrow> keystore \<Rightarrow> string \<Rightarrow> nat list result" where
  "decryptKeystore Y ks password =
     (let salt = buffer_hex (kp_salt (ks_params ks)); cipherMsg = buffer_hex (ks_message ks) in
      rbind (deriveKey Y (ks_kdf ks) (ks_params ks) (normalizePassword Y password) salt) (\<lambda>dk.
      rbind (guard_throw (checksum Y dk cipherMsg \<noteq> ks_checksum ks) WrongPassphrase) (\<lambda>_.
      cy_decipher Y (take 16 dk) (buffer_hex (ks_iv ks)) cipherMsg)))"

record encrypt_opts =
  eo_kdf :: "kdf_function option"
  eo_pubkey :: "string option"
  eo_description :: "string option"

definition encryptKeystore :: "crypto \<Rightarrow> nat list \<Rightarrow> nat list \<Rightarrow> string \<Rightarrow> nat list \<Rightarrow> string \<Rightarrow> encrypt_opts \<Rightarrow> keystore result" where
  "encryptKeystore Y salt iv uuid secret password opts =
     rbind (guard_throw (length secret \<noteq> 32) BadPrivateKey) (\<lambda>_.
     let kdfFn = (case eo_kdf opts of None \<Rightarrow> Scrypt | Some f \<Rightarrow> f);
         params = \<lparr>kp_dklen = Some 32, kp_n = 262144, kp_r = 8, kp_p = 1, kp_c = 262144, kp_salt = bytes_hex salt\<rparr>
     in
     rbind (deriveKey Y kdfFn params (normalizePassword Y password) salt) (\<lambda>dk.
     rbind (cy_encipher Y (take 16 dk) iv secret) (\<lambda>cipherMsg.
     Inr \<lparr>ks_kdf = kdfFn, ks_params = params, ks_checksum = checksum Y dk cipherMsg, ks_iv = bytes_hex iv,
          ks_message = bytes_hex cipherMsg, ks_pubkey = eo_pubkey opts, ks_uuid = uuid, ks_version = 4,
          ks_description = eo_description opts\<rparr>)))"

text \<open>A value that is no object is \<open>None\<close>.\<close>

definition isKeystore :: "keystore option \<Rightarrow> bool" where
  "isKeystore obj = (case obj of None \<Rightarrow> False | Some ks \<Rightarrow> ks_version ks = 4 \<and> ks_message ks \<noteq> [])"

section \<open>Round trip\<close>

text \<open>AES-CTR keeps the length and is undone by deciphering with the same key and vector.\<close>

definition crypto_ok :: "crypto \<Rightarrow> bool" where
  "crypto_ok Y \<longleftrightarrow>
     (\<forall>k iv m c. cy_encipher Y k iv m = Inr c \<longrightarrow> length c = length m \<and> list_all (\<lambda>b. b < 256) c \<and> cy_decipher Y k iv c = Inr m)"

text \<open>Two passphrases that derive different keys with the same checksum: a collision of the hash, or of the bytes of the key it covers.\<close>

definition derived_key :: "crypto \<Rightarrow> keystore \<Rightarrow> string \<Rightarrow> nat list result" where
  "derived_key Y ks password = deriveKey Y (ks_kdf ks) (ks_params ks) (normalizePassword Y password) (buffer_hex (kp_salt (ks_params ks)))"

definition checksum_collision :: "crypto \<Rightarrow> keystore \<Rightarrow> string \<Rightarrow> string \<Rightarrow> bool" where
  "checksum_collision Y ks pw pw' \<longleftrightarrow> (case (derived_key Y ks pw, derived_key Y ks pw') of
     (Inr dk, Inr dk') \<Rightarrow> dk \<noteq> dk' \<and> checksum Y dk (buffer_hex (ks_message ks)) = checksum Y dk' (buffer_hex (ks_message ks)) | _ \<Rightarrow> False)"

lemma encrypted_decrypts:
  assumes "crypto_ok Y" "list_all (\<lambda>b. b < 256) salt" "list_all (\<lambda>b. b < 256) iv"
    and enc: "encryptKeystore Y salt iv uuid secret password opts = Inr ks"
  shows "isKeystore (Some ks) \<and> decryptKeystore Y ks password = Inr secret
    \<and> (case decryptKeystore Y ks password' of Inl _ \<Rightarrow> True | Inr key \<Rightarrow> key = secret \<or> checksum_collision Y ks password password')"
proof -
  let ?f = "case eo_kdf opts of None \<Rightarrow> Scrypt | Some f \<Rightarrow> f"
  let ?p = "\<lparr>kp_dklen = Some 32, kp_n = 262144, kp_r = 8, kp_p = 1, kp_c = 262144, kp_salt = bytes_hex salt\<rparr>"
  from enc obtain dk c where len: "length secret = 32" and dk: "deriveKey Y ?f ?p (normalizePassword Y password) salt = Inr dk"
    and c: "cy_encipher Y (take 16 dk) iv secret = Inr c"
    and ks: "ks = \<lparr>ks_kdf = ?f, ks_params = ?p, ks_checksum = checksum Y dk c, ks_iv = bytes_hex iv, ks_message = bytes_hex c,
        ks_pubkey = eo_pubkey opts, ks_uuid = uuid, ks_version = 4, ks_description = eo_description opts\<rparr>"
    unfolding encryptKeystore_def Let_def by (auto simp: guard_throw_def split: if_splits)
  have law: "length c = 32" "list_all (\<lambda>b. b < 256) c" "cy_decipher Y (take 16 dk) iv c = Inr secret"
  proof -
    have "length c = length secret \<and> list_all (\<lambda>b. b < 256) c \<and> cy_decipher Y (take 16 dk) iv c = Inr secret"
      using assms(1) c unfolding crypto_ok_def by blast
    then show "length c = 32" "list_all (\<lambda>b. b < 256) c" "cy_decipher Y (take 16 dk) iv c = Inr secret" using len by simp_all
  qed
  have hex: "buffer_hex (bytes_hex salt) = salt" "buffer_hex (bytes_hex iv) = iv" "buffer_hex (bytes_hex c) = c"
    using assms(2,3) law(2) by (auto intro!: buffer_hex_bytes simp: list_all_iff)
  have ne: "bytes_hex c \<noteq> []" using law(1) by (metis length_0_conv length_bytes_hex mult_eq_0_iff zero_neq_numeral)
  have run: "decryptKeystore Y ks pw = rbind (deriveKey Y ?f ?p (normalizePassword Y pw) salt) (\<lambda>k.
      rbind (guard_throw (checksum Y k c \<noteq> checksum Y dk c) WrongPassphrase) (\<lambda>_. cy_decipher Y (take 16 k) iv c))" for pw
    by (simp add: decryptKeystore_def ks hex Let_def)
  have derived: "derived_key Y ks pw = deriveKey Y ?f ?p (normalizePassword Y pw) salt" for pw by (simp add: derived_key_def ks hex)
  have sound: "key = secret \<or> checksum_collision Y ks password pw" if "decryptKeystore Y ks pw = Inr key" for pw key
  proof -
    from that [unfolded run] obtain k where k: "deriveKey Y ?f ?p (normalizePassword Y pw) salt = Inr k" "checksum Y k c = checksum Y dk c"
      "cy_decipher Y (take 16 k) iv c = Inr key" unfolding rbind_eq_Inr by (auto simp: guard_throw_def split: if_splits)
    have "checksum_collision Y ks password pw" if "k \<noteq> dk"
      using that k(2) by (simp add: checksum_collision_def derived dk k(1)) (simp add: ks hex)
    then show ?thesis using k(3) law(3) by (cases "k = dk") simp_all
  qed
  have "decryptKeystore Y ks password = Inr secret" unfolding run dk rbind_simps by (simp add: guard_throw_def law(3))
  moreover have "isKeystore (Some ks)" using ne by (simp add: isKeystore_def ks)
  moreover have "case decryptKeystore Y ks password' of Inl _ \<Rightarrow> True | Inr key \<Rightarrow> key = secret \<or> checksum_collision Y ks password password'"
    using sound by (cases "decryptKeystore Y ks password'") simp_all
  ultimately show ?thesis by blast
qed

text \<open>C34: keystore round trip, and never a garbage key. What encryption returns is recognised as a keystore and decrypts with the same passphrase to the
  secret; and whatever passphrase is tried, decryption throws or returns the secret, unless that passphrase derives another key with the very same checksum. Only the cipher is assumed to be
  invertible; nothing is assumed of the key derivation or the hash.\<close>

theorem keystore_roundtrip:
  assumes "crypto_ok Y" "list_all (\<lambda>b. b < 256) salt" "list_all (\<lambda>b. b < 256) iv"
    and enc: "encryptKeystore Y salt iv uuid secret password opts = Inr ks"
  shows "isKeystore (Some ks) \<and> decryptKeystore Y ks password = Inr secret
    \<and> (case decryptKeystore Y ks password' of Inl _ \<Rightarrow> True | Inr key \<Rightarrow> key = secret \<or> checksum_collision Y ks password password')"
  by (rule encrypted_decrypts [OF assms])

text \<open>A suite with this property: the key carries the whole passphrase and the cipher is the identity.\<close>

definition sample_crypto :: crypto where
  "sample_crypto = \<lparr>cy_nfkd = id, cy_utf8 = map of_char,
     cy_scrypt = (\<lambda>pw _ _ _ _ _. Inr (replicate 16 0 @ [to_nat pw])), cy_pbkdf2 = (\<lambda>pw _ _ _. Inr (replicate 16 0 @ [to_nat pw])),
     cy_sha256 = sample_hash, cy_encipher = (\<lambda>_ _ m. if list_all (\<lambda>b. b < 256) m then Inr m else Inl IoError),
     cy_decipher = (\<lambda>_ _ c. Inr c)\<rparr>"

lemma sample_crypto_ok: "crypto_ok sample_crypto"
  unfolding crypto_ok_def by (auto simp: sample_crypto_def deriveKey_def Let_def split: if_splits)

theorem keystore_roundtrip_witness:
  "\<exists>ks. encryptKeystore sample_crypto [1, 2] [3] ''id'' (replicate 32 7) ''pw'' \<lparr>eo_kdf = None, eo_pubkey = None, eo_description = None\<rparr> = Inr ks
    \<and> isKeystore (Some ks) \<and> decryptKeystore sample_crypto ks ''pw'' = Inr (replicate 32 7)"
proof -
  have "list_all (\<lambda>b. b < 256) (replicate 32 (7 :: nat))" by (simp add: list_all_iff)
  then obtain ks where ks: "encryptKeystore sample_crypto [1, 2] [3] ''id'' (replicate 32 7) ''pw'' \<lparr>eo_kdf = None, eo_pubkey = None, eo_description = None\<rparr> = Inr ks"
    by (auto simp: encryptKeystore_def sample_crypto_def deriveKey_def guard_throw_def Let_def)
  show ?thesis using keystore_roundtrip [OF sample_crypto_ok _ _ ks] ks by auto
qed

end
