(* ===== verification/Key_Consistency.thy ===== *)
theory Key_Consistency
  imports Cosign_Gate Keystore
begin

text \<open>
  \<^verbatim>\<open>src/modules/node/node-key-consistency.service.ts\<close>: the self-check that compares the node's signing key, its state file and the on-chain
  registration. Fields of the node state are strings or absent. The BLS library, the validator contract and \<^verbatim>\<open>keccak256\<close> are the parameter
  \<open>key_env\<close>; the signing key comes from \<open>resolveSigningPublicKey\<close>, the selection the co-signing path itself uses.

  The loop is split at its \<^verbatim>\<open>await\<close>: \<open>kc_attempts\<close> holds the attempts that wait for their reads, each with the identity and the generation it was
  started for, and \<open>kc_timer\<close> the armed timer; a completed attempt, a timer, \<^verbatim>\<open>start\<close>, \<^verbatim>\<open>stop\<close> and \<^verbatim>\<open>clearResult\<close> may come in any order.
  \<open>kc_identity\<close> is no field of the class; it records the node state of the last \<^verbatim>\<open>start\<close>, for the properties.
\<close>

section \<open>Data\<close>

record node_state =
  ns_nodeId :: "string option"
  ns_publicKey :: "string option"
  ns_privateKey :: "string option"
  ns_keystore :: "keystore option"
  ns_registeredAt :: "int option"

datatype key_status = StatusOk | MismatchLocal | MismatchOnchain | NotRegistered | StatusUnknown | SkippedNoPrivateKey | SkippedRemoteSigner

record key_result =
  kr_status :: key_status
  kr_checkedAt :: int
  kr_lastAttemptAt :: int
  kr_derivedMatches :: "bool option"
  kr_nodeId :: "string option"
  kr_checkerError :: "(error \<times> int) option"
  kr_fallbackOnly :: bool

record fresh_check =
  fc_status :: key_status
  fc_derivedMatches :: "bool option"
  fc_fallbackOnly :: bool

record key_env =
  ke_fromHex :: "string \<Rightarrow> g1_point result"
  ke_fromAffine :: "int \<Rightarrow> int \<Rightarrow> g1_point result"
  ke_is0 :: "g1_point \<Rightarrow> bool"
  ke_keccak :: "string \<Rightarrow> string result"
  ke_blockNumber :: "int result"
  ke_isRegistered :: "string \<Rightarrow> string option \<Rightarrow> int \<Rightarrow> bool result"
  ke_registeredKey :: "string \<Rightarrow> string option \<Rightarrow> int \<Rightarrow> string result"

section \<open>One comparison\<close>

text \<open>\<^verbatim>\<open>s.replace(/^0x/i, "")\<close>\<close>

definition drop_0x :: "string \<Rightarrow> string" where
  "drop_0x s = (if lower (take 2 s) = ''0x'' then drop 2 s else s)"

definition normalizeHex :: "string option \<Rightarrow> string" where
  "normalizeHex hex = (let s = (case hex of None \<Rightarrow> [] | Some s \<Rightarrow> s) in ''0x'' @ lower (drop_0x s))"

definition slice :: "nat \<Rightarrow> nat \<Rightarrow> string \<Rightarrow> string" where
  "slice from to s = drop from (take to s)"

definition finite_point :: "key_env \<Rightarrow> g1_point result \<Rightarrow> g1_point option" where
  "finite_point K r = (case r of Inl _ \<Rightarrow> None | Inr p \<Rightarrow> if ke_is0 K p then None else Some p)"

definition parsePublicKeyPoint :: "key_env \<Rightarrow> string option \<Rightarrow> g1_point option" where
  "parsePublicKeyPoint K publicKeyHex =
     (case publicKeyHex of None \<Rightarrow> None
      | Some s \<Rightarrow> if s = [] then None else
        let hex = lower (drop_0x s) in
        if length hex = 96 then finite_point K (ke_fromHex K hex)
        else if length hex = 256 then
          (if slice 0 32 hex \<noteq> replicate 32 CHR ''0'' \<or> slice 128 160 hex \<noteq> replicate 32 CHR ''0'' then None
           else finite_point K (rbind (js_BigInt (''0x'' @ slice 32 128 hex)) (\<lambda>x.
                rbind (js_BigInt (''0x'' @ slice 160 256 hex)) (\<lambda>y. ke_fromAffine K x y))))
        else None)"

definition toEip2537Hex :: "key_env \<Rightarrow> string option \<Rightarrow> string option" where
  "toEip2537Hex K publicKeyHex = map_option encodePublicKeyToEIP2537 (parsePublicKeyPoint K publicKeyHex)"

definition computeDerivedMatches :: "key_env \<Rightarrow> node_state \<Rightarrow> bool option result" where
  "computeDerivedMatches K ns =
     (if ns_nodeId ns = None \<or> ns_nodeId ns = Some [] then Inr None
      else case toEip2537Hex K (ns_publicKey ns) of None \<Rightarrow> Inr None
      | Some eip2537 \<Rightarrow> rbind (ke_keccak K eip2537) (\<lambda>derived. Inr (Some (normalizeHex (Some derived) = normalizeHex (ns_nodeId ns)))))"

datatype local_outcome = LocalOk | LocalMismatch | LocalNoKey | LocalRemote
datatype chain_outcome = ChainOk | ChainMismatch | ChainNotRegistered | ChainUnknown

text \<open>The key pair the signer selection reads.\<close>

definition state_pair :: "node_state \<Rightarrow> node_key_pair" where
  "state_pair ns = \<lparr>nk_nodeId = (case ns_nodeId ns of None \<Rightarrow> [] | Some i \<Rightarrow> i), nk_privateKey = ns_privateKey ns,
     nk_publicKey = (case ns_publicKey ns of None \<Rightarrow> [] | Some k \<Rightarrow> k)\<rparr>"

definition compare_key :: "key_env \<Rightarrow> string \<Rightarrow> string option \<Rightarrow> local_outcome" where
  "compare_key K derivedHex publicKey =
     (case parsePublicKeyPoint K publicKey of None \<Rightarrow> LocalMismatch
      | Some statePoint \<Rightarrow> if normalizeHex (Some derivedHex) = normalizeHex (Some (g1_hex statePoint)) then LocalOk else LocalMismatch)"

definition checkLocal :: "sign_config \<Rightarrow> ('b, 'p) sign_env \<Rightarrow> key_env \<Rightarrow> node_state \<Rightarrow> local_outcome \<times> bool" where
  "checkLocal cfg V K ns =
     (case resolveSigningPublicKey cfg V (state_pair ns) of
        Inl _ \<Rightarrow> (LocalMismatch, False)
      | Inr KeyNone \<Rightarrow> (LocalNoKey, False)
      | Inr KeyRemote \<Rightarrow> (LocalRemote, False)
      | Inr (KeyLocal k) \<Rightarrow> (compare_key K k (ns_publicKey ns), False)
      | Inr (KeyLocalFallback k) \<Rightarrow> (compare_key K k (ns_publicKey ns), True))"

definition checkOnchain :: "key_env \<Rightarrow> node_state \<Rightarrow> string \<Rightarrow> chain_outcome" where
  "checkOnchain K ns contractAddress =
     (case ke_blockNumber K of Inl _ \<Rightarrow> ChainUnknown
      | Inr blockTag \<Rightarrow> (case ke_isRegistered K contractAddress (ns_nodeId ns) blockTag of Inl _ \<Rightarrow> ChainUnknown
        | Inr isRegistered \<Rightarrow> if \<not> isRegistered then ChainNotRegistered
          else (case toEip2537Hex K (ns_publicKey ns) of None \<Rightarrow> ChainUnknown
          | Some localEip2537 \<Rightarrow> (case ke_registeredKey K contractAddress (ns_nodeId ns) blockTag of Inl _ \<Rightarrow> ChainUnknown
            | Inr onchainKey \<Rightarrow> if onchainKey = [] \<or> onchainKey = ''0x'' then ChainNotRegistered
              else if normalizeHex (Some onchainKey) = normalizeHex (Some localEip2537) then ChainOk else ChainMismatch))))"

definition combine :: "local_outcome \<Rightarrow> chain_outcome \<Rightarrow> key_status" where
  "combine loc chain =
     (if loc = LocalMismatch then MismatchLocal
      else if chain = ChainMismatch then MismatchOnchain
      else if chain = ChainNotRegistered then NotRegistered
      else if chain = ChainUnknown then StatusUnknown
      else if loc = LocalNoKey then SkippedNoPrivateKey
      else if loc = LocalRemote then SkippedRemoteSigner
      else StatusOk)"

definition computeFresh :: "sign_config \<Rightarrow> ('b, 'p) sign_env \<Rightarrow> key_env \<Rightarrow> node_state \<Rightarrow> string \<Rightarrow> fresh_check result" where
  "computeFresh cfg V K ns contractAddress =
     rbind (computeDerivedMatches K ns) (\<lambda>derivedMatches.
     case checkLocal cfg V K ns of (outcome, fallback) \<Rightarrow>
       Inr \<lparr>fc_status = combine outcome (checkOnchain K ns contractAddress), fc_derivedMatches = derivedMatches, fc_fallbackOnly = fallback\<rparr>)"

section \<open>The loop\<close>

definition UNKNOWN_BACKOFF_MS :: "int list" where "UNKNOWN_BACKOFF_MS = [30000, 60000, 120000, 240000]"
definition RECHECK_INTERVAL_MS :: int where "RECHECK_INTERVAL_MS = 15 * 60000"

record key_attempt =
  ka_state :: node_state
  ka_contract :: string
  ka_generation :: nat

record key_checker =
  kc_lastResult :: "key_result option"
  kc_consecutiveUnknown :: nat
  kc_timer :: "(key_attempt \<times> int) option"
  kc_stopped :: bool
  kc_generation :: nat
  kc_attempts :: "(key_attempt \<times> int) list"
  kc_identity :: "node_state option"

definition NodeKeyConsistencyService_new :: key_checker where
  "NodeKeyConsistencyService_new = \<lparr>kc_lastResult = None, kc_consecutiveUnknown = 0, kc_timer = None, kc_stopped = True, kc_generation = 0,
     kc_attempts = [], kc_identity = None\<rparr>"

definition kc_stop :: "key_checker \<Rightarrow> key_checker" where
  "kc_stop st = st\<lparr>kc_stopped := True, kc_generation := Suc (kc_generation st), kc_timer := None\<rparr>"

definition clearResult :: "key_checker \<Rightarrow> key_checker" where
  "clearResult st = st\<lparr>kc_lastResult := None, kc_consecutiveUnknown := 0\<rparr>"

text \<open>The loop up to its \<^verbatim>\<open>await\<close>: the attempt notes the time and waits.\<close>

definition begin_attempt :: "key_attempt \<Rightarrow> int \<Rightarrow> key_checker \<Rightarrow> key_checker" where
  "begin_attempt a now st = st\<lparr>kc_attempts := (a, now) # kc_attempts st\<rparr>"

definition kc_start :: "node_state \<Rightarrow> string \<Rightarrow> int \<Rightarrow> key_checker \<Rightarrow> key_checker" where
  "kc_start ns contractAddress now st =
     (let s1 = (kc_stop st)\<lparr>kc_lastResult := None, kc_consecutiveUnknown := 0\<rparr>;
          s2 = s1\<lparr>kc_generation := Suc (kc_generation s1), kc_stopped := False, kc_identity := Some ns\<rparr>
      in begin_attempt \<lparr>ka_state = ns, ka_contract = contractAddress, ka_generation = kc_generation s2\<rparr> now s2)"

definition isStaleOrStopped :: "nat \<Rightarrow> key_checker \<Rightarrow> bool" where
  "isStaleOrStopped myGeneration st \<longleftrightarrow> kc_stopped st \<or> myGeneration \<noteq> kc_generation st"

definition nextDelayMs :: "key_checker \<Rightarrow> int" where
  "nextDelayMs st =
     (if kc_consecutiveUnknown st > 0 \<and> kc_consecutiveUnknown st \<le> length UNKNOWN_BACKOFF_MS
      then UNKNOWN_BACKOFF_MS ! (kc_consecutiveUnknown st - 1) else RECHECK_INTERVAL_MS)"

definition fresh_result :: "node_state \<Rightarrow> int \<Rightarrow> fresh_check \<Rightarrow> key_result" where
  "fresh_result ns now fresh = \<lparr>kr_status = fc_status fresh, kr_checkedAt = now, kr_lastAttemptAt = now, kr_derivedMatches = fc_derivedMatches fresh,
     kr_nodeId = ns_nodeId ns, kr_checkerError = None, kr_fallbackOnly = fc_fallbackOnly fresh\<rparr>"

text \<open>The rest of \<^verbatim>\<open>check\<close> after the reads; without a token it always publishes.\<close>

definition kc_check :: "node_state \<Rightarrow> nat option \<Rightarrow> int \<Rightarrow> fresh_check \<Rightarrow> key_checker \<Rightarrow> key_checker" where
  "kc_check ns generationToken now fresh st =
     (if generationToken \<noteq> None \<and> generationToken \<noteq> Some (kc_generation st) then st
      else if fc_status fresh = StatusUnknown then
        let st1 = st\<lparr>kc_consecutiveUnknown := Suc (kc_consecutiveUnknown st)\<rparr> in
        (case kc_lastResult st of
           Some r \<Rightarrow> if kr_status r \<noteq> StatusUnknown then st1\<lparr>kc_lastResult := Some (r\<lparr>kr_lastAttemptAt := now, kr_checkerError := None\<rparr>)\<rparr>
                     else st1\<lparr>kc_lastResult := Some (fresh_result ns now fresh)\<rparr>
         | None \<Rightarrow> st1\<lparr>kc_lastResult := Some (fresh_result ns now fresh)\<rparr>)
      else st\<lparr>kc_consecutiveUnknown := 0, kc_lastResult := Some (fresh_result ns now fresh)\<rparr>)"

definition recordCheckerError :: "node_state \<Rightarrow> error \<Rightarrow> int \<Rightarrow> key_checker \<Rightarrow> key_checker" where
  "recordCheckerError ns e now st =
     (let base = (case kc_lastResult st of Some r \<Rightarrow> r
        | None \<Rightarrow> \<lparr>kr_status = StatusUnknown, kr_checkedAt = now, kr_lastAttemptAt = now, kr_derivedMatches = None, kr_nodeId = ns_nodeId ns,
            kr_checkerError = None, kr_fallbackOnly = False\<rparr>)
      in st\<lparr>kc_lastResult := Some (base\<lparr>kr_lastAttemptAt := now, kr_checkerError := Some (e, now)\<rparr>)\<rparr>)"

definition schedule :: "key_attempt \<Rightarrow> key_checker \<Rightarrow> key_checker" where
  "schedule a st = (if isStaleOrStopped (ka_generation a) st then st else st\<lparr>kc_timer := Some (a, nextDelayMs st)\<rparr>)"

text \<open>The rest of the loop when the reads of an attempt end at the time \<open>now\<close>, with a comparison or with an exception of the checker.\<close>

definition end_attempt :: "key_attempt \<Rightarrow> int \<Rightarrow> fresh_check result \<Rightarrow> int \<Rightarrow> key_checker \<Rightarrow> key_checker" where
  "end_attempt a began outcome now st =
     (let st0 = st\<lparr>kc_attempts := remove1 (a, began) (kc_attempts st)\<rparr> in
      case outcome of
        Inr fresh \<Rightarrow> schedule a (kc_check (ka_state a) (Some (ka_generation a)) began fresh st0)
      | Inl e \<Rightarrow> if isStaleOrStopped (ka_generation a) st0 then st0
          else schedule a (recordCheckerError (ka_state a) e now st0))"

datatype key_event =
    KStart node_state string int
  | KStop
  | KClear
  | KEnd key_attempt int "fresh_check result" int
  | KTimer int

fun kc_step :: "key_event \<Rightarrow> key_checker \<Rightarrow> key_checker" where
  "kc_step (KStart ns contract now) st = kc_start ns contract now st"
| "kc_step KStop st = kc_stop st"
| "kc_step KClear st = clearResult st"
| "kc_step (KEnd a began outcome now) st = (if (a, began) \<in> set (kc_attempts st) then end_attempt a began outcome now st else st)"
| "kc_step (KTimer now) st = (case kc_timer st of None \<Rightarrow> st | Some (a, _) \<Rightarrow> begin_attempt a now (st\<lparr>kc_timer := None\<rparr>))"

definition kc_run :: "key_event list \<Rightarrow> key_checker" where
  "kc_run evs = fold kc_step evs NodeKeyConsistencyService_new"

section \<open>The published result and the one loop\<close>

definition current :: "key_checker \<Rightarrow> (key_attempt \<times> int) list" where
  "current st = filter (\<lambda>(a, _). ka_generation a = kc_generation st) (kc_attempts st)"

definition own_attempt :: "key_checker \<Rightarrow> key_attempt \<Rightarrow> bool" where
  "own_attempt st a \<longleftrightarrow> ka_generation a = kc_generation st \<and> kc_identity st = Some (ka_state a)"

text \<open>While the loop runs it has either one attempt of the current identity under way or one timer armed for it, never both and never two;
  once stopped it has neither.\<close>

definition single_loop :: "key_checker \<Rightarrow> bool" where
  "single_loop st =
     (if kc_stopped st then current st = [] \<and> kc_timer st = None
      else case kc_timer st of None \<Rightarrow> (\<exists>a t. current st = [(a, t)] \<and> own_attempt st a)
        | Some (a, d) \<Rightarrow> current st = [] \<and> own_attempt st a \<and> 30000 \<le> d \<and> d \<le> 900000)"

definition result_is_own :: "key_checker \<Rightarrow> bool" where
  "result_is_own st = (case kc_lastResult st of None \<Rightarrow> True
     | Some r \<Rightarrow> (case kc_identity st of None \<Rightarrow> False | Some ns \<Rightarrow> kr_nodeId r = ns_nodeId ns))"

definition kc_inv :: "key_checker \<Rightarrow> bool" where
  "kc_inv st \<longleftrightarrow> single_loop st \<and> result_is_own st \<and> (\<forall>(a, t) \<in> set (kc_attempts st). ka_generation a \<le> kc_generation st)"

lemma no_newer: "\<forall>(a, t) \<in> set xs. ka_generation a \<le> g \<Longrightarrow> g < h \<Longrightarrow> filter (\<lambda>(a, _). ka_generation a = h) xs = []"
  by (auto simp: filter_empty_conv)

lemma inv_attempts: "kc_inv st \<Longrightarrow> kc_generation st < h \<Longrightarrow> filter (\<lambda>(a, _). ka_generation a = h) (kc_attempts st) = []"
  unfolding kc_inv_def by (elim conjE no_newer)

lemma inv_attempts_le: "kc_inv st \<Longrightarrow> kc_generation st \<le> h \<Longrightarrow> \<forall>(a, t) \<in> set (kc_attempts st). ka_generation a \<le> h"
  unfolding kc_inv_def by fastforce

lemma stop_inv:
  assumes "kc_inv st"
  shows "kc_inv (kc_stop st)"
proof -
  have "result_is_own (kc_stop st)" using assms by (simp add: kc_inv_def kc_stop_def result_is_own_def split: option.splits)
  then show ?thesis using inv_attempts [OF assms lessI] inv_attempts_le [OF assms, of "Suc (kc_generation st)"]
    by (simp add: kc_inv_def single_loop_def current_def kc_stop_def)
qed

lemma start_inv:
  assumes "kc_inv st"
  shows "kc_inv (kc_start ns contract now st)"
  using inv_attempts [OF assms, of "Suc (Suc (kc_generation st))"] inv_attempts_le [OF assms, of "Suc (Suc (kc_generation st))"]
  by (simp add: kc_inv_def kc_start_def kc_stop_def begin_attempt_def Let_def single_loop_def result_is_own_def current_def own_attempt_def)

lemma delay_bounds: "30000 \<le> nextDelayMs st \<and> nextDelayMs st \<le> 900000"
proof -
  have "30000 \<le> d \<and> d \<le> 900000" if "d \<in> set UNKNOWN_BACKOFF_MS" for d using that by (auto simp: UNKNOWN_BACKOFF_MS_def)
  then show ?thesis by (auto simp: nextDelayMs_def RECHECK_INTERVAL_MS_def)
qed

text \<open>The two ways an attempt publishes change only the result and the counter.\<close>

definition published :: "key_checker \<Rightarrow> key_checker \<Rightarrow> bool" where
  "published st st' \<longleftrightarrow> kc_timer st' = kc_timer st \<and> kc_stopped st' = kc_stopped st \<and> kc_generation st' = kc_generation st
     \<and> kc_attempts st' = kc_attempts st \<and> kc_identity st' = kc_identity st"

lemma check_publishes: "published st (kc_check ns token now fresh st)"
  by (auto simp: published_def kc_check_def Let_def split: option.splits)

lemma error_publishes: "published st (recordCheckerError ns e now st)"
  by (simp add: published_def recordCheckerError_def Let_def)

lemma check_own:
  assumes "result_is_own st" "token = Some (kc_generation st) \<longrightarrow> kc_identity st = Some ns" "token \<noteq> None"
  shows "result_is_own (kc_check ns token now fresh st)"
  using assms by (auto simp: result_is_own_def kc_check_def fresh_result_def Let_def split: option.splits)

lemma error_own: "result_is_own st \<Longrightarrow> kc_identity st = Some ns \<Longrightarrow> result_is_own (recordCheckerError ns e now st)"
  by (auto simp: result_is_own_def recordCheckerError_def Let_def split: option.splits)

lemma schedule_own: "result_is_own (schedule a st) = result_is_own st"
  by (simp add: schedule_def result_is_own_def split: option.split)

lemma current_remove1:
  "current (st\<lparr>kc_attempts := remove1 (a, t) (kc_attempts st)\<rparr>)
     = (if ka_generation a = kc_generation st then remove1 (a, t) (current st) else current st)"
proof -
  have "filter P (remove1 x xs) = (if P x then remove1 x (filter P xs) else filter P xs)" for P and x :: "key_attempt \<times> int" and xs
    by (induction xs) auto
  then show ?thesis by (simp add: current_def)
qed

lemma end_stale_inv:
  assumes "kc_inv st" "ka_generation a \<noteq> kc_generation st"
  shows "kc_inv (end_attempt a t outcome now st)"
proof -
  let ?s = "st\<lparr>kc_attempts := remove1 (a, t) (kc_attempts st)\<rparr>"
  have "end_attempt a t outcome now st = ?s"
    using assms(2) by (auto simp: end_attempt_def kc_check_def schedule_def isStaleOrStopped_def Let_def split: sum.split)
  moreover have "current ?s = current st" using assms(2) by (simp only: current_remove1 if_False)
  ultimately show ?thesis using assms(1) notin_set_remove1
    by (auto simp: kc_inv_def single_loop_def result_is_own_def own_attempt_def split: option.splits dest!: in_set_remove1 [THEN iffD1] set_remove1_subset [THEN subsetD])
qed

lemma publish_schedule_inv:
  assumes "kc_inv st" "published (st\<lparr>kc_attempts := remove1 (a, t) (kc_attempts st)\<rparr>) s" "result_is_own s"
    and "(a, t) \<in> set (kc_attempts st)" "ka_generation a = kc_generation st" "\<not> kc_stopped st"
  shows "kc_inv (schedule a s)"
proof -
  let ?s0 = "st\<lparr>kc_attempts := remove1 (a, t) (kc_attempts st)\<rparr>"
  have "(a, t) \<in> set (current st)" using assms(4,5) by (simp add: current_def)
  then have one: "current st = [(a, t)]" "own_attempt st a" using assms(1,6)
    by (auto simp: kc_inv_def single_loop_def split: option.splits)
  have "current s = []" using assms(2) one(1) assms(5) current_remove1 [where st = st and a = a and t = t] by (simp add: published_def current_def)
  moreover have "own_attempt s a" using one(2) assms(2) by (simp add: own_attempt_def published_def)
  moreover have "\<forall>(a, t) \<in> set (kc_attempts s). ka_generation a \<le> kc_generation s"
    using assms(1,2) set_remove1_subset [of "(a, t)" "kc_attempts st"] by (fastforce simp: kc_inv_def published_def)
  moreover have "schedule a s = s\<lparr>kc_timer := Some (a, nextDelayMs s)\<rparr>"
    using assms(2,5,6) by (simp add: schedule_def isStaleOrStopped_def published_def)
  moreover have "result_is_own (schedule a s)" using assms(3) by (simp add: schedule_own)
  moreover have "\<not> kc_stopped s" using assms(2,6) by (simp add: published_def)
  ultimately show ?thesis using delay_bounds [of s]
    by (simp add: kc_inv_def single_loop_def current_def own_attempt_def)
qed

lemma end_inv:
  assumes "kc_inv st" "(a, t) \<in> set (kc_attempts st)"
  shows "kc_inv (end_attempt a t outcome now st)"
proof (cases "ka_generation a = kc_generation st")
  case False
  then show ?thesis by (rule end_stale_inv [OF assms(1)])
next
  case True
  let ?s0 = "st\<lparr>kc_attempts := remove1 (a, t) (kc_attempts st)\<rparr>"
  have cur: "(a, t) \<in> set (current st)" using assms(2) True by (simp add: current_def)
  have on: "\<not> kc_stopped st" using assms(1) cur by (auto simp: kc_inv_def single_loop_def)
  have own: "kc_identity st = Some (ka_state a)" using assms(1) cur on
    by (auto simp: kc_inv_def single_loop_def own_attempt_def split: option.splits)
  have res: "result_is_own ?s0" using assms(1) by (simp add: kc_inv_def result_is_own_def split: option.splits)
  show ?thesis
  proof (cases outcome)
    case (Inr fresh)
    have "result_is_own (kc_check (ka_state a) (Some (ka_generation a)) t fresh ?s0)" using res own by (intro check_own) simp_all
    from publish_schedule_inv [OF assms(1) check_publishes this assms(2) True on] show ?thesis by (simp add: end_attempt_def Inr Let_def)
  next
    case (Inl e)
    have "result_is_own (recordCheckerError (ka_state a) e now ?s0)" using res own by (intro error_own) simp_all
    from publish_schedule_inv [OF assms(1) error_publishes this assms(2) True on] show ?thesis
      using True on by (simp add: end_attempt_def Inl Let_def isStaleOrStopped_def)
  qed
qed

lemma step_kc_inv:
  assumes "kc_inv st"
  shows "kc_inv (kc_step ev st)"
proof (cases ev)
  case KClear
  then show ?thesis using assms by (auto simp: kc_inv_def clearResult_def single_loop_def result_is_own_def current_def own_attempt_def split: option.splits)
next
  case (KTimer now)
  show ?thesis
  proof (cases "kc_timer st")
    case (Some p)
    then obtain a d where p: "kc_timer st = Some (a, d)" by (cases p) simp
    then have "\<not> kc_stopped st" "current st = []" "own_attempt st a" using assms by (auto simp: kc_inv_def single_loop_def split: if_splits)
    then show ?thesis using assms p KTimer
      by (simp add: kc_inv_def single_loop_def current_def own_attempt_def begin_attempt_def result_is_own_def split: option.splits)
  qed (use assms KTimer in simp)
next
  case (KEnd a t outcome now)
  then show ?thesis using assms end_inv by simp
qed (use assms start_inv stop_inv in simp_all)

lemma run_kc_inv: "kc_inv st \<Longrightarrow> kc_inv (fold kc_step evs st)"
  by (induction evs arbitrary: st) (simp_all add: step_kc_inv)

text \<open>C18: one loop, one identity. In every interleaving of starts, stops, clears, timers and attempts that end late or throw, the published result names
  the node identity of the last start, so an attempt for a replaced node never shows under the new one; and the running checker has exactly one
  attempt under way or one timer armed, between 30 seconds and 15 minutes, for that identity, while a stopped one has neither.\<close>

theorem checker_runs_one_loop_for_one_identity:
  "result_is_own (kc_run evs) \<and> single_loop (kc_run evs)"
proof -
  have "kc_inv NodeKeyConsistencyService_new"
    by (simp add: kc_inv_def NodeKeyConsistencyService_new_def single_loop_def result_is_own_def current_def)
  from run_kc_inv [OF this] show ?thesis by (simp add: kc_run_def kc_inv_def)
qed

section \<open>A conclusion survives failed reads\<close>

definition inconclusive :: "key_event \<Rightarrow> bool" where
  "inconclusive ev = (case ev of KStart _ _ _ \<Rightarrow> False | KClear \<Rightarrow> False
     | KEnd _ _ (Inr fresh) _ \<Rightarrow> fc_status fresh = StatusUnknown | _ \<Rightarrow> True)"

definition same_conclusion :: "key_result \<Rightarrow> key_checker \<Rightarrow> bool" where
  "same_conclusion r st = (case kc_lastResult st of None \<Rightarrow> False
     | Some r' \<Rightarrow> kr_status r' = kr_status r \<and> kr_checkedAt r' = kr_checkedAt r \<and> kr_derivedMatches r' = kr_derivedMatches r
         \<and> kr_nodeId r' = kr_nodeId r \<and> kr_fallbackOnly r' = kr_fallbackOnly r)"

lemma check_keeps:
  "same_conclusion r st \<Longrightarrow> kr_status r \<noteq> StatusUnknown \<Longrightarrow> fc_status fresh = StatusUnknown \<Longrightarrow> same_conclusion r (kc_check ns token now fresh st)"
  by (auto simp: same_conclusion_def kc_check_def Let_def split: option.splits)

lemma error_keeps: "same_conclusion r st \<Longrightarrow> same_conclusion r (recordCheckerError ns e now st)"
  by (auto simp: same_conclusion_def recordCheckerError_def Let_def split: option.splits)

lemma schedule_keeps: "same_conclusion r (schedule a st) = same_conclusion r st"
  by (simp add: same_conclusion_def schedule_def split: option.split)

lemma step_keeps:
  assumes "same_conclusion r st" "kr_status r \<noteq> StatusUnknown" "inconclusive ev"
  shows "same_conclusion r (kc_step ev st)"
proof (cases ev)
  case (KEnd a t outcome now)
  have "same_conclusion r (st\<lparr>kc_attempts := remove1 (a, t) (kc_attempts st)\<rparr>)" using assms(1) by (simp add: same_conclusion_def split: option.splits)
  note keep = check_keeps [OF this assms(2)] error_keeps [OF this] this
  show ?thesis using assms(1,3) keep KEnd
    by (cases outcome) (auto simp: inconclusive_def end_attempt_def schedule_keeps Let_def)
qed (use assms in \<open>auto simp: inconclusive_def same_conclusion_def kc_stop_def begin_attempt_def split: option.splits\<close>)

text \<open>A failed read never launders a finding. From the moment a conclusion is published, and until the checker is started again or cleared, any sequence of
  attempts that read unknown or throw, timers and stops leaves status, time, identity and scope of the published result exactly as they were.\<close>

theorem conclusion_survives_failed_reads:
  assumes "kc_lastResult st = Some r" "kr_status r \<noteq> StatusUnknown" "list_all inconclusive evs"
  shows "same_conclusion r (fold kc_step evs st)"
proof -
  have "same_conclusion r st" using assms(1) by (simp add: same_conclusion_def)
  then show ?thesis using assms(2,3) by (induction evs arbitrary: st) (simp_all add: step_keeps)
qed

section \<open>What ok means\<close>

text \<open>The node signs in process: its signer has the key the self-check compares.\<close>

lemma local_signature_key:
  assumes "getRustSignerConfig cfg = None" "rbind (forNode cfg node) (sv_getPublicKey V) = Inr k" "bls_signDerivedHash cfg V h node st = (Inr res, st')"
  shows "sr_publicKey res = k"
  using assms by (auto simp: bls_signDerivedHash_def signViaNode_def sbind_def split: sum.splits prod.splits)

lemma resolve_local:
  assumes "resolveSigningPublicKey cfg V node = Inr (KeyLocal k)"
  shows "getRustSignerConfig cfg = None \<and> rbind (forNode cfg node) (sv_getPublicKey V) = Inr k"
  using assms unfolding resolveSigningPublicKey_def Let_def by (auto split: option.splits if_splits)

lemma compare_ok: "compare_key K k pk = LocalOk \<Longrightarrow> \<exists>p. parsePublicKeyPoint K pk = Some p \<and> normalizeHex (Some k) = normalizeHex (Some (g1_hex p))"
  by (auto simp: compare_key_def split: option.splits if_splits)

lemma onchain_ok:
  assumes "checkOnchain K ns contract = ChainOk" "parsePublicKeyPoint K (ns_publicKey ns) = Some p"
  shows "\<exists>block key. ke_isRegistered K contract (ns_nodeId ns) block = Inr True \<and> ke_registeredKey K contract (ns_nodeId ns) block = Inr key
    \<and> normalizeHex (Some key) = normalizeHex (Some (encodePublicKeyToEIP2537 p))"
  using assms unfolding checkOnchain_def toEip2537Hex_def by (auto split: sum.splits if_splits)

lemma combine_ok: "combine loc chain = StatusOk \<longleftrightarrow> loc = LocalOk \<and> chain = ChainOk"
  by (cases loc; cases chain) (simp_all add: combine_def)

text \<open>C26: ok means that signatures verify. When a comparison ends with ok and no restriction to the fallback key, the public key in the state file parses to a finite point, the
  contract has that very point registered for the node, read with the registration flag at one block, and every signature the co-signing path then produces carries that
  point's key.\<close>

theorem ok_means_signatures_match_registration:
  assumes "computeFresh cfg V K ns contract = Inr fresh" "fc_status fresh = StatusOk" "\<not> fc_fallbackOnly fresh"
    and "bls_signDerivedHash cfg V h (state_pair ns) st = (Inr res, st')"
  shows "\<exists>p block key. parsePublicKeyPoint K (ns_publicKey ns) = Some p \<and> \<not> ke_is0 K p
    \<and> ke_isRegistered K contract (ns_nodeId ns) block = Inr True \<and> ke_registeredKey K contract (ns_nodeId ns) block = Inr key
    \<and> normalizeHex (Some key) = normalizeHex (Some (encodePublicKeyToEIP2537 p))
    \<and> normalizeHex (Some (sr_publicKey res)) = normalizeHex (Some (g1_hex p))"
proof -
  obtain loc where loc: "checkLocal cfg V K ns = (loc, False)" "combine loc (checkOnchain K ns contract) = StatusOk"
    using assms(1-3) by (cases "checkLocal cfg V K ns") (auto simp: computeFresh_def)
  then have ok: "loc = LocalOk" "checkOnchain K ns contract = ChainOk" by (simp_all add: combine_ok)
  obtain k where k: "resolveSigningPublicKey cfg V (state_pair ns) = Inr (KeyLocal k)" "compare_key K k (ns_publicKey ns) = LocalOk"
    using loc(1) ok(1) by (auto simp: checkLocal_def split: sum.splits signing_key.splits)
  from compare_ok [OF k(2)] obtain p where p: "parsePublicKeyPoint K (ns_publicKey ns) = Some p" "normalizeHex (Some k) = normalizeHex (Some (g1_hex p))" by blast
  have "\<not> ke_is0 K p" using p(1) by (auto simp: parsePublicKeyPoint_def finite_point_def Let_def split: option.splits if_splits sum.splits)
  moreover have "sr_publicKey res = k" using local_signature_key resolve_local [OF k(1)] assms(4) by blast
  ultimately show ?thesis using onchain_ok [OF ok(2) p(1)] p by auto
qed

section \<open>The uncompressed key format\<close>

lemma lower_bytes_hex: "\<forall>b \<in> set bs. b < 256 \<Longrightarrow> lower (bytes_hex bs) = bytes_hex bs"
proof -
  have "\<forall>n < 16. lower_char (hex_char n) = hex_char n" by code_simp
  then show "\<forall>b \<in> set bs. b < 256 \<Longrightarrow> ?thesis"
    by (induction bs) (auto simp: bytes_hex_def lower_def less_mult_imp_div_less)
qed

lemma bytes_hex_append: "bytes_hex (xs @ ys) = bytes_hex xs @ bytes_hex ys"
  by (simp add: bytes_hex_def)

lemma bytes_hex_zeros: "bytes_hex (replicate n 0) = replicate (2 * n) CHR ''0''"
  by (induction n) (simp_all add: bytes_hex_def hex_char_def)

lemma parse_bytes_hex: "\<forall>b \<in> set bs. b < 256 \<Longrightarrow> parse_acc hex_val 16 acc (bytes_hex bs) = Some (foldl (\<lambda>a b. a * 256 + b) acc bs)"
proof (induction bs arbitrary: acc)
  case (Cons b bs)
  have "(acc * 16 + b div 16) * 16 + b mod 16 = acc * 256 + b" by simp
  moreover have "parse_acc hex_val 16 acc (bytes_hex (b # bs)) = parse_acc hex_val 16 ((acc * 16 + b div 16) * 16 + b mod 16) (bytes_hex bs)"
    using Cons.prems by (simp add: bytes_hex_def less_mult_imp_div_less)
  ultimately show ?case using Cons by (simp only: list.set foldl_Cons) simp
qed (simp add: bytes_hex_def)

lemma BigInt_bytes:
  assumes "n < 256 ^ k" "0 < k"
  shows "js_BigInt (''0x'' @ bytes_hex (be_bytes k n)) = Inr (int n)"
proof -
  let ?h = "bytes_hex (be_bytes k n)"
  have range: "\<forall>b \<in> set (be_bytes k n). b < 256" using be_bytes_range by blast
  have ne: "?h \<noteq> []" using assms(2) by (metis length_0_conv length_be_bytes length_bytes_hex mult_eq_0_iff not_less0 zero_neq_numeral)
  have "\<not> is_ws c" if "hex_val c \<noteq> None" for c using that by (auto simp: is_ws_def hex_val_def Let_def split: if_splits)
  then have "trim (''0x'' @ ?h) = ''0x'' @ ?h" using bytes_hex_digits [OF range] by (intro trim_no_ws) (auto simp: list_all_iff is_ws_def)
  moreover have "parse_nat hex_val 16 ?h = Some n" using ne parse_bytes_hex [OF range, of 0] be_value_bytes [OF assms(1)]
    by (simp add: parse_nat_def be_value_def)
  ultimately show ?thesis by (simp add: js_BigInt_def Let_def of_option_def)
qed

lemma parse_encoded:
  assumes "g1_valid p" "ke_fromAffine K (int (g1_x p)) (int (g1_y p)) = Inr p" "\<not> ke_is0 K p"
  shows "parsePublicKeyPoint K (Some (encodePublicKeyToEIP2537 p)) = Some p"
proof -
  let ?x = "bytes_hex (be_bytes 48 (g1_x p))" and ?y = "bytes_hex (be_bytes 48 (g1_y p))" and ?z = "replicate 32 CHR ''0''"
  have xy: "g1_x p < 256 ^ 48" "g1_y p < 256 ^ 48" using assms(1) field_element by (auto simp: g1_valid_def)
  have hex: "bytes_hex (encodeG1Point p) = ?z @ ?x @ ?z @ ?y"
    unfolding encodeG1_layout [OF assms(1)] bytes_hex_append bytes_hex_zeros by simp
  have low: "lower (drop_0x (encodePublicKeyToEIP2537 p)) = ?z @ ?x @ ?z @ ?y"
    using lower_bytes_hex [OF encodeG1_bytes [OF assms(1)]] hex by (simp add: drop_0x_def encodePublicKeyToEIP2537_def lower_def lower_char_def)
  have len: "length ?x = 96" "length ?y = 96" by simp_all
  have slices: "slice 0 32 (?z @ ?x @ ?z @ ?y) = ?z" "slice 32 128 (?z @ ?x @ ?z @ ?y) = ?x" "slice 128 160 (?z @ ?x @ ?z @ ?y) = ?z"
    "slice 160 256 (?z @ ?x @ ?z @ ?y) = ?y"
    unfolding slice_def by (simp_all add: len)
  have "parsePublicKeyPoint K (Some (encodePublicKeyToEIP2537 p)) = finite_point K (ke_fromAffine K (int (g1_x p)) (int (g1_y p)))"
  proof -
    have "encodePublicKeyToEIP2537 p \<noteq> []" by (simp add: encodePublicKeyToEIP2537_def)
    then show ?thesis unfolding parsePublicKeyPoint_def Let_def low slices option.case
      using BigInt_bytes [OF xy(1)] BigInt_bytes [OF xy(2)] by simp
  qed
  then show ?thesis using assms(2,3) by (simp add: finite_point_def)
qed

text \<open>a stored uncompressed key is recognised. The 128-byte text the encoder writes for a point is parsed back to that point, and normalising it for the comparison with the
  contract gives the same text again.\<close>

theorem uncompressed_key_roundtrip:
  assumes "g1_valid p" "ke_fromAffine K (int (g1_x p)) (int (g1_y p)) = Inr p" "\<not> ke_is0 K p"
  shows "parsePublicKeyPoint K (Some (encodePublicKeyToEIP2537 p)) = Some p
    \<and> toEip2537Hex K (Some (encodePublicKeyToEIP2537 p)) = Some (encodePublicKeyToEIP2537 p)"
  using parse_encoded [OF assms] by (simp add: toEip2537Hex_def)

section \<open>Examples\<close>

definition demo_point :: g1_point where "demo_point = \<lparr>g1_x = 1, g1_y = 2, g1_hex = ''bb''\<rparr>"

definition demo_key_env :: key_env where
  "demo_key_env = \<lparr>ke_fromHex = (\<lambda>_. Inr demo_point), ke_fromAffine = (\<lambda>_ _. Inr demo_point), ke_is0 = (\<lambda>_. False), ke_keccak = (\<lambda>_. Inr ''0x01''),
     ke_blockNumber = Inr 7, ke_isRegistered = (\<lambda>_ _ _. Inr True), ke_registeredKey = (\<lambda>_ _ _. Inr (encodePublicKeyToEIP2537 demo_point))\<rparr>"

definition demo_node_state :: node_state where
  "demo_node_state = \<lparr>ns_nodeId = Some ''0x01'', ns_publicKey = Some (encodePublicKeyToEIP2537 demo_point),
     ns_privateKey = Some (replicate 64 CHR ''1''), ns_keystore = None, ns_registeredAt = None\<rparr>"

theorem uncompressed_key_roundtrip_witness:
  "parsePublicKeyPoint demo_key_env (Some (encodePublicKeyToEIP2537 demo_point)) = Some demo_point
    \<and> toEip2537Hex demo_key_env (Some (encodePublicKeyToEIP2537 demo_point)) = Some (encodePublicKeyToEIP2537 demo_point)"
  by (rule uncompressed_key_roundtrip) (simp_all add: g1_valid_def demo_point_def demo_key_env_def)

theorem conclusion_survives_failed_reads_witness:
  "let r = \<lparr>kr_status = MismatchOnchain, kr_checkedAt = 5, kr_lastAttemptAt = 5, kr_derivedMatches = None, kr_nodeId = Some ''0x01'', kr_checkerError = None,
       kr_fallbackOnly = False\<rparr>;
       st = (kc_start demo_node_state ''0xv'' 9 NodeKeyConsistencyService_new)\<lparr>kc_lastResult := Some r\<rparr>;
       a = \<lparr>ka_state = demo_node_state, ka_contract = ''0xv'', ka_generation = 2\<rparr>
   in same_conclusion r (fold kc_step [KEnd a 9 (Inr \<lparr>fc_status = StatusUnknown, fc_derivedMatches = None, fc_fallbackOnly = False\<rparr>) 10, KTimer 20,
        KEnd a 20 (Inl IoError) 21, KStop] st)"
  unfolding Let_def by (rule conclusion_survives_failed_reads) (simp_all add: inconclusive_def)

lemma demo_parse: "parsePublicKeyPoint demo_key_env (ns_publicKey demo_node_state) = Some demo_point"
  using parse_encoded [of demo_point demo_key_env] by (simp add: demo_node_state_def g1_valid_def demo_point_def demo_key_env_def)

lemma demo_eip2537: "toEip2537Hex demo_key_env (ns_publicKey demo_node_state) = Some (encodePublicKeyToEIP2537 demo_point)"
  by (simp add: toEip2537Hex_def demo_parse)

lemma demo_chain: "ke_blockNumber demo_key_env = Inr 7" "ke_isRegistered demo_key_env c n b = Inr True"
  "ke_registeredKey demo_key_env c n b = Inr (encodePublicKeyToEIP2537 demo_point)" "ke_keccak demo_key_env k = Inr ''0x01''"
  by (simp_all add: demo_key_env_def)

lemma demo_signs: "\<exists>res st'. bls_signDerivedHash demo_sign_config (demo_sign_env 0) ''0xaa'' (state_pair demo_node_state) demo_cosign_node = (Inr res, st')"
proof -
  obtain sk where "LocalKeySigner (Some (replicate 64 CHR ''1'')) = Inr sk" using demo_sign_local by (auto simp: is_ok_iff)
  then show ?thesis
    by (simp add: bls_signDerivedHash_def getRustSignerConfig_def signViaNode_def forNode_def demo_sign_config_def demo_sign_env_def
        sbind_def hand_to_signer_def state_pair_def demo_node_state_def)
qed

lemma demo_fresh:
  "computeFresh demo_sign_config (demo_sign_env 0) demo_key_env demo_node_state ''0xv''
     = Inr \<lparr>fc_status = StatusOk, fc_derivedMatches = Some True, fc_fallbackOnly = False\<rparr>"
proof -
  obtain sk where sk: "LocalKeySigner (Some (replicate 64 CHR ''1'')) = Inr sk" using demo_sign_local by (auto simp: is_ok_iff)
  have "replicate 64 CHR ''1'' \<noteq> []" by simp
  then have "resolveSigningPublicKey demo_sign_config (demo_sign_env 0) (state_pair demo_node_state) = Inr (KeyLocal ''0xbb'')"
    using sk by (simp add: resolveSigningPublicKey_def getRustSignerConfig_def forNode_def demo_sign_config_def demo_sign_env_def state_pair_def
        demo_node_state_def Let_def)
  then have "checkLocal demo_sign_config (demo_sign_env 0) demo_key_env demo_node_state = (LocalOk, False)"
    by (simp add: checkLocal_def compare_key_def demo_parse demo_point_def normalizeHex_def drop_0x_def lower_def lower_char_def)
  moreover have "length (encodePublicKeyToEIP2537 demo_point) = 258"
    using encodeG1_layout [of demo_point] by (simp add: encodePublicKeyToEIP2537_def g1_valid_def demo_point_def)
  then have "encodePublicKeyToEIP2537 demo_point \<noteq> []" "encodePublicKeyToEIP2537 demo_point \<noteq> ''0x''"
    by (cases "encodePublicKeyToEIP2537 demo_point"; force)+
  then have "checkOnchain demo_key_env demo_node_state ''0xv'' = ChainOk"
    by (simp add: checkOnchain_def demo_eip2537 demo_chain)
  moreover have "computeDerivedMatches demo_key_env demo_node_state = Inr (Some True)"
    unfolding computeDerivedMatches_def demo_eip2537 by (simp add: demo_chain) (simp add: demo_node_state_def)
  ultimately show ?thesis by (simp add: computeFresh_def combine_def)
qed

theorem ok_means_signatures_match_registration_witness:
  "\<exists>res st' p block key. bls_signDerivedHash demo_sign_config (demo_sign_env 0) ''0xaa'' (state_pair demo_node_state) demo_cosign_node = (Inr res, st')
    \<and> parsePublicKeyPoint demo_key_env (ns_publicKey demo_node_state) = Some p
    \<and> ke_registeredKey demo_key_env ''0xv'' (ns_nodeId demo_node_state) block = Inr key
    \<and> normalizeHex (Some key) = normalizeHex (Some (encodePublicKeyToEIP2537 p))
    \<and> normalizeHex (Some (sr_publicKey res)) = normalizeHex (Some (g1_hex p))"
proof -
  obtain res st' where s: "bls_signDerivedHash demo_sign_config (demo_sign_env 0) ''0xaa'' (state_pair demo_node_state) demo_cosign_node = (Inr res, st')"
    using demo_signs by blast
  show ?thesis using ok_means_signatures_match_registration [OF demo_fresh _ _ s] s by auto
qed

end
