(* ===== verification/Node_Service.thy ===== *)
theory Node_Service
  imports Key_Consistency
begin

text \<open>
  \<^verbatim>\<open>src/modules/node/node.service.ts\<close> and the operations of \<^verbatim>\<open>src/modules/dashboard/dashboard.service.ts\<close> that change the node: create, import and delete.

  \<open>node_file\<close> is \<^verbatim>\<open>node_state.json\<close>: missing, unreadable, or a node state; names and dates other than the time of registration are left out. A write of the
  file may fail before or after it was truncated (\<open>write_outcome\<close>). The contract, the BLS library and the random bytes are the parameter \<open>node_env\<close>;
  \<open>nv_registered\<close> logs the registrations the node asks for. \<^verbatim>\<open>createNode\<close> and \<^verbatim>\<open>deleteCurrentNode\<close> are split at the \<^verbatim>\<open>await\<close> between their check and their effect.
\<close>

section \<open>Data\<close>

datatype node_file = NoFile | BadFile | NodeFile node_state

datatype write_outcome = Written | NotWritten | Torn

record node_config =
  nf_sign :: sign_config
  nf_passphrase :: "string option"
  nf_contract :: string
  nf_crypto :: crypto

record node_service =
  nv_state :: "node_state option"
  nv_file :: node_file
  nv_checker :: key_checker
  nv_registered :: "(string option \<times> string) list"

record node_env =
  ne_now :: int
  ne_configured :: bool
  ne_isRegistered :: "string \<Rightarrow> string option \<Rightarrow> bool result"
  ne_getPublicKey :: "nat list \<Rightarrow> g1_point result"
  ne_fromHex :: "string \<Rightarrow> g1_point result"
  ne_register :: "string \<Rightarrow> string option \<Rightarrow> string \<Rightarrow> string result"
  ne_write :: write_outcome
  ne_randomId :: "nat list"
  ne_randomKey :: "nat list"

section \<open>Node service\<close>

definition empty_text :: "string option \<Rightarrow> bool" where
  "empty_text s \<longleftrightarrow> s = None \<or> s = Some []"

definition resolvePrivateKey :: "node_config \<Rightarrow> node_state \<Rightarrow> node_state result" where
  "resolvePrivateKey cfg state =
     (if isKeystore (ns_keystore state) then
        (if empty_text (nf_passphrase cfg) then Inl MissingPassphrase
         else rbind (decryptKeystore (nf_crypto cfg) (the (ns_keystore state)) (the (nf_passphrase cfg))) (\<lambda>secret.
              Inr (state\<lparr>ns_privateKey := Some (''0x'' @ bytes_hex secret)\<rparr>)))
      else if empty_text (ns_privateKey state) then
        (let delegatedAndRequired = (\<not> empty_text (sc_rustSignerUrl (nf_sign cfg)) \<and> sc_rustSignerRequired (nf_sign cfg) = Some True) in
         if \<not> delegatedAndRequired then Inl MissingKey
         else if empty_text (ns_publicKey state) then Inl MissingKey
         else Inr state)
      else Inr state)"

definition loadExistingNodeState :: "node_config \<Rightarrow> (node_service, unit) io" where
  "loadExistingNodeState cfg st =
     (case nv_file st of
        NodeFile state \<Rightarrow> (case resolvePrivateKey cfg state of Inl e \<Rightarrow> (Inl e, st) | Inr s \<Rightarrow> (Inr (), st\<lparr>nv_state := Some s\<rparr>))
      | _ \<Rightarrow> (Inl IoError, st))"

definition runKeyConsistencyCheck :: "node_config \<Rightarrow> int \<Rightarrow> node_service \<Rightarrow> node_service" where
  "runKeyConsistencyCheck cfg now st =
     (case nv_state st of None \<Rightarrow> st | Some ns \<Rightarrow> st\<lparr>nv_checker := kc_start ns (nf_contract cfg) now (nv_checker st)\<rparr>)"

definition initializeNode :: "node_config \<Rightarrow> int \<Rightarrow> (node_service, unit) io" where
  "initializeNode cfg now st =
     (if nv_file st = NoFile then (Inr (), st\<lparr>nv_state := None\<rparr>)
      else sbind (loadExistingNodeState cfg) (\<lambda>_. smodify (runKeyConsistencyCheck cfg now)) st)"

definition reloadNodeState :: "node_config \<Rightarrow> int \<Rightarrow> (node_service, unit) io" where
  "reloadNodeState cfg now st =
     (if nv_file st = NoFile
      then (Inr (), st\<lparr>nv_state := None, nv_checker := clearResult (kc_stop (nv_checker st))\<rparr>)
      else sbind (loadExistingNodeState cfg) (\<lambda>_. smodify (runKeyConsistencyCheck cfg now)) st)"

definition write_file :: "write_outcome \<Rightarrow> node_file \<Rightarrow> (node_service, unit) io" where
  "write_file w content st =
     (case w of Written \<Rightarrow> (Inr (), st\<lparr>nv_file := content\<rparr>) | NotWritten \<Rightarrow> (Inl IoError, st) | Torn \<Rightarrow> (Inl IoError, st\<lparr>nv_file := BadFile\<rparr>))"

text \<open>Without a node state the text \<^verbatim>\<open>null\<close> is written, which does not load.\<close>

definition saveNodeState :: "write_outcome \<Rightarrow> (node_service, unit) io" where
  "saveNodeState w st =
     (let toWrite = (case nv_state st of None \<Rightarrow> BadFile
            | Some ns \<Rightarrow> NodeFile (if isKeystore (ns_keystore ns) then ns\<lparr>ns_privateKey := None\<rparr> else ns))
      in write_file w toWrite st)"

definition getCurrentNode :: "node_service \<Rightarrow> node_state result" where
  "getCurrentNode st = of_option NodeNotInitialized (nv_state st)"

definition node_getNodeForSigning :: "node_service \<Rightarrow> node_key_pair result" where
  "node_getNodeForSigning st = rbind (getCurrentNode st) (\<lambda>ns. Inr (state_pair ns))"

definition getKeyConsistency :: "node_service \<Rightarrow> key_result option" where
  "getKeyConsistency st = kc_lastResult (nv_checker st)"

text \<open>The public key to register: derived from the private key, or the stored one when the key lives in the remote signer.\<close>

definition registration_key :: "node_env \<Rightarrow> node_state \<Rightarrow> g1_point result" where
  "registration_key N ns =
     (if \<not> empty_text (ns_privateKey ns) then ne_getPublicKey N (hexToBytes (drop 2 (the (ns_privateKey ns))))
      else if empty_text (ns_publicKey ns) then Inl MissingKey
      else ne_fromHex N (strip_0x (the (ns_publicKey ns))))"

definition mark_registered :: "int \<Rightarrow> node_service \<Rightarrow> node_service" where
  "mark_registered now st = st\<lparr>nv_state := map_option (\<lambda>ns. ns\<lparr>ns_registeredAt := Some now\<rparr>) (nv_state st)\<rparr>"

definition register_body :: "node_config \<Rightarrow> node_env \<Rightarrow> node_state \<Rightarrow> (node_service, string option) io" where
  "register_body cfg N ns =
     sbind (slift (ne_isRegistered N (nf_contract cfg) (ns_nodeId ns))) (\<lambda>isRegistered.
     if isRegistered then
       sbind (smodify (mark_registered (ne_now N))) (\<lambda>_. sbind (saveNodeState (ne_write N)) (\<lambda>_. sret None))
     else
       sbind (slift (registration_key N ns)) (\<lambda>point.
       let key = encodePublicKeyToEIP2537 point in
       sbind (smodify (\<lambda>st. st\<lparr>nv_registered := (ns_nodeId ns, key) # nv_registered st\<rparr>)) (\<lambda>_.
       sbind (slift (ne_register N (nf_contract cfg) (ns_nodeId ns) key)) (\<lambda>txHash.
       sbind (smodify (mark_registered (ne_now N))) (\<lambda>_.
       sbind (saveNodeState (ne_write N)) (\<lambda>_.
       sret (if txHash = ''already_registered'' then None else Some txHash)))))))"

text \<open>The result: whether it succeeded, with the transaction hash when there is one.\<close>

definition registerOnChain :: "node_config \<Rightarrow> node_env \<Rightarrow> (node_service, bool \<times> string option) io" where
  "registerOnChain cfg N st =
     (case nv_state st of None \<Rightarrow> (Inl NodeNotInitialized, st)
      | Some ns \<Rightarrow> if \<not> ne_configured N then (Inl (External ''not configured''), st)
          else scatch (sbind (register_body cfg N ns) (\<lambda>tx. sret (True, tx))) (\<lambda>_. sret (False, None)) st)"

section \<open>Dashboard\<close>

definition create_check :: "node_service \<Rightarrow> unit result" where
  "create_check st = guard_throw (nv_file st \<noteq> NoFile) BadRequest"

definition create_finish :: "node_config \<Rightarrow> node_env \<Rightarrow> (node_service, string \<times> string) io" where
  "create_finish cfg N =
     (let nodeId = ''0x'' @ bytes_hex (ne_randomId N); privateKey = ''0x'' @ bytes_hex (ne_randomKey N) in
      sbind (slift (ne_getPublicKey N (hexToBytes (drop 2 privateKey)))) (\<lambda>point.
      let publicKey = encodePublicKeyToEIP2537 point in
      sbind (write_file (ne_write N) (NodeFile \<lparr>ns_nodeId = Some nodeId, ns_publicKey = Some publicKey, ns_privateKey = Some privateKey,
        ns_keystore = None, ns_registeredAt = None\<rparr>)) (\<lambda>_.
      sbind (reloadNodeState cfg (ne_now N)) (\<lambda>_. sret (nodeId, publicKey)))))"

definition createNode :: "node_config \<Rightarrow> node_env \<Rightarrow> (node_service, string \<times> string) io" where
  "createNode cfg N = sbind (sgets create_check) (\<lambda>r. sbind (slift r) (\<lambda>_. create_finish cfg N))"

definition importNode :: "node_config \<Rightarrow> node_env \<Rightarrow> string \<Rightarrow> string \<Rightarrow> string \<Rightarrow> (node_service, bool) io" where
  "importNode cfg N nodeId privateKey publicKey =
     sbind (sgets create_check) (\<lambda>r. sbind (slift r) (\<lambda>_.
     sbind (write_file (ne_write N) (NodeFile \<lparr>ns_nodeId = Some nodeId, ns_publicKey = Some publicKey, ns_privateKey = Some privateKey,
       ns_keystore = None, ns_registeredAt = None\<rparr>)) (\<lambda>_.
     sbind (reloadNodeState cfg (ne_now N)) (\<lambda>_.
     sret (case ne_isRegistered N (nf_contract cfg) (Some nodeId) of Inl _ \<Rightarrow> False | Inr b \<Rightarrow> b)))))"

definition delete_check :: "node_config \<Rightarrow> node_env \<Rightarrow> node_service \<Rightarrow> bool result" where
  "delete_check cfg N st =
     (case nv_state st of None \<Rightarrow> Inl NodeNotInitialized | Some ns \<Rightarrow> ne_isRegistered N (nf_contract cfg) (ns_nodeId ns))"

definition unlink_file :: "write_outcome \<Rightarrow> (node_service, unit) io" where
  "unlink_file w st = (if w = Written then (Inr (), st\<lparr>nv_file := NoFile\<rparr>) else (Inl IoError, st))"

definition delete_finish :: "node_config \<Rightarrow> node_env \<Rightarrow> (node_service, bool) io" where
  "delete_finish cfg N st =
     (if nv_file st = NoFile then (Inr True, st)
      else scatch (sbind (unlink_file (ne_write N)) (\<lambda>_. sbind (reloadNodeState cfg (ne_now N)) (\<lambda>_. sret True))) (\<lambda>_. sret False) st)"

definition deleteCurrentNode :: "node_config \<Rightarrow> node_env \<Rightarrow> (node_service, bool) io" where
  "deleteCurrentNode cfg N =
     sbind (sgets (delete_check cfg N)) (\<lambda>r. sbind (slift r) (\<lambda>isRegistered. if isRegistered then sret False else delete_finish cfg N))"

section \<open>The key stays encrypted at rest\<close>

datatype node_event = NvInit int | NvReload int | NvRegister node_env | NvSave write_outcome

definition node_step :: "node_config \<Rightarrow> node_event \<Rightarrow> node_service \<Rightarrow> node_service" where
  "node_step cfg ev st =
     (case ev of NvInit now \<Rightarrow> snd (initializeNode cfg now st) | NvReload now \<Rightarrow> snd (reloadNodeState cfg now st)
      | NvRegister N \<Rightarrow> snd (registerOnChain cfg N st) | NvSave w \<Rightarrow> snd (saveNodeState w st))"

definition no_plain_key :: "node_file \<Rightarrow> bool" where
  "no_plain_key f = (case f of NodeFile ns \<Rightarrow> isKeystore (ns_keystore ns) \<and> ns_privateKey ns = None | _ \<Rightarrow> True)"

definition sealed :: "node_service \<Rightarrow> bool" where
  "sealed st \<longleftrightarrow> no_plain_key (nv_file st) \<and> (case nv_state st of None \<Rightarrow> True | Some ns \<Rightarrow> isKeystore (ns_keystore ns))"

lemma resolve_keystore: "resolvePrivateKey cfg ns = Inr s \<Longrightarrow> ns_keystore s = ns_keystore ns"
  by (auto simp: resolvePrivateKey_def Let_def split: if_splits)

lemma sealed_load [frame_rules]: "stable sealed (loadExistingNodeState cfg)"
  by (auto simp: stable_def sealed_def no_plain_key_def loadExistingNodeState_def dest: resolve_keystore split: node_file.splits sum.splits option.splits)

lemma sealed_save [frame_rules]: "stable sealed (saveNodeState w)"
  by (auto simp: stable_def sealed_def no_plain_key_def saveNodeState_def write_file_def Let_def split: node_file.splits write_outcome.splits option.splits)

lemma sealed_check: "sealed st \<Longrightarrow> sealed (runKeyConsistencyCheck cfg now st)"
  by (auto simp: sealed_def runKeyConsistencyCheck_def split: option.splits)

lemma sealed_mark: "sealed st \<Longrightarrow> sealed (mark_registered now st)"
  by (auto simp: sealed_def mark_registered_def split: option.splits)

lemma sealed_modify [frame_rules]:
  "stable sealed (smodify (runKeyConsistencyCheck cfg now))" "stable sealed (smodify (mark_registered now))"
  "stable sealed (smodify (\<lambda>st. st\<lparr>nv_registered := f st\<rparr>))"
  by (simp_all add: stable_def smodify_def sealed_check sealed_mark) (simp add: sealed_def split: option.splits)

lemma sealed_register_body: "stable sealed (register_body cfg N ns)"
  unfolding register_body_def Let_def by (intro frame_rules; simp add: sealed_mark sealed_def split: option.splits)

lemma sealed_clear: "sealed st \<Longrightarrow> sealed (st\<lparr>nv_state := None, nv_checker := c\<rparr>)" "sealed st \<Longrightarrow> sealed (st\<lparr>nv_state := None\<rparr>)"
  by (simp_all add: sealed_def)

lemma sealed_boot: "stable sealed (sbind (loadExistingNodeState cfg) (\<lambda>_. smodify (runKeyConsistencyCheck cfg now)))"
  by (intro stable_sbind sealed_load sealed_modify)

lemma sealed_step: "sealed st \<Longrightarrow> sealed (node_step cfg ev st)"
proof (cases ev)
  case (NvRegister N)
  assume "sealed st"
  moreover have "stable sealed (scatch (sbind (register_body cfg N ns) (\<lambda>tx. sret (True, tx))) (\<lambda>_. sret (False, None)))" for ns
    by (intro stable_scatch stable_sbind sealed_register_body stable_rules)
  ultimately show ?thesis by (auto simp: NvRegister node_step_def registerOnChain_def stable_def split: option.split)
next
  case (NvSave w)
  assume "sealed st"
  then show ?thesis using sealed_save by (simp add: NvSave node_step_def stable_def)
qed (use sealed_boot sealed_clear in \<open>auto simp: node_step_def initializeNode_def reloadNodeState_def stable_def\<close>)

text \<open>C17: the key never reaches the disk in plaintext. From a state file that holds only the encrypted keystore, any sequence of boots, reloads, registrations and saves,
  with writes that may fail or tear, leaves a file that holds no private key, although the node keeps the decrypted key in memory.\<close>

theorem key_stays_encrypted:
  assumes "nv_state st = None" "nv_file st = NodeFile ns" "isKeystore (ns_keystore ns)" "ns_privateKey ns = None"
  shows "no_plain_key (nv_file (fold (node_step cfg) evs st))"
proof -
  have "sealed st" using assms by (simp add: sealed_def no_plain_key_def)
  then have "sealed (fold (node_step cfg) evs st)" by (induction evs arbitrary: st) (simp_all add: sealed_step)
  then show ?thesis by (simp add: sealed_def)
qed

section \<open>From the keystore to the signer\<close>

lemma local_signer_reads_hex:
  assumes "length secret = 32" "list_all (\<lambda>b. b < 256) secret"
  shows "LocalKeySigner (Some (''0x'' @ bytes_hex secret)) = Inr secret"
proof -
  have b: "\<forall>b \<in> set secret. b < 256" using assms(2) by (simp add: list_all_iff)
  show ?thesis using assms(1) bytes_hex_back [OF b] bytes_hex_digits [OF b] by (simp add: LocalKeySigner_def)
qed

lemma boot_keystore:
  assumes "nv_file st = NodeFile ns" "ns_keystore ns = Some ks" "isKeystore (Some ks)" "nf_passphrase cfg = Some pw" "pw \<noteq> []"
  shows "case decryptKeystore (nf_crypto cfg) ks pw of
      Inl e \<Rightarrow> initializeNode cfg now st = (Inl e, st)
    | Inr secret \<Rightarrow> fst (initializeNode cfg now st) = Inr ()
        \<and> nv_state (snd (initializeNode cfg now st)) = Some (ns\<lparr>ns_privateKey := Some (''0x'' @ bytes_hex secret)\<rparr>)"
  using assms by (auto simp: initializeNode_def loadExistingNodeState_def resolvePrivateKey_def empty_text_def sbind_def runKeyConsistencyCheck_def split: sum.splits)

text \<open>The encrypted key boots the signer. A node whose state file holds what encryption made of a 32-byte secret boots with the right passphrase, and the signer of the
  co-signing path then holds exactly that secret; with any other passphrase the boot throws and the node stays without a key to sign with, or, where the two
  passphrases derive the same key, it again holds exactly the secret; excluded is only a passphrase that derives another key with the same checksum.\<close>

theorem encrypted_key_boots_the_signer:
  assumes "crypto_ok (nf_crypto cfg)" "list_all (\<lambda>b. b < 256) salt" "list_all (\<lambda>b. b < 256) iv" "list_all (\<lambda>b. b < 256) secret"
    and "encryptKeystore (nf_crypto cfg) salt iv uuid secret password opts = Inr ks"
    and "nv_state st = None" "nv_file st = NodeFile ns" "ns_keystore ns = Some ks" "nf_passphrase cfg = Some pw" "pw \<noteq> []" "sc_signerBackend (nf_sign cfg) = None"
    and "\<not> checksum_collision (nf_crypto cfg) ks password pw"
  shows "(if pw = password then fst (initializeNode cfg now st) = Inr () else True)
    \<and> (case rbind (node_getNodeForSigning (snd (initializeNode cfg now st))) (forNode (nf_sign cfg)) of
         Inl e \<Rightarrow> e = NodeNotInitialized \<and> pw \<noteq> password | Inr key \<Rightarrow> key = secret)"
proof -
  have len: "length secret = 32" using assms(5) by (auto simp: encryptKeystore_def guard_throw_def split: if_splits)
  have law: "isKeystore (Some ks)" "decryptKeystore (nf_crypto cfg) ks password = Inr secret"
    "case decryptKeystore (nf_crypto cfg) ks pw of Inl _ \<Rightarrow> True | Inr key \<Rightarrow> key = secret"
    using encrypted_decrypts [OF assms(1-3,5), of pw] assms(12) by (auto split: sum.splits)
  note boot = boot_keystore [OF assms(7,8) law(1) assms(9,10), of now]
  show ?thesis
  proof (cases "decryptKeystore (nf_crypto cfg) ks pw")
    case (Inl e)
    then have "pw \<noteq> password" using law(2) by auto
    then show ?thesis using boot Inl assms(6) by (simp add: node_getNodeForSigning_def getCurrentNode_def of_option_def)
  next
    case (Inr key)
    then have "key = secret" using law(3) by simp
    then show ?thesis using boot Inr local_signer_reads_hex [OF len assms(4)] assms(11)
      by (simp add: node_getNodeForSigning_def getCurrentNode_def of_option_def state_pair_def forNode_def)
  qed
qed

section \<open>Two ways to lose a key\<close>

text \<open>a torn save loses the node. The state file is overwritten in place: when the write of a registered node fails after the truncation, registration reports a failure, the
  only copy of the identity and its key is gone from the disk, and the next boot throws.\<close>

theorem torn_save_loses_the_node:
  assumes "nv_state st = Some ns" "ne_configured N" "ne_isRegistered N (nf_contract cfg) (ns_nodeId ns) = Inr True" "ne_write N = Torn"
  shows "fst (registerOnChain cfg N st) = Inr (False, None) \<and> nv_file (snd (registerOnChain cfg N st)) = BadFile
    \<and> fst (initializeNode cfg now ((snd (registerOnChain cfg N st))\<lparr>nv_state := None\<rparr>)) = Inl IoError"
proof -
  have "\<exists>s. registerOnChain cfg N st = (Inr (False, None), s) \<and> nv_file s = BadFile"
    using assms by (simp add: registerOnChain_def register_body_def scatch_def sbind_def saveNodeState_def write_file_def Let_def)
  then obtain s where s: "registerOnChain cfg N st = (Inr (False, None), s)" "nv_file s = BadFile" by blast
  then show ?thesis by (simp add: initializeNode_def loadExistingNodeState_def sbind_def)
qed

text \<open>two creations at once lose a node. When a second creation passes its check before the first has written the file, both answer with a new node, but only the
  second one's key is stored and loaded.\<close>

theorem concurrent_creates_lose_a_node:
  assumes "nv_file st = NoFile" "ne_write N = Written" "ne_write N' = Written" "ne_getPublicKey N (hexToBytes (bytes_hex (ne_randomKey N))) = Inr p"
    "ne_getPublicKey N' (hexToBytes (bytes_hex (ne_randomKey N'))) = Inr p'" "ne_randomId N \<noteq> ne_randomId N'"
    "list_all (\<lambda>b. b < 256) (ne_randomId N)" "list_all (\<lambda>b. b < 256) (ne_randomId N')"
  shows "create_check st = Inr () \<and> (\<exists>i k i' k' s1 s2. create_finish cfg N st = (Inr (i, k), s1) \<and> create_finish cfg N' s1 = (Inr (i', k'), s2)
    \<and> i \<noteq> i' \<and> (\<exists>ns. nv_file s2 = NodeFile ns \<and> nv_state s2 = Some ns \<and> ns_nodeId ns = Some i'))"
proof -
  have made: "\<exists>s. create_finish cfg M t = (Inr (''0x'' @ bytes_hex (ne_randomId M), encodePublicKeyToEIP2537 q), s)
      \<and> (\<exists>ns. nv_file s = NodeFile ns \<and> nv_state s = Some ns \<and> ns_nodeId ns = Some (''0x'' @ bytes_hex (ne_randomId M)))"
    if "ne_write M = Written" "ne_getPublicKey M (hexToBytes (bytes_hex (ne_randomKey M))) = Inr q" for M q t
    using that by (simp add: create_finish_def sbind_def write_file_def reloadNodeState_def loadExistingNodeState_def resolvePrivateKey_def isKeystore_def
        empty_text_def runKeyConsistencyCheck_def Let_def)
  obtain s1 where s1: "create_finish cfg N st = (Inr (''0x'' @ bytes_hex (ne_randomId N), encodePublicKeyToEIP2537 p), s1)"
    using made [OF assms(2,4), of st] by blast
  obtain s2 ns where s2: "create_finish cfg N' s1 = (Inr (''0x'' @ bytes_hex (ne_randomId N'), encodePublicKeyToEIP2537 p'), s2)"
    "nv_file s2 = NodeFile ns" "nv_state s2 = Some ns" "ns_nodeId ns = Some (''0x'' @ bytes_hex (ne_randomId N'))"
    using made [OF assms(3,5), of s1] by blast
  have "bytes_hex (ne_randomId N) \<noteq> bytes_hex (ne_randomId N')"
    using assms(6-8) bytes_hex_back [of "ne_randomId N"] bytes_hex_back [of "ne_randomId N'"] by (auto simp: list_all_iff)
  moreover have "create_check st = Inr ()" using assms(1) by (simp add: create_check_def guard_throw_def)
  ultimately show ?thesis using s1 s2 by auto
qed

text \<open>A node is deleted only after the contract said that it is not registered.\<close>

lemma delete_needs_unregistered:
  assumes "deleteCurrentNode cfg N st = (r, st')" "nv_file st \<noteq> NoFile" "nv_file st' = NoFile"
  shows "\<exists>ns. nv_state st = Some ns \<and> ne_isRegistered N (nf_contract cfg) (ns_nodeId ns) = Inr False"
  using assms by (auto simp: deleteCurrentNode_def delete_check_def sbind_def split: option.splits sum.splits if_splits)

text \<open>After a deletion the self-check publishes nothing any more.\<close>

lemma deleted_node_has_no_result: "nv_file st = NoFile \<Longrightarrow> getKeyConsistency (snd (reloadNodeState cfg now st)) = None"
  by (simp add: reloadNodeState_def getKeyConsistency_def clearResult_def)

section \<open>Examples\<close>

definition demo_node_config :: node_config where
  "demo_node_config = \<lparr>nf_sign = demo_sign_config, nf_passphrase = Some ''pw'', nf_contract = ''0xv'', nf_crypto = sample_crypto\<rparr>"

definition demo_node_env :: "nat \<Rightarrow> write_outcome \<Rightarrow> node_env" where
  "demo_node_env i w = \<lparr>ne_now = 5, ne_configured = True, ne_isRegistered = (\<lambda>_ _. Inr True), ne_getPublicKey = (\<lambda>_. Inr demo_point),
     ne_fromHex = (\<lambda>_. Inr demo_point), ne_register = (\<lambda>_ _ _. Inr ''0xhash''), ne_write = w, ne_randomId = [i], ne_randomKey = replicate 32 7\<rparr>"

definition demo_service :: "node_state option \<Rightarrow> node_file \<Rightarrow> node_service" where
  "demo_service s f = \<lparr>nv_state = s, nv_file = f, nv_checker = NodeKeyConsistencyService_new, nv_registered = []\<rparr>"

definition demo_keystore :: keystore where
  "demo_keystore = (case encryptKeystore sample_crypto [1, 2] [3] ''id'' (replicate 32 7) ''pw'' \<lparr>eo_kdf = None, eo_pubkey = None, eo_description = None\<rparr> of
     Inr ks \<Rightarrow> ks)"

lemma demo_encrypted:
  "encryptKeystore sample_crypto [1, 2] [3] ''id'' (replicate 32 7) ''pw'' \<lparr>eo_kdf = None, eo_pubkey = None, eo_description = None\<rparr> = Inr demo_keystore"
proof -
  have "list_all (\<lambda>b. b < 256) (replicate 32 (7 :: nat))" by (simp add: list_all_iff)
  then have "is_ok (encryptKeystore sample_crypto [1, 2] [3] ''id'' (replicate 32 7) ''pw'' \<lparr>eo_kdf = None, eo_pubkey = None, eo_description = None\<rparr>)"
    by (simp add: encryptKeystore_def sample_crypto_def deriveKey_def guard_throw_def Let_def is_ok_iff)
  then show ?thesis by (auto simp: demo_keystore_def is_ok_iff)
qed

definition demo_sealed_state :: node_state where
  "demo_sealed_state = \<lparr>ns_nodeId = Some ''0x01'', ns_publicKey = Some ''0xbb'', ns_privateKey = None, ns_keystore = Some demo_keystore, ns_registeredAt = None\<rparr>"

theorem encrypted_key_boots_the_signer_witness:
  "fst (initializeNode demo_node_config 0 (demo_service None (NodeFile demo_sealed_state))) = Inr ()"
  using encrypted_key_boots_the_signer [of demo_node_config "[1, 2]" "[3]" "replicate 32 7" "''id''" "''pw''"
      "\<lparr>eo_kdf = None, eo_pubkey = None, eo_description = None\<rparr>" demo_keystore "demo_service None (NodeFile demo_sealed_state)" demo_sealed_state "''pw''" 0]
    demo_encrypted sample_crypto_ok
  by (simp add: demo_node_config_def demo_service_def demo_sealed_state_def demo_sign_config_def list_all_iff checksum_collision_def split: sum.split)

theorem key_stays_encrypted_witness:
  "no_plain_key (nv_file (fold (node_step demo_node_config) [NvInit 0, NvRegister (demo_node_env 1 Written), NvSave Torn]
     (demo_service None (NodeFile demo_sealed_state))))"
proof (rule key_stays_encrypted)
  show "isKeystore (ns_keystore demo_sealed_state)"
    using encrypted_decrypts [OF sample_crypto_ok _ _ demo_encrypted] by (simp add: demo_sealed_state_def)
qed (simp_all add: demo_service_def demo_sealed_state_def)

theorem torn_save_loses_the_node_witness:
  "nv_file (snd (registerOnChain demo_node_config (demo_node_env 1 Torn) (demo_service (Some demo_node_state) (NodeFile demo_node_state)))) = BadFile"
  using torn_save_loses_the_node [of "demo_service (Some demo_node_state) (NodeFile demo_node_state)" demo_node_state "demo_node_env 1 Torn" demo_node_config 0]
  by (simp add: demo_service_def demo_node_env_def)

theorem concurrent_creates_lose_a_node_witness:
  "\<exists>i k i' k' s1 s2. create_finish demo_node_config (demo_node_env 1 Written) (demo_service None NoFile) = (Inr (i, k), s1)
    \<and> create_finish demo_node_config (demo_node_env 2 Written) s1 = (Inr (i', k'), s2) \<and> i \<noteq> i'"
  using concurrent_creates_lose_a_node [of "demo_service None NoFile" "demo_node_env 1 Written" "demo_node_env 2 Written" demo_point demo_point demo_node_config]
  by (auto simp: demo_service_def demo_node_env_def)

end
