(* ===== verification/Heartbeat.thy ===== *)
theory Heartbeat
  imports Node_Service
begin

text \<open>
  The liveness ledger of \<^verbatim>\<open>src/modules/gossip/gossip.service.ts\<close>, which the offline rule of the audit service reads: authenticated
  heartbeats (\<^verbatim>\<open>sendHeartbeat\<close>, \<^verbatim>\<open>handleHeartbeatMessage\<close>, \<^verbatim>\<open>verifyHeartbeatAuth\<close>, \<^verbatim>\<open>recordLiveness\<close>, \<^verbatim>\<open>getLastSeen\<close>), the set of
  audited nodes (\<^verbatim>\<open>setRelevantNodeIds\<close>) and the budget of signature checks (\<^verbatim>\<open>allowHeartbeatVerify\<close>).

  \<open>liveness\<close> holds the ledger fields of the service. Maps are lists in insertion order. The handler is split at its await: \<open>heartbeat_gate\<close> runs the cheap gates and
  leaves a check in \<open>lv_verifying\<close>, \<open>heartbeat_done\<close> ends one of them, in any order. Sockets are numbers; the clock readings are arguments.
  The BLS library and the hash functions are the record \<open>heartbeat_env\<close>. A field of a received message that is not of the type the code
  asks for is \<open>None\<close>.

  Main results: every ledger entry comes from a received heartbeat that the key behind the node id signed, for an audited node, and its
  time is never later than its arrival; no replay moves an entry; at most twice the global budget of checks is
  started in any window whatever connections come and go and whatever audited sets are pushed; and the heartbeat an honest node sends is recorded.
\<close>

section \<open>Definitions\<close>

definition MAX_LIVENESS_LEDGER :: nat where "MAX_LIVENESS_LEDGER = 4096"
definition MAX_HEARTBEAT_SKEW_MS :: int where "MAX_HEARTBEAT_SKEW_MS = 5000"
definition HEARTBEAT_AUTH_TAG :: string where "HEARTBEAT_AUTH_TAG = ''YAA_HEARTBEAT_AUTH_V1''"
definition HEARTBEAT_VERIFY_PER_CONN :: nat where "HEARTBEAT_VERIFY_PER_CONN = 5"
definition HEARTBEAT_VERIFY_WINDOW_MS :: int where "HEARTBEAT_VERIFY_WINDOW_MS = 10000"
definition HEARTBEAT_VERIFY_GLOBAL_FLOOR :: nat where "HEARTBEAT_VERIFY_GLOBAL_FLOOR = 128"
definition HEARTBEAT_VERIFY_PER_RELEVANT :: nat where "HEARTBEAT_VERIFY_PER_RELEVANT = 8"

record heartbeat_auth =
  ha_publicKey :: "string option"
  ha_authTs :: "jsnum option"
  ha_authSig :: "string option"

text \<open>\<open>he_digest\<close> is \<^verbatim>\<open>solidityPackedKeccak256(["string", "bytes32", "uint256"], ...)\<close>, which throws on a time that is not an unsigned integer.\<close>

record ('s, 'p) heartbeat_env =
  he_bls :: bool
  he_pointFromHex :: "string \<Rightarrow> g1_point result"
  he_keccak256 :: "string \<Rightarrow> string"
  he_digest :: "string \<Rightarrow> string \<Rightarrow> rat \<Rightarrow> string result"
  he_signatureFromHex :: "string \<Rightarrow> 's result"
  he_hashToCurve :: "string \<Rightarrow> 'p result"
  he_verifySignature :: "'s \<Rightarrow> 'p \<Rightarrow> g1_point \<Rightarrow> bool result"

record verify_budget =
  vb_count :: nat
  vb_windowStart :: int

record verifying =
  vf_nodeId :: string
  vf_auth :: heartbeat_auth
  vf_authTs :: rat
  vf_seen :: rat

record liveness =
  lv_ledger :: "(string \<times> rat \<times> rat) list"
  lv_relevantNodeIds :: "string list"
  lv_globalVerifyBudget :: verify_budget
  lv_heartbeatVerifyBudget :: "(nat \<times> verify_budget) list"
  lv_lastLedgerFullWarnAt :: int
  lv_verifying :: "verifying list"

definition liveness_new :: liveness where
  "liveness_new = \<lparr>lv_ledger = [], lv_relevantNodeIds = [], lv_globalVerifyBudget = \<lparr>vb_count = 0, vb_windowStart = 0\<rparr>,
     lv_heartbeatVerifyBudget = [], lv_lastLedgerFullWarnAt = 0, lv_verifying = []\<rparr>"

text \<open>\<^verbatim>\<open>/^0x[0-9a-f]{64}$/\<close>\<close>

definition is_node_id :: "string \<Rightarrow> bool" where
  "is_node_id s = (take 2 s = ''0x'' \<and> length s = 66 \<and> list_all (\<lambda>c. hex_val c \<noteq> None \<and> lower_char c = c) (drop 2 s))"

definition verify_body_heartbeat :: "('s, 'p) heartbeat_env \<Rightarrow> string \<Rightarrow> string \<Rightarrow> rat \<Rightarrow> string \<Rightarrow> bool result" where
  "verify_body_heartbeat H nodeId publicKey authTs authSig =
     rbind (he_pointFromHex H (strip_0x publicKey)) (\<lambda>pk.
     if lower (he_keccak256 H (encodePublicKeyToEIP2537 pk)) \<noteq> nodeId then Inr False
     else rbind (he_digest H HEARTBEAT_AUTH_TAG nodeId authTs) (\<lambda>digest.
          rbind (he_signatureFromHex H (strip_0x authSig)) (\<lambda>sig.
          rbind (he_hashToCurve H digest) (\<lambda>msgPoint.
          he_verifySignature H sig msgPoint pk))))"

definition verifyHeartbeatAuth :: "('s, 'p) heartbeat_env \<Rightarrow> string \<Rightarrow> heartbeat_auth \<Rightarrow> rat \<Rightarrow> bool" where
  "verifyHeartbeatAuth H nodeId auth authTs =
     (he_bls H \<and> (case (ha_publicKey auth, ha_authSig auth) of
        (Some publicKey, Some authSig) \<Rightarrow> verify_body_heartbeat H nodeId publicKey authTs authSig = Inr True
      | _ \<Rightarrow> False))"

definition allowHeartbeatVerify :: "nat option \<Rightarrow> int \<Rightarrow> liveness \<Rightarrow> bool \<times> liveness" where
  "allowHeartbeatVerify ws now st =
     (let W = HEARTBEAT_VERIFY_WINDOW_MS;
          g0 = lv_globalVerifyBudget st;
          g = (if vb_windowStart g0 = 0 \<or> now - vb_windowStart g0 \<ge> W then \<lparr>vb_count = 0, vb_windowStart = now\<rparr> else g0);
          st1 = st\<lparr>lv_globalVerifyBudget := g\<rparr>;
          globalCap = HEARTBEAT_VERIFY_GLOBAL_FLOOR + length (lv_relevantNodeIds st) * HEARTBEAT_VERIFY_PER_RELEVANT;
          st2 = st1\<lparr>lv_globalVerifyBudget := g\<lparr>vb_count := Suc (vb_count g)\<rparr>\<rparr>
      in if vb_count g \<ge> globalCap then (False, st1)
         else (case ws of None \<Rightarrow> (True, st2)
           | Some c \<Rightarrow> (case map_of (lv_heartbeatVerifyBudget st) c of
                Some b \<Rightarrow>
                  if now - vb_windowStart b \<ge> W
                  then (True, st2\<lparr>lv_heartbeatVerifyBudget := AList.update c \<lparr>vb_count = 1, vb_windowStart = now\<rparr> (lv_heartbeatVerifyBudget st)\<rparr>)
                  else if vb_count b \<ge> HEARTBEAT_VERIFY_PER_CONN then (False, st1)
                  else (True, st2\<lparr>lv_heartbeatVerifyBudget := AList.update c (b\<lparr>vb_count := Suc (vb_count b)\<rparr>) (lv_heartbeatVerifyBudget st)\<rparr>)
              | None \<Rightarrow> (True, st2\<lparr>lv_heartbeatVerifyBudget := AList.update c \<lparr>vb_count = 1, vb_windowStart = now\<rparr> (lv_heartbeatVerifyBudget st)\<rparr>))))"

definition warnLedgerFull :: "int \<Rightarrow> liveness \<Rightarrow> liveness" where
  "warnLedgerFull now st = (if now - lv_lastLedgerFullWarnAt st > 60000 then st\<lparr>lv_lastLedgerFullWarnAt := now\<rparr> else st)"

definition start_verify :: "nat option \<Rightarrow> string \<Rightarrow> heartbeat_auth \<Rightarrow> rat \<Rightarrow> int \<Rightarrow> liveness \<Rightarrow> liveness" where
  "start_verify ws nodeId auth authTs now st =
     (case allowHeartbeatVerify ws now st of (ok, st') \<Rightarrow>
        if \<not> ok then st'
        else st'\<lparr>lv_verifying := lv_verifying st' @
               [\<lparr>vf_nodeId = nodeId, vf_auth = auth, vf_authTs = authTs, vf_seen = min authTs (of_int now)\<rparr>]\<rparr>)"

definition heartbeat_gate :: "nat option \<Rightarrow> string \<Rightarrow> heartbeat_auth option \<Rightarrow> int \<Rightarrow> int \<Rightarrow> liveness \<Rightarrow> liveness" where
  "heartbeat_gate ws peerId auth now warnNow st =
     (case auth of None \<Rightarrow> st | Some auth \<Rightarrow>
     (case ha_authTs auth of
        Some (JFin authTs) \<Rightarrow>
          if authTs \<le> 0 then st else
          let nodeId = lower peerId in
          if \<not> is_node_id nodeId then st
          else if nodeId \<notin> set (lv_relevantNodeIds st) then st
          else if authTs > of_int (now + MAX_HEARTBEAT_SKEW_MS) then st
          else (case map_of (lv_ledger st) nodeId of
             Some (lastTs, _) \<Rightarrow> if authTs \<le> lastTs then st else start_verify ws nodeId auth authTs now st
           | None \<Rightarrow> if length (lv_ledger st) \<ge> MAX_LIVENESS_LEDGER then warnLedgerFull warnNow st
                     else start_verify ws nodeId auth authTs now st)
      | _ \<Rightarrow> st))"

definition recordLiveness :: "string \<Rightarrow> rat \<Rightarrow> rat \<Rightarrow> int \<Rightarrow> liveness \<Rightarrow> liveness" where
  "recordLiveness nodeId authTs seen warnNow st =
     (if \<not> is_node_id nodeId then st
      else if nodeId \<notin> set (lv_relevantNodeIds st) then st
      else (case map_of (lv_ledger st) nodeId of
         Some (lastTs, _) \<Rightarrow> if authTs > lastTs then st\<lparr>lv_ledger := AList.update nodeId (authTs, seen) (lv_ledger st)\<rparr> else st
       | None \<Rightarrow> if length (lv_ledger st) \<ge> MAX_LIVENESS_LEDGER then warnLedgerFull warnNow st
                 else st\<lparr>lv_ledger := AList.update nodeId (authTs, seen) (lv_ledger st)\<rparr>))"

definition heartbeat_done :: "('s, 'p) heartbeat_env \<Rightarrow> nat \<Rightarrow> int \<Rightarrow> liveness \<Rightarrow> liveness" where
  "heartbeat_done H i warnNow st =
     (if i < length (lv_verifying st) then
        let v = lv_verifying st ! i;
            st' = st\<lparr>lv_verifying := take i (lv_verifying st) @ drop (Suc i) (lv_verifying st)\<rparr>
        in if verifyHeartbeatAuth H (vf_nodeId v) (vf_auth v) (vf_authTs v)
           then recordLiveness (vf_nodeId v) (vf_authTs v) (vf_seen v) warnNow st' else st'
      else st)"

definition setRelevantNodeIds :: "string list \<Rightarrow> liveness \<Rightarrow> liveness" where
  "setRelevantNodeIds nodeIds st =
     (let relevant = remdups (map lower nodeIds) in
      st\<lparr>lv_relevantNodeIds := relevant, lv_ledger := filter (\<lambda>(k, _). k \<in> set relevant) (lv_ledger st)\<rparr>)"

definition getLastSeen :: "liveness \<Rightarrow> string \<Rightarrow> rat option" where
  "getLastSeen st nodeId = map_option snd (map_of (lv_ledger st) (lower nodeId))"

definition forget_connection :: "nat \<Rightarrow> liveness \<Rightarrow> liveness" where
  "forget_connection ws st = st\<lparr>lv_heartbeatVerifyBudget := AList.delete ws (lv_heartbeatVerifyBudget st)\<rparr>"

text \<open>The authentication part of a heartbeat this node sends at time \<open>authTs\<close>.\<close>

definition heartbeat_auth_payload :: "sign_config \<Rightarrow> ('b, 'p) sign_env \<Rightarrow> ('s, 'p) heartbeat_env \<Rightarrow> node_key_pair result \<Rightarrow> string \<Rightarrow> int \<Rightarrow> (cosign_node, heartbeat_auth option) io" where
  "heartbeat_auth_payload cfg V H node nodeId authTs =
     (if \<not> he_bls H then sret None
      else scatch
        (sbind (slift node) (\<lambda>node.
         sbind (slift (he_digest H HEARTBEAT_AUTH_TAG (lower nodeId) (of_int authTs))) (\<lambda>digest.
         sbind (bls_signDerivedHash cfg V digest node) (\<lambda>sig.
         sret (if nk_publicKey node \<noteq> []
               then Some \<lparr>ha_publicKey = Some (if take 2 (nk_publicKey node) = ''0x'' then nk_publicKey node else ''0x'' @ nk_publicKey node),
                          ha_authTs = Some (js_of_int authTs), ha_authSig = Some (sr_signatureCompact sig)\<rparr>
               else None)))))
        (\<lambda>_. sret None))"

datatype heartbeat_event =
    HbArrive "nat option" string "heartbeat_auth option" int int
  | HbVerified nat int
  | HbRelevant "string list"
  | HbClose nat

fun hb_step :: "('s, 'p) heartbeat_env \<Rightarrow> heartbeat_event \<Rightarrow> liveness \<Rightarrow> liveness" where
  "hb_step H (HbArrive ws peerId auth now warnNow) st = heartbeat_gate ws peerId auth now warnNow st"
| "hb_step H (HbVerified i warnNow) st = heartbeat_done H i warnNow st"
| "hb_step H (HbRelevant nodeIds) st = setRelevantNodeIds nodeIds st"
| "hb_step H (HbClose ws) st = forget_connection ws st"

definition hb_run :: "('s, 'p) heartbeat_env \<Rightarrow> heartbeat_event list \<Rightarrow> liveness" where
  "hb_run H evs = fold (hb_step H) evs liveness_new"

section \<open>Every entry is authenticated\<close>

lemma verifyHeartbeatAuth_iff:
  "verifyHeartbeatAuth H nodeId auth authTs \<longleftrightarrow> he_bls H \<and>
     (\<exists>publicKey authSig pk digest sig pt. ha_publicKey auth = Some publicKey \<and> ha_authSig auth = Some authSig
       \<and> he_pointFromHex H (strip_0x publicKey) = Inr pk \<and> lower (he_keccak256 H (encodePublicKeyToEIP2537 pk)) = nodeId
       \<and> he_digest H HEARTBEAT_AUTH_TAG nodeId authTs = Inr digest \<and> he_signatureFromHex H (strip_0x authSig) = Inr sig
       \<and> he_hashToCurve H digest = Inr pt \<and> he_verifySignature H sig pt pk = Inr True)"
  by (auto simp: verifyHeartbeatAuth_def verify_body_heartbeat_def split: option.splits)

text \<open>A heartbeat of the run that may be recorded for a node: it passed every cheap gate on arrival.\<close>

definition received :: "heartbeat_event set \<Rightarrow> string \<Rightarrow> heartbeat_auth \<Rightarrow> rat \<Rightarrow> rat \<Rightarrow> bool" where
  "received evs n auth authTs seen \<longleftrightarrow> (\<exists>ws peerId now warnNow. HbArrive ws peerId (Some auth) now warnNow \<in> evs \<and> lower peerId = n
     \<and> ha_authTs auth = Some (JFin authTs) \<and> 0 < authTs \<and> authTs \<le> of_int (now + MAX_HEARTBEAT_SKEW_MS) \<and> seen = min authTs (of_int now))"

definition authenticated :: "('s, 'p) heartbeat_env \<Rightarrow> heartbeat_event set \<Rightarrow> string \<Rightarrow> rat \<Rightarrow> rat \<Rightarrow> bool" where
  "authenticated H evs n a s \<longleftrightarrow> (\<exists>auth. received evs n auth a s \<and> verifyHeartbeatAuth H n auth a)"

definition ledger_inv :: "('s, 'p) heartbeat_env \<Rightarrow> heartbeat_event set \<Rightarrow> liveness \<Rightarrow> bool" where
  "ledger_inv H evs st \<longleftrightarrow> distinct (map fst (lv_ledger st)) \<and> length (lv_ledger st) \<le> MAX_LIVENESS_LEDGER
     \<and> (\<forall>n a s. (n, a, s) \<in> set (lv_ledger st) \<longrightarrow> n \<in> set (lv_relevantNodeIds st) \<and> is_node_id n \<and> authenticated H evs n a s)
     \<and> (\<forall>v \<in> set (lv_verifying st). received evs (vf_nodeId v) (vf_auth v) (vf_authTs v) (vf_seen v))"

lemma received_mono: "received E n auth a s \<Longrightarrow> E \<subseteq> E' \<Longrightarrow> received E' n auth a s"
  unfolding received_def by blast

lemma authenticated_mono: "authenticated H E n a s \<Longrightarrow> E \<subseteq> E' \<Longrightarrow> authenticated H E' n a s"
  unfolding authenticated_def using received_mono by blast

lemma ledger_inv_mono: "ledger_inv H E st \<Longrightarrow> E \<subseteq> E' \<Longrightarrow> ledger_inv H E' st"
  unfolding ledger_inv_def using received_mono authenticated_mono by metis

text \<open>Only the budget fields change.\<close>

definition same_ledger :: "liveness \<Rightarrow> liveness \<Rightarrow> bool" where
  "same_ledger st st' \<longleftrightarrow> lv_ledger st' = lv_ledger st \<and> lv_relevantNodeIds st' = lv_relevantNodeIds st \<and> lv_verifying st' = lv_verifying st"

lemma allow_same: "same_ledger st (snd (allowHeartbeatVerify ws now st))"
  by (auto simp: allowHeartbeatVerify_def same_ledger_def Let_def split: option.splits)

lemma warn_same: "same_ledger st (warnLedgerFull now st)"
  by (simp add: warnLedgerFull_def same_ledger_def)

lemma same_ledger_refl: "same_ledger st st"
  by (simp add: same_ledger_def)

lemma same_ledger_inv: "same_ledger st st' \<Longrightarrow> ledger_inv H E st \<Longrightarrow> ledger_inv H E st'"
  by (simp add: same_ledger_def ledger_inv_def)

lemma start_verify_cases:
  obtains "same_ledger st (start_verify ws n auth a now st)"
  | "lv_ledger (start_verify ws n auth a now st) = lv_ledger st" "lv_relevantNodeIds (start_verify ws n auth a now st) = lv_relevantNodeIds st"
    "lv_verifying (start_verify ws n auth a now st) = lv_verifying st @ [\<lparr>vf_nodeId = n, vf_auth = auth, vf_authTs = a, vf_seen = min a (of_int now)\<rparr>]"
proof (cases "allowHeartbeatVerify ws now st")
  case (Pair ok st')
  then show thesis using that allow_same [of st ws now] by (cases ok) (auto simp: start_verify_def same_ledger_def)
qed

text \<open>What an arrival does to the ledger state.\<close>

lemma gate_cases:
  obtains (skip) "heartbeat_gate ws peerId auth now warnNow st = st"
  | (full) "heartbeat_gate ws peerId auth now warnNow st = warnLedgerFull warnNow st"
  | (check) au a where "auth = Some au" "ha_authTs au = Some (JFin a)" "0 < a" "a \<le> of_int (now + MAX_HEARTBEAT_SKEW_MS)"
    "heartbeat_gate ws peerId auth now warnNow st = start_verify ws (lower peerId) au a now st"
proof (cases "\<exists>au a. auth = Some au \<and> ha_authTs au = Some (JFin a) \<and> 0 < a \<and> a \<le> of_int (now + MAX_HEARTBEAT_SKEW_MS)")
  case True
  then obtain au a where a: "auth = Some au" "ha_authTs au = Some (JFin a)" "0 < a" "a \<le> of_int (now + MAX_HEARTBEAT_SKEW_MS)" by blast
  then have "heartbeat_gate ws peerId auth now warnNow st \<in> {st, warnLedgerFull warnNow st, start_verify ws (lower peerId) au a now st}"
    by (simp add: heartbeat_gate_def Let_def split: option.split)
  then show thesis using skip full check [OF a] by auto
next
  case False
  then have "heartbeat_gate ws peerId auth now warnNow st = st"
    by (auto simp: heartbeat_gate_def Let_def not_le not_less split: option.split jsnum.split)
  then show thesis by (rule skip)
qed

lemma gate_inv:
  assumes "ledger_inv H E st"
  shows "ledger_inv H (insert (HbArrive ws peerId auth now warnNow) E) (heartbeat_gate ws peerId auth now warnNow st)"
proof -
  let ?E = "insert (HbArrive ws peerId auth now warnNow) E"
  have inv: "ledger_inv H ?E st" by (rule ledger_inv_mono [OF assms]) auto
  show ?thesis
  proof (rule gate_cases [of ws peerId auth now warnNow st])
    fix au a assume gate: "auth = Some au" "ha_authTs au = Some (JFin a)" "0 < a" "a \<le> of_int (now + MAX_HEARTBEAT_SKEW_MS)"
      and eq: "heartbeat_gate ws peerId auth now warnNow st = start_verify ws (lower peerId) au a now st"
    have rec: "received ?E (lower peerId) au a (min a (of_int now))" unfolding received_def using gate by blast
    show ?thesis unfolding eq
    proof (rule start_verify_cases [of st ws "lower peerId" au a now])
      assume s: "lv_ledger (start_verify ws (lower peerId) au a now st) = lv_ledger st"
        "lv_relevantNodeIds (start_verify ws (lower peerId) au a now st) = lv_relevantNodeIds st"
        "lv_verifying (start_verify ws (lower peerId) au a now st) = lv_verifying st @ [\<lparr>vf_nodeId = lower peerId, vf_auth = au, vf_authTs = a, vf_seen = min a (of_int now)\<rparr>]"
      show "ledger_inv H ?E (start_verify ws (lower peerId) au a now st)"
        using inv rec unfolding ledger_inv_def s by auto
    qed (use inv same_ledger_inv in blast)
  qed (use inv same_ledger_inv [OF warn_same inv] in simp_all)
qed

lemma record_cases:
  obtains "same_ledger st (recordLiveness n a s warnNow st)"
  | "is_node_id n" "n \<in> set (lv_relevantNodeIds st)" "recordLiveness n a s warnNow st = st\<lparr>lv_ledger := AList.update n (a, s) (lv_ledger st)\<rparr>"
    "map_of (lv_ledger st) n = None \<and> length (lv_ledger st) < MAX_LIVENESS_LEDGER \<or> (\<exists>a' s'. map_of (lv_ledger st) n = Some (a', s') \<and> a' < a)"
proof -
  consider "recordLiveness n a s warnNow st \<in> {st, warnLedgerFull warnNow st}"
    | "is_node_id n" "n \<in> set (lv_relevantNodeIds st)" "recordLiveness n a s warnNow st = st\<lparr>lv_ledger := AList.update n (a, s) (lv_ledger st)\<rparr>"
    "map_of (lv_ledger st) n = None \<and> length (lv_ledger st) < MAX_LIVENESS_LEDGER \<or> (\<exists>a' s'. map_of (lv_ledger st) n = Some (a', s') \<and> a' < a)"
    by (fastforce simp: recordLiveness_def split: option.splits if_splits prod.splits)
  then show thesis using that same_ledger_refl warn_same by cases auto
qed

lemma record_inv:
  assumes inv: "ledger_inv H E st" and rec: "authenticated H E n a s"
  shows "ledger_inv H E (recordLiveness n a s warnNow st)"
proof (rule record_cases [of st n a s warnNow])
  assume new: "is_node_id n" "n \<in> set (lv_relevantNodeIds st)" "recordLiveness n a s warnNow st = st\<lparr>lv_ledger := AList.update n (a, s) (lv_ledger st)\<rparr>"
    and room: "map_of (lv_ledger st) n = None \<and> length (lv_ledger st) < MAX_LIVENESS_LEDGER \<or> (\<exists>a' s'. map_of (lv_ledger st) n = Some (a', s') \<and> a' < a)"
  have "length (AList.update n (a, s) (lv_ledger st)) \<le> MAX_LIVENESS_LEDGER"
    using room inv by (force simp: length_alist_update ledger_inv_def dest: map_of_SomeD)
  moreover have "distinct (map fst (AList.update n (a, s) (lv_ledger st)))"
    using inv by (simp add: ledger_inv_def distinct_update)
  moreover have "m \<in> set (lv_relevantNodeIds st) \<and> is_node_id m \<and> authenticated H E m b t" if "(m, b, t) \<in> set (AList.update n (a, s) (lv_ledger st))" for m b t
    using in_alist_update [OF that] inv rec new(1,2) by (auto simp: ledger_inv_def)
  ultimately show ?thesis using inv unfolding new(3) by (simp add: ledger_inv_def)
qed (use inv same_ledger_inv in blast)

lemma done_inv:
  assumes "ledger_inv H E st"
  shows "ledger_inv H E (heartbeat_done H i warnNow st)"
proof (cases "i < length (lv_verifying st)")
  case True
  let ?v = "lv_verifying st ! i" and ?st = "st\<lparr>lv_verifying := take i (lv_verifying st) @ drop (Suc i) (lv_verifying st)\<rparr>"
  have rest: "ledger_inv H E ?st" using assms by (auto simp: ledger_inv_def dest: in_set_takeD in_set_dropD)
  have "received E (vf_nodeId ?v) (vf_auth ?v) (vf_authTs ?v) (vf_seen ?v)" using assms True by (simp add: ledger_inv_def)
  then have "verifyHeartbeatAuth H (vf_nodeId ?v) (vf_auth ?v) (vf_authTs ?v) \<Longrightarrow> authenticated H E (vf_nodeId ?v) (vf_authTs ?v) (vf_seen ?v)"
    by (auto simp: authenticated_def)
  with True rest record_inv [OF rest] show ?thesis by (simp add: heartbeat_done_def Let_def)
next
  case False
  with assms show ?thesis by (simp add: heartbeat_done_def)
qed

lemma relevant_inv:
  assumes "ledger_inv H E st"
  shows "ledger_inv H E (setRelevantNodeIds ids st)"
proof -
  have "length (filter (\<lambda>(k, _). k \<in> set (remdups (map lower ids))) (lv_ledger st)) \<le> MAX_LIVENESS_LEDGER"
    using assms length_filter_le [of _ "lv_ledger st"] by (meson ledger_inv_def le_trans)
  moreover have "distinct (map fst (filter (\<lambda>(k, _). k \<in> set (remdups (map lower ids))) (lv_ledger st)))"
    using assms by (simp add: ledger_inv_def distinct_map_filter)
  ultimately show ?thesis using assms by (auto simp: ledger_inv_def setRelevantNodeIds_def Let_def simp del: set_remdups set_map)
qed

lemma hb_step_inv: "ledger_inv H E st \<Longrightarrow> ledger_inv H (insert ev E) (hb_step H ev st)"
proof (cases ev)
  case (HbArrive ws peerId auth now warnNow)
  then show "ledger_inv H E st \<Longrightarrow> ?thesis" by (simp add: gate_inv)
next
  case (HbVerified i warnNow)
  then show "ledger_inv H E st \<Longrightarrow> ?thesis" by (auto intro: done_inv ledger_inv_mono)
next
  case (HbRelevant ids)
  then show "ledger_inv H E st \<Longrightarrow> ?thesis" by (auto intro: relevant_inv ledger_inv_mono)
next
  case (HbClose ws)
  then show "ledger_inv H E st \<Longrightarrow> ?thesis"
    by (auto intro: same_ledger_inv [of st] ledger_inv_mono simp: forget_connection_def same_ledger_def)
qed

lemma hb_run_inv: "ledger_inv H (set evs) (hb_run H evs)"
proof -
  have "ledger_inv H E st \<Longrightarrow> ledger_inv H (E \<union> set evs) (fold (hb_step H) evs st)" for E st
  proof (induction evs arbitrary: E st)
    case (Cons ev evs)
    from Cons.IH [OF hb_step_inv [OF Cons.prems]] show ?case by simp
  qed simp
  from this [of "{}" liveness_new] show ?thesis by (simp add: hb_run_def ledger_inv_def liveness_new_def)
qed


text \<open>C20: liveness is authenticated. Whatever messages arrive, checks complete, sets of audited nodes are pushed and connections close, a ledger entry is for an audited node and stems from a
  received heartbeat whose signature over the node id and its time verifies under a key that hashes to the node id; the recorded time is at most the signed time
  and at most the arrival time, the signed time leads the arrival by at most five seconds, and there are at most 4096 entries. So nobody without the node's key can record or suppress its liveness.\<close>

theorem liveness_is_authenticated:
  assumes "map_of (lv_ledger (hb_run H evs)) n = Some (a, s)"
  shows "n \<in> set (lv_relevantNodeIds (hb_run H evs)) \<and> length (lv_ledger (hb_run H evs)) \<le> 4096
    \<and> (\<exists>ws peerId auth now warnNow publicKey authSig pk digest sig pt. HbArrive ws peerId (Some auth) now warnNow \<in> set evs \<and> lower peerId = n
         \<and> ha_authTs auth = Some (JFin a) \<and> a \<le> of_int (now + 5000) \<and> s = min a (of_int now)
         \<and> ha_publicKey auth = Some publicKey \<and> he_pointFromHex H (strip_0x publicKey) = Inr pk \<and> lower (he_keccak256 H (encodePublicKeyToEIP2537 pk)) = n
         \<and> he_digest H HEARTBEAT_AUTH_TAG n a = Inr digest \<and> he_hashToCurve H digest = Inr pt
         \<and> ha_authSig auth = Some authSig \<and> he_signatureFromHex H (strip_0x authSig) = Inr sig \<and> he_verifySignature H sig pt pk = Inr True)"
proof -
  have inv: "ledger_inv H (set evs) (hb_run H evs)" by (rule hb_run_inv)
  from assms have "(n, a, s) \<in> set (lv_ledger (hb_run H evs))" by (rule map_of_SomeD)
  with inv have rel: "n \<in> set (lv_relevantNodeIds (hb_run H evs))" and auth: "authenticated H (set evs) n a s"
    and len: "length (lv_ledger (hb_run H evs)) \<le> 4096" by (simp_all add: ledger_inv_def MAX_LIVENESS_LEDGER_def)
  from auth obtain au where r: "received (set evs) n au a s" and v: "verifyHeartbeatAuth H n au a" by (auto simp: authenticated_def)
  from r v show ?thesis using rel len unfolding received_def verifyHeartbeatAuth_iff MAX_HEARTBEAT_SKEW_MS_def by blast
qed

section \<open>Replays\<close>

text \<open>Whether an event leaves a node in the audited set.\<close>

definition keeps_node :: "string \<Rightarrow> heartbeat_event \<Rightarrow> bool" where
  "keeps_node n ev = (case ev of HbRelevant ids \<Rightarrow> n \<in> lower ` set ids | _ \<Rightarrow> True)"

definition not_older :: "rat \<Rightarrow> rat \<Rightarrow> string \<Rightarrow> liveness \<Rightarrow> bool" where
  "not_older a s n st \<longleftrightarrow> (\<exists>a' s'. map_of (lv_ledger st) n = Some (a', s') \<and> (a < a' \<or> a' = a \<and> s' = s))"

lemma same_ledger_not_older: "same_ledger st st' \<Longrightarrow> not_older a s n st \<Longrightarrow> not_older a s n st'"
  by (simp add: same_ledger_def not_older_def)

lemma gate_ledger: "lv_ledger (heartbeat_gate ws peerId auth now warnNow st) = lv_ledger st"
proof (rule gate_cases [of ws peerId auth now warnNow st])
  fix au a assume "heartbeat_gate ws peerId auth now warnNow st = start_verify ws (lower peerId) au a now st"
  then show ?thesis by (auto intro: start_verify_cases [of st ws "lower peerId" au a now] simp: same_ledger_def)
qed (simp_all add: warnLedgerFull_def)

lemma record_not_older: "not_older a s n st \<Longrightarrow> not_older a s n (recordLiveness m b t warnNow st)"
  by (rule record_cases [of st m b t warnNow]) (auto simp: not_older_def update_conv same_ledger_def)

lemma step_not_older:
  assumes "not_older a s n st" "keeps_node n ev"
  shows "not_older a s n (hb_step H ev st)"
proof (cases ev)
  case (HbArrive ws peerId auth now warnNow)
  with assms show ?thesis by (simp add: not_older_def gate_ledger)
next
  case (HbVerified i warnNow)
  have "not_older a s n (st\<lparr>lv_verifying := vs\<rparr>)" for vs using assms(1) by (simp add: not_older_def)
  with HbVerified assms show ?thesis by (auto simp: heartbeat_done_def Let_def record_not_older)
next
  case (HbRelevant ids)
  with assms show ?thesis by (auto simp: not_older_def setRelevantNodeIds_def Let_def map_of_filter_key keeps_node_def)
next
  case (HbClose ws)
  with assms show ?thesis by (simp add: not_older_def forget_connection_def)
qed

text \<open>C35: a replay moves nothing. While a node stays audited, its entry is only ever replaced by one with a later signed time: after any further messages, replayed, reordered or overlapping in
  their checks, the entry is the same one or carries a strictly later signed time.\<close>

theorem replay_never_moves_liveness:
  assumes "map_of (lv_ledger st) n = Some (a, s)" "list_all (keeps_node n) evs"
  shows "\<exists>a' s'. map_of (lv_ledger (fold (hb_step H) evs st)) n = Some (a', s') \<and> (a < a' \<or> a' = a \<and> s' = s)"
proof -
  have "not_older a s n st" using assms(1) by (simp add: not_older_def)
  then have "not_older a s n (fold (hb_step H) evs st)" using assms(2) by (induction evs arbitrary: st) (simp_all add: step_not_older)
  then show ?thesis by (simp add: not_older_def)
qed

section \<open>The budget of signature checks\<close>

definition global_cap :: "liveness \<Rightarrow> nat" where
  "global_cap st = HEARTBEAT_VERIFY_GLOBAL_FLOOR + length (lv_relevantNodeIds st) * HEARTBEAT_VERIFY_PER_RELEVANT"

text \<open>The arrival times of a run and, among them, the times at which a signature check was started.\<close>

fun arrival_times :: "heartbeat_event list \<Rightarrow> int list" where
  "arrival_times (HbArrive _ _ _ now _ # evs) = now # arrival_times evs"
| "arrival_times (_ # evs) = arrival_times evs"
| "arrival_times [] = []"

fun check_times :: "('s, 'p) heartbeat_env \<Rightarrow> heartbeat_event list \<Rightarrow> liveness \<Rightarrow> int list" where
  "check_times H (ev # evs) st =
     (if length (lv_verifying st) < length (lv_verifying (hb_step H ev st)) then arrival_times [ev] else []) @ check_times H evs (hb_step H ev st)"
| "check_times H [] st = []"

text \<open>The audit service pushes sets of at most \<open>N\<close> nodes.\<close>

definition audits_at_most :: "nat \<Rightarrow> heartbeat_event \<Rightarrow> bool" where
  "audits_at_most N ev = (case ev of HbRelevant ids \<Rightarrow> card (lower ` set ids) \<le> N | _ \<Rightarrow> True)"

definition cap_for :: "nat \<Rightarrow> nat" where
  "cap_for N = HEARTBEAT_VERIFY_GLOBAL_FLOOR + N * HEARTBEAT_VERIFY_PER_RELEVANT"

lemma global_cap_for: "global_cap st \<le> cap_for N \<longleftrightarrow> length (lv_relevantNodeIds st) \<le> N"
  by (simp add: global_cap_def cap_for_def HEARTBEAT_VERIFY_PER_RELEVANT_def)

lemma check_times_subset: "set (check_times H evs st) \<subseteq> set (arrival_times evs)"
proof (induction evs arbitrary: st)
  case (Cons ev evs)
  then show ?case by (cases ev) auto
qed simp

text \<open>How a window and its count move when a check is asked for.\<close>

definition window_moved :: "nat \<Rightarrow> int \<Rightarrow> bool \<Rightarrow> verify_budget \<Rightarrow> verify_budget \<Rightarrow> bool" where
  "window_moved cap now ok g g' \<longleftrightarrow>
     (let fresh = (vb_windowStart g = 0 \<or> now - vb_windowStart g \<ge> HEARTBEAT_VERIFY_WINDOW_MS); c = (if fresh then 0 else vb_count g)
      in vb_windowStart g' = (if fresh then now else vb_windowStart g) \<and> vb_count g' = (if ok then Suc c else c) \<and> (ok \<longrightarrow> c < cap))"

lemma window_moved_mono: "window_moved cap now ok g g' \<Longrightarrow> cap \<le> cap' \<Longrightarrow> window_moved cap' now ok g g'"
  by (auto simp: window_moved_def Let_def)

lemma allow_window:
  "window_moved (global_cap st) now (fst (allowHeartbeatVerify ws now st)) (lv_globalVerifyBudget st) (lv_globalVerifyBudget (snd (allowHeartbeatVerify ws now st)))"
  by (simp add: window_moved_def allowHeartbeatVerify_def global_cap_def Let_def split: option.split)

lemma start_verify_window:
  "window_moved (global_cap st) now (length (lv_verifying st) < length (lv_verifying (start_verify ws n auth a now st)))
     (lv_globalVerifyBudget st) (lv_globalVerifyBudget (start_verify ws n auth a now st))"
  using allow_window [of st now ws] allow_same [of st ws now]
  by (cases "allowHeartbeatVerify ws now st") (auto simp: start_verify_def same_ledger_def)

lemma gate_budget:
  assumes "st' = heartbeat_gate ws peerId auth now warnNow st"
  shows "global_cap st' = global_cap st \<and> (lv_globalVerifyBudget st' = lv_globalVerifyBudget st \<and> length (lv_verifying st') = length (lv_verifying st)
    \<or> window_moved (global_cap st) now (length (lv_verifying st) < length (lv_verifying st')) (lv_globalVerifyBudget st) (lv_globalVerifyBudget st'))"
proof (rule gate_cases [of ws peerId auth now warnNow st])
  fix au a assume gate: "heartbeat_gate ws peerId auth now warnNow st = start_verify ws (lower peerId) au a now st"
  have "global_cap st' = global_cap st" unfolding assms gate
    by (rule start_verify_cases [of st ws "lower peerId" au a now]) (auto simp: same_ledger_def global_cap_def)
  then show ?thesis using start_verify_window [of st now ws "lower peerId" au a] assms gate by simp
qed (simp_all add: assms warnLedgerFull_def global_cap_def)

lemma record_budget:
  "lv_globalVerifyBudget (recordLiveness n a s warnNow st) = lv_globalVerifyBudget st \<and> global_cap (recordLiveness n a s warnNow st) = global_cap st
    \<and> lv_verifying (recordLiveness n a s warnNow st) = lv_verifying st"
  by (auto simp: recordLiveness_def warnLedgerFull_def global_cap_def split: option.split)

lemma done_budget:
  "lv_globalVerifyBudget (heartbeat_done H i warnNow st) = lv_globalVerifyBudget st \<and> global_cap (heartbeat_done H i warnNow st) = global_cap st
    \<and> length (lv_verifying (heartbeat_done H i warnNow st)) \<le> length (lv_verifying st)"
  by (auto simp: heartbeat_done_def Let_def record_budget) (simp_all add: global_cap_def)

text \<open>The checks that can still be started before \<open>t + W\<close> from a window state, for arrivals from \<open>t\<close> on.\<close>

definition checks_left :: "int \<Rightarrow> nat \<Rightarrow> verify_budget \<Rightarrow> nat" where
  "checks_left t cap g = (if vb_windowStart g \<noteq> 0 \<and> t \<le> vb_windowStart g then cap - vb_count g else cap + (cap - vb_count g))"

lemma checks_left_step:
  assumes "window_moved cap now ok g g'" "t \<le> now" "now < t + HEARTBEAT_VERIFY_WINDOW_MS" "0 < now" "0 < cap"
  shows "(if ok then 1 else 0) + checks_left t cap g' \<le> checks_left t cap g"
  using assms by (auto simp: window_moved_def checks_left_def Let_def split: if_splits)

text \<open>Pushing an audited set, of other nodes or of the same ones, leaves the running window and its count alone.\<close>

lemma relevant_budget:
  "lv_globalVerifyBudget (setRelevantNodeIds ids st) = lv_globalVerifyBudget st" "lv_verifying (setRelevantNodeIds ids st) = lv_verifying st"
  "global_cap (setRelevantNodeIds ids st) \<le> cap_for N \<longleftrightarrow> card (lower ` set ids) \<le> N"
  by (simp_all add: global_cap_for setRelevantNodeIds_def Let_def length_remdups_card_conv)

lemma step_cap: "global_cap st \<le> cap_for N \<Longrightarrow> audits_at_most N ev \<Longrightarrow> global_cap (hb_step H ev st) \<le> cap_for N"
  by (cases ev) (simp_all add: audits_at_most_def gate_budget [OF refl] done_budget relevant_budget, simp add: forget_connection_def global_cap_def)

lemma later_checks:
  assumes "list_all (audits_at_most N) evs" "sorted (arrival_times evs)" "list_all (\<lambda>now. t \<le> now \<and> 0 < now) (arrival_times evs)" "global_cap st \<le> cap_for N"
  shows "length (filter (\<lambda>now. now < t + HEARTBEAT_VERIFY_WINDOW_MS) (check_times H evs st)) \<le> checks_left t (cap_for N) (lv_globalVerifyBudget st)"
  using assms
proof (induction evs arbitrary: st)
  case (Cons ev evs)
  let ?st = "hb_step H ev st" and ?in = "\<lambda>now. now < t + HEARTBEAT_VERIFY_WINDOW_MS"
  have later: "global_cap ?st \<le> cap_for N" using Cons.prems by (intro step_cap) simp_all
  have IH: "length (filter ?in (check_times H evs ?st)) \<le> checks_left t (cap_for N) (lv_globalVerifyBudget ?st)"
    using Cons.IH [OF _ _ _ later] Cons.prems by (cases ev) simp_all
  have quiet: ?case if "lv_globalVerifyBudget ?st = lv_globalVerifyBudget st" "length (lv_verifying ?st) \<le> length (lv_verifying st)"
    using IH that by simp
  show ?case
  proof (cases ev)
    case (HbArrive ws peerId auth now warnNow)
    have cap: "0 < cap_for N" by (simp add: cap_for_def HEARTBEAT_VERIFY_GLOBAL_FLOOR_def)
    show ?thesis
    proof (cases "?in now")
      case True
      have "lv_globalVerifyBudget ?st = lv_globalVerifyBudget st \<and> length (lv_verifying ?st) = length (lv_verifying st)
        \<or> window_moved (cap_for N) now (length (lv_verifying st) < length (lv_verifying ?st)) (lv_globalVerifyBudget st) (lv_globalVerifyBudget ?st)"
        using gate_budget [of ?st ws peerId auth now warnNow st] window_moved_mono [OF _ Cons.prems(4)] HbArrive by auto
      with True HbArrive Cons.prems(3) cap IH show ?thesis by (auto dest!: checks_left_step [of _ now _ _ _ t])
    next
      case False
      with Cons.prems HbArrive have "\<forall>u \<in> set (arrival_times (ev # evs)). \<not> ?in u" by fastforce
      then have "\<forall>u \<in> set (check_times H (ev # evs) st). \<not> ?in u" using check_times_subset by blast
      then have "filter ?in (check_times H (ev # evs) st) = []" by (simp add: filter_empty_conv)
      then show ?thesis by simp
    qed
  qed (rule quiet; simp add: done_budget relevant_budget; simp add: forget_connection_def)+
qed simp

text \<open>C36: signature checks are bounded. In any interval of ten seconds the service starts at most twice the global budget of checks, \<open>128\<close> plus eight per audited node, whatever arrives on however many connections, however these
  close and reconnect, and whatever audited sets of at most \<open>N\<close> nodes are pushed meanwhile; a push does not refill the budget.\<close>

theorem heartbeat_checks_are_bounded:
  assumes "length (lv_relevantNodeIds st) \<le> N" "list_all (audits_at_most N) evs" "sorted (arrival_times evs)" "list_all (\<lambda>now. 0 < now) (arrival_times evs)"
  shows "length (filter (\<lambda>now. t \<le> now \<and> now < t + 10000) (check_times H evs st)) \<le> 2 * (128 + 8 * N)"
proof -
  let ?in = "\<lambda>now. t \<le> now \<and> now < t + HEARTBEAT_VERIFY_WINDOW_MS"
  have "length (filter ?in (check_times H evs st)) \<le> 2 * cap_for N" using assms [folded global_cap_for]
  proof (induction evs arbitrary: st)
    case (Cons ev evs)
    let ?st = "hb_step H ev st"
    have "global_cap ?st \<le> cap_for N" using Cons.prems by (intro step_cap) simp_all
    with Cons.IH [of ?st] Cons.prems have IH: "length (filter ?in (check_times H evs ?st)) \<le> 2 * cap_for N" by (cases ev) auto
    show ?case
    proof (cases "\<forall>now \<in> set (arrival_times (ev # evs)). t \<le> now")
      case True
      with Cons.prems have "list_all (\<lambda>now. t \<le> now \<and> 0 < now) (arrival_times (ev # evs))" by (auto simp: list_all_iff)
      from later_checks [OF Cons.prems(2,3) this Cons.prems(1), of H] have "length (filter (\<lambda>now. now < t + HEARTBEAT_VERIFY_WINDOW_MS) (check_times H (ev # evs) st)) \<le> 2 * cap_for N"
        by (auto simp: checks_left_def split: if_splits)
      moreover have "filter ?in (check_times H (ev # evs) st) = filter (\<lambda>now. t \<le> now) (filter (\<lambda>now. now < t + HEARTBEAT_VERIFY_WINDOW_MS) (check_times H (ev # evs) st))"
        by (simp add: conj_commute)
      ultimately show ?thesis using length_filter_le le_trans by metis
    next
      case False
      then have "filter ?in (arrival_times [ev]) = []" using Cons.prems(3) by (cases ev) auto
      with IH show ?thesis by (cases "length (lv_verifying st) < length (lv_verifying ?st)") simp_all
    qed
  qed simp
  then show ?thesis by (simp add: cap_for_def HEARTBEAT_VERIFY_WINDOW_MS_def HEARTBEAT_VERIFY_GLOBAL_FLOOR_def HEARTBEAT_VERIFY_PER_RELEVANT_def mult.commute)
qed

section \<open>An honest heartbeat is recorded\<close>

text \<open>The signer of the node and the verifier of its peers agree: what the signer returns verifies under the public key.\<close>

definition bls_correct :: "sign_config \<Rightarrow> ('b, 'p) sign_env \<Rightarrow> ('s, 'p) heartbeat_env \<Rightarrow> node_key_pair \<Rightarrow> g1_point \<Rightarrow> bool" where
  "bls_correct cfg V H node pk \<longleftrightarrow> (\<forall>h st res st'. bls_signDerivedHash cfg V h node st = (Inr res, st') \<longrightarrow>
     (\<exists>sig pt. he_signatureFromHex H (strip_0x (sr_signatureCompact res)) = Inr sig \<and> he_hashToCurve H h = Inr pt \<and> he_verifySignature H sig pt pk = Inr True))"

text \<open>The receiver has room for the heartbeat: its node is audited, it is newer than the recorded one, and the budget allows the check.\<close>

definition has_room :: "nat option \<Rightarrow> string \<Rightarrow> int \<Rightarrow> int \<Rightarrow> liveness \<Rightarrow> bool" where
  "has_room ws n authTs now st \<longleftrightarrow> n \<in> set (lv_relevantNodeIds st) \<and> fst (allowHeartbeatVerify ws now st)
     \<and> (case map_of (lv_ledger st) n of Some (a, _) \<Rightarrow> a < of_int authTs | None \<Rightarrow> length (lv_ledger st) < MAX_LIVENESS_LEDGER)"

lemma payload_sent:
  assumes "he_bls H" "he_digest H HEARTBEAT_AUTH_TAG (lower nodeId) (of_int authTs) = Inr digest"
    and "bls_signDerivedHash cfg V digest node cn = (Inr res, cn')" "nk_publicKey node \<noteq> []"
  obtains publicKey where "strip_0x publicKey = strip_0x (nk_publicKey node)"
    "heartbeat_auth_payload cfg V H (Inr node) nodeId authTs cn
      = (Inr (Some \<lparr>ha_publicKey = Some publicKey, ha_authTs = Some (js_of_int authTs), ha_authSig = Some (sr_signatureCompact res)\<rparr>), cn')"
proof
  let ?pk = "if take 2 (nk_publicKey node) = ''0x'' then nk_publicKey node else ''0x'' @ nk_publicKey node"
  show "strip_0x ?pk = strip_0x (nk_publicKey node)" by (simp add: strip_0x_def)
  show "heartbeat_auth_payload cfg V H (Inr node) nodeId authTs cn
      = (Inr (Some \<lparr>ha_publicKey = Some ?pk, ha_authTs = Some (js_of_int authTs), ha_authSig = Some (sr_signatureCompact res)\<rparr>), cn')"
    using assms by (simp add: heartbeat_auth_payload_def scatch_def sbind_def)
qed

lemma accepted_heartbeat_is_recorded:
  assumes "verifyHeartbeatAuth H n auth (of_int t)" "ha_authTs auth = Some (js_of_int t)" "lower peerId = n" "is_node_id n"
    and "0 < t" "t \<le> now + MAX_HEARTBEAT_SKEW_MS" "has_room ws n t now st"
  shows "getLastSeen (heartbeat_done H (length (lv_verifying st)) w' (heartbeat_gate ws peerId (Some auth) now w st)) peerId = Some (of_int (min t now))"
proof -
  obtain st' where allow: "allowHeartbeatVerify ws now st = (True, st')" and same: "same_ledger st st'"
    using assms(7) allow_same [of st ws now] by (cases "allowHeartbeatVerify ws now st") (auto simp: has_room_def)
  have gate: "heartbeat_gate ws peerId (Some auth) now w st = st'\<lparr>lv_verifying := lv_verifying st @
      [\<lparr>vf_nodeId = n, vf_auth = auth, vf_authTs = of_int t, vf_seen = min (of_int t) (of_int now)\<rparr>]\<rparr>"
  proof -
    have "\<not> rat_of_int t \<le> 0" "\<not> rat_of_int t > of_int (now + MAX_HEARTBEAT_SKEW_MS)" using assms(5,6) by (simp_all only: of_int_le_0_iff of_int_less_iff not_le not_less)
    moreover have "case map_of (lv_ledger st) n of Some (a, _) \<Rightarrow> \<not> of_int t \<le> a | None \<Rightarrow> \<not> MAX_LIVENESS_LEDGER \<le> length (lv_ledger st)"
      using assms(7) by (auto simp: has_room_def split: option.splits)
    ultimately show ?thesis using assms(2-4,7) allow same
      by (simp add: heartbeat_gate_def js_of_int_def Let_def has_room_def start_verify_def same_ledger_def split: option.splits prod.splits)
  qed
  have "min (rat_of_int t) (rat_of_int now) = of_int (min t now)" by (simp add: min_def)
  then show ?thesis unfolding gate using assms same
    by (auto simp: heartbeat_done_def Let_def recordLiveness_def has_room_def same_ledger_def getLastSeen_def update_conv split: option.splits)
qed

text \<open>An honest node is seen. A node whose id is the hash of its key and whose signer works sends a heartbeat that every peer auditing it, with budget for one check and clocks within five seconds,
  records, with the earlier of the two times.\<close>

theorem honest_heartbeat_is_recorded:
  assumes "he_bls H" "nk_publicKey node \<noteq> []" "he_pointFromHex H (strip_0x (nk_publicKey node)) = Inr pk"
    and "lower (he_keccak256 H (encodePublicKeyToEIP2537 pk)) = lower nodeId" "is_node_id (lower nodeId)" "bls_correct cfg V H node pk"
    and "he_digest H HEARTBEAT_AUTH_TAG (lower nodeId) (of_int t) = Inr digest" "bls_signDerivedHash cfg V digest node cn = (Inr res, cn')"
    and "0 < t" "t \<le> now + MAX_HEARTBEAT_SKEW_MS" "has_room ws (lower nodeId) t now st"
  shows "\<exists>auth. fst (heartbeat_auth_payload cfg V H (Inr node) nodeId t cn) = Inr (Some auth)
    \<and> getLastSeen (heartbeat_done H (length (lv_verifying st)) w' (heartbeat_gate ws nodeId (Some auth) now w st)) nodeId = Some (of_int (min t now))"
proof -
  obtain publicKey where key: "strip_0x publicKey = strip_0x (nk_publicKey node)"
    and sent: "heartbeat_auth_payload cfg V H (Inr node) nodeId t cn
      = (Inr (Some \<lparr>ha_publicKey = Some publicKey, ha_authTs = Some (js_of_int t), ha_authSig = Some (sr_signatureCompact res)\<rparr>), cn')"
    by (rule payload_sent [OF assms(1,7,8,2)])
  from assms(6,8) obtain sig pt where "he_signatureFromHex H (strip_0x (sr_signatureCompact res)) = Inr sig" "he_hashToCurve H digest = Inr pt"
    "he_verifySignature H sig pt pk = Inr True" unfolding bls_correct_def by blast
  then have "verifyHeartbeatAuth H (lower nodeId) \<lparr>ha_publicKey = Some publicKey, ha_authTs = Some (js_of_int t), ha_authSig = Some (sr_signatureCompact res)\<rparr> (of_int t)"
    using assms key by (auto simp: verifyHeartbeatAuth_iff)
  from accepted_heartbeat_is_recorded [OF this _ refl assms(5) assms(9,10,11)] sent show ?thesis by auto
qed

section \<open>A concrete run\<close>

definition demo_node_id :: string where "demo_node_id = ''0x'' @ replicate 64 CHR ''1''"

definition demo_heartbeat_env :: "(unit, nat) heartbeat_env" where
  "demo_heartbeat_env = \<lparr>he_bls = True, he_pointFromHex = (\<lambda>_. Inr demo_point), he_keccak256 = (\<lambda>_. demo_node_id), he_digest = (\<lambda>_ _ _. Inr ''0xdd''),
     he_signatureFromHex = (\<lambda>s. if s = ''cc'' then Inr () else Inl IoError), he_hashToCurve = (\<lambda>_. Inr 1), he_verifySignature = (\<lambda>_ _ _. Inr True)\<rparr>"

definition demo_auth :: "int \<Rightarrow> heartbeat_auth" where
  "demo_auth t = \<lparr>ha_publicKey = Some ''0xbb'', ha_authTs = Some (js_of_int t), ha_authSig = Some ''0xcc''\<rparr>"

definition demo_audited :: liveness where
  "demo_audited = setRelevantNodeIds [demo_node_id] liveness_new"

lemma demo_node_id [simp]: "lower demo_node_id = demo_node_id" "is_node_id demo_node_id"
  by (simp_all add: demo_node_id_def lower_def lower_char_def is_node_id_def hex_val_def list_all_iff)

lemma demo_room: "has_room (Some 1) demo_node_id t now demo_audited"
  by (simp add: has_room_def demo_audited_def setRelevantNodeIds_def liveness_new_def allowHeartbeatVerify_def HEARTBEAT_VERIFY_GLOBAL_FLOOR_def MAX_LIVENESS_LEDGER_def)

lemma heartbeat_demo_verify: "verifyHeartbeatAuth demo_heartbeat_env demo_node_id (demo_auth t) a"
  by (simp add: verifyHeartbeatAuth_def verify_body_heartbeat_def demo_heartbeat_env_def demo_auth_def strip_0x_def)

lemma demo_recorded:
  "getLastSeen (hb_run demo_heartbeat_env [HbRelevant [demo_node_id], HbArrive (Some 1) demo_node_id (Some (demo_auth 1000)) 1000 0, HbVerified 0 0]) demo_node_id = Some 1000"
  using accepted_heartbeat_is_recorded [of demo_heartbeat_env demo_node_id "demo_auth 1000" 1000 demo_node_id 1000 "Some 1" demo_audited 0 0, OF heartbeat_demo_verify]
    demo_room
  by (simp add: hb_run_def demo_auth_def MAX_HEARTBEAT_SKEW_MS_def demo_audited_def) (simp add: setRelevantNodeIds_def liveness_new_def)

lemma demo_entry:
  "map_of (lv_ledger (hb_run demo_heartbeat_env [HbRelevant [demo_node_id], HbArrive (Some 1) demo_node_id (Some (demo_auth 1000)) 1000 0, HbVerified 0 0])) demo_node_id = Some (1000, 1000)"
  by (simp add: hb_run_def liveness_new_def setRelevantNodeIds_def heartbeat_gate_def demo_auth_def js_of_int_def Let_def MAX_HEARTBEAT_SKEW_MS_def MAX_LIVENESS_LEDGER_def
      start_verify_def allowHeartbeatVerify_def HEARTBEAT_VERIFY_GLOBAL_FLOOR_def heartbeat_done_def recordLiveness_def
      heartbeat_demo_verify [unfolded demo_auth_def js_of_int_def, of 1000, simplified])

theorem liveness_is_authenticated_witness:
  "demo_node_id \<in> set (lv_relevantNodeIds (hb_run demo_heartbeat_env [HbRelevant [demo_node_id], HbArrive (Some 1) demo_node_id (Some (demo_auth 1000)) 1000 0, HbVerified 0 0]))"
  using liveness_is_authenticated [OF demo_entry] by simp

theorem replay_never_moves_liveness_witness:
  "\<exists>a s. map_of (lv_ledger (fold (hb_step demo_heartbeat_env) [HbArrive None demo_node_id (Some (demo_auth 1000)) 9000 0, HbVerified 0 0]
     (hb_run demo_heartbeat_env [HbRelevant [demo_node_id], HbArrive (Some 1) demo_node_id (Some (demo_auth 1000)) 1000 0, HbVerified 0 0]))) demo_node_id = Some (a, s) \<and> (1000 < a \<or> a = 1000 \<and> s = 1000)"
  using replay_never_moves_liveness [OF demo_entry, of "[HbArrive None demo_node_id (Some (demo_auth 1000)) 9000 0, HbVerified 0 0]" demo_heartbeat_env]
  by (simp add: keeps_node_def del: fold.simps hb_step.simps)

theorem heartbeat_checks_are_bounded_witness:
  "length (filter (\<lambda>now. 0 \<le> now \<and> now < 0 + 10000) (check_times demo_heartbeat_env
     [HbArrive (Some 1) demo_node_id (Some (demo_auth 1000)) 1000 0, HbClose 1, HbRelevant [demo_node_id, demo_node_id], HbArrive (Some 1) demo_node_id (Some (demo_auth 1001)) 1001 0] demo_audited))
   \<le> 2 * (128 + 8 * 1)"
  using heartbeat_checks_are_bounded [of demo_audited 1
      "[HbArrive (Some 1) demo_node_id (Some (demo_auth 1000)) 1000 0, HbClose 1, HbRelevant [demo_node_id, demo_node_id], HbArrive (Some 1) demo_node_id (Some (demo_auth 1001)) 1001 0]"
      0 demo_heartbeat_env]
  by (simp add: audits_at_most_def demo_audited_def setRelevantNodeIds_def liveness_new_def del: check_times.simps)

definition demo_key_pair :: node_key_pair where
  "demo_key_pair = \<lparr>nk_nodeId = ''0x01'', nk_privateKey = Some (replicate 64 CHR ''1''), nk_publicKey = ''0xbb''\<rparr>"

lemma heartbeat_demo_signs:
  obtains res st' where "bls_signDerivedHash demo_sign_config (demo_sign_env now) h demo_key_pair st = (Inr res, st')" "sr_signatureCompact res = ''0xcc''"
proof -
  obtain sk where "LocalKeySigner (Some (replicate 64 CHR ''1'')) = Inr sk" using demo_sign_local by (auto simp: is_ok_iff)
  then show thesis using that
    by (auto simp: bls_signDerivedHash_def getRustSignerConfig_def signViaNode_def forNode_def demo_sign_config_def demo_sign_env_def demo_key_pair_def
        sbind_def hand_to_signer_def)
qed

theorem honest_heartbeat_is_recorded_witness:
  "\<exists>auth. getLastSeen (heartbeat_done demo_heartbeat_env 0 0 (heartbeat_gate (Some 1) demo_node_id (Some auth) 1000 0 demo_audited)) demo_node_id = Some 1000"
proof -
  obtain res st' where s: "bls_signDerivedHash demo_sign_config (demo_sign_env 5) ''0xdd'' demo_key_pair demo_cosign_node = (Inr res, st')" by (rule heartbeat_demo_signs)
  have "bls_correct demo_sign_config (demo_sign_env 5) demo_heartbeat_env demo_key_pair demo_point"
    unfolding bls_correct_def
  proof (intro allI impI)
    fix h st res st' assume "bls_signDerivedHash demo_sign_config (demo_sign_env 5) h demo_key_pair st = (Inr res, st')"
    then have "sr_signatureCompact res = ''0xcc''" using heartbeat_demo_signs [of 5 h st] by (metis Inr_inject prod.inject)
    then show "\<exists>sig pt. he_signatureFromHex demo_heartbeat_env (strip_0x (sr_signatureCompact res)) = Inr sig
        \<and> he_hashToCurve demo_heartbeat_env h = Inr pt \<and> he_verifySignature demo_heartbeat_env sig pt demo_point = Inr True"
      by (simp add: demo_heartbeat_env_def strip_0x_def)
  qed
  from honest_heartbeat_is_recorded [of demo_heartbeat_env demo_key_pair demo_point demo_node_id demo_sign_config "demo_sign_env 5" 1000 "''0xdd''" demo_cosign_node res st' 1000
      "Some 1" demo_audited 0 0, OF _ _ _ _ _ this _ s] demo_room show ?thesis
    by (auto simp: demo_heartbeat_env_def demo_key_pair_def MAX_HEARTBEAT_SKEW_MS_def demo_audited_def setRelevantNodeIds_def liveness_new_def)
qed

end
