(* ===== verification/Offline_Evidence.thy ===== *)
theory Offline_Evidence
  imports Audit_Safety Heartbeat
begin

text \<open>
  The audit service on top of the liveness ledger: \<^verbatim>\<open>AuditService.auditOfflineForOperator\<close> reads \<^verbatim>\<open>GossipService.getLastSeen\<close>. \<open>reads_ledger\<close> wires the two models together: the
  environment of a tick answers from the ledger. Times are integers on the audit side, as the packed encoding that a heartbeat signs accepts no others.

  Main results: a proposal that a tick files under the offline rule rests on a heartbeat the accused node itself signed, which is older than the threshold and the latest the auditor has heard; and a captured heartbeat of any age, replayed
  to an auditor that has no entry for its node yet, turns missing data into evidence.
\<close>

definition reads_ledger :: "'b audit_env \<Rightarrow> liveness \<Rightarrow> bool" where
  "reads_ledger A L \<longleftrightarrow> (\<forall>n. getLastSeen L n = map_option of_int (ae_getLastSeen A n))"

lemma seen_entry:
  assumes "reads_ledger A L" "ae_getLastSeen A n = Some s"
  obtains a where "map_of (lv_ledger L) (lower n) = Some (a, of_int s)"
  using assms by (auto simp: reads_ledger_def getLastSeen_def dest!: spec [of _ n])

section \<open>What the auditor has heard\<close>

text \<open>A heartbeat of the node that the auditor must have taken into account: it arrived while the node was audited and the budget allowed its check, its signature verifies, the node has stayed audited, and its check is over.\<close>

definition heard :: "('s, 'p) heartbeat_env \<Rightarrow> heartbeat_event list \<Rightarrow> string \<Rightarrow> rat \<Rightarrow> bool" where
  "heard H evs n a \<longleftrightarrow> (\<exists>before ws peerId auth now w after. evs = before @ HbArrive ws peerId (Some auth) now w # after
     \<and> lower peerId = n \<and> is_node_id n \<and> ha_authTs auth = Some (JFin a) \<and> 0 < a \<and> a \<le> of_int (now + MAX_HEARTBEAT_SKEW_MS) \<and> verifyHeartbeatAuth H n auth a
     \<and> n \<in> set (lv_relevantNodeIds (hb_run H before)) \<and> fst (allowHeartbeatVerify ws now (hb_run H before))
     \<and> list_all (keeps_node n) after
     \<and> (\<forall>v \<in> set (lv_verifying (hb_run H evs)). (vf_nodeId v, vf_auth v, vf_authTs v) \<noteq> (n, auth, a)))"

text \<open>The node is audited, and the heartbeat is covered by its entry or still being checked.\<close>

definition covered :: "string \<Rightarrow> heartbeat_auth \<Rightarrow> rat \<Rightarrow> liveness \<Rightarrow> bool" where
  "covered n auth a st \<longleftrightarrow> n \<in> set (lv_relevantNodeIds st)
     \<and> ((\<exists>a' s'. map_of (lv_ledger st) n = Some (a', s') \<and> a \<le> a')
        \<or> (\<exists>v \<in> set (lv_verifying st). (vf_nodeId v, vf_auth v, vf_authTs v) = (n, auth, a)))"

lemma room_for_audited:
  assumes "ledger_inv H E st" "length (lv_relevantNodeIds st) \<le> MAX_LIVENESS_LEDGER" "n \<in> set (lv_relevantNodeIds st)" "map_of (lv_ledger st) n = None"
  shows "length (lv_ledger st) < MAX_LIVENESS_LEDGER"
proof -
  have "fst ` set (lv_ledger st) \<subseteq> set (lv_relevantNodeIds st) - {n}"
    using assms(1,4) by (auto simp: ledger_inv_def map_of_eq_None_iff image_iff)
  then have "card (fst ` set (lv_ledger st)) < card (set (lv_relevantNodeIds st))"
    using assms(3) by (meson List.finite_set card_Diff1_less card_mono finite_Diff le_less_trans)
  moreover have "card (fst ` set (lv_ledger st)) = length (lv_ledger st)"
    using assms(1) by (metis distinct_card ledger_inv_def length_map list.set_map)
  ultimately show ?thesis using assms(2) card_length [of "lv_relevantNodeIds st"] by linarith
qed

lemma gate_covers:
  assumes inv: "ledger_inv H E st" "length (lv_relevantNodeIds st) \<le> MAX_LIVENESS_LEDGER"
    and hb: "is_node_id n" "ha_authTs auth = Some (JFin a)" "0 < a" "a \<le> of_int (now + MAX_HEARTBEAT_SKEW_MS)" "lower peerId = n"
    and ok: "n \<in> set (lv_relevantNodeIds st)" "fst (allowHeartbeatVerify ws now st)"
  shows "covered n auth a (heartbeat_gate ws peerId (Some auth) now w st)"
proof -
  obtain st' where allow: "allowHeartbeatVerify ws now st = (True, st')" using ok(2) by (metis prod.collapse)
  have start: "covered n auth a (start_verify ws n auth a now st)"
    using allow allow_same [of st ws now] ok(1) by (auto simp: start_verify_def covered_def same_ledger_def)
  show ?thesis
  proof (cases "map_of (lv_ledger st) n")
    case None
    then show ?thesis using room_for_audited [OF inv ok(1) None] start hb ok(1) by (simp add: heartbeat_gate_def Let_def)
  next
    case (Some e)
    then show ?thesis using start hb ok(1) by (cases e) (auto simp: heartbeat_gate_def Let_def covered_def)
  qed
qed

lemma gate_keeps_covered: "covered n auth a st \<Longrightarrow> covered n auth a (heartbeat_gate ws peerId au now w st)"
proof (rule gate_cases [of ws peerId au now w st])
  fix au' a' assume "covered n auth a st" "heartbeat_gate ws peerId au now w st = start_verify ws (lower peerId) au' a' now st"
  then show ?thesis by (cases rule: start_verify_cases [of st ws "lower peerId" au' a' now]) (auto simp: covered_def same_ledger_def)
qed (auto simp: covered_def warnLedgerFull_def)

lemma record_covers:
  assumes "ledger_inv H E st" "length (lv_relevantNodeIds st) \<le> MAX_LIVENESS_LEDGER" "is_node_id n" "n \<in> set (lv_relevantNodeIds st)"
  shows "\<exists>a' s'. map_of (lv_ledger (recordLiveness n a s w st)) n = Some (a', s') \<and> a \<le> a'"
  using assms(3,4) room_for_audited [OF assms(1,2,4)] by (auto simp: recordLiveness_def update_conv split: option.split)

lemma record_keeps_covered: "covered n auth a st \<Longrightarrow> covered n auth a (recordLiveness m b t w st)"
  by (rule record_cases [of st m b t w]) (force simp: covered_def update_conv same_ledger_def)+

lemma done_keeps_covered:
  assumes inv: "ledger_inv H E st" "length (lv_relevantNodeIds st) \<le> MAX_LIVENESS_LEDGER"
    and n: "is_node_id n" "verifyHeartbeatAuth H n auth a" and cov: "covered n auth a st"
  shows "covered n auth a (heartbeat_done H i w st)"
proof (cases "i < length (lv_verifying st)")
  case True
  let ?v = "lv_verifying st ! i" and ?st = "st\<lparr>lv_verifying := take i (lv_verifying st) @ drop (Suc i) (lv_verifying st)\<rparr>"
  have audited: "n \<in> set (lv_relevantNodeIds st)" using cov by (simp add: covered_def)
  show ?thesis
  proof (cases "(vf_nodeId ?v, vf_auth ?v, vf_authTs ?v) = (n, auth, a)")
    case this: True
    have "ledger_inv H E ?st" using inv(1) by (auto simp: ledger_inv_def dest: in_set_takeD in_set_dropD)
    from record_covers [OF this, of n a "vf_seen ?v" w] n(1) audited inv(2)
    have "\<exists>a' s'. map_of (lv_ledger (recordLiveness n a (vf_seen ?v) w ?st)) n = Some (a', s') \<and> a \<le> a'" by simp
    moreover have "heartbeat_done H i w st = recordLiveness n a (vf_seen ?v) w ?st" using n(2) True \<open>(vf_nodeId ?v, vf_auth ?v, vf_authTs ?v) = (n, auth, a)\<close>
      by (simp add: heartbeat_done_def Let_def)
    moreover have "lv_relevantNodeIds (recordLiveness n a (vf_seen ?v) w ?st) = lv_relevantNodeIds st"
      by (rule record_cases [of ?st n a "vf_seen ?v" w]) (simp_all add: same_ledger_def)
    ultimately show ?thesis using audited by (simp add: covered_def)
  next
    case False
    have "lv_verifying st = take i (lv_verifying st) @ ?v # drop (Suc i) (lv_verifying st)" using True by (rule id_take_nth_drop)
    then have "set (lv_verifying st) = insert ?v (set (take i (lv_verifying st) @ drop (Suc i) (lv_verifying st)))"
      by (metis Un_insert_right list.simps(15) set_append)
    with cov False have "covered n auth a ?st" by (auto simp: covered_def)
    then show ?thesis using True by (simp add: heartbeat_done_def Let_def record_keeps_covered)
  qed
qed (simp add: heartbeat_done_def cov)

lemma step_keeps_covered:
  assumes "ledger_inv H E st" "length (lv_relevantNodeIds st) \<le> MAX_LIVENESS_LEDGER" "is_node_id n" "verifyHeartbeatAuth H n auth a" "keeps_node n ev" "covered n auth a st"
  shows "covered n auth a (hb_step H ev st)"
proof (cases ev)
  case (HbRelevant ids)
  with assms(5,6) show ?thesis by (auto simp: covered_def setRelevantNodeIds_def Let_def map_of_filter_key keeps_node_def)
next
  case (HbArrive ws peerId au now w)
  with assms(6) show ?thesis by (simp add: gate_keeps_covered)
next
  case (HbVerified i w)
  with done_keeps_covered [OF assms(1-4,6)] show ?thesis by simp
next
  case (HbClose ws)
  with assms(6) show ?thesis by (simp add: covered_def forget_connection_def)
qed

lemma run_keeps_covered:
  assumes "ledger_inv H E st" "global_cap st \<le> cap_for MAX_LIVENESS_LEDGER" "is_node_id n" "verifyHeartbeatAuth H n auth a" "covered n auth a st"
    and "list_all (keeps_node n) evs" "list_all (audits_at_most MAX_LIVENESS_LEDGER) evs"
  shows "covered n auth a (fold (hb_step H) evs st)"
  using assms
proof (induction evs arbitrary: st E)
  case (Cons ev evs)
  note now = hb_step_inv [OF Cons.prems(1), of ev] step_cap [OF Cons.prems(2), of ev H]
  have "covered n auth a (hb_step H ev st)" using Cons.prems by (intro step_keeps_covered) (simp_all add: global_cap_for)
  with Cons.IH [OF now] Cons.prems show ?case by simp
qed simp

lemma run_cap: "list_all (audits_at_most N) evs \<Longrightarrow> global_cap (hb_run H evs) \<le> cap_for N"
proof -
  have "global_cap st \<le> cap_for N \<Longrightarrow> list_all (audits_at_most N) evs \<Longrightarrow> global_cap (fold (hb_step H) evs st) \<le> cap_for N" for st
    by (induction evs arbitrary: st) (simp_all add: step_cap del: hb_step.simps)
  then show "list_all (audits_at_most N) evs \<Longrightarrow> ?thesis" by (simp add: hb_run_def global_cap_for liveness_new_def)
qed

lemma heard_is_recorded:
  assumes "heard H evs n a" "list_all (audits_at_most MAX_LIVENESS_LEDGER) evs"
  shows "\<exists>a' s'. map_of (lv_ledger (hb_run H evs)) n = Some (a', s') \<and> a \<le> a'"
proof -
  from assms(1) obtain before ws peerId auth now w after where hb: "evs = before @ HbArrive ws peerId (Some auth) now w # after"
    "lower peerId = n" "is_node_id n" "ha_authTs auth = Some (JFin a)" "0 < a" "a \<le> of_int (now + MAX_HEARTBEAT_SKEW_MS)" "verifyHeartbeatAuth H n auth a"
    "n \<in> set (lv_relevantNodeIds (hb_run H before))" "fst (allowHeartbeatVerify ws now (hb_run H before))" "list_all (keeps_node n) after"
    and over: "\<forall>v \<in> set (lv_verifying (hb_run H evs)). (vf_nodeId v, vf_auth v, vf_authTs v) \<noteq> (n, auth, a)" unfolding heard_def by blast
  let ?st = "hb_step H (HbArrive ws peerId (Some auth) now w) (hb_run H before)"
  have cap: "global_cap (hb_run H before) \<le> cap_for MAX_LIVENESS_LEDGER" using assms(2) hb(1) by (intro run_cap) simp
  have "covered n auth a ?st" using gate_covers [OF hb_run_inv _ hb(3-6,2,8,9)] cap by (simp add: global_cap_for)
  moreover have "global_cap ?st \<le> cap_for MAX_LIVENESS_LEDGER" by (rule step_cap [OF cap]) (simp add: audits_at_most_def)
  ultimately have "covered n auth a (fold (hb_step H) after ?st)" using assms(2) hb(1,3,7,10)
    by (intro run_keeps_covered [OF hb_step_inv [OF hb_run_inv]]) simp_all
  then have "covered n auth a (hb_run H evs)" by (simp add: hb(1) hb_run_def)
  with over show ?thesis by (auto simp: covered_def)
qed

section \<open>The evidence of an offline proposal\<close>

text \<open>The heartbeat behind an offline proposal: received, signed with the key that hashes to the node id, older than the deadline (and its signing time at most the tolerated skew of five seconds after it), and the latest of
  all heartbeats of the node that the auditor has heard.\<close>

definition signed_evidence :: "('s, 'p) heartbeat_env \<Rightarrow> heartbeat_event list \<Rightarrow> string \<Rightarrow> int \<Rightarrow> bool" where
  "signed_evidence H evs n deadline \<longleftrightarrow> (\<exists>ws peerId auth now warnNow a. HbArrive ws peerId (Some auth) now warnNow \<in> set evs \<and> lower peerId = lower n
     \<and> verifyHeartbeatAuth H (lower n) auth a \<and> ha_authTs auth = Some (JFin a) \<and> min a (of_int now) < of_int deadline \<and> a < of_int (deadline + 5000)
     \<and> (\<forall>a'. heard H evs (lower n) a' \<longrightarrow> a' \<le> a))"

lemma entry_is_evidence:
  assumes "map_of (lv_ledger (hb_run H evs)) (lower n) = Some (a, s)" "s < of_int deadline" "list_all (audits_at_most MAX_LIVENESS_LEDGER) evs"
  shows "signed_evidence H evs n deadline"
proof -
  have "authenticated H (set evs) (lower n) a s" using hb_run_inv [of H evs] assms(1) by (auto simp: ledger_inv_def dest: map_of_SomeD)
  then obtain ws peerId auth now w where hb: "HbArrive ws peerId (Some auth) now w \<in> set evs" "lower peerId = lower n" "verifyHeartbeatAuth H (lower n) auth a"
    "ha_authTs auth = Some (JFin a)" "a \<le> of_int (now + 5000)" "s = min a (of_int now)"
    by (auto simp: authenticated_def received_def MAX_HEARTBEAT_SKEW_MS_def)
  have "a < of_int (deadline + 5000)" using hb(5,6) assms(2) by (auto simp: min_def split: if_splits)
  moreover have "a' \<le> a" if "heard H evs (lower n) a'" for a' using heard_is_recorded [OF that assms(3)] assms(1) by auto
  ultimately show ?thesis unfolding signed_evidence_def using hb assms(2) by blast
qed

lemma filing_is_signed:
  assumes "reads_ledger A (hb_run H evs)" "list_all (audits_at_most MAX_LIVENESS_LEDGER) evs" "offline_filing R cfg A t"
  shows "\<exists>operator nodeId block blockTs. R operator nodeId \<and> ae_getBlockTimestamp A block = Inr blockTs
    \<and> t = TxPropose operator SLASH_LEVEL_OFFLINE (computeProofHash (ae_ethers A) (offline_identity cfg (ae_ethers A) operator block)) (ac_dryRun cfg)
    \<and> signed_evidence H evs nodeId (blockTs * 1000 - OFFLINE_THRESHOLD_MS)"
proof -
  from assms(3) obtain operator nodeId block hash lastSeen blockTs where f: "R operator nodeId" "ae_getBlockTimestamp A block = Inr blockTs"
    "t = TxPropose operator SLASH_LEVEL_OFFLINE (computeProofHash (ae_ethers A) (offline_identity cfg (ae_ethers A) operator block)) (ac_dryRun cfg)"
    "ae_getLastSeen A nodeId = Some lastSeen" "lastSeen < blockTs * 1000 - OFFLINE_THRESHOLD_MS" unfolding offline_filing_def by blast
  obtain a where "map_of (lv_ledger (hb_run H evs)) (lower nodeId) = Some (a, of_int lastSeen)" by (rule seen_entry [OF assms(1) f(4)])
  then have "signed_evidence H evs nodeId (blockTs * 1000 - OFFLINE_THRESHOLD_MS)" by (rule entry_is_evidence) (simp_all only: of_int_less_iff f(5) assms(2))
  with f show ?thesis by blast
qed

text \<open>C19: nobody is filed as offline on hearsay, nor on an old heartbeat when a newer one was heard. When the audit reads the ledger that any run of the gossip service over at most 4096 audited nodes has left, each contract write of a
  tick is an offline proposal against an operator whose node itself signed, with the key behind its id, a heartbeat that the auditor received; the earlier of its signing and its arrival lies more than ten minutes before the
  finalized block; and no heartbeat of the node that the auditor has heard since the node is audited (valid, within the budget, its check over) was signed later. So an operator whose node was never heard, or one of whose heard
  heartbeats was signed later than ten minutes less five seconds before the block, is not filed, whatever unauthenticated peers send.\<close>

theorem offline_proposals_rest_on_signed_heartbeats:
  assumes "reads_ledger A (hb_run H evs)" "list_all (audits_at_most MAX_LIVENESS_LEDGER) evs"
  shows "\<exists>new. txs (snd (audit_tick cfg A st)) = new @ txs st \<and> list_all (\<lambda>t. \<exists>operator nodeId block blockTs. node_of cfg A st operator nodeId
    \<and> ae_getBlockTimestamp A block = Inr blockTs
    \<and> t = TxPropose operator SLASH_LEVEL_OFFLINE (computeProofHash (ae_ethers A) (offline_identity cfg (ae_ethers A) operator block)) (ac_dryRun cfg)
    \<and> signed_evidence H evs nodeId (blockTs * 1000 - 600000)) new"
proof -
  obtain new where new: "txs (snd (audit_tick cfg A st)) = new @ txs st" "list_all (offline_filing (node_of cfg A st) cfg A) new"
    using tick_filings by blast
  from new(2) show ?thesis using filing_is_signed [OF assms] unfolding OFFLINE_THRESHOLD_MS_def
    by (intro exI [of _ new] conjI new(1)) (auto simp: list_all_iff)
qed

section \<open>A replayed heartbeat\<close>

text \<open>C37: missing data becomes evidence. While the auditor has no entry for a node, its offline rule does nothing. But the ledger accepts a first heartbeat of any age: when somebody replays an old one, signed at \<open>t\<close>, the
  rule raises a violation against the operator for every block whose time is more than ten minutes after \<open>t\<close>, however much alive the node is.\<close>

theorem replayed_heartbeat_becomes_offline_evidence:
  assumes "verifyHeartbeatAuth H n auth (of_int t)" "ha_authTs auth = Some (js_of_int t)" "lower n = n" "is_node_id n" "0 < t" "t \<le> now"
    and "has_room ws n t now L" "map_of (lv_ledger L) n = None" "reads_ledger A L"
    and "reads_ledger A' (heartbeat_done H (length (lv_verifying L)) w' (heartbeat_gate ws n (Some auth) now w L))"
    and "ac_offlineEnabled cfg" "ac_gossip cfg" "ac_blsAggregatorAddress cfg \<noteq> []"
    and "ae_getBlockTimestamp A' block = Inr ts" "t < ts * 1000 - OFFLINE_THRESHOLD_MS" "ts * 1000 \<le> ae_clock A' (au_clockReads st)"
  shows "auditOfflineForOperator cfg A operator (block, hash) (Some n) st = (Inr (), st)
    \<and> auditOfflineForOperator cfg A' operator (block, hash) (Some n) st =
        sbind (handleViolation cfg A' (offline_violation cfg (ae_ethers A') operator n block hash (ts * 1000 - t) (ae_clock A' (Suc (au_clockReads st))))) (\<lambda>_. sret ())
          (st\<lparr>au_clockReads := au_clockReads st + 2\<rparr>)"
proof
  have named: "has_text (Some n)" using assms(4) by (auto simp: has_text_def is_node_id_def)
  have "ae_getLastSeen A n = None" using assms(3,8,9) by (auto simp: reads_ledger_def getLastSeen_def dest!: spec [of _ n])
  then show "auditOfflineForOperator cfg A operator (block, hash) (Some n) st = (Inr (), st)"
    using named by (simp add: auditOfflineForOperator_def sbind_def sret_def)
  have "t \<le> now + MAX_HEARTBEAT_SKEW_MS" using assms(6) by (simp add: MAX_HEARTBEAT_SKEW_MS_def)
  from accepted_heartbeat_is_recorded [OF assms(1,2,3,4,5) this assms(7), of w' w] have "ae_getLastSeen A' n = Some t"
    using assms(6,10) by (auto simp: reads_ledger_def dest!: spec [of _ n])
  then show "auditOfflineForOperator cfg A' operator (block, hash) (Some n) st =
        sbind (handleViolation cfg A' (offline_violation cfg (ae_ethers A') operator n block hash (ts * 1000 - t) (ae_clock A' (Suc (au_clockReads st))))) (\<lambda>_. sret ())
          (st\<lparr>au_clockReads := au_clockReads st + 2\<rparr>)"
    using assms(11-16) named by (simp add: auditOfflineForOperator_def sbind_def sret_def audit_clock_def Let_def)
qed

section \<open>A concrete run\<close>

definition demo_heartbeats :: "heartbeat_event list" where
  "demo_heartbeats = [HbRelevant [demo_node_id], HbArrive (Some 1) demo_node_id (Some (demo_auth 1000)) 1000 0, HbVerified 0 0]"

definition demo_offline_env :: "abi_value list audit_env" where
  "demo_offline_env = demo_audit_env\<lparr>ae_getLastSeen := (\<lambda>n. if lower n = demo_node_id then Some 1000 else None),
     ae_getBlockTimestamp := (\<lambda>_. Inr 1000000), ae_clock := (\<lambda>_. 1000000000)\<rparr>"

lemma demo_ledger: "lv_ledger (hb_run demo_heartbeat_env demo_heartbeats) = [(demo_node_id, 1000, 1000)]"
  by (simp add: demo_heartbeats_def hb_run_def liveness_new_def setRelevantNodeIds_def heartbeat_gate_def demo_auth_def js_of_int_def Let_def MAX_HEARTBEAT_SKEW_MS_def
      MAX_LIVENESS_LEDGER_def start_verify_def allowHeartbeatVerify_def HEARTBEAT_VERIFY_GLOBAL_FLOOR_def heartbeat_done_def recordLiveness_def
      heartbeat_demo_verify [unfolded demo_auth_def js_of_int_def, of 1000, simplified])

lemma demo_reads: "reads_ledger demo_offline_env (hb_run demo_heartbeat_env demo_heartbeats)"
  by (simp add: reads_ledger_def getLastSeen_def demo_ledger demo_offline_env_def)

text \<open>The node refreshes its entry and then falls silent: the tick files one proposal, on the second heartbeat.\<close>

definition demo_silence :: "heartbeat_event list" where
  "demo_silence = demo_heartbeats @ [HbArrive (Some 1) demo_node_id (Some (demo_auth 2000)) 2000 0, HbVerified 0 0]"

definition demo_silent_env :: "abi_value list audit_env" where
  "demo_silent_env = demo_offline_env\<lparr>ae_getLastSeen := (\<lambda>n. if lower n = demo_node_id then Some 2000 else None), ae_getOperatorNodeId := (\<lambda>_ _. Inr (Some demo_node_id))\<rparr>"

lemma demo_silence_ledger: "lv_ledger (hb_run demo_heartbeat_env demo_silence) = [(demo_node_id, 2000, 2000)]"
  by (simp add: demo_silence_def demo_heartbeats_def hb_run_def liveness_new_def setRelevantNodeIds_def heartbeat_gate_def demo_auth_def js_of_int_def Let_def MAX_HEARTBEAT_SKEW_MS_def
      MAX_LIVENESS_LEDGER_def start_verify_def allowHeartbeatVerify_def HEARTBEAT_VERIFY_GLOBAL_FLOOR_def HEARTBEAT_VERIFY_WINDOW_MS_def HEARTBEAT_VERIFY_PER_CONN_def heartbeat_done_def recordLiveness_def
      heartbeat_demo_verify [unfolded demo_auth_def js_of_int_def, of 1000, simplified] heartbeat_demo_verify [unfolded demo_auth_def js_of_int_def, of 2000, simplified])

lemma demo_silence_reads: "reads_ledger demo_silent_env (hb_run demo_heartbeat_env demo_silence)"
  by (simp add: reads_ledger_def getLastSeen_def demo_silence_ledger demo_silent_env_def)

lemma demo_silence_files: "\<exists>h. txs (snd (audit_tick demo_audit_config demo_silent_env demo_audit)) = [TxPropose demo_signer SLASH_LEVEL_OFFLINE h False]"
proof -
  have cfg: "ac_offlineEnabled demo_audit_config" "ac_gossip demo_audit_config" "ac_blsAggregatorAddress demo_audit_config \<noteq> []" "\<not> ac_dryRun demo_audit_config"
    "\<not> ac_roleDerive demo_audit_config" "ac_watchlist demo_audit_config = [demo_signer]" "ac_executeSlash demo_audit_config" and node: "demo_node_id \<noteq> []"
    by (simp_all add: demo_audit_config_def AuditService_config_def or_else_def demo_registry_def demo_node_id_def)
  have hx: "\<exists>h. buildExecuteMessageHash sample_ethers (audit_blsDomain demo_audit_config) 42 demo_signer SLASH_LEVEL_OFFLINE 7 ev = Inr h" for ev by (rule demo_messages)
  have v: "\<exists>d st'. handleViolation demo_audit_config demo_silent_env (offline_violation demo_audit_config sample_ethers demo_signer demo_node_id 7 ''0xbb'' ms now) st = (Inr d, st')
      \<and> txs st' = TxPropose demo_signer SLASH_LEVEL_OFFLINE (computeProofHash sample_ethers (offline_identity demo_audit_config sample_ethers demo_signer 7)) False # txs st"
    if "au_archive st = demo_archive" "au_lastProposalAt st = []" "au_proposedStableKeys st = []" "au_coSignRetryKeys st = []" "au_slashedCoarseKeys st = []" for st ms now
    using that hx [of "computeProofHash sample_ethers (offline_identity demo_audit_config sample_ethers demo_signer 7)"]
    by (auto simp: audit_run_simps demo_silent_env_def demo_offline_env_def demo_audit_env_def demo_archive_def cfg offline_violation_def
        has_text_def no_result_def initial_proof_def coarse_key_of_def txs_def DRY_RUN_TX_SENTINEL_def)
  then have "\<forall>ms now st. \<exists>d st'. au_archive st = demo_archive \<and> au_lastProposalAt st = [] \<and> au_proposedStableKeys st = [] \<and> au_coSignRetryKeys st = [] \<and> au_slashedCoarseKeys st = [] \<longrightarrow>
      handleViolation demo_audit_config demo_silent_env (offline_violation demo_audit_config sample_ethers demo_signer demo_node_id 7 ''0xbb'' ms now) st = (Inr d, st')
      \<and> txs st' = TxPropose demo_signer SLASH_LEVEL_OFFLINE (computeProofHash sample_ethers (offline_identity demo_audit_config sample_ethers demo_signer 7)) False # txs st"
    by blast
  then obtain d st' where run: "\<And>ms now st. au_archive st = demo_archive \<and> au_lastProposalAt st = [] \<and> au_proposedStableKeys st = [] \<and> au_coSignRetryKeys st = [] \<and> au_slashedCoarseKeys st = [] \<Longrightarrow>
      handleViolation demo_audit_config demo_silent_env (offline_violation demo_audit_config sample_ethers demo_signer demo_node_id 7 ''0xbb'' ms now) st = (Inr (d ms now st), st' ms now st)"
    "\<And>ms now st. au_archive st = demo_archive \<and> au_lastProposalAt st = [] \<and> au_proposedStableKeys st = [] \<and> au_coSignRetryKeys st = [] \<and> au_slashedCoarseKeys st = [] \<Longrightarrow>
      map fst (au_txs (st' ms now st)) = TxPropose demo_signer SLASH_LEVEL_OFFLINE (computeProofHash sample_ethers (offline_identity demo_audit_config sample_ethers demo_signer 7)) False # txs st"
    unfolding txs_def by metis
  have env: "ae_ethers demo_silent_env = sample_ethers" "ae_clock demo_silent_env = (\<lambda>_. 1000000000)" "ae_getViolationBlock demo_silent_env = (\<lambda>_. Inr (7, ''0xbb''))"
    "ae_getBlockTimestamp demo_silent_env = (\<lambda>_. Inr 1000000)" "ae_getLastSeen demo_silent_env demo_node_id = Some 2000" "ae_getOperatorNodeId demo_silent_env = (\<lambda>_ _. Inr (Some demo_node_id))"
    by (simp_all add: demo_silent_env_def demo_offline_env_def demo_audit_env_def)
  show ?thesis
    by (simp add: audit_tick_def tick_sweep_def pruneDedupState_def refreshDerivedOperators_def effectiveWatchlist_def refresh_node_ids_def auditOfflineForOperator_def
        audit_clock_def sbind_def scatch_def Let_def env cfg node demo_audit_def AuditService_new_def has_text_def OFFLINE_THRESHOLD_MS_def run txs_def)
qed

theorem offline_proposals_rest_on_signed_heartbeats_witness:
  "\<exists>nodeId h deadline. txs (snd (audit_tick demo_audit_config demo_silent_env demo_audit)) = [TxPropose demo_signer SLASH_LEVEL_OFFLINE h False]
     \<and> signed_evidence demo_heartbeat_env demo_silence nodeId deadline"
proof -
  have "list_all (audits_at_most MAX_LIVENESS_LEDGER) demo_silence" by (simp add: demo_silence_def demo_heartbeats_def audits_at_most_def MAX_LIVENESS_LEDGER_def)
  from offline_proposals_rest_on_signed_heartbeats [OF demo_silence_reads this, of demo_audit_config demo_audit] demo_silence_files
  show ?thesis by (fastforce simp: txs_def demo_audit_def AuditService_new_def)
qed

theorem replayed_heartbeat_becomes_offline_evidence_witness:
  "auditOfflineForOperator (demo_audit_config\<lparr>ac_offlineEnabled := True, ac_gossip := True, ac_blsAggregatorAddress := ''0xb''\<rparr>)
      (demo_offline_env\<lparr>ae_getLastSeen := (\<lambda>_. None)\<rparr>) ''0xop'' (7, ''0xh'') (Some demo_node_id) demo_audit = (Inr (), demo_audit)"
proof -
  have run: "hb_run demo_heartbeat_env demo_heartbeats
      = heartbeat_done demo_heartbeat_env (length (lv_verifying demo_audited)) 0 (heartbeat_gate (Some 1) demo_node_id (Some (demo_auth 1000)) 1000 0 demo_audited)"
    by (simp add: hb_run_def demo_heartbeats_def demo_audited_def setRelevantNodeIds_def liveness_new_def)
  have none: "reads_ledger (demo_offline_env\<lparr>ae_getLastSeen := (\<lambda>_. None)\<rparr>) demo_audited"
    by (simp add: reads_ledger_def getLastSeen_def demo_audited_def setRelevantNodeIds_def liveness_new_def)
  have "map_of (lv_ledger demo_audited) demo_node_id = None" by (simp add: demo_audited_def setRelevantNodeIds_def liveness_new_def)
  from replayed_heartbeat_becomes_offline_evidence [of demo_heartbeat_env demo_node_id "demo_auth 1000" 1000 1000 "Some 1" demo_audited
      "demo_offline_env\<lparr>ae_getLastSeen := (\<lambda>_. None)\<rparr>" demo_offline_env 0 0
      "demo_audit_config\<lparr>ac_offlineEnabled := True, ac_gossip := True, ac_blsAggregatorAddress := ''0xb''\<rparr>" 7 1000000 demo_audit "''0xop''" "''0xh''",
      OF heartbeat_demo_verify [of 1000 "of_int 1000"] _ _ _ _ _ demo_room this none demo_reads [unfolded run]]
  show ?thesis by (simp add: demo_auth_def demo_offline_env_def OFFLINE_THRESHOLD_MS_def)
qed

end
