(* ===== verification/Gossip_Mesh.thy ===== *)
theory Gossip_Mesh
  imports Heartbeat "HOL-Library.Multiset"
begin

text \<open>
  The mesh of \<^verbatim>\<open>src/modules/gossip/gossip.service.ts\<close>: reception and propagation of messages, membership, the versioned data store, failure detection, the known-peers file, and the endpoint
  check of \<^verbatim>\<open>gossip-whitelist-validator.ts\<close>. A received message has the fields of the interface \<^verbatim>\<open>GossipMessage\<close> with their declared types; its \<^verbatim>\<open>data\<close> is a \<open>payload\<close>.

  \<open>gossip\<close> holds the mutable fields of the service; maps are lists in insertion order. Sockets are numbers, \<open>gs_open\<close> lists those whose \<^verbatim>\<open>readyState\<close> is \<^verbatim>\<open>OPEN\<close>. What leaves the
  service is logged: \<open>gs_sent\<close> (messages written to sockets, newest first), \<open>gs_dialed\<close> (URLs handed to a new \<^verbatim>\<open>WebSocket\<close>), \<open>gs_scheduled\<close> (endpoints whose delayed \<^verbatim>\<open>connectToPeer\<close> is still to run),
  \<open>gs_saveDue\<close> (delayed saves) and \<open>gs_unhandled\<close> (rejected promises that nothing handles, which end a Node.js process). The co-sign messages, which leave these fields alone, are the theories \<open>Cosign_Collector\<close> and \<open>Quorum_Cosigner\<close>; the audit part of a heartbeat is \<open>Heartbeat\<close>.
  \<open>gossip_env\<close> is the world of one call: one reading of the clock, UUIDs, the URL parser and printer, the outcome of \<^verbatim>\<open>Math.random\<close>; a call is one step, the \<^verbatim>\<open>await\<close> between two reconnections included.

  Main results: data converges whatever the order, repetition and route of the updates; one message is passed on to at most the fan-out number of open connections and, while its id is remembered, only once;
  the node never lists itself as a peer and dials sanitised WebSocket URLs only; the ledger of the running service is exactly a run of \<open>Heartbeat\<close>; and an announced endpoint that is no WebSocket URL ends in an
  unhandled rejection.
\<close>

section \<open>Definitions\<close>

datatype peer_status = PeerActive | PeerInactive | PeerSuspected

record peer_claim =
  pc_id :: string
  pc_publicKey :: "string option"
  pc_apiEndpoint :: "string option"
  pc_gossipEndpoint :: "string option"
  pc_region :: "string option"
  pc_capabilities :: "string list option"
  pc_version :: "string option"

record peer_info =
  pr_publicKey :: "string option"
  pr_apiEndpoint :: "string option"
  pr_gossipEndpoint :: "string option"
  pr_status :: peer_status
  pr_lastSeen :: int
  pr_region :: "string option"
  pr_capabilities :: "string list option"
  pr_version :: "string option"
  pr_heartbeatCount :: nat

record data_entry =
  de_value :: string
  de_version :: rat
  de_timestamp :: int

datatype payload =
    JoinInfo peer_claim
  | PeerDiscovery "peer_claim list"
  | PeerAnnouncement peer_claim
  | Leave
  | GossipData string string rat
  | Sync "(string \<times> data_entry) list"
  | Beat "heartbeat_auth option"
  | CosignRequest
  | CosignResponse

record gossip_message =
  gm_from :: string
  gm_data :: payload
  gm_timestamp :: int
  gm_ttl :: int
  gm_messageId :: string
  gm_version :: int

record history =
  hi_timestamp :: int
  hi_propagatedTo :: "string list"

record gossip_config =
  gc_fanout :: int
  gc_maxTTL :: int
  gc_suspicionTimeout :: int
  gc_cleanupTimeout :: int
  gc_maxMessageHistory :: nat
  gc_endpoint :: string
  gc_bootstrapPeers :: "string list"

record gossip_stats =
  gt_totalPeers :: nat
  gt_activePeers :: nat
  gt_suspectedPeers :: nat
  gt_messagesSent :: nat
  gt_messagesReceived :: nat
  gt_gossipRounds :: nat
  gt_lastGossipTime :: "int option"

record url =
  ur_protocol :: string
  ur_username :: string
  ur_password :: string
  ur_host :: string
  ur_pathname :: string
  ur_search :: string
  ur_hash :: string

record gossip_env =
  ge_now :: int
  ge_nodeId :: string
  ge_nodeInfo :: peer_claim
  ge_uuid :: "nat \<Rightarrow> string"
  ge_shuffle :: "(string \<times> nat) list \<Rightarrow> (string \<times> nat) list"
  ge_pick :: "nat \<Rightarrow> nat"
  ge_parseUrl :: "string \<Rightarrow> url option"
  ge_urlString :: "url \<Rightarrow> string"

record gossip =
  gs_peers :: "(string \<times> peer_info) list"
  gs_connections :: "(string \<times> nat) list"
  gs_open :: "nat list"
  gs_data :: "(string \<times> data_entry) list"
  gs_version :: int
  gs_history :: "(string \<times> history) list"
  gs_stats :: gossip_stats
  gs_scheduled :: "string list"
  gs_dialed :: "string list"
  gs_saveDue :: nat
  gs_sent :: "(nat \<times> gossip_message) list"
  gs_uuids :: nat
  gs_unhandled :: nat
  gs_liveness :: liveness

definition gossip_new :: gossip where
  "gossip_new = \<lparr>gs_peers = [], gs_connections = [], gs_open = [], gs_data = [], gs_version = 0, gs_history = [],
     gs_stats = \<lparr>gt_totalPeers = 0, gt_activePeers = 0, gt_suspectedPeers = 0, gt_messagesSent = 0, gt_messagesReceived = 0, gt_gossipRounds = 0, gt_lastGossipTime = None\<rparr>,
     gs_scheduled = [], gs_dialed = [], gs_saveDue = 0, gs_sent = [], gs_uuids = 0, gs_unhandled = 0, gs_liveness = liveness_new\<rparr>"

subsection \<open>The endpoint check\<close>

definition ALLOWED_PROTOCOLS :: "string list" where "ALLOWED_PROTOCOLS = [''ws:'', ''wss:'']"

text \<open>The four assignments that drop the credentials, the query and the fragment.\<close>

definition sanitized :: "url \<Rightarrow> url" where
  "sanitized url = url\<lparr>ur_username := [], ur_password := [], ur_search := [], ur_hash := []\<rparr>"

definition validateEndpoint :: "gossip_env \<Rightarrow> string \<Rightarrow> string result" where
  "validateEndpoint G endpoint =
     (if endpoint = [] then Inl BadRequest
      else case ge_parseUrl G (trim endpoint) of None \<Rightarrow> Inl BadRequest
      | Some url \<Rightarrow> if ur_protocol url \<notin> set ALLOWED_PROTOCOLS then Inl BadRequest else Inr (ge_urlString G (sanitized url)))"

fun validateEndpoints :: "gossip_env \<Rightarrow> string list \<Rightarrow> string list" where
  "validateEndpoints G [] = []"
| "validateEndpoints G (endpoint # rest) =
     (case validateEndpoint G endpoint of Inl _ \<Rightarrow> validateEndpoints G rest | Inr v \<Rightarrow> v # validateEndpoints G rest)"

subsection \<open>Sending\<close>

definition map_stats :: "(gossip_stats \<Rightarrow> gossip_stats) \<Rightarrow> gossip \<Rightarrow> gossip" where
  "map_stats f st = st\<lparr>gs_stats := f (gs_stats st)\<rparr>"

definition count_sent :: "gossip \<Rightarrow> gossip" where
  "count_sent = map_stats (\<lambda>s. s\<lparr>gt_messagesSent := Suc (gt_messagesSent s)\<rparr>)"

definition sendMessage :: "nat \<Rightarrow> gossip_message \<Rightarrow> gossip \<Rightarrow> gossip" where
  "sendMessage ws msg st = (if ws \<in> set (gs_open st) then st\<lparr>gs_sent := (ws, msg) # gs_sent st\<rparr> else st)"

definition broadcastMessage :: "gossip_message \<Rightarrow> gossip \<Rightarrow> gossip" where
  "broadcastMessage msg st = fold (\<lambda>(_, ws) st. if ws \<in> set (gs_open st) then count_sent (sendMessage ws msg st) else st) (gs_connections st) st"

text \<open>A message of this node, with a fresh id.\<close>

definition own_message :: "gossip_env \<Rightarrow> payload \<Rightarrow> int \<Rightarrow> gossip \<Rightarrow> gossip_message \<times> gossip" where
  "own_message G d ttl st =
     (\<lparr>gm_from = ge_nodeId G, gm_data = d, gm_timestamp = ge_now G, gm_ttl = ttl, gm_messageId = ge_uuid G (gs_uuids st), gm_version = gs_version st\<rparr>,
      st\<lparr>gs_uuids := Suc (gs_uuids st)\<rparr>)"

definition sendOwn :: "gossip_env \<Rightarrow> nat \<Rightarrow> payload \<Rightarrow> int \<Rightarrow> gossip \<Rightarrow> gossip" where
  "sendOwn G ws d ttl st = (case own_message G d ttl st of (msg, st') \<Rightarrow> sendMessage ws msg st')"

definition broadcastOwn :: "gossip_env \<Rightarrow> payload \<Rightarrow> int \<Rightarrow> gossip \<Rightarrow> gossip" where
  "broadcastOwn G d ttl st = (case own_message G d ttl st of (msg, st') \<Rightarrow> broadcastMessage msg st')"

definition joinNetwork :: "gossip_config \<Rightarrow> gossip_env \<Rightarrow> gossip \<Rightarrow> gossip" where
  "joinNetwork cfg G = broadcastOwn G (JoinInfo (ge_nodeInfo G)) (gc_maxTTL cfg)"

definition leaveNetwork :: "gossip_config \<Rightarrow> gossip_env \<Rightarrow> gossip \<Rightarrow> gossip" where
  "leaveNetwork cfg G = broadcastOwn G Leave (gc_maxTTL cfg)"

definition sendJoinMessage :: "gossip_env \<Rightarrow> nat \<Rightarrow> gossip \<Rightarrow> gossip" where
  "sendJoinMessage G ws = sendOwn G ws (JoinInfo (ge_nodeInfo G)) 0"

definition sendSyncMessage :: "gossip_env \<Rightarrow> nat \<Rightarrow> gossip \<Rightarrow> gossip" where
  "sendSyncMessage G ws st = sendOwn G ws (Sync (gs_data st)) 0 st"

text \<open>\<^verbatim>\<open>sendHeartbeat\<close> after its signature was made; \<open>auth\<close> is the result of \<open>heartbeat_auth_payload\<close>.\<close>

definition sendHeartbeat :: "gossip_env \<Rightarrow> heartbeat_auth option \<Rightarrow> gossip \<Rightarrow> gossip" where
  "sendHeartbeat G auth = broadcastOwn G (Beat auth) 1"

definition claim_of :: "string \<times> peer_info \<Rightarrow> peer_claim" where
  "claim_of = (\<lambda>(i, p). \<lparr>pc_id = i, pc_publicKey = pr_publicKey p, pc_apiEndpoint = pr_apiEndpoint p, pc_gossipEndpoint = pr_gossipEndpoint p,
     pc_region = pr_region p, pc_capabilities = pr_capabilities p, pc_version = pr_version p\<rparr>)"

definition sendKnownPeersToNewPeer :: "gossip_env \<Rightarrow> nat \<Rightarrow> string \<Rightarrow> gossip \<Rightarrow> gossip" where
  "sendKnownPeersToNewPeer G ws newPeerId st =
     (let knownPeers = map claim_of (filter (\<lambda>(i, p). i \<noteq> newPeerId \<and> pr_status p = PeerActive) (gs_peers st))
      in if knownPeers = [] then st else sendOwn G ws (PeerDiscovery knownPeers) 0 st)"

definition announceNewPeerToOthers :: "gossip_env \<Rightarrow> string \<times> peer_info \<Rightarrow> nat \<Rightarrow> gossip \<Rightarrow> gossip" where
  "announceNewPeerToOthers G newPeer excludeWs st =
     (case own_message G (PeerAnnouncement (claim_of newPeer)) 1 st of (announcement, st') \<Rightarrow>
        fold (\<lambda>(_, ws) st. if ws \<noteq> excludeWs \<and> ws \<in> set (gs_open st) then count_sent (sendMessage ws announcement st) else st) (gs_connections st') st')"

subsection \<open>Statistics\<close>

definition updateStats :: "gossip \<Rightarrow> gossip" where
  "updateStats st = map_stats (\<lambda>s. s\<lparr>gt_totalPeers := length (gs_peers st),
     gt_activePeers := length (filter (\<lambda>(_, p). pr_status p = PeerActive) (gs_peers st)),
     gt_suspectedPeers := length (filter (\<lambda>(_, p). pr_status p = PeerSuspected) (gs_peers st))\<rparr>) st"

subsection \<open>Membership\<close>

definition or_text :: "string option \<Rightarrow> string option \<Rightarrow> string option" where
  "or_text a b = (case a of None \<Rightarrow> b | Some s \<Rightarrow> if s = [] then b else Some s)"

definition truthy_text :: "string option \<Rightarrow> bool" where
  "truthy_text a = (case a of None \<Rightarrow> False | Some s \<Rightarrow> s \<noteq> [])"

definition or_list :: "string list option \<Rightarrow> string list option \<Rightarrow> string list option" where
  "or_list a b = (case a of None \<Rightarrow> b | Some l \<Rightarrow> Some l)"

definition schedule_connect :: "gossip_config \<Rightarrow> string option \<Rightarrow> gossip \<Rightarrow> gossip" where
  "schedule_connect cfg endpoint st =
     (if truthy_text endpoint \<and> endpoint \<noteq> Some (gc_endpoint cfg) then st\<lparr>gs_scheduled := gs_scheduled st @ [the endpoint]\<rparr> else st)"

definition discover_peer :: "gossip_config \<Rightarrow> gossip_env \<Rightarrow> peer_claim \<Rightarrow> gossip \<Rightarrow> gossip" where
  "discover_peer cfg G info st =
     (if pc_id info \<noteq> ge_nodeId G \<and> pc_id info \<notin> fst ` set (gs_peers st) then
        let peer = \<lparr>pr_publicKey = pc_publicKey info, pr_apiEndpoint = pc_apiEndpoint info, pr_gossipEndpoint = pc_gossipEndpoint info,
              pr_status = PeerActive, pr_lastSeen = ge_now G, pr_region = or_text (pc_region info) (Some ''local''),
              pr_capabilities = or_list (pc_capabilities info) (Some [''bls-signing'']), pr_version = or_text (pc_version info) (Some ''1.0.0''), pr_heartbeatCount = 0\<rparr>
        in schedule_connect cfg (pr_gossipEndpoint peer) (st\<lparr>gs_peers := AList.update (pc_id info) peer (gs_peers st)\<rparr>)
      else st)"

definition handlePeerDiscoveryMessage :: "gossip_config \<Rightarrow> gossip_env \<Rightarrow> peer_claim list \<Rightarrow> gossip \<Rightarrow> gossip" where
  "handlePeerDiscoveryMessage cfg G peers st = updateStats (fold (discover_peer cfg G) peers st)"

definition handlePeerAnnouncementMessage :: "gossip_config \<Rightarrow> gossip_env \<Rightarrow> peer_claim \<Rightarrow> gossip \<Rightarrow> gossip" where
  "handlePeerAnnouncementMessage cfg G info st =
     (if pc_id info \<noteq> ge_nodeId G \<and> pc_id info \<notin> fst ` set (gs_peers st) then updateStats (discover_peer cfg G info st) else st)"

definition admit_peer :: "gossip_config \<Rightarrow> gossip_env \<Rightarrow> string \<Rightarrow> peer_claim \<Rightarrow> string option \<Rightarrow> nat \<Rightarrow> gossip \<Rightarrow> gossip" where
  "admit_peer cfg G peerId info gossipEndpoint ws st =
     (let existing = map_of (gs_peers st) peerId;
          peer = \<lparr>pr_publicKey = or_text (pc_publicKey info) (Option.bind existing pr_publicKey),
             pr_apiEndpoint = or_text (pc_apiEndpoint info) (Option.bind existing pr_apiEndpoint), pr_gossipEndpoint = gossipEndpoint,
             pr_status = PeerActive, pr_lastSeen = ge_now G, pr_region = or_text (pc_region info) (Option.bind existing pr_region),
             pr_capabilities = or_list (or_list (pc_capabilities info) (Option.bind existing pr_capabilities)) (Some [''bls-signing'']),
             pr_version = or_text (pc_version info) (Option.bind existing pr_version), pr_heartbeatCount = 0\<rparr>;
          isNewPeer = (existing = None);
          st1 = st\<lparr>gs_peers := AList.update peerId peer (gs_peers st)\<rparr>;
          st2 = (if truthy_text gossipEndpoint \<and> the gossipEndpoint \<notin> fst ` set (gs_connections st1)
                 then st1\<lparr>gs_connections := AList.update (the gossipEndpoint) ws (gs_connections st1)\<rparr> else st1);
          st3 = (if isNewPeer then announceNewPeerToOthers G (peerId, peer) ws (sendKnownPeersToNewPeer G ws peerId (sendSyncMessage G ws st2)) else st2);
          st4 = updateStats (if isNewPeer then schedule_connect cfg gossipEndpoint st3 else st3)
      in if isNewPeer then st4\<lparr>gs_saveDue := Suc (gs_saveDue st4)\<rparr> else st4)"

definition handleJoinMessage :: "gossip_config \<Rightarrow> gossip_env \<Rightarrow> gossip_message \<Rightarrow> nat \<Rightarrow> gossip \<Rightarrow> gossip" where
  "handleJoinMessage cfg G msg ws st =
     (if gm_from msg = ge_nodeId G then st
      else (case gm_data msg of
          PeerDiscovery peers \<Rightarrow> handlePeerDiscoveryMessage cfg G peers st
        | PeerAnnouncement peer \<Rightarrow> handlePeerAnnouncementMessage cfg G peer st
        | JoinInfo info \<Rightarrow>
            let claimed = or_text (pc_gossipEndpoint info) (Option.bind (map_of (gs_peers st) (gm_from msg)) pr_gossipEndpoint)
            in if truthy_text claimed
               then (case validateEndpoint G (the claimed) of Inl _ \<Rightarrow> st | Inr v \<Rightarrow> admit_peer cfg G (gm_from msg) info (Some v) ws st)
               else admit_peer cfg G (gm_from msg) info claimed ws st
        | _ \<Rightarrow> st))"

definition drop_connection :: "string option \<Rightarrow> gossip \<Rightarrow> gossip" where
  "drop_connection endpoint st =
     (if truthy_text endpoint then
        (case map_of (gs_connections st) (the endpoint) of None \<Rightarrow> st
         | Some ws \<Rightarrow> st\<lparr>gs_open := filter (\<lambda>w. w \<noteq> ws) (gs_open st), gs_connections := AList.delete (the endpoint) (gs_connections st)\<rparr>)
      else st)"

definition handleLeaveMessage :: "gossip_message \<Rightarrow> gossip \<Rightarrow> gossip" where
  "handleLeaveMessage msg st =
     (case map_of (gs_peers st) (gm_from msg) of None \<Rightarrow> st
      | Some peer \<Rightarrow> updateStats (drop_connection (pr_gossipEndpoint peer)
          (st\<lparr>gs_peers := AList.update (gm_from msg) (peer\<lparr>pr_status := PeerInactive\<rparr>) (gs_peers st)\<rparr>)))"

subsection \<open>The data store\<close>

definition apply_update :: "string \<times> data_entry \<Rightarrow> gossip \<Rightarrow> gossip" where
  "apply_update = (\<lambda>(key, e) st.
     let currentVersion = (case map_of (gs_data st) key of None \<Rightarrow> 0 | Some d \<Rightarrow> de_version d)
     in if de_version e > currentVersion then st\<lparr>gs_data := AList.update key e (gs_data st), gs_version := gs_version st + 1\<rparr> else st)"

definition handleGossipDataMessage :: "string \<Rightarrow> string \<Rightarrow> rat \<Rightarrow> int \<Rightarrow> gossip \<Rightarrow> gossip" where
  "handleGossipDataMessage key val version timestamp = apply_update (key, \<lparr>de_value = val, de_version = version, de_timestamp = timestamp\<rparr>)"

definition handleSyncMessage :: "(string \<times> data_entry) list \<Rightarrow> gossip \<Rightarrow> gossip" where
  "handleSyncMessage syncData = fold apply_update syncData"

definition setData :: "gossip_env \<Rightarrow> string \<Rightarrow> string \<Rightarrow> gossip \<Rightarrow> gossip" where
  "setData G key val st =
     st\<lparr>gs_data := AList.update key \<lparr>de_value = val, de_version = of_int (ge_now G), de_timestamp = ge_now G\<rparr> (gs_data st), gs_version := gs_version st + 1\<rparr>"

definition getData :: "gossip \<Rightarrow> string \<Rightarrow> string option" where
  "getData st key = map_option de_value (map_of (gs_data st) key)"

subsection \<open>Reception and propagation\<close>

definition handleHeartbeatMessage :: "gossip_env \<Rightarrow> gossip_message \<Rightarrow> nat \<Rightarrow> heartbeat_auth option \<Rightarrow> gossip \<Rightarrow> gossip" where
  "handleHeartbeatMessage G msg ws auth st =
     (let st1 = (case map_of (gs_peers st) (gm_from msg) of None \<Rightarrow> st
            | Some peer \<Rightarrow> st\<lparr>gs_peers := AList.update (gm_from msg)
                (peer\<lparr>pr_lastSeen := ge_now G, pr_status := PeerActive, pr_heartbeatCount := Suc (pr_heartbeatCount peer)\<rparr>) (gs_peers st)\<rparr>)
      in st1\<lparr>gs_liveness := heartbeat_gate (Some ws) (gm_from msg) auth (ge_now G) (ge_now G) (gs_liveness st1)\<rparr>)"

definition cleanupMessageHistory :: "gossip_config \<Rightarrow> gossip_env \<Rightarrow> gossip \<Rightarrow> gossip" where
  "cleanupMessageHistory cfg G st = st\<lparr>gs_history := filter (\<lambda>(_, h). \<not> ge_now G - hi_timestamp h > gc_cleanupTimeout cfg) (gs_history st)\<rparr>"

text \<open>\<^verbatim>\<open>shuffled.slice(0, Math.min(count, peers.length))\<close>\<close>

definition selectRandomPeers :: "gossip_env \<Rightarrow> (string \<times> nat) list \<Rightarrow> int \<Rightarrow> (string \<times> nat) list" where
  "selectRandomPeers G peers wanted =
     (let n = min wanted (int (length peers)); shuffled = ge_shuffle G peers
      in if n \<ge> 0 then take (nat n) shuffled else take (length shuffled - nat (- n)) shuffled)"

definition forward :: "gossip_message \<Rightarrow> string \<times> nat \<Rightarrow> gossip \<Rightarrow> gossip" where
  "forward msg = (\<lambda>(endpoint, ws) st.
     let st1 = sendMessage ws msg st
     in count_sent (st1\<lparr>gs_history := (case map_of (gs_history st1) (gm_messageId msg) of None \<Rightarrow> gs_history st1
          | Some h \<Rightarrow> AList.update (gm_messageId msg) (h\<lparr>hi_propagatedTo := endpoint # hi_propagatedTo h\<rparr>) (gs_history st1))\<rparr>))"

definition propagateMessage :: "gossip_config \<Rightarrow> gossip_env \<Rightarrow> gossip_message \<Rightarrow> nat \<Rightarrow> gossip \<Rightarrow> gossip" where
  "propagateMessage cfg G msg sender st =
     (case map_of (gs_history st) (gm_messageId msg) of None \<Rightarrow> st
      | Some h \<Rightarrow>
          let availablePeers = filter (\<lambda>(endpoint, ws). ws \<noteq> sender \<and> ws \<in> set (gs_open st) \<and> endpoint \<notin> set (hi_propagatedTo h)) (gs_connections st)
          in fold (forward (msg\<lparr>gm_ttl := gm_ttl msg - 1\<rparr>)) (selectRandomPeers G availablePeers (gc_fanout cfg)) st)"

definition dispatch :: "gossip_config \<Rightarrow> gossip_env \<Rightarrow> gossip_message \<Rightarrow> nat \<Rightarrow> gossip \<Rightarrow> gossip" where
  "dispatch cfg G msg ws st =
     (case gm_data msg of
        JoinInfo _ \<Rightarrow> handleJoinMessage cfg G msg ws st
      | PeerDiscovery _ \<Rightarrow> handleJoinMessage cfg G msg ws st
      | PeerAnnouncement _ \<Rightarrow> handleJoinMessage cfg G msg ws st
      | Leave \<Rightarrow> handleLeaveMessage msg st
      | GossipData key val version \<Rightarrow> handleGossipDataMessage key val version (gm_timestamp msg) st
      | Sync items \<Rightarrow> handleSyncMessage items st
      | Beat auth \<Rightarrow> handleHeartbeatMessage G msg ws auth st
      | CosignRequest \<Rightarrow> st
      | CosignResponse \<Rightarrow> st)"

definition handleGossipMessage :: "gossip_config \<Rightarrow> gossip_env \<Rightarrow> nat \<Rightarrow> gossip_message \<Rightarrow> gossip \<Rightarrow> gossip" where
  "handleGossipMessage cfg G ws msg st =
     (let st1 = map_stats (\<lambda>s. s\<lparr>gt_messagesReceived := Suc (gt_messagesReceived s)\<rparr>) st in
      if gm_messageId msg \<in> fst ` set (gs_history st1) then st1
      else let st2 = st1\<lparr>gs_history := AList.update (gm_messageId msg) \<lparr>hi_timestamp = gm_timestamp msg, hi_propagatedTo = []\<rparr> (gs_history st1)\<rparr>;
               st3 = (if length (gs_history st2) > gc_maxMessageHistory cfg then cleanupMessageHistory cfg G st2 else st2);
               st4 = dispatch cfg G msg ws st3
           in if gm_ttl msg > 0 then propagateMessage cfg G msg ws st4 else st4)"

subsection \<open>Rounds and failure detection\<close>

definition gossipRandomData :: "gossip_config \<Rightarrow> gossip_env \<Rightarrow> nat \<Rightarrow> gossip \<Rightarrow> gossip" where
  "gossipRandomData cfg G ws st =
     (if gs_data st = [] then st
      else case gs_data st ! (ge_pick G (gs_uuids st) mod length (gs_data st)) of (key, d) \<Rightarrow>
        case own_message G (GossipData key (de_value d) (de_version d)) (gc_maxTTL cfg) st of (msg, st1) \<Rightarrow>
          let st2 = count_sent (sendMessage ws msg st1)
          in st2\<lparr>gs_history := AList.update (gm_messageId msg) \<lparr>hi_timestamp = gm_timestamp msg, hi_propagatedTo = []\<rparr> (gs_history st2)\<rparr>)"

definition performGossipRound :: "gossip_config \<Rightarrow> gossip_env \<Rightarrow> gossip \<Rightarrow> gossip" where
  "performGossipRound cfg G st =
     (if gs_connections st = [] then st
      else let st1 = map_stats (\<lambda>s. s\<lparr>gt_gossipRounds := Suc (gt_gossipRounds s), gt_lastGossipTime := Some (ge_now G)\<rparr>) st;
               available = filter (\<lambda>(_, ws). ws \<in> set (gs_open st1)) (gs_connections st1)
           in if available = [] then st1
              else fold (\<lambda>(_, ws). gossipRandomData cfg G ws) (selectRandomPeers G available (gc_fanout cfg)) st1)"

definition suspect :: "gossip_config \<Rightarrow> gossip_env \<Rightarrow> peer_info \<Rightarrow> peer_info" where
  "suspect cfg G p = (if ge_now G - pr_lastSeen p > gc_suspicionTimeout cfg \<and> pr_status p = PeerActive then p\<lparr>pr_status := PeerSuspected\<rparr> else p)"

definition checkPeerHealth :: "gossip_config \<Rightarrow> gossip_env \<Rightarrow> gossip \<Rightarrow> gossip" where
  "checkPeerHealth cfg G st = updateStats (st\<lparr>gs_peers := map (\<lambda>(i, p). (i, suspect cfg G p)) (gs_peers st)\<rparr>)"

definition expired :: "gossip_config \<Rightarrow> gossip_env \<Rightarrow> peer_info \<Rightarrow> bool" where
  "expired cfg G p = (ge_now G - pr_lastSeen p > gc_cleanupTimeout cfg \<and> pr_status p \<noteq> PeerActive)"

definition remove_peer :: "string \<Rightarrow> gossip \<Rightarrow> gossip" where
  "remove_peer peerId st =
     (let st1 = (case map_of (gs_peers st) peerId of None \<Rightarrow> st | Some peer \<Rightarrow> drop_connection (pr_gossipEndpoint peer) st)
      in st1\<lparr>gs_peers := AList.delete peerId (gs_peers st1)\<rparr>)"

definition cleanupInactivePeers :: "gossip_config \<Rightarrow> gossip_env \<Rightarrow> gossip \<Rightarrow> gossip" where
  "cleanupInactivePeers cfg G st =
     (let peersToRemove = map fst (filter (\<lambda>(_, p). expired cfg G p) (gs_peers st));
          st1 = fold remove_peer peersToRemove st
      in if peersToRemove \<noteq> [] then updateStats st1 else st1)"

subsection \<open>Connections and the known-peers file\<close>

text \<open>\<^verbatim>\<open>connectToPeer\<close> up to the new socket; \<open>connection_open\<close> and \<open>cleanupConnection\<close> are its handlers.\<close>

definition connectToPeer :: "gossip_env \<Rightarrow> string \<Rightarrow> (gossip, unit) io" where
  "connectToPeer G endpoint st = (case validateEndpoint G endpoint of Inl e \<Rightarrow> (Inl e, st) | Inr v \<Rightarrow> (Inr (), st\<lparr>gs_dialed := v # gs_dialed st\<rparr>))"

text \<open>A socket a peer opened to this node.\<close>

definition accept_connection :: "nat \<Rightarrow> gossip \<Rightarrow> gossip" where
  "accept_connection ws st = st\<lparr>gs_open := ws # gs_open st\<rparr>"

definition connection_open :: "gossip_env \<Rightarrow> string \<Rightarrow> nat \<Rightarrow> gossip \<Rightarrow> gossip" where
  "connection_open G endpoint ws st =
     sendJoinMessage G ws (st\<lparr>gs_open := ws # gs_open st, gs_connections := AList.update endpoint ws (gs_connections st)\<rparr>)"

definition cleanupConnection :: "nat \<Rightarrow> gossip \<Rightarrow> gossip" where
  "cleanupConnection ws st = st\<lparr>gs_open := filter (\<lambda>w. w \<noteq> ws) (gs_open st), gs_connections := filter (\<lambda>(_, w). w \<noteq> ws) (gs_connections st),
     gs_liveness := forget_connection ws (gs_liveness st)\<rparr>"

text \<open>The close handler of a socket this node dialed.\<close>

definition dialed_closed :: "string \<Rightarrow> nat \<Rightarrow> gossip \<Rightarrow> gossip" where
  "dialed_closed endpoint ws st = st\<lparr>gs_open := filter (\<lambda>w. w \<noteq> ws) (gs_open st), gs_connections := AList.delete endpoint (gs_connections st),
     gs_liveness := forget_connection ws (gs_liveness st)\<rparr>"

text \<open>The callback of the timer does not look at the promise of \<^verbatim>\<open>connectToPeer\<close>.\<close>

definition run_scheduled :: "gossip_env \<Rightarrow> gossip \<Rightarrow> gossip" where
  "run_scheduled G st = (case gs_scheduled st of [] \<Rightarrow> st
     | endpoint # rest \<Rightarrow> (case connectToPeer G endpoint (st\<lparr>gs_scheduled := rest\<rparr>) of
          (Inl _, st') \<Rightarrow> st'\<lparr>gs_unhandled := Suc (gs_unhandled st')\<rparr>
        | (Inr _, st') \<Rightarrow> st'))"

definition connect_all :: "gossip_env \<Rightarrow> string list \<Rightarrow> gossip \<Rightarrow> gossip" where
  "connect_all G endpoints st = fold (\<lambda>endpoint st. snd (connectToPeer G endpoint st)) endpoints st"

definition connectToBootstrapPeers :: "gossip_config \<Rightarrow> gossip_env \<Rightarrow> gossip \<Rightarrow> gossip" where
  "connectToBootstrapPeers cfg G st =
     connect_all G (filter (\<lambda>peer. peer \<noteq> gc_endpoint cfg \<and> peer \<notin> fst ` set (gs_connections st)) (gc_bootstrapPeers cfg)) st"

definition foreign_endpoint :: "gossip_config \<Rightarrow> peer_info \<Rightarrow> bool" where
  "foreign_endpoint cfg p = (truthy_text (pr_gossipEndpoint p) \<and> pr_gossipEndpoint p \<noteq> Some (gc_endpoint cfg))"

definition connectToKnownPeers :: "gossip_config \<Rightarrow> gossip_env \<Rightarrow> gossip \<Rightarrow> gossip" where
  "connectToKnownPeers cfg G st =
     connect_all G (map (\<lambda>(_, p). the (pr_gossipEndpoint p))
       (filter (\<lambda>(_, p). foreign_endpoint cfg p \<and> the (pr_gossipEndpoint p) \<notin> fst ` set (gs_connections st)) (gs_peers st))) st"

definition attemptReconnections :: "gossip_config \<Rightarrow> gossip_env \<Rightarrow> gossip \<Rightarrow> gossip" where
  "attemptReconnections cfg G st =
     (let disconnectedPeers = filter (\<lambda>(_, p). (pr_status p \<noteq> PeerActive \<or> the (pr_gossipEndpoint p) \<notin> fst ` set (gs_connections st)) \<and> foreign_endpoint cfg p) (gs_peers st);
          st1 = connect_all G (map (\<lambda>(_, p). the (pr_gossipEndpoint p)) disconnectedPeers) st
      in if gs_connections st1 = [] then connectToKnownPeers cfg G (connectToBootstrapPeers cfg G st1) else st1)"

definition saveKnownPeers :: "gossip \<Rightarrow> (string \<times> peer_info) list" where
  "saveKnownPeers st = filter (\<lambda>(_, p). pr_status p = PeerActive) (gs_peers st)"

definition loadKnownPeers :: "gossip_env \<Rightarrow> (string \<times> peer_info) list option \<Rightarrow> gossip \<Rightarrow> gossip" where
  "loadKnownPeers G file st =
     (case file of None \<Rightarrow> st
      | Some knownPeers \<Rightarrow> fold (\<lambda>(i, p) st. if i \<noteq> ge_nodeId G then st\<lparr>gs_peers := AList.update i (p\<lparr>pr_status := PeerInactive\<rparr>) (gs_peers st)\<rparr> else st) knownPeers st)"

definition getPeers :: "gossip \<Rightarrow> (string \<times> peer_info) list" where
  "getPeers st = filter (\<lambda>(_, p). pr_status p = PeerActive) (gs_peers st)"

section \<open>Frames\<close>

lemma fold_frame: "(\<And>x s. f (g x s) = f s) \<Longrightarrow> f (fold g xs s) = f s"
  by (induction xs arbitrary: s) simp_all

text \<open>Sending touches the log, the counters and the ids only.\<close>

definition same_mesh :: "gossip \<Rightarrow> gossip \<Rightarrow> bool" where
  "same_mesh st st' \<longleftrightarrow> gs_data st' = gs_data st \<and> gs_peers st' = gs_peers st \<and> gs_history st' = gs_history st \<and> gs_connections st' = gs_connections st
     \<and> gs_open st' = gs_open st \<and> gs_dialed st' = gs_dialed st \<and> gs_scheduled st' = gs_scheduled st \<and> gs_unhandled st' = gs_unhandled st \<and> gs_liveness st' = gs_liveness st"

lemma same_mesh_refl [simp]: "same_mesh st st"
  by (simp add: same_mesh_def)

lemma same_mesh_trans [trans]: "same_mesh st st' \<Longrightarrow> same_mesh st' st'' \<Longrightarrow> same_mesh st st''"
  by (simp add: same_mesh_def)

lemma same_mesh_fold: "(\<And>x s. same_mesh s (g x s)) \<Longrightarrow> same_mesh st (fold g xs st)"
  by (induction xs arbitrary: st) (auto intro: same_mesh_trans)

lemma same_mesh_send: "same_mesh st (sendMessage ws msg st)" "same_mesh st (count_sent st)" "same_mesh st (updateStats st)" "same_mesh st (map_stats f st)"
  by (simp_all add: same_mesh_def sendMessage_def count_sent_def updateStats_def map_stats_def)

lemma same_mesh_counted: "same_mesh st (count_sent (sendMessage ws msg st))"
  by (rule same_mesh_trans [OF same_mesh_send(1,2)])

lemma same_mesh_own:
  "same_mesh st (sendOwn G ws d ttl st)" "same_mesh st (broadcastOwn G d ttl st)" "same_mesh st (sendSyncMessage G ws st)"
  "same_mesh st (sendKnownPeersToNewPeer G ws i st)" "same_mesh st (announceNewPeerToOthers G p ws st)"
proof -
  have own: "same_mesh st (snd (own_message G d ttl st))" for d ttl by (simp add: own_message_def same_mesh_def)
  show one: "same_mesh st (sendOwn G ws d ttl st)" for d ttl
    using same_mesh_trans [OF own same_mesh_send(1)] by (simp add: sendOwn_def case_prod_beta)
  have "same_mesh s (broadcastMessage msg s)" for msg s unfolding broadcastMessage_def
    by (rule same_mesh_fold) (auto simp: same_mesh_counted split: prod.splits)
  then show "same_mesh st (broadcastOwn G d ttl st)" using same_mesh_trans [OF own [of d ttl]] by (simp add: broadcastOwn_def case_prod_beta)
  show "same_mesh st (sendSyncMessage G ws st)" by (simp add: sendSyncMessage_def one)
  show "same_mesh st (sendKnownPeersToNewPeer G ws i st)" by (simp add: sendKnownPeersToNewPeer_def one Let_def)
  have "same_mesh s (fold (\<lambda>(_, w) st. if w \<noteq> ws \<and> w \<in> set (gs_open st) then count_sent (sendMessage w msg st) else st) cs s)" for msg s and cs :: "(string \<times> nat) list"
    by (rule same_mesh_fold) (auto simp: same_mesh_counted split: prod.splits)
  then show "same_mesh st (announceNewPeerToOthers G p ws st)" using same_mesh_trans [OF own [of "PeerAnnouncement (claim_of p)" 1]]
    by (cases "own_message G (PeerAnnouncement (claim_of p)) 1 st") (simp add: announceNewPeerToOthers_def)
qed

text \<open>Membership leaves the data, the history and the dialled URLs alone.\<close>

definition same_store :: "gossip \<Rightarrow> gossip \<Rightarrow> bool" where
  "same_store st st' \<longleftrightarrow> gs_data st' = gs_data st \<and> gs_history st' = gs_history st \<and> gs_dialed st' = gs_dialed st"

lemma same_store_trans: "same_store st st' \<Longrightarrow> same_store st' st'' \<Longrightarrow> same_store st st''"
  by (simp add: same_store_def)

lemma mesh_store: "same_mesh st st' \<Longrightarrow> same_store st st'"
  by (simp add: same_mesh_def same_store_def)

lemma same_store_fold: "(\<And>x s. same_store s (g x s)) \<Longrightarrow> same_store st (fold g xs st)"
  by (induction xs arbitrary: st) (auto intro: same_store_trans simp: same_store_def)

lemma store_discover: "same_store st (discover_peer cfg G info st)"
  by (simp add: same_store_def discover_peer_def schedule_connect_def Let_def)

lemma store_drop: "same_store st (drop_connection e st)"
  by (simp add: same_store_def drop_connection_def split: option.split)

lemma own_fields:
  "gs_data (sendSyncMessage G ws s) = gs_data s" "gs_data (sendKnownPeersToNewPeer G ws i s) = gs_data s" "gs_data (announceNewPeerToOthers G p ws s) = gs_data s"
  "gs_history (sendSyncMessage G ws s) = gs_history s" "gs_history (sendKnownPeersToNewPeer G ws i s) = gs_history s" "gs_history (announceNewPeerToOthers G p ws s) = gs_history s"
  "gs_dialed (sendSyncMessage G ws s) = gs_dialed s" "gs_dialed (sendKnownPeersToNewPeer G ws i s) = gs_dialed s" "gs_dialed (announceNewPeerToOthers G p ws s) = gs_dialed s"
  "gs_peers (sendSyncMessage G ws s) = gs_peers s" "gs_peers (sendKnownPeersToNewPeer G ws i s) = gs_peers s" "gs_peers (announceNewPeerToOthers G p ws s) = gs_peers s"
  using same_mesh_own [of s] by (simp_all add: same_mesh_def)

lemma stats_fields [simp]:
  "gs_peers (updateStats s) = gs_peers s" "gs_sent (updateStats s) = gs_sent s" "same_store st (updateStats s) = same_store st s"
  by (simp_all add: updateStats_def map_stats_def same_store_def)

lemma store_admit: "same_store st (admit_peer cfg G i info e ws st)"
  by (simp add: admit_peer_def schedule_connect_def Let_def same_store_def own_fields updateStats_def map_stats_def)

lemma store_join: "same_store st (handleJoinMessage cfg G msg ws st)"
proof -
  have "same_store st (fold (discover_peer cfg G) ps st)" for ps
    by (intro same_store_fold store_discover)
  moreover have "same_store st st" by (simp add: same_store_def)
  ultimately show ?thesis
    by (auto simp: handleJoinMessage_def handlePeerDiscoveryMessage_def handlePeerAnnouncementMessage_def Let_def store_admit store_discover split: payload.split sum.split)
qed

lemma store_leave: "same_store st (handleLeaveMessage msg st)"
  by (auto simp: handleLeaveMessage_def same_store_def drop_connection_def updateStats_def map_stats_def split: option.split)

lemma store_heartbeat: "same_store st (handleHeartbeatMessage G msg ws auth st)"
  by (simp add: handleHeartbeatMessage_def same_store_def Let_def split: option.split)

lemma update_frame: "gs_history (apply_update u st) = gs_history st" "gs_dialed (apply_update u st) = gs_dialed st" "gs_peers (apply_update u st) = gs_peers st" "gs_sent (apply_update u st) = gs_sent st"
  by (simp_all add: apply_update_def Let_def case_prod_beta)

lemma updates_frame:
  "gs_history (fold apply_update us st) = gs_history st" "gs_dialed (fold apply_update us st) = gs_dialed st" "gs_peers (fold apply_update us st) = gs_peers st" "gs_sent (fold apply_update us st) = gs_sent st"
  by (rule fold_frame, rule update_frame)+

section \<open>The data store converges\<close>

text \<open>The contents of the store: the value of a key with its version. The timestamps are bookkeeping: a node that gossips an entry again stamps it with its own clock, and \<^verbatim>\<open>getData\<close> does not return them.
  The specification of one key is a last-writer-wins register.\<close>

definition content :: "data_entry \<Rightarrow> string \<times> rat" where
  "content e = (de_value e, de_version e)"

definition contents :: "gossip \<Rightarrow> string \<Rightarrow> (string \<times> rat) option" where
  "contents st k = map_option content (map_of (gs_data st) k)"

definition merge :: "string \<times> rat \<Rightarrow> (string \<times> rat) option \<Rightarrow> (string \<times> rat) option" where
  "merge e cur = (if snd e > (case cur of None \<Rightarrow> 0 | Some d \<Rightarrow> snd d) then Some e else cur)"

fun updates_of :: "gossip_message \<Rightarrow> (string \<times> data_entry) list" where
  "updates_of msg = (case gm_data msg of
     GossipData key val version \<Rightarrow> [(key, \<lparr>de_value = val, de_version = version, de_timestamp = gm_timestamp msg\<rparr>)] | Sync items \<Rightarrow> items | _ \<Rightarrow> [])"

definition updates :: "(string \<times> data_entry) list \<Rightarrow> (string \<times> string \<times> rat) list" where
  "updates us = map (\<lambda>(k, e). (k, content e)) us"

text \<open>A version of a key names one value.\<close>

definition versions_agree :: "(string \<times> string \<times> rat) set \<Rightarrow> bool" where
  "versions_agree U \<longleftrightarrow> (\<forall>k val val' version. (k, val, version) \<in> U \<longrightarrow> (k, val', version) \<in> U \<longrightarrow> val = val')"

lemma apply_update_key:
  "contents (apply_update (k, e) st) k' = (if k' = k then merge (content e) (contents st k) else contents st k')"
  by (auto simp: apply_update_def merge_def contents_def content_def update_conv Let_def split: option.split)

lemma updates_key:
  "contents (fold apply_update us st) k = fold merge (map snd (filter (\<lambda>u. fst u = k) (updates us))) (contents st k)"
proof (induction us arbitrary: st)
  case (Cons u us)
  then show ?case by (cases u) (simp add: apply_update_key updates_def)
qed (simp add: updates_def)

lemma merge_idem_on: "versions_agree U \<Longrightarrow> comp_fun_idem_on (snd ` {u \<in> U. fst u = k}) merge"
  by unfold_locales (force simp: versions_agree_def merge_def fun_eq_iff split: option.splits)+

lemma updates_converge:
  assumes "versions_agree (set (updates us))" "set (updates us) = set (updates us')" "contents st = contents st'"
  shows "contents (fold apply_update us st) = contents (fold apply_update us' st')"
proof
  fix k
  let ?U = "snd ` {u \<in> set (updates us). fst u = k}"
  note fold = comp_fun_idem_on.fold_set_fold [OF merge_idem_on [OF assms(1)], of _ k]
  have "fold merge (map snd (filter (\<lambda>u. fst u = k) (updates us))) c = Finite_Set.fold merge c ?U" for c
    by (subst fold [symmetric]) auto
  moreover have "fold merge (map snd (filter (\<lambda>u. fst u = k) (updates us'))) c = Finite_Set.fold merge c ?U" for c
    by (subst fold [symmetric]) (auto simp: assms(2))
  ultimately show "contents (fold apply_update us st) k = contents (fold apply_update us' st') k"
    by (simp add: updates_key assms(3))
qed

lemma dispatch_store:
  "gs_data (dispatch cfg G msg ws st) = gs_data (fold apply_update (updates_of msg) st) \<and> gs_history (dispatch cfg G msg ws st) = gs_history st
    \<and> gs_dialed (dispatch cfg G msg ws st) = gs_dialed st"
  using store_join [of st cfg G msg ws] store_leave [of st msg] store_heartbeat [of st G msg ws]
  by (cases "gm_data msg") (simp_all add: dispatch_def handleGossipDataMessage_def handleSyncMessage_def same_store_def updates_frame update_frame)

lemma forward_store:
  "gs_data (forward msg t st) = gs_data st" "fst ` set (gs_history (forward msg t st)) = fst ` set (gs_history st)" "gs_dialed (forward msg t st) = gs_dialed st"
  by (auto simp: forward_def sendMessage_def count_sent_def map_stats_def Let_def dom_update [simplified] split: prod.splits option.splits) (force dest: map_of_SomeD)

lemma propagate_store:
  "gs_data (propagateMessage cfg G msg ws st) = gs_data st" "fst ` set (gs_history (propagateMessage cfg G msg ws st)) = fst ` set (gs_history st)"
  "gs_dialed (propagateMessage cfg G msg ws st) = gs_dialed st"
  unfolding propagateMessage_def Let_def
  by (auto simp: fold_frame [where f = gs_data] fold_frame [where f = "\<lambda>s. fst ` set (gs_history s)"] fold_frame [where f = gs_dialed] forward_store split: option.split)

text \<open>A list of deliveries: each message with its socket and the world of its handler.\<close>

definition receive_all :: "gossip_config \<Rightarrow> (gossip_env \<times> nat \<times> gossip_message) list \<Rightarrow> gossip \<Rightarrow> gossip" where
  "receive_all cfg ds st = fold (\<lambda>(G, ws, msg). handleGossipMessage cfg G ws msg) ds st"

text \<open>What the messages say: keys with values and versions.\<close>

definition delivered_updates :: "(gossip_env \<times> nat \<times> gossip_message) list \<Rightarrow> (string \<times> string \<times> rat) set" where
  "delivered_updates ds = (\<Union>(_, _, msg) \<in> set ds. set (updates (updates_of msg)))"

definition ids_of :: "(gossip_env \<times> nat \<times> gossip_message) list \<Rightarrow> string set" where
  "ids_of ds = (\<lambda>(_, _, msg). gm_messageId msg) ` set ds"

text \<open>A message id names one content, and none of the ids was seen before.\<close>

definition fresh_ids :: "(gossip_env \<times> nat \<times> gossip_message) list \<Rightarrow> gossip \<Rightarrow> bool" where
  "fresh_ids ds st \<longleftrightarrow> ids_of ds \<inter> fst ` set (gs_history st) = {}
     \<and> (\<forall>(_, _, m) \<in> set ds. \<forall>(_, _, m') \<in> set ds. gm_messageId m = gm_messageId m' \<longrightarrow> updates (updates_of m) = updates (updates_of m'))"

lemma updates_data: "gs_data s = gs_data t \<Longrightarrow> gs_data (fold apply_update us s) = gs_data (fold apply_update us t)"
proof (induction us arbitrary: s t)
  case (Cons u us)
  have "gs_data (apply_update u s) = gs_data (apply_update u t)" using Cons.prems by (simp add: apply_update_def case_prod_beta)
  from Cons.IH [OF this] show ?case by simp
qed simp

lemma handle_store:
  "gs_data (handleGossipMessage cfg G ws msg st) =
     (if gm_messageId msg \<in> fst ` set (gs_history st) then gs_data st else gs_data (fold apply_update (updates_of msg) st))"
  "fst ` set (gs_history (handleGossipMessage cfg G ws msg st)) \<subseteq> insert (gm_messageId msg) (fst ` set (gs_history st))"
  "gs_dialed (handleGossipMessage cfg G ws msg st) = gs_dialed st"
proof -
  let ?seen = "map_stats (\<lambda>s. s\<lparr>gt_messagesReceived := Suc (gt_messagesReceived s)\<rparr>) st"
  let ?noted = "?seen\<lparr>gs_history := AList.update (gm_messageId msg) \<lparr>hi_timestamp = gm_timestamp msg, hi_propagatedTo = []\<rparr> (gs_history ?seen)\<rparr>"
  let ?kept = "if length (gs_history ?noted) > gc_maxMessageHistory cfg then cleanupMessageHistory cfg G ?noted else ?noted"
  have kept: "gs_data ?kept = gs_data st" "gs_dialed ?kept = gs_dialed st" "fst ` set (gs_history ?kept) \<subseteq> insert (gm_messageId msg) (fst ` set (gs_history st))"
    by (auto simp: cleanupMessageHistory_def map_stats_def dom_update [simplified] dest: in_alist_update)
  have run: "handleGossipMessage cfg G ws msg st = (if gm_messageId msg \<in> fst ` set (gs_history st) then ?seen
      else if gm_ttl msg > 0 then propagateMessage cfg G msg ws (dispatch cfg G msg ws ?kept) else dispatch cfg G msg ws ?kept)"
    by (simp add: handleGossipMessage_def Let_def map_stats_def)
  show "gs_data (handleGossipMessage cfg G ws msg st) =
     (if gm_messageId msg \<in> fst ` set (gs_history st) then gs_data st else gs_data (fold apply_update (updates_of msg) st))"
    unfolding run using dispatch_store [of cfg G msg ws ?kept] updates_data [OF kept(1)] by (simp add: propagate_store map_stats_def)
  show "fst ` set (gs_history (handleGossipMessage cfg G ws msg st)) \<subseteq> insert (gm_messageId msg) (fst ` set (gs_history st))"
    unfolding run using dispatch_store [of cfg G msg ws ?kept] kept(3) by (simp add: propagate_store map_stats_def subset_insertI)
  show "gs_dialed (handleGossipMessage cfg G ws msg st) = gs_dialed st"
    unfolding run using dispatch_store [of cfg G msg ws ?kept] kept(2) by (simp add: propagate_store map_stats_def)
qed

lemma receive_updates:
  assumes "fresh_ids ds st"
  shows "\<exists>us. contents (receive_all cfg ds st) = contents (fold apply_update us st) \<and> set (updates us) = delivered_updates ds
    \<and> fst ` set (gs_history (receive_all cfg ds st)) \<subseteq> fst ` set (gs_history st) \<union> ids_of ds"
  using assms
proof (induction ds rule: rev_induct)
  case Nil
  then show ?case by (intro exI [of _ "[]"]) (simp add: receive_all_def delivered_updates_def updates_def)
next
  case (snoc d ds)
  obtain G ws msg where d: "d = (G, ws, msg)" by (cases d)
  have "fresh_ids ds st" using snoc.prems by (auto simp: fresh_ids_def ids_of_def)
  with snoc.IH obtain us where us: "contents (receive_all cfg ds st) = contents (fold apply_update us st)" "set (updates us) = delivered_updates ds"
    "fst ` set (gs_history (receive_all cfg ds st)) \<subseteq> fst ` set (gs_history st) \<union> ids_of ds" by blast
  have last: "receive_all cfg (ds @ [d]) st = handleGossipMessage cfg G ws msg (receive_all cfg ds st)" by (simp add: receive_all_def d)
  have hist: "fst ` set (gs_history (receive_all cfg (ds @ [d]) st)) \<subseteq> fst ` set (gs_history st) \<union> ids_of (ds @ [d])"
    using handle_store(2) [of cfg G ws msg "receive_all cfg ds st"] us(3) unfolding last by (auto simp: ids_of_def d)
  show ?case
  proof (cases "gm_messageId msg \<in> fst ` set (gs_history (receive_all cfg ds st))")
    case True
    moreover have "gm_messageId msg \<notin> fst ` set (gs_history st)" using snoc.prems by (auto simp: fresh_ids_def ids_of_def d)
    ultimately have "gm_messageId msg \<in> ids_of ds" using us(3) by blast
    then obtain G' ws' m where m: "(G', ws', m) \<in> set ds" "gm_messageId m = gm_messageId msg" by (auto simp: ids_of_def)
    then have "updates (updates_of msg) = updates (updates_of m)" using snoc.prems unfolding fresh_ids_def d by fastforce
    then have "delivered_updates (ds @ [d]) = delivered_updates ds" using m(1) by (auto simp: delivered_updates_def d)
    moreover have "contents (receive_all cfg (ds @ [d]) st) = contents (receive_all cfg ds st)"
      using True handle_store(1) [of cfg G ws msg "receive_all cfg ds st"] by (auto simp: last contents_def fun_eq_iff)
    ultimately show ?thesis using us hist by auto
  next
    case False
    have "contents (fold apply_update (updates_of msg) (receive_all cfg ds st)) k = contents (fold apply_update (us @ updates_of msg) st) k" for k
      by (simp add: updates_key us(1) del: updates_of.simps)
    then have "contents (receive_all cfg (ds @ [d]) st) = contents (fold apply_update (us @ updates_of msg) st)"
      using False handle_store(1) [of cfg G ws msg "receive_all cfg ds st"] by (auto simp: last contents_def fun_eq_iff)
    moreover have "set (updates (us @ updates_of msg)) = delivered_updates (ds @ [d])"
      using us(2) by (simp add: delivered_updates_def d updates_def image_Un del: updates_of.simps) blast
    ultimately show ?thesis using hist by blast
  qed
qed

lemma getData_contents: "getData st k = map_option fst (contents st k)"
  by (simp add: getData_def contents_def option.map_comp comp_def content_def)

text \<open>C21: gossip data converges. Two nodes that start with the same values and receive messages carrying the same updates (key, value and version) end with the same values, although they receive them in different orders, on other
  connections, repeated or not, under the same or other ids, stamped with other times, as single updates or in synchronisation lists, among any other messages, and with different clocks, fan-outs and histories; a version of a key
  names one value, and an id one content.\<close>

theorem gossip_data_converges:
  assumes "contents st = contents st'" "fresh_ids ds st" "fresh_ids ds' st'"
    and "delivered_updates ds = delivered_updates ds'" "versions_agree (delivered_updates ds)"
  shows "getData (receive_all cfg ds st) k = getData (receive_all cfg' ds' st') k"
proof -
  obtain us where us: "contents (receive_all cfg ds st) = contents (fold apply_update us st)" "set (updates us) = delivered_updates ds"
    using receive_updates [OF assms(2)] by blast
  obtain us' where us': "contents (receive_all cfg' ds' st') = contents (fold apply_update us' st')" "set (updates us') = delivered_updates ds'"
    using receive_updates [OF assms(3)] by blast
  have "contents (receive_all cfg ds st) = contents (receive_all cfg' ds' st')" unfolding us(1) us'(1)
    by (rule updates_converge) (use assms us(2) us'(2) in simp_all)
  then show ?thesis using getData_contents by simp
qed

section \<open>What one message can cause\<close>

definition sent_own :: "gossip_env \<Rightarrow> gossip \<Rightarrow> gossip \<Rightarrow> bool" where
  "sent_own G st st' \<longleftrightarrow> (\<exists>own. gs_sent st' = own @ gs_sent st \<and> list_all (\<lambda>(_, m). gm_from m = ge_nodeId G) own)"

lemma sent_own_refl: "gs_sent st' = gs_sent st \<Longrightarrow> sent_own G st st'"
  by (auto simp: sent_own_def)

lemma sent_own_trans: "sent_own G st st' \<Longrightarrow> sent_own G st' st'' \<Longrightarrow> sent_own G st st''"
  by (auto simp: sent_own_def)

lemma sent_own_fold: "(\<And>x s. sent_own G s (g x s)) \<Longrightarrow> sent_own G st (fold g xs st)"
  by (induction xs arbitrary: st) (auto intro: sent_own_trans sent_own_refl)

lemma sent_own_message: "gm_from m = ge_nodeId G \<Longrightarrow> sent_own G st (sendMessage w m st)" "gm_from m = ge_nodeId G \<Longrightarrow> sent_own G st (count_sent (sendMessage w m st))"
  by (auto simp: sent_own_def sendMessage_def count_sent_def map_stats_def)

lemma own_message_own: "own_message G d ttl st = (m, st') \<Longrightarrow> gm_from m = ge_nodeId G \<and> sent_own G st st'"
  by (auto simp: own_message_def intro: sent_own_refl)

lemma sent_own_ops:
  "sent_own G st (sendOwn G ws d ttl st)" "sent_own G st (sendSyncMessage G ws st)" "sent_own G st (sendKnownPeersToNewPeer G ws i st)"
  "sent_own G st (announceNewPeerToOthers G p ws st)"
proof -
  show one: "sent_own G st (sendOwn G ws d ttl st)" for d ttl
    using own_message_own [of G d ttl st] sent_own_message(1) sent_own_trans by (fastforce simp: sendOwn_def split: prod.split)
  show "sent_own G st (sendSyncMessage G ws st)" by (simp add: sendSyncMessage_def one)
  show "sent_own G st (sendKnownPeersToNewPeer G ws i st)" by (simp add: sendKnownPeersToNewPeer_def one Let_def sent_own_refl)
  show "sent_own G st (announceNewPeerToOthers G p ws st)"
  proof (cases "own_message G (PeerAnnouncement (claim_of p)) 1 st")
    case (Pair m st')
    have "sent_own G st' (fold (\<lambda>(_, w) st. if w \<noteq> ws \<and> w \<in> set (gs_open st) then count_sent (sendMessage w m st) else st) (gs_connections st') st')"
      using own_message_own [OF Pair] by (intro sent_own_fold) (auto simp: sent_own_message sent_own_refl)
    then show ?thesis using own_message_own [OF Pair] sent_own_trans by (auto simp: announceNewPeerToOthers_def Pair)
  qed
qed

lemma sent_own_after:
  "sent_own G st s \<Longrightarrow> sent_own G st (updateStats s)" "sent_own G st s \<Longrightarrow> sent_own G st (schedule_connect cfg e s)"
  "sent_own G st s \<Longrightarrow> sent_own G st (gs_saveDue_update f s)" "sent_own G st s \<Longrightarrow> sent_own G st (gs_peers_update f' s)"
  "sent_own G st s \<Longrightarrow> sent_own G st (gs_connections_update f'' s)"
  "sent_own G st s \<Longrightarrow> sent_own G st s' \<Longrightarrow> sent_own G st (if b then s else s')"
  "sent_own G st s \<Longrightarrow> sent_own G st (sendSyncMessage G ws s)" "sent_own G st s \<Longrightarrow> sent_own G st (sendKnownPeersToNewPeer G ws i s)"
  "sent_own G st s \<Longrightarrow> sent_own G st (announceNewPeerToOthers G p ws s)"
  by (auto simp: schedule_connect_def intro: sent_own_trans [OF _ sent_own_ops(2)] sent_own_trans [OF _ sent_own_ops(3)] sent_own_trans [OF _ sent_own_ops(4)])
    (simp_all add: sent_own_def)

lemma sent_own_admit: "sent_own G st (admit_peer cfg G i info e ws st)"
  unfolding admit_peer_def Let_def by (intro sent_own_after sent_own_refl refl)

lemma dispatch_sent: "sent_own G st (dispatch cfg G msg ws st)"
proof -
  have disc: "gs_sent (discover_peer cfg G p s) = gs_sent s" for p s by (simp add: discover_peer_def schedule_connect_def Let_def)
  then have discs: "gs_sent (fold (discover_peer cfg G) ps st) = gs_sent st" for ps by (rule fold_frame)
  have drop: "gs_sent (drop_connection e s) = gs_sent s" for e s by (simp add: drop_connection_def split: option.split)
  have "sent_own G st (handleJoinMessage cfg G msg ws st)"
    by (auto simp: handleJoinMessage_def handlePeerDiscoveryMessage_def handlePeerAnnouncementMessage_def Let_def discs disc sent_own_admit
        intro!: sent_own_refl split: payload.split sum.split)
  moreover have "sent_own G st (handleLeaveMessage msg st)" by (auto simp: handleLeaveMessage_def drop intro!: sent_own_refl split: option.split)
  moreover have "sent_own G st (handleHeartbeatMessage G msg ws auth st)" for auth
    by (auto simp: handleHeartbeatMessage_def Let_def intro!: sent_own_refl split: option.split)
  ultimately show ?thesis
    by (cases "gm_data msg") (auto simp: dispatch_def handleGossipDataMessage_def handleSyncMessage_def updates_frame update_frame intro!: sent_own_refl)
qed

text \<open>A handler only closes connections.\<close>

lemma dispatch_open: "set (gs_open (dispatch cfg G msg ws st)) \<subseteq> set (gs_open st)"
proof -
  have own: "gs_open (sendSyncMessage G ws s) = gs_open s" "gs_open (sendKnownPeersToNewPeer G ws i s) = gs_open s" "gs_open (announceNewPeerToOthers G p ws s) = gs_open s" for i p s
    using same_mesh_own [of s] by (simp_all add: same_mesh_def)
  have upd: "gs_open (updateStats s) = gs_open s" "gs_open (apply_update u s) = gs_open s" "gs_open (discover_peer cfg G i s) = gs_open s" for s u i
    by (simp_all add: updateStats_def map_stats_def apply_update_def discover_peer_def schedule_connect_def Let_def case_prod_beta)
  have folds: "gs_open (fold apply_update us st) = gs_open st" "gs_open (fold (discover_peer cfg G) ps st) = gs_open st" for us ps
    by (rule fold_frame, rule upd)+
  have "gs_open (admit_peer cfg G i info e ws st) = gs_open st" for i info e
    by (simp add: admit_peer_def Let_def schedule_connect_def own upd)
  then have "gs_open (handleJoinMessage cfg G msg ws st) = gs_open st"
    by (simp add: handleJoinMessage_def handlePeerDiscoveryMessage_def handlePeerAnnouncementMessage_def Let_def upd folds split: payload.split sum.split)
  moreover have "set (gs_open (handleLeaveMessage msg st)) \<subseteq> set (gs_open st)"
    by (auto simp: handleLeaveMessage_def drop_connection_def upd split: option.split)
  ultimately show ?thesis
    by (cases "gm_data msg") (simp_all add: dispatch_def handleGossipDataMessage_def handleSyncMessage_def handleHeartbeatMessage_def Let_def upd folds split: option.split)
qed

lemma forwarded:
  assumes "list_all (\<lambda>(_, w). w \<in> set (gs_open st)) ts"
  shows "gs_sent (fold (forward m) ts st) = map (\<lambda>(_, w). (w, m)) (rev ts) @ gs_sent st"
  using assms
proof (induction ts arbitrary: st)
  case (Cons t ts)
  obtain e w where t: "t = (e, w)" by (cases t)
  have "gs_open (forward m t st) = gs_open st" "gs_sent (forward m t st) = (w, m) # gs_sent st"
    using Cons.prems by (simp_all add: t forward_def sendMessage_def count_sent_def map_stats_def Let_def)
  with Cons show ?case by (simp add: t)
qed simp

definition shuffles :: "gossip_env \<Rightarrow> bool" where
  "shuffles G \<longleftrightarrow> (\<forall>xs. mset (ge_shuffle G xs) = mset xs)"

lemma selected:
  assumes "shuffles G" "0 \<le> n"
  shows "set (selectRandomPeers G xs n) \<subseteq> set xs \<and> int (length (selectRandomPeers G xs n)) \<le> n"
proof -
  have "set (ge_shuffle G xs) = set xs" using assms(1) unfolding shuffles_def by (metis set_mset_mset)
  then show ?thesis using assms(2) set_take_subset [of _ "ge_shuffle G xs"] by (auto simp: selectRandomPeers_def Let_def)
qed

lemma propagate_sent:
  assumes "shuffles G" "0 \<le> gc_fanout cfg"
  obtains targets :: "(string \<times> nat) list" where "gs_sent (propagateMessage cfg G msg ws st) = map (\<lambda>(_, w). (w, msg\<lparr>gm_ttl := gm_ttl msg - 1\<rparr>)) targets @ gs_sent st"
    "int (length targets) \<le> gc_fanout cfg" "list_all (\<lambda>(_, w). w \<noteq> ws \<and> w \<in> set (gs_open st)) targets"
proof (cases "map_of (gs_history st) (gm_messageId msg)")
  case None
  then show ?thesis using that [of "[]"] assms(2) by (simp add: propagateMessage_def)
next
  case (Some h)
  let ?ts = "selectRandomPeers G (filter (\<lambda>(endpoint, w). w \<noteq> ws \<and> w \<in> set (gs_open st) \<and> endpoint \<notin> set (hi_propagatedTo h)) (gs_connections st)) (gc_fanout cfg)"
  have sel: "list_all (\<lambda>(_, w). w \<noteq> ws \<and> w \<in> set (gs_open st)) ?ts" "int (length ?ts) \<le> gc_fanout cfg"
    using selected [OF assms, of "filter (\<lambda>(endpoint, w). w \<noteq> ws \<and> w \<in> set (gs_open st) \<and> endpoint \<notin> set (hi_propagatedTo h)) (gs_connections st)"]
    by (auto simp: list_all_iff)
  then have "list_all (\<lambda>(_, w). w \<in> set (gs_open st)) ?ts" by (auto simp: list_all_iff)
  from forwarded [OF this] show ?thesis
    using that [of "rev ?ts"] sel by (simp add: propagateMessage_def Some Let_def list_all_iff)
qed

text \<open>C38: flooding is bounded. Handling one message writes at most the fan-out number of copies of it, each with its time to live reduced by one, and to connections that are open and other than the one it came from; everything else the
  handler writes are messages of this node itself. A message without remaining time to live (as every co-sign message) is never passed on, and one whose id is still in the message history causes nothing at all. The clean-up of the history
  removes old ids, after which a message that still has time to live is handled like a new one.\<close>

theorem flooding_is_bounded:
  assumes "shuffles G" "0 \<le> gc_fanout cfg"
  shows "\<exists>targets own. gs_sent (handleGossipMessage cfg G ws msg st) = map (\<lambda>w. (w, msg\<lparr>gm_ttl := gm_ttl msg - 1\<rparr>)) targets @ own @ gs_sent st
    \<and> int (length targets) \<le> gc_fanout cfg \<and> ws \<notin> set targets \<and> set targets \<subseteq> set (gs_open st) \<and> list_all (\<lambda>(_, m). gm_from m = ge_nodeId G) own
    \<and> (gm_ttl msg \<le> 0 \<longrightarrow> targets = []) \<and> (gm_messageId msg \<in> fst ` set (gs_history st) \<longrightarrow> targets = [] \<and> own = [])"
proof (cases "gm_messageId msg \<in> fst ` set (gs_history st)")
  case True
  then show ?thesis using assms(2) by (intro exI [of _ "[]"]) (simp add: handleGossipMessage_def map_stats_def)
next
  case False
  let ?seen = "map_stats (\<lambda>s. s\<lparr>gt_messagesReceived := Suc (gt_messagesReceived s)\<rparr>) st"
  let ?noted = "?seen\<lparr>gs_history := AList.update (gm_messageId msg) \<lparr>hi_timestamp = gm_timestamp msg, hi_propagatedTo = []\<rparr> (gs_history ?seen)\<rparr>"
  let ?kept = "if length (gs_history ?noted) > gc_maxMessageHistory cfg then cleanupMessageHistory cfg G ?noted else ?noted"
  have run: "handleGossipMessage cfg G ws msg st = (if gm_ttl msg > 0 then propagateMessage cfg G msg ws (dispatch cfg G msg ws ?kept) else dispatch cfg G msg ws ?kept)"
    using False by (simp add: handleGossipMessage_def Let_def map_stats_def)
  have opened: "gs_open ?kept = gs_open st" by (simp add: cleanupMessageHistory_def map_stats_def)
  have "gs_sent ?kept = gs_sent st" by (simp add: cleanupMessageHistory_def map_stats_def)
  then obtain own where own: "gs_sent (dispatch cfg G msg ws ?kept) = own @ gs_sent st" "list_all (\<lambda>(_, m). gm_from m = ge_nodeId G) own"
    using dispatch_sent [of G ?kept cfg msg ws] by (auto simp: sent_own_def)
  show ?thesis
  proof (cases "gm_ttl msg > 0")
    case True
    obtain targets :: "(string \<times> nat) list" where t: "gs_sent (propagateMessage cfg G msg ws (dispatch cfg G msg ws ?kept)) =
        map (\<lambda>(_, w). (w, msg\<lparr>gm_ttl := gm_ttl msg - 1\<rparr>)) targets @ gs_sent (dispatch cfg G msg ws ?kept)"
      "int (length targets) \<le> gc_fanout cfg" "list_all (\<lambda>(_, w). w \<noteq> ws \<and> w \<in> set (gs_open (dispatch cfg G msg ws ?kept))) targets"
      by (rule propagate_sent [OF assms])
    have "ws \<notin> set (map snd targets)" using t(3) by (auto simp: list_all_iff)
    moreover have "set (map snd targets) \<subseteq> set (gs_open st)" using t(3) dispatch_open [of cfg G msg ws ?kept] opened by (fastforce simp: list_all_iff)
    ultimately show ?thesis unfolding run using t(1,2) own True False
      by (intro exI [of _ "map snd targets"] exI [of _ own]) (auto simp: comp_def case_prod_beta)
  next
    case ttl: False
    then show ?thesis unfolding run using own False assms(2) by (intro exI [of _ "[]"] exI [of _ own]) simp
  qed
qed

section \<open>Failure detection\<close>

lemma removed_peers:
  "map_of (gs_peers (fold remove_peer ids st)) i = (if i \<in> set ids then None else map_of (gs_peers st) i)"
proof (induction ids arbitrary: st)
  case (Cons j ids)
  have "gs_peers (drop_connection e s) = gs_peers s" for e s by (simp add: drop_connection_def split: option.split)
  then have "gs_peers (remove_peer j st) = AList.delete j (gs_peers st)" by (simp add: remove_peer_def Let_def split: option.split)
  with Cons show ?case by (simp add: delete_conv restrict_map_def)
qed simp

lemma cleanup_peers:
  assumes "distinct (map fst (gs_peers st))"
  shows "map_of (gs_peers (cleanupInactivePeers cfg G st)) i =
    (case map_of (gs_peers st) i of None \<Rightarrow> None | Some p \<Rightarrow> if expired cfg G p then None else Some p)"
proof -
  have "i \<in> set (map fst (filter (\<lambda>(_, p). expired cfg G p) (gs_peers st))) \<longleftrightarrow> (\<exists>p. map_of (gs_peers st) i = Some p \<and> expired cfg G p)"
    using assms by (force simp: dest: map_of_SomeD map_of_is_SomeI)
  moreover have "gs_peers (cleanupInactivePeers cfg G st) = gs_peers (fold remove_peer (map fst (filter (\<lambda>(_, p). expired cfg G p) (gs_peers st))) st)"
    by (simp add: cleanupInactivePeers_def Let_def)
  ultimately show ?thesis by (auto simp: removed_peers simp del: set_map set_filter split: option.split)
qed

text \<open>Failure detection is exact. A health check followed by a clean-up forgets exactly the peers not heard from for longer than the clean-up timeout that were also past the suspicion timeout or had left before; of the others, those
  past the suspicion timeout are suspected, and nothing else about them changes.\<close>

theorem failure_detection_exact:
  assumes "distinct (map fst (gs_peers st))"
  shows "map_of (gs_peers (cleanupInactivePeers cfg G (checkPeerHealth cfg G st))) i =
    (case map_of (gs_peers st) i of None \<Rightarrow> None
     | Some p \<Rightarrow> let silent = ge_now G - pr_lastSeen p in
         if silent > gc_cleanupTimeout cfg \<and> (silent > gc_suspicionTimeout cfg \<or> pr_status p \<noteq> PeerActive) then None
         else Some (if silent > gc_suspicionTimeout cfg \<and> pr_status p = PeerActive then p\<lparr>pr_status := PeerSuspected\<rparr> else p))"
proof -
  have keys: "map fst (gs_peers (checkPeerHealth cfg G st)) = map fst (gs_peers st)" by (simp add: checkPeerHealth_def comp_def case_prod_beta)
  have "map_of (gs_peers (checkPeerHealth cfg G st)) i = map_option (suspect cfg G) (map_of (gs_peers st) i)"
    by (simp add: checkPeerHealth_def map_of_map)
  then show ?thesis using cleanup_peers [of "checkPeerHealth cfg G st" cfg G i] keys assms
    by (cases "map_of (gs_peers st) i") (auto simp: expired_def suspect_def Let_def)
qed

section \<open>Runs of the mesh\<close>

datatype mesh_event =
    MsReceive nat gossip_message
  | MsRound
  | MsHealth
  | MsCleanup
  | MsDial
  | MsReconnect
  | MsOpen string nat
  | MsClose nat
  | MsDialedClosed string nat
  | MsSet string string
  | MsJoin
  | MsLeave
  | MsBeat "heartbeat_auth option"
  | MsLoad "(string \<times> peer_info) list option"
  | MsAccept nat
  | MsVerified nat
  | MsRelevant "string list"

fun mesh_step :: "('s, 'p) heartbeat_env \<Rightarrow> gossip_config \<Rightarrow> gossip_env \<times> mesh_event \<Rightarrow> gossip \<Rightarrow> gossip" where
  "mesh_step H cfg (G, MsReceive ws msg) st = handleGossipMessage cfg G ws msg st"
| "mesh_step H cfg (G, MsRound) st = performGossipRound cfg G st"
| "mesh_step H cfg (G, MsHealth) st = checkPeerHealth cfg G st"
| "mesh_step H cfg (G, MsCleanup) st = cleanupMessageHistory cfg G (cleanupInactivePeers cfg G st)"
| "mesh_step H cfg (G, MsDial) st = run_scheduled G st"
| "mesh_step H cfg (G, MsReconnect) st = attemptReconnections cfg G st"
| "mesh_step H cfg (G, MsOpen endpoint ws) st = connection_open G endpoint ws st"
| "mesh_step H cfg (G, MsClose ws) st = cleanupConnection ws st"
| "mesh_step H cfg (G, MsDialedClosed endpoint ws) st = dialed_closed endpoint ws st"
| "mesh_step H cfg (G, MsSet key val) st = setData G key val st"
| "mesh_step H cfg (G, MsJoin) st = joinNetwork cfg G st"
| "mesh_step H cfg (G, MsLeave) st = leaveNetwork cfg G st"
| "mesh_step H cfg (G, MsBeat auth) st = sendHeartbeat G auth st"
| "mesh_step H cfg (G, MsLoad file) st = connectToKnownPeers cfg G (connectToBootstrapPeers cfg G (loadKnownPeers G file st))"
| "mesh_step H cfg (G, MsAccept ws) st = accept_connection ws st"
| "mesh_step H cfg (G, MsVerified i) st = st\<lparr>gs_liveness := heartbeat_done H i (ge_now G) (gs_liveness st)\<rparr>"
| "mesh_step H cfg (G, MsRelevant nodeIds) st = st\<lparr>gs_liveness := setRelevantNodeIds nodeIds (gs_liveness st)\<rparr>"

text \<open>The node keeps its id, which it has once \<^verbatim>\<open>waitForNodeReady\<close> has returned, and the platform its URL parser and printer.\<close>

definition own_world :: "string \<Rightarrow> (string \<Rightarrow> url option) \<times> (url \<Rightarrow> string) \<Rightarrow> gossip_env \<times> mesh_event \<Rightarrow> bool" where
  "own_world me urls = (\<lambda>(G, _). ge_nodeId G = me \<and> (ge_parseUrl G, ge_urlString G) = urls)"

definition websocket :: "(string \<Rightarrow> url option) \<times> (url \<Rightarrow> string) \<Rightarrow> string \<Rightarrow> bool" where
  "websocket urls u \<longleftrightarrow> (\<exists>text url. fst urls text = Some url \<and> ur_protocol url \<in> {''ws:'', ''wss:''}
     \<and> u = snd urls (url\<lparr>ur_username := [], ur_password := [], ur_search := [], ur_hash := []\<rparr>))"

definition mesh_inv :: "string \<Rightarrow> (string \<Rightarrow> url option) \<times> (url \<Rightarrow> string) \<Rightarrow> gossip \<Rightarrow> bool" where
  "mesh_inv me urls st \<longleftrightarrow> distinct (map fst (gs_peers st)) \<and> me \<notin> fst ` set (gs_peers st) \<and> list_all (websocket urls) (gs_dialed st)"

lemma mesh_inv_frame: "mesh_inv me urls st \<Longrightarrow> gs_peers st' = gs_peers st \<Longrightarrow> gs_dialed st' = gs_dialed st \<Longrightarrow> mesh_inv me urls st'"
  by (simp add: mesh_inv_def)

lemma mesh_inv_peer: "mesh_inv me urls st \<Longrightarrow> i \<noteq> me \<Longrightarrow> mesh_inv me urls (st\<lparr>gs_peers := AList.update i p (gs_peers st)\<rparr>)"
  by (auto simp: mesh_inv_def distinct_update dom_update [simplified] dest: in_alist_update)

lemma mesh_inv_fold: "mesh_inv me urls st \<Longrightarrow> (\<And>x s. x \<in> set xs \<Longrightarrow> mesh_inv me urls s \<Longrightarrow> mesh_inv me urls (g x s)) \<Longrightarrow> mesh_inv me urls (fold g xs st)"
  by (induction xs arbitrary: st) simp_all

lemma mesh_inv_same: "same_mesh st st' \<Longrightarrow> mesh_inv me urls st \<Longrightarrow> mesh_inv me urls st'"
  by (simp add: mesh_inv_def same_mesh_def)

lemma mesh_inv_after:
  "mesh_inv me urls s \<Longrightarrow> mesh_inv me urls (updateStats s)" "mesh_inv me urls s \<Longrightarrow> mesh_inv me urls (schedule_connect cfg e s)"
  "mesh_inv me urls s \<Longrightarrow> mesh_inv me urls (gs_saveDue_update f s)" "mesh_inv me urls s \<Longrightarrow> mesh_inv me urls (gs_connections_update f'' s)"
  "mesh_inv me urls s \<Longrightarrow> mesh_inv me urls s' \<Longrightarrow> mesh_inv me urls (if b then s else s')"
  "mesh_inv me urls s \<Longrightarrow> mesh_inv me urls (sendSyncMessage G ws s)" "mesh_inv me urls s \<Longrightarrow> mesh_inv me urls (sendKnownPeersToNewPeer G ws i s)"
  "mesh_inv me urls s \<Longrightarrow> mesh_inv me urls (announceNewPeerToOthers G p ws s)"
  using mesh_inv_same [OF same_mesh_own(3)] mesh_inv_same [OF same_mesh_own(4)] mesh_inv_same [OF same_mesh_own(5)] mesh_inv_same [OF same_mesh_send(3)]
  by (auto simp: schedule_connect_def) (simp_all add: mesh_inv_def)

lemma mesh_inv_join:
  assumes "mesh_inv me urls st" "ge_nodeId G = me"
  shows "mesh_inv me urls (handleJoinMessage cfg G msg ws st)"
proof -
  have disc: "mesh_inv me urls (discover_peer cfg G info s)" if "mesh_inv me urls s" for info s
    using mesh_inv_peer [OF that] assms(2) by (auto simp: discover_peer_def Let_def that intro!: mesh_inv_after)
  have "mesh_inv me urls (admit_peer cfg G i info e ws st)" if "i \<noteq> me" for i info e
    unfolding admit_peer_def Let_def by (intro mesh_inv_after mesh_inv_peer assms(1) that)
  then show ?thesis using assms disc mesh_inv_fold [of me urls st _ "discover_peer cfg G"]
    by (auto simp: handleJoinMessage_def handlePeerDiscoveryMessage_def handlePeerAnnouncementMessage_def Let_def intro!: mesh_inv_after split: payload.split sum.split)
qed

lemma mesh_inv_receive:
  assumes "mesh_inv me urls st" "ge_nodeId G = me"
  shows "mesh_inv me urls (handleGossipMessage cfg G ws msg st)"
proof -
  have known: "i \<noteq> me" if "map_of (gs_peers s) i = Some p" "mesh_inv me urls s" for i p s
    using that by (force simp: mesh_inv_def dest: map_of_SomeD)
  have drop: "mesh_inv me urls (drop_connection e s)" if "mesh_inv me urls s" for e s
    using that by (simp add: mesh_inv_def drop_connection_def split: option.split)
  have leave: "mesh_inv me urls (handleLeaveMessage msg s)" if "mesh_inv me urls s" for s
    using that known [OF _ that] by (auto simp: handleLeaveMessage_def intro!: mesh_inv_after drop mesh_inv_peer split: option.split)
  have beat: "mesh_inv me urls (handleHeartbeatMessage G msg ws auth s)" if "mesh_inv me urls s" for auth s
    using that known [OF _ that] mesh_inv_peer [OF that] by (auto simp: handleHeartbeatMessage_def Let_def split: option.split) (simp_all add: mesh_inv_def)
  have dispatch: "mesh_inv me urls (dispatch cfg G msg ws s)" if "mesh_inv me urls s" for s
    using that leave beat mesh_inv_join [OF that assms(2)]
    by (cases "gm_data msg") (auto simp: dispatch_def handleGossipDataMessage_def handleSyncMessage_def mesh_inv_def updates_frame update_frame)
  have fwd: "mesh_inv me urls (propagateMessage cfg G msg ws s)" if "mesh_inv me urls s" for s
  proof -
    have "gs_peers (forward m t u) = gs_peers u" for m t u by (simp add: forward_def sendMessage_def count_sent_def map_stats_def Let_def case_prod_beta)
    then have "mesh_inv me urls (fold (forward m) ts s)" for m ts
      by (intro mesh_inv_fold that) (simp add: mesh_inv_def forward_store)
    then show ?thesis using that by (simp add: propagateMessage_def Let_def split: option.split)
  qed
  show ?thesis
    by (auto simp: handleGossipMessage_def Let_def cleanupMessageHistory_def intro!: dispatch fwd mesh_inv_frame [OF assms(1)] simp: map_stats_def)
qed

lemma websocket_dial: "(ge_parseUrl G, ge_urlString G) = urls \<Longrightarrow> mesh_inv me urls st \<Longrightarrow> mesh_inv me urls (snd (connectToPeer G endpoint st))"
proof (cases "validateEndpoint G endpoint")
  case (Inr v)
  assume urls: "(ge_parseUrl G, ge_urlString G) = urls" and inv: "mesh_inv me urls st"
  from Inr obtain u where u: "ge_parseUrl G (trim endpoint) = Some u" "ur_protocol u \<in> set ALLOWED_PROTOCOLS" "v = ge_urlString G (sanitized u)"
    by (auto simp: validateEndpoint_def split: if_splits option.splits)
  then have "websocket urls v" unfolding websocket_def urls [symmetric]
    by (intro exI [of _ "trim endpoint"] exI [of _ u]) (simp add: ALLOWED_PROTOCOLS_def sanitized_def)
  then show ?thesis using inv by (simp add: connectToPeer_def Inr mesh_inv_def)
qed (simp add: connectToPeer_def)

lemma mesh_inv_scheduled:
  assumes "(ge_parseUrl G, ge_urlString G) = urls" "mesh_inv me urls st"
  shows "mesh_inv me urls (run_scheduled G st)"
proof (cases "gs_scheduled st")
  case (Cons endpoint rest)
  have "mesh_inv me urls (st\<lparr>gs_scheduled := rest\<rparr>)" using assms(2) by (simp add: mesh_inv_def)
  from websocket_dial [OF assms(1) this, of endpoint] show ?thesis
    by (cases "connectToPeer G endpoint (st\<lparr>gs_scheduled := rest\<rparr>)") (simp add: run_scheduled_def Cons mesh_inv_def split: sum.split)
qed (simp add: run_scheduled_def assms)

lemma mesh_inv_dials: "(ge_parseUrl G, ge_urlString G) = urls \<Longrightarrow> mesh_inv me urls st \<Longrightarrow> mesh_inv me urls (connect_all G es st)"
  unfolding connect_all_def by (rule mesh_inv_fold) (simp_all add: websocket_dial)

lemma mesh_inv_round: "mesh_inv me urls st \<Longrightarrow> mesh_inv me urls (performGossipRound cfg G st)"
proof -
  have "mesh_inv me urls (gossipRandomData cfg G ws s)" if "mesh_inv me urls s" for ws s
    using that by (simp add: gossipRandomData_def own_message_def sendMessage_def count_sent_def map_stats_def mesh_inv_def Let_def case_prod_beta)
  then show "mesh_inv me urls st \<Longrightarrow> ?thesis" unfolding performGossipRound_def Let_def
    by (auto intro!: mesh_inv_fold split: prod.split) (simp_all add: mesh_inv_def map_stats_def)
qed

lemma mesh_inv_clean: "mesh_inv me urls st \<Longrightarrow> mesh_inv me urls (cleanupInactivePeers cfg G st)"
proof -
  have remove: "mesh_inv me urls (remove_peer i s)" if "mesh_inv me urls s" for i s
  proof -
    have "gs_peers (drop_connection e s) = gs_peers s" "gs_dialed (drop_connection e s) = gs_dialed s" for e by (simp_all add: drop_connection_def split: option.split)
    then have "gs_peers (remove_peer i s) = AList.delete i (gs_peers s)" "gs_dialed (remove_peer i s) = gs_dialed s"
      by (simp_all add: remove_peer_def Let_def split: option.split)
    moreover have "distinct (map fst (AList.delete i (gs_peers s)))" using that by (intro distinct_delete) (simp add: mesh_inv_def)
    ultimately show ?thesis using that unfolding mesh_inv_def by (auto simp: AList.delete_eq)
  qed
  show "mesh_inv me urls st \<Longrightarrow> ?thesis" unfolding cleanupInactivePeers_def Let_def by (intro mesh_inv_after mesh_inv_fold remove)
qed

lemma mesh_inv_load: "mesh_inv me urls st \<Longrightarrow> ge_nodeId G = me \<Longrightarrow> mesh_inv me urls (loadKnownPeers G file st)"
  by (auto simp: loadKnownPeers_def intro!: mesh_inv_fold mesh_inv_peer split: option.split)

lemma mesh_inv_step:
  assumes "mesh_inv me urls st" "own_world me urls ev"
  shows "mesh_inv me urls (mesh_step H cfg ev st)"
proof -
  obtain G e where ev: "ev = (G, e)" by (cases ev)
  have G: "ge_nodeId G = me" "(ge_parseUrl G, ge_urlString G) = urls" using assms(2) by (simp_all add: ev own_world_def)
  note own = mesh_inv_same [OF same_mesh_own(2) assms(1)]
  have boot: "mesh_inv me urls (connectToKnownPeers cfg G (connectToBootstrapPeers cfg G s))" if "mesh_inv me urls s" for s
    unfolding connectToKnownPeers_def connectToBootstrapPeers_def by (intro mesh_inv_dials G that)
  show ?thesis
  proof (cases e)
    case MsHealth
    have "mesh_inv me urls (st\<lparr>gs_peers := map (\<lambda>(i, p). (i, suspect cfg G p)) (gs_peers st)\<rparr>)" using assms(1)
      by (force simp: mesh_inv_def comp_def case_prod_beta)
    then show ?thesis by (simp add: ev MsHealth checkPeerHealth_def mesh_inv_after)
  next
    case MsCleanup
    then show ?thesis using mesh_inv_clean [OF assms(1), of cfg G] by (simp add: ev cleanupMessageHistory_def mesh_inv_def)
  next
    case MsDial
    then show ?thesis using mesh_inv_scheduled [OF G(2) assms(1)] by (simp add: ev)
  next
    case MsReconnect
    then show ?thesis by (auto simp: ev attemptReconnections_def Let_def intro!: boot mesh_inv_dials G assms(1))
  next
    case (MsOpen endpoint ws)
    have "mesh_inv me urls (sendOwn G ws d t s)" if "mesh_inv me urls s" for d t s by (rule mesh_inv_same [OF same_mesh_own(1) that])
    then show ?thesis using assms(1) by (simp add: ev MsOpen connection_open_def sendJoinMessage_def mesh_inv_def)
  qed (use assms(1) own in \<open>auto simp: ev joinNetwork_def leaveNetwork_def sendHeartbeat_def mesh_inv_receive mesh_inv_round G boot mesh_inv_load\<close>,
      simp_all add: mesh_inv_def cleanupConnection_def dialed_closed_def setData_def accept_connection_def)
qed

text \<open>C39: the mesh stays sane. Whatever messages, rounds, timers, connection events and peer files a run has, the node never becomes a peer of itself, has one entry per peer, and opens sockets only to sanitised \<open>ws\<close> or \<open>wss\<close> URLs, although
  endpoints learned from peer lists and announcements are stored unchecked.\<close>

theorem mesh_stays_sane:
  assumes "list_all (own_world me urls) evs"
  shows "mesh_inv me urls (fold (mesh_step H cfg) evs gossip_new)"
proof -
  have "mesh_inv me urls gossip_new" by (simp add: mesh_inv_def gossip_new_def)
  then show ?thesis by (rule mesh_inv_fold) (use assms in \<open>auto simp: list_all_iff mesh_inv_step\<close>)
qed

section \<open>The ledger inside the mesh\<close>

text \<open>What an event of the mesh means to the ledger.\<close>

fun hb_of :: "gossip_env \<times> mesh_event \<Rightarrow> heartbeat_event list" where
  "hb_of (G, MsReceive ws msg) = (case gm_data msg of Beat auth \<Rightarrow> [HbArrive (Some ws) (gm_from msg) auth (ge_now G) (ge_now G)] | _ \<Rightarrow> [])"
| "hb_of (G, MsVerified i) = [HbVerified i (ge_now G)]"
| "hb_of (G, MsRelevant nodeIds) = [HbRelevant nodeIds]"
| "hb_of (G, MsClose ws) = [HbClose ws]"
| "hb_of (G, MsDialedClosed endpoint ws) = [HbClose ws]"
| "hb_of _ = []"

lemma own_liveness:
  "gs_liveness (sendOwn G ws d t s) = gs_liveness s" "gs_liveness (broadcastOwn G d t s) = gs_liveness s" "gs_liveness (sendSyncMessage G ws s) = gs_liveness s"
  "gs_liveness (sendKnownPeersToNewPeer G ws i s) = gs_liveness s" "gs_liveness (announceNewPeerToOthers G p ws s) = gs_liveness s"
  using same_mesh_own [of s] by (simp_all add: same_mesh_def)

lemma member_liveness:
  "gs_liveness (updateStats s) = gs_liveness s" "gs_liveness (schedule_connect cfg e s) = gs_liveness s" "gs_liveness (drop_connection e s) = gs_liveness s"
  "gs_liveness (discover_peer cfg G info s) = gs_liveness s" "gs_liveness (apply_update u s) = gs_liveness s" "gs_liveness (forward m t s) = gs_liveness s"
  "gs_liveness (snd (connectToPeer G endpoint s)) = gs_liveness s"
  by (simp_all add: updateStats_def map_stats_def schedule_connect_def drop_connection_def discover_peer_def apply_update_def forward_def sendMessage_def count_sent_def connectToPeer_def
      Let_def case_prod_beta split: option.split sum.split)

lemma fold_liveness:
  "gs_liveness (fold (discover_peer cfg G) ps s) = gs_liveness s" "gs_liveness (fold apply_update us s) = gs_liveness s" "gs_liveness (fold (forward m) ts s) = gs_liveness s"
  "gs_liveness (connect_all G es s) = gs_liveness s"
  unfolding connect_all_def by (rule fold_frame, rule member_liveness)+

lemma join_liveness: "gs_liveness (handleJoinMessage cfg G msg ws st) = gs_liveness st"
proof -
  have "gs_liveness (admit_peer cfg G i info e ws st) = gs_liveness st" for i info e
    by (simp add: admit_peer_def Let_def member_liveness own_liveness)
  then show ?thesis
    by (simp add: handleJoinMessage_def handlePeerDiscoveryMessage_def handlePeerAnnouncementMessage_def Let_def member_liveness fold_liveness split: payload.split sum.split)
qed

lemma dispatch_liveness: "gs_liveness (dispatch cfg G msg ws st) = fold (hb_step H) (hb_of (G, MsReceive ws msg)) (gs_liveness st)"
proof -
  have "gs_liveness (handleLeaveMessage msg st) = gs_liveness st" by (simp add: handleLeaveMessage_def member_liveness split: option.split)
  moreover have "gs_liveness (handleHeartbeatMessage G msg ws auth st) = heartbeat_gate (Some ws) (gm_from msg) auth (ge_now G) (ge_now G) (gs_liveness st)" for auth
    by (simp add: handleHeartbeatMessage_def Let_def split: option.split)
  ultimately show ?thesis
    by (cases "gm_data msg") (simp_all add: dispatch_def join_liveness handleGossipDataMessage_def handleSyncMessage_def member_liveness fold_liveness)
qed

text \<open>What an event does to the ledger of a state: a heartbeat whose message id is still in the history is dropped, every other event counts.\<close>

fun hb_applied :: "gossip \<Rightarrow> gossip_env \<times> mesh_event \<Rightarrow> heartbeat_event list" where
  "hb_applied st (G, MsReceive ws msg) = (if gm_messageId msg \<in> fst ` set (gs_history st) then [] else hb_of (G, MsReceive ws msg))"
| "hb_applied st ev = hb_of ev"

fun mesh_hbs :: "('s, 'p) heartbeat_env \<Rightarrow> gossip_config \<Rightarrow> (gossip_env \<times> mesh_event) list \<Rightarrow> gossip \<Rightarrow> heartbeat_event list" where
  "mesh_hbs H cfg [] st = []"
| "mesh_hbs H cfg (ev # evs) st = hb_applied st ev @ mesh_hbs H cfg evs (mesh_step H cfg ev st)"

lemma receive_liveness:
  "gs_liveness (handleGossipMessage cfg G ws msg st) = fold (hb_step H) (hb_applied st (G, MsReceive ws msg)) (gs_liveness st)"
proof -
  have "gs_liveness (propagateMessage cfg G msg ws s) = gs_liveness s" for s by (simp add: propagateMessage_def Let_def fold_liveness split: option.split)
  then show ?thesis by (simp add: handleGossipMessage_def Let_def dispatch_liveness [of _ _ _ _ _ H] cleanupMessageHistory_def map_stats_def del: hb_of.simps)
qed

lemma step_liveness: "gs_liveness (mesh_step H cfg ev st) = fold (hb_step H) (hb_applied st ev) (gs_liveness st)"
proof -
  obtain G e where ev: "ev = (G, e)" by (cases ev)
  have data: "gs_liveness (gossipRandomData cfg G ws s) = gs_liveness s" for ws s
    by (simp add: gossipRandomData_def own_message_def sendMessage_def count_sent_def map_stats_def Let_def case_prod_beta)
  have "gs_liveness (fold (\<lambda>(_, ws). gossipRandomData cfg G ws) ts s) = gs_liveness s" for s and ts :: "(string \<times> nat) list"
    by (rule fold_frame) (simp add: data case_prod_beta)
  then have round: "gs_liveness (performGossipRound cfg G st) = gs_liveness st"
    by (simp add: performGossipRound_def map_stats_def Let_def)
  have "gs_liveness (remove_peer i s) = gs_liveness s" for i s by (simp add: remove_peer_def Let_def member_liveness split: option.split)
  then have "gs_liveness (fold remove_peer is s) = gs_liveness s" for "is" s by (rule fold_frame)
  then have clean: "gs_liveness (cleanupInactivePeers cfg G st) = gs_liveness st" by (simp add: cleanupInactivePeers_def Let_def member_liveness)
  have load: "gs_liveness (loadKnownPeers G peersFile st) = gs_liveness st" for peersFile
    by (auto simp: loadKnownPeers_def fold_frame [where f = gs_liveness] case_prod_beta split: option.split)
  have dial: "gs_liveness (run_scheduled G st) = gs_liveness st"
    by (simp add: run_scheduled_def connectToPeer_def split: list.split sum.split)
  show ?thesis
  proof (cases e)
    case (MsReceive ws msg)
    then show ?thesis using receive_liveness [of cfg G ws msg st H] by (simp add: ev)
  qed (simp_all add: ev round clean load dial checkPeerHealth_def cleanupMessageHistory_def attemptReconnections_def connectToKnownPeers_def
      connectToBootstrapPeers_def connection_open_def sendJoinMessage_def joinNetwork_def leaveNetwork_def sendHeartbeat_def cleanupConnection_def dialed_closed_def setData_def
      accept_connection_def Let_def member_liveness fold_liveness own_liveness)
qed

lemma run_liveness: "gs_liveness (fold (mesh_step H cfg) evs st) = fold (hb_step H) (mesh_hbs H cfg evs st) (gs_liveness st)"
  by (induction evs arbitrary: st) (simp_all add: step_liveness del: mesh_step.simps hb_applied.simps)

text \<open>C40: the ledger theorems hold inside the running service. Whatever joins, leaves, data, rounds, timers, reconnections and connection events a run of the mesh has, its liveness ledger is exactly that of the run of the ledger
  alone on its heartbeats, verifications, audit-set pushes and disconnects, in their order, each of them applied but a heartbeat whose message id is in the history when it arrives.\<close>

theorem mesh_ledger_is_heartbeat_run:
  "gs_liveness (fold (mesh_step H cfg) evs gossip_new) = hb_run H (mesh_hbs H cfg evs gossip_new)"
  by (simp add: run_liveness hb_run_def gossip_new_def)

section \<open>Announced endpoints\<close>

lemma member_timers:
  "gs_scheduled (updateStats s) = gs_scheduled s" "gs_unhandled (updateStats s) = gs_unhandled s" "gs_scheduled (forward m t s) = gs_scheduled s" "gs_unhandled (forward m t s) = gs_unhandled s"
  by (simp_all add: updateStats_def map_stats_def forward_def sendMessage_def count_sent_def Let_def case_prod_beta)

lemma propagate_timers:
  "gs_scheduled (propagateMessage cfg G msg ws st) = gs_scheduled st" "gs_unhandled (propagateMessage cfg G msg ws st) = gs_unhandled st"
  by (simp_all add: propagateMessage_def Let_def fold_frame [where f = gs_scheduled] fold_frame [where f = gs_unhandled] member_timers split: option.split)

lemma announcement_schedules:
  assumes "gm_data msg = PeerAnnouncement info" "gm_from msg \<noteq> ge_nodeId G" "gm_messageId msg \<notin> fst ` set (gs_history st)"
    and "pc_id info \<noteq> ge_nodeId G" "pc_id info \<notin> fst ` set (gs_peers st)" "pc_gossipEndpoint info = Some e" "e \<noteq> []" "e \<noteq> gc_endpoint cfg"
  shows "gs_scheduled (handleGossipMessage cfg G ws msg st) = gs_scheduled st @ [e] \<and> gs_unhandled (handleGossipMessage cfg G ws msg st) = gs_unhandled st"
proof -
  have "gs_scheduled (dispatch cfg G msg ws s) = gs_scheduled s @ [e] \<and> gs_unhandled (dispatch cfg G msg ws s) = gs_unhandled s" if "gs_peers s = gs_peers st" for s
    using assms that by (simp add: dispatch_def handleJoinMessage_def handlePeerAnnouncementMessage_def discover_peer_def schedule_connect_def truthy_text_def member_timers Let_def)
  then show ?thesis using assms(3) by (simp add: handleGossipMessage_def Let_def propagate_timers cleanupMessageHistory_def map_stats_def)
qed

text \<open>An announced endpoint is only checked when the timer dials it, and nothing handles the refusal. A join message from any connected peer that announces an unknown peer with an endpoint that is not a WebSocket URL
  leaves one rejected promise without a handler as soon as its timer runs, which ends a Node.js process.\<close>

theorem announced_endpoint_rejects_unhandled:
  assumes "gm_data msg = PeerAnnouncement info" "gm_from msg \<noteq> ge_nodeId G" "gm_messageId msg \<notin> fst ` set (gs_history st)"
    and "pc_id info \<noteq> ge_nodeId G" "pc_id info \<notin> fst ` set (gs_peers st)" "pc_gossipEndpoint info = Some e" "e \<noteq> []" "e \<noteq> gc_endpoint cfg"
    and "gs_scheduled st = []" "validateEndpoint G' e = Inl err"
  shows "gs_unhandled (run_scheduled G' (handleGossipMessage cfg G ws msg st)) = Suc (gs_unhandled st)"
  using announcement_schedules [OF assms(1-8), of ws] assms(9,10) by (simp add: run_scheduled_def connectToPeer_def)

section \<open>Concrete instances\<close>

definition example_claim :: peer_claim where
  "example_claim = \<lparr>pc_id = ''n1'', pc_publicKey = None, pc_apiEndpoint = None, pc_gossipEndpoint = Some ''ws://a@n1/ws'', pc_region = None, pc_capabilities = None, pc_version = None\<rparr>"

definition example_parse :: "string \<Rightarrow> url option" where
  "example_parse u = (if u = ''ws://a@n1/ws'' then Some \<lparr>ur_protocol = ''ws:'', ur_username = ''a'', ur_password = [], ur_host = ''n1'', ur_pathname = ''/ws'', ur_search = [], ur_hash = []\<rparr> else None)"

definition example_print :: "url \<Rightarrow> string" where
  "example_print u = ur_protocol u @ ''//'' @ ur_username u @ ur_host u @ ur_pathname u @ ur_search u @ ur_hash u"

definition example_mesh_env :: gossip_env where
  "example_mesh_env = \<lparr>ge_now = 1000, ge_nodeId = ''me'', ge_nodeInfo = example_claim, ge_uuid = (\<lambda>n. replicate n CHR ''u''), ge_shuffle = (\<lambda>xs. xs), ge_pick = (\<lambda>n. n), ge_parseUrl = example_parse, ge_urlString = example_print\<rparr>"

definition example_mesh_config :: gossip_config where
  "example_mesh_config = \<lparr>gc_fanout = 2, gc_maxTTL = 3, gc_suspicionTimeout = 100, gc_cleanupTimeout = 500, gc_maxMessageHistory = 10, gc_endpoint = ''ws://me/ws'', gc_bootstrapPeers = []\<rparr>"

definition example_gossip :: "string \<Rightarrow> payload \<Rightarrow> gossip_message" where
  "example_gossip i d = \<lparr>gm_from = ''n1'', gm_data = d, gm_timestamp = 900, gm_ttl = 2, gm_messageId = i, gm_version = 1\<rparr>"

definition example_entry :: "string \<Rightarrow> rat \<Rightarrow> data_entry" where
  "example_entry val v = \<lparr>de_value = val, de_version = v, de_timestamp = 900\<rparr>"

lemmas example_mesh = example_mesh_env_def example_mesh_config_def example_gossip_def example_entry_def gossip_new_def

text \<open>The second node gets the update to \<open>new\<close> first, from a peer that gossips it again at a later time, under another id and with its own clock, and twice.\<close>

theorem gossip_data_converges_witness:
  "getData (receive_all example_mesh_config
       [(example_mesh_env, 1, example_gossip ''a'' (GossipData ''k'' ''old'' 1)), (example_mesh_env, 1, example_gossip ''b'' (Sync [(''k'', example_entry ''new'' 2)]))] gossip_new) ''k''
   = getData (receive_all (example_mesh_config\<lparr>gc_fanout := 0\<rparr>)
       [(example_mesh_env, 7, example_gossip ''c'' (GossipData ''k'' ''new'' 2)\<lparr>gm_timestamp := 950\<rparr>), (example_mesh_env, 8, example_gossip ''a'' (GossipData ''k'' ''old'' 1)),
        (example_mesh_env, 7, example_gossip ''d'' (GossipData ''k'' ''new'' 2)\<lparr>gm_timestamp := 970\<rparr>)] gossip_new) ''k''"
  by (rule gossip_data_converges)
    (auto simp: fresh_ids_def ids_of_def delivered_updates_def updates_def content_def versions_agree_def example_mesh)

definition example_mesh_state :: gossip where
  "example_mesh_state = gossip_new\<lparr>gs_connections := [(''x'', 1), (''y'', 2), (''z'', 3)], gs_open := [1, 2, 3]\<rparr>"

theorem flooding_is_bounded_witness:
  "\<exists>targets own. gs_sent (handleGossipMessage example_mesh_config example_mesh_env 1 (example_gossip ''a'' Leave) example_mesh_state)
      = map (\<lambda>w. (w, (example_gossip ''a'' Leave)\<lparr>gm_ttl := 1\<rparr>)) targets @ own \<and> length targets \<le> 2 \<and> 1 \<notin> set targets \<and> set targets \<subseteq> {1, 2, 3}"
proof -
  have "shuffles example_mesh_env" "0 \<le> gc_fanout example_mesh_config" by (simp_all add: shuffles_def example_mesh)
  from flooding_is_bounded [OF this, of 1 "example_gossip ''a'' Leave" example_mesh_state]
  show ?thesis by (auto simp: example_mesh_state_def example_mesh)
qed

definition example_peer :: "int \<Rightarrow> peer_info" where
  "example_peer seen = \<lparr>pr_publicKey = None, pr_apiEndpoint = None, pr_gossipEndpoint = Some ''ws://n1/ws'', pr_status = PeerActive, pr_lastSeen = seen, pr_region = None,
     pr_capabilities = None, pr_version = None, pr_heartbeatCount = 0\<rparr>"

theorem failure_detection_exact_witness:
  "map_of (gs_peers (cleanupInactivePeers example_mesh_config example_mesh_env (checkPeerHealth example_mesh_config example_mesh_env
     (gossip_new\<lparr>gs_peers := [(''n1'', example_peer 950), (''n2'', example_peer 800), (''n3'', example_peer 100)]\<rparr>)))) ''n2''
   = Some (example_peer 800\<lparr>pr_status := PeerSuspected\<rparr>)"
  by (subst failure_detection_exact) (simp_all add: example_mesh example_peer_def)

theorem mesh_stays_sane_witness:
  "mesh_inv ''me'' (example_parse, example_print) (fold (mesh_step demo_heartbeat_env example_mesh_config)
     [(example_mesh_env, MsReceive 1 (example_gossip ''a'' (JoinInfo example_claim))), (example_mesh_env, MsDial),
      (example_mesh_env, MsReceive 1 (example_gossip ''b'' (PeerAnnouncement (example_claim\<lparr>pc_id := ''me''\<rparr>))))] gossip_new)"
  by (rule mesh_stays_sane) (simp add: own_world_def example_mesh_env_def)

theorem announced_endpoint_rejects_unhandled_witness:
  "gs_unhandled (run_scheduled example_mesh_env (handleGossipMessage example_mesh_config example_mesh_env 1
     (example_gossip ''a'' (PeerAnnouncement (example_claim\<lparr>pc_gossipEndpoint := Some ''http://x''\<rparr>))) gossip_new)) = 1"
  by (subst announced_endpoint_rejects_unhandled [where info = "example_claim\<lparr>pc_gossipEndpoint := Some ''http://x''\<rparr>" and e = "''http://x''" and err = BadRequest])
    (simp_all add: example_mesh example_claim_def validateEndpoint_def example_parse_def trim_def)

end
