(* ===== verification/Price_Keeper.thy ===== *)
theory Price_Keeper
  imports Relay
begin

text \<open>
  \<^verbatim>\<open>src/modules/keeper/keeper.service.ts\<close>: the keeper that refreshes the cached prices of the paymasters, and the calls of \<^verbatim>\<open>blockchain.service.ts\<close> it makes
  (\<^verbatim>\<open>getBaseFeeGwei\<close>, \<^verbatim>\<open>getPriceInfo\<close>, \<^verbatim>\<open>getChainlinkUpdatedAt\<close>, \<^verbatim>\<open>canUpdatePrice\<close>, \<^verbatim>\<open>updatePrice\<close>).

  A tick is split at its awaits: \<open>price_tick\<close> is the await it waits at, with the paymaster at hand, the rest of the loop and the time of the tick, and \<open>tick_step\<close> runs it to the next one. The running
  ticks are the list \<open>kp_running\<close>; the interval timer starts a tick whether or not earlier ones have ended, so ticks interleave. \<open>price_chain\<close> is the world at one await. \<open>kp_log\<close> lists the broadcast
  updates with the day of the counter, \<open>kp_failures\<close> the failed ones, for which the operator is alerted. The self-check of the alert path only logs and is left out.

  Main results: a tick that runs alone ends, and it updates exactly the paymasters that are due up to the first unreadable one and the cap, with the chain changing between its awaits; with at most \<open>n\<close> overlapping ticks the daily cap is exceeded by less than \<open>n\<close>, and
  two overlapping ticks do exceed it; one paymaster that cannot be read keeps all later ones stale.
\<close>

section \<open>Definitions\<close>

record price_settings =
  keeperEnabled :: "bool option"
  keeperIntervalMs :: "int option"
  keeperRefreshBufferS :: "string option"
  keeperMaxUpdatesPerDay :: "jsnum option"
  keeperMaxBaseFeeGwei :: "string option"
  keeperPaymasterAddress :: "string option"
  keeperChainlinkFeed :: "string option"

record price_config =
  pk_enabled :: bool
  pk_intervalMs :: int
  pk_refreshBufferS :: int
  pk_maxUpdatesPerDay :: jsnum
  pk_maxBaseFeeGwei :: int
  pk_paymasterAddresses :: "string list"
  pk_chainlinkFeed :: string

datatype price_tick =
    AwaitBaseFee
  | AwaitPriceInfo string "string list" int
  | AwaitFeed string "string list" int int
  | AwaitSimulation string "string list" int
  | AwaitUpdate string "string list" int

record price_keeper =
  kp_startupTimer :: "int option"
  kp_timer :: bool
  kp_updatesToday :: nat
  kp_lastDayNumber :: int
  kp_running :: "price_tick list"
  kp_log :: "(int \<times> string) list"
  kp_failures :: "string list"

record price_chain =
  po_clock :: int
  po_latestBlock :: "int option option result"
  po_cachedPrice :: "string \<Rightarrow> (int \<times> int) result"
  po_priceStalenessThreshold :: "string \<Rightarrow> int result"
  po_latestRoundData :: "string \<Rightarrow> (int \<times> int \<times> int \<times> int \<times> int) result"
  po_simulateUpdate :: "string \<Rightarrow> unit result"
  po_keeperSigner :: bool
  po_feeData :: "(int option \<times> int option) result"
  po_broadcastUpdate :: "string \<Rightarrow> int \<times> int \<Rightarrow> string result"

subsection \<open>The chain calls\<close>

definition getBaseFeeGwei :: "price_chain \<Rightarrow> int result" where
  "getBaseFeeGwei P = rbind (po_latestBlock P) (\<lambda>block. Inr (nullish (Option.bind block id) 0 div 1000000000))"

definition getPriceInfo :: "price_chain \<Rightarrow> string \<Rightarrow> (int \<times> int) result" where
  "getPriceInfo P paymaster =
     rbind (po_cachedPrice P paymaster) (\<lambda>(_, updatedAt). rbind (po_priceStalenessThreshold P paymaster) (\<lambda>threshold. Inr (updatedAt, threshold)))"

definition getChainlinkUpdatedAt :: "price_chain \<Rightarrow> string \<Rightarrow> int result" where
  "getChainlinkUpdatedAt P feed = rbind (po_latestRoundData P feed) (\<lambda>(_, _, _, updatedAt, _). Inr updatedAt)"

definition canUpdatePrice :: "price_chain \<Rightarrow> string \<Rightarrow> bool" where
  "canUpdatePrice P paymaster = is_ok (po_simulateUpdate P paymaster)"

definition updatePrice :: "price_chain \<Rightarrow> string \<Rightarrow> string result" where
  "updatePrice P paymaster =
     rbind (guard_throw (\<not> po_keeperSigner P) (External ''Keeper: no wallet configured'')) (\<lambda>_.
     rbind (bumpedFees (po_feeData P) 15 1500000000) (\<lambda>fees. po_broadcastUpdate P paymaster fees))"

subsection \<open>Configuration and timers\<close>

text \<open>\<^verbatim>\<open>s.split(",")\<close>\<close>

fun split_comma :: "string \<Rightarrow> string list" where
  "split_comma [] = [[]]"
| "split_comma (c # cs) = (if c = CHR '','' then [] # split_comma cs else (case split_comma cs of [] \<Rightarrow> [[c]] | p # ps \<Rightarrow> (c # p) # ps))"

definition KeeperService_config :: "price_settings \<Rightarrow> price_config result" where
  "KeeperService_config s =
     rbind (js_BigInt (nullish (keeperRefreshBufferS s) ''300'')) (\<lambda>refreshBufferS.
     rbind (js_BigInt (nullish (keeperMaxBaseFeeGwei s) ''50'')) (\<lambda>maxBaseFeeGwei.
     Inr \<lparr>pk_enabled = (keeperEnabled s = Some True), pk_intervalMs = nullish (keeperIntervalMs s) 60000, pk_refreshBufferS = refreshBufferS,
          pk_maxUpdatesPerDay = nullish (keeperMaxUpdatesPerDay s) (js_of_int 48), pk_maxBaseFeeGwei = maxBaseFeeGwei,
          pk_paymasterAddresses = filter (\<lambda>a. a \<noteq> []) (map trim (split_comma (nullish (keeperPaymasterAddress s) []))),
          pk_chainlinkFeed = nullish (keeperChainlinkFeed s) []\<rparr>))"

definition KeeperService_new :: price_keeper where
  "KeeperService_new = \<lparr>kp_startupTimer = None, kp_timer = False, kp_updatesToday = 0, kp_lastDayNumber = 0, kp_running = [], kp_log = [], kp_failures = []\<rparr>"

definition todayNumber :: "int \<Rightarrow> int" where
  "todayNumber clock = clock div 86400000"

definition computeJitterMs :: "price_config \<Rightarrow> rat \<Rightarrow> int" where
  "computeJitterMs cfg random = \<lfloor>random * of_int (pk_intervalMs cfg)\<rfloor>"

definition price_onApplicationBootstrap :: "price_config \<Rightarrow> int \<Rightarrow> rat \<Rightarrow> price_keeper \<Rightarrow> price_keeper" where
  "price_onApplicationBootstrap cfg clock random st =
     (if \<not> pk_enabled cfg then st
      else if pk_paymasterAddresses cfg = [] then st
      else st\<lparr>kp_lastDayNumber := todayNumber clock, kp_startupTimer := Some (computeJitterMs cfg random)\<rparr>)"

definition price_onApplicationShutdown :: "price_keeper \<Rightarrow> price_keeper" where
  "price_onApplicationShutdown st = st\<lparr>kp_startupTimer := None, kp_timer := False\<rparr>"

subsection \<open>Ticks\<close>

text \<open>\<^verbatim>\<open>this.updatesToday >= this.maxUpdatesPerDay\<close>\<close>

definition cap_reached :: "price_config \<Rightarrow> price_keeper \<Rightarrow> bool" where
  "cap_reached cfg st = (pk_maxUpdatesPerDay cfg \<noteq> JNaN \<and> \<not> js_less (js_of_int (int (kp_updatesToday st))) (pk_maxUpdatesPerDay cfg))"

text \<open>\<^verbatim>\<open>tick\<close> up to its first await.\<close>

definition tick_begin :: "price_config \<Rightarrow> int \<Rightarrow> price_keeper \<Rightarrow> price_keeper" where
  "tick_begin cfg clock st =
     (let today = todayNumber clock;
          st1 = (if today \<noteq> kp_lastDayNumber st then st\<lparr>kp_updatesToday := 0, kp_lastDayNumber := today\<rparr> else st)
      in if cap_reached cfg st1 then st1 else st1\<lparr>kp_running := kp_running st1 @ [AwaitBaseFee]\<rparr>)"

text \<open>The head of the loop over the paymasters.\<close>

definition next_paymaster :: "price_config \<Rightarrow> int \<Rightarrow> string list \<Rightarrow> price_keeper \<Rightarrow> price_tick option" where
  "next_paymaster cfg nowS addrs st =
     (case addrs of [] \<Rightarrow> None | addr # rest \<Rightarrow> if cap_reached cfg st then None else Some (AwaitPriceInfo addr rest nowS))"

fun tick_step :: "price_config \<Rightarrow> price_chain \<Rightarrow> price_tick \<Rightarrow> price_keeper \<Rightarrow> price_tick option \<times> price_keeper" where
  "tick_step cfg P AwaitBaseFee st =
     (case getBaseFeeGwei P of Inl _ \<Rightarrow> (None, st)
      | Inr baseFeeGwei \<Rightarrow> if baseFeeGwei > pk_maxBaseFeeGwei cfg then (None, st)
          else (next_paymaster cfg (po_clock P div 1000) (pk_paymasterAddresses cfg) st, st))"
| "tick_step cfg P (AwaitPriceInfo paymaster rest nowS) st =
     (case getPriceInfo P paymaster of Inl _ \<Rightarrow> (None, st)
      | Inr (updatedAt, threshold) \<Rightarrow>
          if threshold - (nowS - updatedAt) > pk_refreshBufferS cfg then (next_paymaster cfg nowS rest st, st)
          else (Some (AwaitFeed paymaster rest nowS updatedAt), st))"
| "tick_step cfg P (AwaitFeed paymaster rest nowS updatedAt) st =
     (case getChainlinkUpdatedAt P (pk_chainlinkFeed cfg) of Inl _ \<Rightarrow> (None, st)
      | Inr chainlinkUpdatedAt \<Rightarrow>
          if chainlinkUpdatedAt \<le> updatedAt then (next_paymaster cfg nowS rest st, st)
          else (Some (AwaitSimulation paymaster rest nowS), st))"
| "tick_step cfg P (AwaitSimulation paymaster rest nowS) st =
     (if \<not> canUpdatePrice P paymaster then (next_paymaster cfg nowS rest st, st) else (Some (AwaitUpdate paymaster rest nowS), st))"
| "tick_step cfg P (AwaitUpdate paymaster rest nowS) st =
     (let st1 = (case updatePrice P paymaster of
            Inl _ \<Rightarrow> st\<lparr>kp_failures := paymaster # kp_failures st\<rparr>
          | Inr _ \<Rightarrow> st\<lparr>kp_updatesToday := Suc (kp_updatesToday st), kp_log := (kp_lastDayNumber st, paymaster) # kp_log st\<rparr>)
      in (next_paymaster cfg nowS rest st1, st1))"

subsection \<open>Interleaved runs\<close>

datatype price_event =
    PeStartup int
  | PeInterval int
  | PeResume nat price_chain
  | PeShutdown

definition price_resume :: "price_config \<Rightarrow> nat \<Rightarrow> price_chain \<Rightarrow> price_keeper \<Rightarrow> price_keeper" where
  "price_resume cfg i P st =
     (if i < length (kp_running st) then
        (case tick_step cfg P (kp_running st ! i) st of
           (None, st') \<Rightarrow> st'\<lparr>kp_running := take i (kp_running st) @ drop (Suc i) (kp_running st)\<rparr>
         | (Some t, st') \<Rightarrow> st'\<lparr>kp_running := (kp_running st)[i := t]\<rparr>)
      else st)"

fun price_step :: "price_config \<Rightarrow> price_event \<Rightarrow> price_keeper \<Rightarrow> price_keeper" where
  "price_step cfg (PeStartup clock) st = (if kp_startupTimer st = None then st else (tick_begin cfg clock (st\<lparr>kp_startupTimer := None\<rparr>))\<lparr>kp_timer := True\<rparr>)"
| "price_step cfg (PeInterval clock) st = (if kp_timer st then tick_begin cfg clock st else st)"
| "price_step cfg (PeResume i P) st = price_resume cfg i P st"
| "price_step cfg PeShutdown st = price_onApplicationShutdown st"

section \<open>A tick on its own\<close>

fun tick_size :: "price_config \<Rightarrow> price_tick \<Rightarrow> nat" where
  "tick_size cfg AwaitBaseFee = Suc (4 * length (pk_paymasterAddresses cfg))"
| "tick_size cfg (AwaitPriceInfo _ rest _) = 4 * length rest + 4"
| "tick_size cfg (AwaitFeed _ rest _ _) = 4 * length rest + 3"
| "tick_size cfg (AwaitSimulation _ rest _) = 4 * length rest + 2"
| "tick_size cfg (AwaitUpdate _ rest _) = 4 * length rest + 1"

lemma next_size: "next_paymaster cfg nowS addrs st = Some t \<Longrightarrow> tick_size cfg t \<le> 4 * length addrs"
  by (auto simp: next_paymaster_def split: list.splits if_splits)

lemma tick_step_size: "tick_step cfg P t st = (Some t', st') \<Longrightarrow> tick_size cfg t' < tick_size cfg t"
  by (cases t) (auto simp: Let_def split: sum.splits if_splits dest!: next_size)

text \<open>
  Each await of a tick reads the chain anew. \<open>W t\<close> is the world in which the tick is resumed from the await \<open>t\<close>: no await occurs twice in a tick, for the rest of the loop in it only gets shorter,
  so \<open>W\<close> ranges over all ways the chain can change during the tick.
\<close>

type_synonym price_worlds = "price_tick \<Rightarrow> price_chain"

definition resume_in :: "price_config \<Rightarrow> price_worlds \<Rightarrow> nat \<Rightarrow> price_keeper \<Rightarrow> price_keeper" where
  "resume_in cfg W i st = price_resume cfg i (W (kp_running st ! i)) st"

function run_tick :: "price_config \<Rightarrow> price_worlds \<Rightarrow> price_tick \<Rightarrow> price_keeper \<Rightarrow> price_keeper" where
  "run_tick cfg W t st = (case tick_step cfg (W t) t st of (None, st') \<Rightarrow> st' | (Some t', st') \<Rightarrow> run_tick cfg W t' st')"
  by pat_completeness auto
termination
  by (relation "measure (\<lambda>(cfg, W, t, st). tick_size cfg t)") (simp, metis in_measure prod.simps(2) tick_step_size)

declare run_tick.simps [simp del]

definition run_next :: "price_config \<Rightarrow> price_worlds \<Rightarrow> int \<Rightarrow> string list \<Rightarrow> price_keeper \<Rightarrow> price_keeper" where
  "run_next cfg W nowS addrs st = (case next_paymaster cfg nowS addrs st of None \<Rightarrow> st | Some t \<Rightarrow> run_tick cfg W t st)"

text \<open>The specification of one paymaster, with the rest of the list behind it: it can be read, it is due, its update is broadcast. Each reads the world of its own await.\<close>

fun visits :: "string list \<Rightarrow> (string \<times> string list) list" where
  "visits [] = []"
| "visits (a # rest) = (a, rest) # visits rest"

fun readable :: "price_config \<Rightarrow> price_worlds \<Rightarrow> int \<Rightarrow> string \<times> string list \<Rightarrow> bool" where
  "readable cfg W nowS (a, rest) = (case getPriceInfo (W (AwaitPriceInfo a rest nowS)) a of Inl _ \<Rightarrow> False
     | Inr (updatedAt, threshold) \<Rightarrow>
         threshold - (nowS - updatedAt) > pk_refreshBufferS cfg \<or> is_ok (getChainlinkUpdatedAt (W (AwaitFeed a rest nowS updatedAt)) (pk_chainlinkFeed cfg)))"

fun due :: "price_config \<Rightarrow> price_worlds \<Rightarrow> int \<Rightarrow> string \<times> string list \<Rightarrow> bool" where
  "due cfg W nowS (a, rest) = (case getPriceInfo (W (AwaitPriceInfo a rest nowS)) a of Inl _ \<Rightarrow> False
     | Inr (updatedAt, threshold) \<Rightarrow> threshold - (nowS - updatedAt) \<le> pk_refreshBufferS cfg
         \<and> (case getChainlinkUpdatedAt (W (AwaitFeed a rest nowS updatedAt)) (pk_chainlinkFeed cfg) of Inl _ \<Rightarrow> False | Inr chainlinkUpdatedAt \<Rightarrow> updatedAt < chainlinkUpdatedAt)
         \<and> canUpdatePrice (W (AwaitSimulation a rest nowS)) a)"

fun broadcast_ok :: "price_worlds \<Rightarrow> int \<Rightarrow> string \<times> string list \<Rightarrow> bool" where
  "broadcast_ok W nowS (a, rest) = is_ok (updatePrice (W (AwaitUpdate a rest nowS)) a)"

definition refreshed :: "price_config \<Rightarrow> price_worlds \<Rightarrow> int \<Rightarrow> string list \<Rightarrow> nat \<Rightarrow> string list" where
  "refreshed cfg W nowS addrs n =
     map fst (take n (filter (\<lambda>v. due cfg W nowS v \<and> broadcast_ok W nowS v) (takeWhile (readable cfg W nowS) (visits addrs))))"

definition tick_refreshes :: "price_config \<Rightarrow> price_worlds \<Rightarrow> nat \<Rightarrow> string list" where
  "tick_refreshes cfg W n = (case getBaseFeeGwei (W AwaitBaseFee) of Inl _ \<Rightarrow> []
     | Inr baseFeeGwei \<Rightarrow> if baseFeeGwei > pk_maxBaseFeeGwei cfg then [] else refreshed cfg W (po_clock (W AwaitBaseFee) div 1000) (pk_paymasterAddresses cfg) n)"

definition updated :: "price_chain \<Rightarrow> string \<Rightarrow> price_keeper \<Rightarrow> price_keeper" where
  "updated P a st = (case updatePrice P a of
       Inl _ \<Rightarrow> st\<lparr>kp_failures := a # kp_failures st\<rparr>
     | Inr _ \<Rightarrow> st\<lparr>kp_updatesToday := Suc (kp_updatesToday st), kp_log := (kp_lastDayNumber st, a) # kp_log st\<rparr>)"

lemma run_paymaster:
  "run_tick cfg W (AwaitPriceInfo a rest nowS) st =
     (if \<not> readable cfg W nowS (a, rest) then st
      else run_next cfg W nowS rest (if due cfg W nowS (a, rest) then updated (W (AwaitUpdate a rest nowS)) a st else st))"
proof -
  let ?U = "W (AwaitUpdate a rest nowS)" and ?S = "W (AwaitSimulation a rest nowS)"
  have upd: "run_tick cfg W (AwaitUpdate a rest nowS) st = run_next cfg W nowS rest (updated ?U a st)"
    by (subst run_tick.simps) (simp add: run_next_def updated_def Let_def split: option.split)
  have sim: "run_tick cfg W (AwaitSimulation a rest nowS) st = run_next cfg W nowS rest (if canUpdatePrice ?S a then updated ?U a st else st)"
    by (subst run_tick.simps) (simp add: upd run_next_def split: option.split)
  have feed: "run_tick cfg W (AwaitFeed a rest nowS updatedAt) st = (case getChainlinkUpdatedAt (W (AwaitFeed a rest nowS updatedAt)) (pk_chainlinkFeed cfg) of Inl _ \<Rightarrow> st
      | Inr c \<Rightarrow> run_next cfg W nowS rest (if updatedAt < c \<and> canUpdatePrice ?S a then updated ?U a st else st))" for updatedAt
    by (subst run_tick.simps) (simp add: sim run_next_def split: option.split sum.split)
  show ?thesis
    by (subst run_tick.simps) (auto simp: feed run_next_def split: option.split sum.split)
qed

lemma loop_exact:
  assumes "pk_maxUpdatesPerDay cfg = js_of_int (int m)"
  shows "kp_log (run_next cfg W nowS addrs st) = rev (map (Pair (kp_lastDayNumber st)) (refreshed cfg W nowS addrs (m - kp_updatesToday st))) @ kp_log st"
proof (induction addrs arbitrary: st)
  case Nil
  show ?case by (simp add: run_next_def next_paymaster_def refreshed_def)
next
  case (Cons a addrs)
  let ?v = "(a, addrs)"
  have cap: "cap_reached cfg st \<longleftrightarrow> m \<le> kp_updatesToday st" by (simp add: cap_reached_def assms) (simp add: js_of_int_def not_less)
  define s where "s = (if due cfg W nowS ?v then updated (W (AwaitUpdate a addrs nowS)) a st else st)"
  show ?case
  proof (cases "cap_reached cfg st \<or> \<not> readable cfg W nowS ?v")
    case True
    then show ?thesis
      by (auto simp: run_next_def next_paymaster_def run_paymaster cap refreshed_def simp del: readable.simps due.simps)
  next
    case False
    then have run: "run_next cfg W nowS (a # addrs) st = run_next cfg W nowS addrs s"
      by (simp add: run_next_def next_paymaster_def run_paymaster s_def del: readable.simps due.simps)
    have less: "m - kp_updatesToday st = Suc (m - Suc (kp_updatesToday st))" using False cap by (metis Suc_diff_Suc not_le)
    show ?thesis
    proof (cases "due cfg W nowS ?v \<and> broadcast_ok W nowS ?v")
      case True
      then have "s = st\<lparr>kp_updatesToday := Suc (kp_updatesToday st), kp_log := (kp_lastDayNumber st, a) # kp_log st\<rparr>"
        by (auto simp: s_def updated_def is_ok_iff simp del: due.simps)
      then show ?thesis using True False unfolding run by (simp add: Cons less refreshed_def del: readable.simps due.simps broadcast_ok.simps)
    next
      case skip: False
      then have "kp_log s = kp_log st" "kp_updatesToday s = kp_updatesToday st" "kp_lastDayNumber s = kp_lastDayNumber st"
        by (auto simp: s_def updated_def split: sum.split simp del: due.simps)
      then show ?thesis using skip False unfolding run by (auto simp: Cons refreshed_def simp del: readable.simps due.simps broadcast_ok.simps)
    qed
  qed
qed

lemma tick_exact:
  assumes "pk_maxUpdatesPerDay cfg = js_of_int (int m)"
  shows "kp_log (run_tick cfg W AwaitBaseFee st) = rev (map (Pair (kp_lastDayNumber st)) (tick_refreshes cfg W (m - kp_updatesToday st))) @ kp_log st"
proof -
  have "run_tick cfg W AwaitBaseFee st = (case getBaseFeeGwei (W AwaitBaseFee) of Inl _ \<Rightarrow> st
      | Inr fee \<Rightarrow> if fee > pk_maxBaseFeeGwei cfg then st else run_next cfg W (po_clock (W AwaitBaseFee) div 1000) (pk_paymasterAddresses cfg) st)"
    by (subst run_tick.simps) (simp add: run_next_def split: option.split sum.split)
  then show ?thesis by (simp add: tick_refreshes_def loop_exact [OF assms] split: sum.split)
qed

text \<open>Resuming a tick runs it to its end.\<close>

lemma step_running: "tick_step cfg P t (st\<lparr>kp_running := r\<rparr>) = apsnd (\<lambda>s. s\<lparr>kp_running := r\<rparr>) (tick_step cfg P t st)"
  by (cases t) (simp_all add: Let_def next_paymaster_def cap_reached_def split: sum.split list.split)

lemma resume_to_end: "\<exists>k. (resume_in cfg W (length xs) ^^ k) (st\<lparr>kp_running := xs @ [t]\<rparr>) = (run_tick cfg W t st)\<lparr>kp_running := xs\<rparr>"
proof (induction cfg W t st rule: run_tick.induct)
  case (1 cfg W t st)
  let ?st = "st\<lparr>kp_running := xs @ [t]\<rparr>"
  have one: "resume_in cfg W (length xs) ?st = (case tick_step cfg (W t) t st of (None, s) \<Rightarrow> s\<lparr>kp_running := xs\<rparr> | (Some t', s) \<Rightarrow> s\<lparr>kp_running := xs @ [t']\<rparr>)"
    by (cases "tick_step cfg (W t) t st") (simp add: resume_in_def price_resume_def step_running split: option.split)
  show ?case
  proof (cases "tick_step cfg (W t) t st")
    case (Pair o1 s)
    show ?thesis
    proof (cases o1)
      case None
      then show ?thesis using one Pair by (intro exI [of _ 1]) (simp add: run_tick.simps [of cfg W t st])
    next
      case (Some t')
      with Pair obtain k where "(resume_in cfg W (length xs) ^^ k) (s\<lparr>kp_running := xs @ [t']\<rparr>) = (run_tick cfg W t' s)\<lparr>kp_running := xs\<rparr>"
        using "1" [OF Pair [symmetric]] by auto
      then show ?thesis using one Pair Some by (intro exI [of _ "Suc k"]) (simp add: run_tick.simps [of cfg W t st] funpow_swap1)
    qed
  qed
qed

text \<open>C23: a tick ends, and what it updates is exactly known, whatever the chain does between its awaits. When the cap of the day is a natural number and no other tick is resumed meanwhile, the tick refreshes, in the order of the list,
  the paymasters whose cached price is within the buffer of its staleness limit, for which the feed has a newer reading, and whose update simulates and is broadcast; each of these is read at its own await, in a world of
  its own. It stops at the daily cap and at the first paymaster whose price, or whose feed when it is needed, cannot be read: the rest of the list is not refreshed, although the comments of the code call the paymasters
  independent and the refresh unable to throw. A base fee that cannot be read or is above its limit, or a cap reached before the tick, leaves nothing refreshed.\<close>

theorem tick_refreshes_exactly_the_due:
  assumes "pk_maxUpdatesPerDay cfg = js_of_int (int m)"
  shows "\<exists>k. let st0 = tick_begin cfg clock st; st' = (resume_in cfg W (length (kp_running st)) ^^ k) st0
    in kp_running st' = kp_running st
     \<and> kp_log st' = rev (map (Pair (todayNumber clock)) (tick_refreshes cfg W (m - kp_updatesToday st0))) @ kp_log st"
proof -
  let ?st = "tick_begin cfg clock st" and ?xs = "kp_running st"
  have begin_st: "kp_lastDayNumber ?st = todayNumber clock" "kp_log ?st = kp_log st" by (simp_all add: tick_begin_def Let_def)
  show ?thesis
  proof (cases "kp_running ?st = ?xs")
    case True
    then have "m \<le> kp_updatesToday ?st" using assms by (auto simp: tick_begin_def Let_def cap_reached_def js_of_int_def split: if_splits)
    then have "tick_refreshes cfg W (m - kp_updatesToday ?st) = []" by (simp add: tick_refreshes_def refreshed_def split: sum.split)
    then show ?thesis using True begin_st by (intro exI [of _ 0]) (simp add: Let_def)
  next
    case False
    then have "kp_running ?st = ?xs @ [AwaitBaseFee]" by (auto simp: tick_begin_def Let_def split: if_splits)
    then have "?st\<lparr>kp_running := ?xs @ [AwaitBaseFee]\<rparr> = ?st" by (cases ?st) simp
    then obtain k where k: "(resume_in cfg W (length ?xs) ^^ k) ?st = (run_tick cfg W AwaitBaseFee ?st)\<lparr>kp_running := ?xs\<rparr>"
      using resume_to_end [where xs = ?xs and W = W and t = AwaitBaseFee and st = ?st and cfg = cfg] by auto
    then show ?thesis using tick_exact [OF assms, of W ?st] begin_st by (intro exI [of _ k]) (simp add: Let_def)
  qed
qed

text \<open>One paymaster that cannot be read keeps all later ones from being refreshed.\<close>

lemma unreadable_paymaster_starves_the_rest:
  assumes "getPriceInfo (W (AwaitPriceInfo bad rest nowS)) bad = Inl e"
  shows "run_tick cfg W (AwaitPriceInfo bad rest nowS) st = st"
  by (simp add: run_paymaster assms)

section \<open>The daily cap\<close>

fun overlap_at_most :: "price_config \<Rightarrow> nat \<Rightarrow> price_event list \<Rightarrow> price_keeper \<Rightarrow> bool" where
  "overlap_at_most cfg n [] st = (length (kp_running st) \<le> n)"
| "overlap_at_most cfg n (ev # evs) st = (length (kp_running st) \<le> n \<and> overlap_at_most cfg n evs (price_step cfg ev st))"

fun tick_time :: "price_event \<Rightarrow> int list" where
  "tick_time (PeStartup clock) = [clock]"
| "tick_time (PeInterval clock) = [clock]"
| "tick_time _ = []"

definition updates_on :: "int \<Rightarrow> price_keeper \<Rightarrow> nat" where
  "updates_on d st = length (filter (\<lambda>(day, _). day = d) (kp_log st))"

definition in_refresh :: "price_tick list \<Rightarrow> nat" where
  "in_refresh ts = length (filter (\<lambda>t. t \<noteq> AwaitBaseFee) ts)"

definition cap_inv :: "nat \<Rightarrow> nat \<Rightarrow> price_keeper \<Rightarrow> bool" where
  "cap_inv m n st \<longleftrightarrow> kp_updatesToday st + in_refresh (kp_running st) < m + n \<and> (\<forall>d. updates_on d st < m + n)
     \<and> updates_on (kp_lastDayNumber st) st = kp_updatesToday st \<and> (\<forall>d > kp_lastDayNumber st. updates_on d st = 0)"

lemma in_refresh_simps [simp]:
  "in_refresh [] = 0" "in_refresh (t # ts) = (if t = AwaitBaseFee then 0 else 1) + in_refresh ts" "in_refresh (ts @ us) = in_refresh ts + in_refresh us"
  by (simp_all add: in_refresh_def)

lemma in_refresh_le: "in_refresh ts \<le> length ts"
  by (simp add: in_refresh_def)

lemma begin_cap:
  assumes "cap_inv m n st" "kp_lastDayNumber st \<le> todayNumber clock"
  shows "cap_inv m n (tick_begin cfg clock st)"
  using assms by (auto simp: cap_inv_def tick_begin_def Let_def updates_on_def)

lemma next_capped:
  assumes "pk_maxUpdatesPerDay cfg = js_of_int (int m)" "\<not> kp_updatesToday st < m"
  shows "next_paymaster cfg nowS addrs st = None"
  using assms by (auto simp: next_paymaster_def cap_reached_def js_of_int_def split: list.splits)

text \<open>What one await changes: nothing, or one update is counted.\<close>

lemma step_effect:
  assumes "tick_step cfg P t st = (o1, st')" "pk_maxUpdatesPerDay cfg = js_of_int (int m)"
  shows "kp_lastDayNumber st' = kp_lastDayNumber st \<and> kp_running st' = kp_running st
    \<and> (kp_updatesToday st' = kp_updatesToday st \<and> kp_log st' = kp_log st
       \<or> t \<noteq> AwaitBaseFee \<and> kp_updatesToday st' = Suc (kp_updatesToday st) \<and> (\<exists>a. kp_log st' = (kp_lastDayNumber st, a) # kp_log st))
    \<and> (o1 = None \<or> t \<noteq> AwaitBaseFee \<and> kp_updatesToday st' = kp_updatesToday st \<or> kp_updatesToday st' < m)"
  using assms(1) next_capped [OF assms(2)]
  by (cases t) (auto simp: Let_def split: sum.splits if_splits)

lemma resume_cap:
  assumes "cap_inv m n st" "pk_maxUpdatesPerDay cfg = js_of_int (int m)" "length (kp_running st) \<le> n"
  shows "cap_inv m n (price_resume cfg i P st)"
proof (cases "i < length (kp_running st)")
  case True
  let ?a = "take i (kp_running st)" and ?b = "drop (Suc i) (kp_running st)" and ?t = "kp_running st ! i"
  have split: "kp_running st = ?a @ ?t # ?b" using id_take_nth_drop [OF True] .
  obtain o1 st' where step: "tick_step cfg P ?t st = (o1, st')" by (cases "tick_step cfg P ?t st")
  note eff = step_effect [OF step assms(2)]
  define r where "r = (case o1 of None \<Rightarrow> ?a @ ?b | Some t \<Rightarrow> ?a @ t # ?b)"
  have run: "price_resume cfg i P st = st'\<lparr>kp_running := r\<rparr>"
    using True by (simp add: price_resume_def step r_def upd_conv_take_nth_drop split: option.split)
  have parts: "in_refresh (kp_running st) = in_refresh ?a + ((if ?t = AwaitBaseFee then 0 else 1) + in_refresh ?b)"
    "length (kp_running st) = length ?a + Suc (length ?b)"
    using arg_cong [OF split, of in_refresh] arg_cong [OF split, of length] by (simp_all only: in_refresh_simps length_append list.size add_Suc_right add_0_right)
  have old: "kp_updatesToday st + (in_refresh ?a + ((if ?t = AwaitBaseFee then 0 else 1) + in_refresh ?b)) < m + n"
    using assms(1) unfolding cap_inv_def parts(1) by blast
  have len: "in_refresh ?a + in_refresh ?b + 1 \<le> n"
    using assms(3) parts(2) in_refresh_le [of ?a] in_refresh_le [of ?b] by linarith
  have sum: "kp_updatesToday st' + in_refresh r < m + n"
    using eff old len by (auto simp: r_def split: option.splits if_splits)
  have log: "updates_on d st' = (if d = kp_lastDayNumber st then kp_updatesToday st' else updates_on d st)" for d
    using eff assms(1) by (auto simp: cap_inv_def updates_on_def)
  have "updates_on d (st'\<lparr>kp_running := r\<rparr>) = updates_on d st'" for d by (simp add: updates_on_def)
  then show ?thesis using sum log eff assms(1) unfolding run by (auto simp: cap_inv_def)
qed (simp add: price_resume_def assms)

lemma shutdown_cap: "cap_inv m n (st\<lparr>kp_startupTimer := x, kp_timer := b\<rparr>) = cap_inv m n st" "cap_inv m n (st\<lparr>kp_timer := b\<rparr>) = cap_inv m n st"
  "cap_inv m n (st\<lparr>kp_startupTimer := x\<rparr>) = cap_inv m n st"
  by (simp_all add: cap_inv_def updates_on_def)

lemma step_day: "kp_lastDayNumber (price_step cfg ev st) = kp_lastDayNumber st \<or> (\<exists>clock. tick_time ev = [clock] \<and> kp_lastDayNumber (price_step cfg ev st) = todayNumber clock)"
proof (cases ev)
  case (PeResume i P)
  have "kp_lastDayNumber st' = kp_lastDayNumber st" if "tick_step cfg P t st = (o1, st')" for t o1 st'
    using that by (cases t) (auto simp: Let_def split: sum.splits if_splits)
  then show ?thesis by (auto simp: PeResume price_resume_def split: prod.split option.split)
qed (auto simp: tick_begin_def Let_def price_onApplicationShutdown_def)

lemma cap_run:
  assumes "cap_inv m n st" "pk_maxUpdatesPerDay cfg = js_of_int (int m)" "overlap_at_most cfg n evs st"
    and "sorted (concat (map tick_time evs))" "\<forall>t \<in> set (concat (map tick_time evs)). kp_lastDayNumber st \<le> todayNumber t"
  shows "cap_inv m n (fold (price_step cfg) evs st)"
  using assms(1,3,4,5)
proof (induction evs arbitrary: st)
  case (Cons ev evs)
  have "cap_inv m n (price_step cfg ev st)"
    using Cons.prems resume_cap [OF Cons.prems(1) assms(2)]
    by (cases ev) (auto simp: shutdown_cap price_onApplicationShutdown_def intro!: begin_cap)
  moreover have "todayNumber s \<le> todayNumber t" if "s \<le> t" for s t :: int using that by (simp add: todayNumber_def zdiv_mono1)
  then have "\<forall>t \<in> set (concat (map tick_time evs)). kp_lastDayNumber (price_step cfg ev st) \<le> todayNumber t"
    using Cons.prems(3,4) step_day [of cfg ev st] by (auto simp: sorted_append)
  ultimately show ?case using Cons.IH Cons.prems by (auto simp: sorted_append)
qed simp

text \<open>The daily cap. On a clock that does not run backwards and with at most \<open>n\<close> ticks at a time, the keeper broadcasts less than \<open>n\<close> updates more than the cap for every day of its counter; ticks that do not overlap keep the cap
  exactly.\<close>

theorem keeper_daily_cap:
  assumes "pk_maxUpdatesPerDay cfg = js_of_int (int m)" "0 < n" "overlap_at_most cfg n evs (price_onApplicationBootstrap cfg boot random KeeperService_new)"
    and "pk_enabled cfg" "pk_paymasterAddresses cfg \<noteq> []" "sorted (boot # concat (map tick_time evs))"
  shows "updates_on d (fold (price_step cfg) evs (price_onApplicationBootstrap cfg boot random KeeperService_new)) < m + n"
proof -
  let ?st = "price_onApplicationBootstrap cfg boot random KeeperService_new"
  have "cap_inv m n ?st" using assms(2,4,5) by (simp add: cap_inv_def price_onApplicationBootstrap_def KeeperService_new_def updates_on_def)
  moreover have "\<forall>t \<in> set (concat (map tick_time evs)). kp_lastDayNumber ?st \<le> todayNumber t"
    using assms(4-6) by (auto simp: price_onApplicationBootstrap_def todayNumber_def intro!: zdiv_mono1)
  ultimately have "cap_inv m n (fold (price_step cfg) evs ?st)" using cap_run assms(1,3,6) by simp
  then show ?thesis by (simp add: cap_inv_def)
qed

text \<open>A cap that is no number never stops an update, and after the shutdown no tick starts.\<close>

lemma nan_cap_is_no_cap: "pk_maxUpdatesPerDay cfg = JNaN \<Longrightarrow> \<not> cap_reached cfg st"
  by (simp add: cap_reached_def)

lemma shutdown_starts_no_tick:
  "price_step cfg (PeStartup t) (price_onApplicationShutdown st) = price_onApplicationShutdown st" "price_step cfg (PeInterval t) (price_onApplicationShutdown st) = price_onApplicationShutdown st"
  by (simp_all add: price_onApplicationShutdown_def)

lemma jitter_in_interval:
  assumes "0 \<le> random" "random < 1" "0 < pk_intervalMs cfg"
  shows "0 \<le> computeJitterMs cfg random \<and> computeJitterMs cfg random < pk_intervalMs cfg"
proof -
  have "random * of_int (pk_intervalMs cfg) < 1 * of_int (pk_intervalMs cfg)" using assms by (intro mult_strict_right_mono) simp_all
  then show ?thesis using assms by (simp add: computeJitterMs_def floor_less_iff)
qed

section \<open>Concrete keepers\<close>

definition price_demo_config :: price_config where
  "price_demo_config = \<lparr>pk_enabled = True, pk_intervalMs = 60000, pk_refreshBufferS = 300, pk_maxUpdatesPerDay = js_of_int (int 1), pk_maxBaseFeeGwei = 50,
     pk_paymasterAddresses = [''a'', ''b''], pk_chainlinkFeed = ''f''\<rparr>"

definition price_demo_chain :: price_chain where
  "price_demo_chain = \<lparr>po_clock = 5000000, po_latestBlock = Inr (Some (Some 2000000000)), po_cachedPrice = (\<lambda>_. Inr (1, 4000)), po_priceStalenessThreshold = (\<lambda>_. Inr 1200),
     po_latestRoundData = (\<lambda>_. Inr (1, 1, 4500, 4600, 1)), po_simulateUpdate = (\<lambda>_. Inr ()), po_keeperSigner = True, po_feeData = Inr (None, None), po_broadcastUpdate = (\<lambda>_ _. Inr ''0xhash'')\<rparr>"

lemmas price_demo = price_demo_config_def price_demo_chain_def getBaseFeeGwei_def getPriceInfo_def getChainlinkUpdatedAt_def canUpdatePrice_def updatePrice_def bumpedFees_def bump_def nullish_def
  next_paymaster_def cap_reached_def todayNumber_def tick_begin_def price_onApplicationBootstrap_def KeeperService_new_def price_resume_def js_of_int_def

text \<open>A world that changes during the tick: the price of the first paymaster is refreshed by another keeper before the simulation.\<close>

definition price_demo_worlds :: price_worlds where
  "price_demo_worlds t = (case t of AwaitSimulation a rest nowS \<Rightarrow> price_demo_chain\<lparr>po_simulateUpdate := (\<lambda>a. if a = ''a'' then Inl (External ''fresh'') else Inr ())\<rparr> | _ \<Rightarrow> price_demo_chain)"

theorem tick_refreshes_exactly_the_due_witness:
  "\<exists>k. kp_log ((resume_in price_demo_config price_demo_worlds 0 ^^ k) (tick_begin price_demo_config 5000000 KeeperService_new)) = [(0, ''b'')]"
proof -
  have "tick_refreshes price_demo_config price_demo_worlds (1 - kp_updatesToday (tick_begin price_demo_config 5000000 KeeperService_new)) = [''b'']" by code_simp
  moreover have "todayNumber 5000000 = 0" "kp_log KeeperService_new = []" "kp_running KeeperService_new = []" by (simp_all add: price_demo)
  moreover have "pk_maxUpdatesPerDay price_demo_config = js_of_int (int 1)" by (simp add: price_demo_config_def)
  ultimately show ?thesis
    using tick_refreshes_exactly_the_due [of price_demo_config 1 5000000 KeeperService_new price_demo_worlds] by (auto simp: Let_def)
qed

definition price_demo_run :: "price_event list" where
  "price_demo_run = [PeStartup 5000000] @ replicate 5 (PeResume 0 price_demo_chain) @ [PeInterval 5060000]"

theorem keeper_daily_cap_witness:
  "updates_on 0 (fold (price_step price_demo_config) price_demo_run (price_onApplicationBootstrap price_demo_config 5000000 0 KeeperService_new)) < 1 + 1"
proof (rule keeper_daily_cap)
  show "overlap_at_most price_demo_config 1 price_demo_run (price_onApplicationBootstrap price_demo_config 5000000 0 KeeperService_new)" by code_simp
  show "sorted (5000000 # concat (map tick_time price_demo_run))" by code_simp
qed (simp_all add: price_demo_config_def)

text \<open>A second tick that starts while an update of the first is still being broadcast makes a second update on a day with a cap of one.\<close>

theorem overlapping_ticks_exceed_the_cap:
  "updates_on 0 (fold (price_step price_demo_config)
     ([PeStartup 5000000] @ replicate 4 (PeResume 0 price_demo_chain) @ [PeInterval 5060000] @ replicate 4 (PeResume 1 price_demo_chain) @ [PeResume 0 price_demo_chain, PeResume 0 price_demo_chain])
     (price_onApplicationBootstrap price_demo_config 5000000 0 KeeperService_new)) = 2"
  by code_simp

end
