(* ===== verification/Spec2Isabelle.thy ===== *)
theory Spec2Isabelle
  imports Fraud_Assembler Quorum_Cosigner Liveness_Keeper Policy_Gate Relay Audit_Safety Cosign_Gate X402_Auth Node_Service Offline_Evidence Gossip_Mesh Price_Keeper
begin

text \<open>
  Verification of the YetAnotherAA validator node.
\<close>

end
